(* ===== verification/SNTP_Prelude.thy ===== *)
theory SNTP_Prelude
  imports Complex_Main "HOL-Library.Word" "HOL-Library.Log_Nat"
begin

text \<open>
  Shared vocabulary of the development: the C types the sources use, the two streams a
  program writes to, decimal formatting as \<^verbatim>\<open>printf\<close> does it, and the
  generic facts about lists, integer division and words that several components use.

  The target of the model is the one of the repository's Makefiles: gcc on Linux, x86-64
  (\<^verbatim>\<open>int\<close> has 32 bits, \<^verbatim>\<open>long\<close> and
  \<^verbatim>\<open>time_t\<close> have 64, \<^verbatim>\<open>char\<close> is signed).
  The byte order of the host stays a parameter (\<open>endian\<close>), because the wire format
  must not depend on it.
\<close>

section \<open>Collections of rewrite rules\<close>

named_theorems wire_simps \<open>byte order and packet layout\<close>
named_theorems dbl_simps \<open>evaluation of the double arithmetic\<close>
named_theorems env_simps \<open>effects of the calls into the operating system\<close>
named_theorems tree_simps \<open>the tree of configuration settings\<close>

section \<open>C types\<close>

type_synonym u8 = "8 word"
type_synonym u16 = "16 word"
type_synonym u32 = "32 word"
type_synonym byte = "8 word"

text \<open>
  A C \<^verbatim>\<open>int\<close> is kept as an \<open>int\<close>; where the source converts a wider value
  to \<^verbatim>\<open>int\<close> the reduction is written out.
\<close>

definition to_int32 :: "int \<Rightarrow> int" where
  "to_int32 x = (x + 2 ^ 31) mod 2 ^ 32 - 2 ^ 31"

lemma to_int32_id: "- (2 ^ 31) \<le> x \<Longrightarrow> x < 2 ^ 31 \<Longrightarrow> to_int32 x = x"
  by (simp add: to_int32_def)

lemma to_int32_range: "- (2 ^ 31) \<le> to_int32 x \<and> to_int32 x < 2 ^ 31"
  by (auto simp: to_int32_def)

section \<open>Output\<close>

datatype io_event = Stdout string | Stderr string

definition NL :: string where
  "NL = [char_of (10 :: nat)]"

section \<open>Decimal formatting\<close>

fun digits :: "nat \<Rightarrow> string" where
  "digits n = (if n < 10 then [char_of (48 + n)] else digits (n div 10) @ [char_of (48 + n mod 10)])"

declare digits.simps [simp del]

text \<open>The conversions \<^verbatim>\<open>%d\<close>, \<^verbatim>\<open>%i\<close> and \<^verbatim>\<open>%0<w>li\<close>.\<close>

definition fmt_d :: "int \<Rightarrow> string" where
  "fmt_d i = (if i < 0 then ''-'' else []) @ digits (nat \<bar>i\<bar>)"

definition fmt_0d :: "nat \<Rightarrow> int \<Rightarrow> string" where
  "fmt_0d w i = (let s = (if i < 0 then ''-'' else []); d = digits (nat \<bar>i\<bar>)
     in s @ replicate (w - (length s + length d)) CHR ''0'' @ d)"

lemma digits_nonempty [simp]: "digits n \<noteq> []"
  by (subst digits.simps) simp

lemma digits_less_10: "n < 10 \<Longrightarrow> digits n = [char_of (48 + n)]"
  by (subst digits.simps) simp

lemma length_digits_le: "n < 10 ^ Suc k \<Longrightarrow> length (digits n) \<le> Suc k"
proof (induction k arbitrary: n)
  case 0
  then show ?case by (simp add: digits_less_10)
next
  case (Suc k)
  then have "n div 10 < 10 ^ Suc k" by (simp add: less_mult_imp_div_less mult.commute)
  then have "length (digits (n div 10)) \<le> Suc k" by (rule Suc.IH)
  then show ?case by (subst digits.simps) simp
qed

lemma length_fmt_0d:
  assumes "0 \<le> i" "i < 10 ^ Suc k"
  shows "length (fmt_0d (Suc k) i) = Suc k"
proof -
  have "nat i < 10 ^ Suc k" using assms by (simp add: nat_less_iff)
  then have "length (digits (nat i)) \<le> Suc k" by (rule length_digits_le)
  then show ?thesis using assms by (simp add: fmt_0d_def Let_def)
qed

section \<open>Lists\<close>

lemma nth_append_snoc [simp]: "(xs @ [x]) ! length xs = x"
  by simp

lemma list_update_same_nth: "i < length xs \<Longrightarrow> xs[i := f (xs ! i)] ! i = f (xs ! i)"
  by simp

lemma distinct_map_filter_snoc:
  "distinct (map f xs) \<Longrightarrow> f x \<notin> f ` set xs \<Longrightarrow> distinct (map f (xs @ [x]))"
  by auto

section \<open>Distances\<close>

lemma abs_half_sum_less:
  fixes a b m p :: int
  shows "2 * \<bar>a - m\<bar> < p \<Longrightarrow> 2 * \<bar>b - m\<bar> \<le> p \<Longrightarrow> \<bar>b - a\<bar> < p"
  by (auto simp: abs_if split: if_splits)

lemma abs_diff_trans:
  fixes x y z a b :: real
  shows "\<bar>x - y\<bar> \<le> a \<Longrightarrow> \<bar>y - z\<bar> \<le> b \<Longrightarrow> \<bar>x - z\<bar> \<le> a + b"
  by linarith

lemma floor_near:
  fixes x y e :: real
  assumes "\<bar>x - (of_int q + y)\<bar> < e" "e \<le> y" "y \<le> 1 - e"
  shows "\<lfloor>x\<rfloor> = q"
  by (rule floor_unique) (use assms in linarith)+

section \<open>Integer division\<close>

lemma div_int_unique_bounds:
  fixes n d q :: int
  assumes "q * d \<le> n" "n < q * d + d"
  shows "n div d = q"
  by (rule int_div_pos_eq [of _ _ _ "n - q * d"]) (use assms in \<open>simp_all add: mult.commute\<close>)

lemma div_add_mod_bounds:
  fixes m q :: int
  assumes "0 < d"
  shows "m div d * d \<le> m" and "m < m div d * d + d"
proof -
  have e: "m = m div d * d + m mod d" by simp
  have "0 \<le> m mod d" "m mod d < d" using assms by simp_all
  then show "m div d * d \<le> m" and "m < m div d * d + d" using e by linarith+
qed

end
