(* ===== verification/C_Double.thy ===== *)
theory C_Double
  imports SNTP_Prelude
begin

text \<open>
  The \<^verbatim>\<open>double\<close> arithmetic of the sources. A finite double is kept as a dyadic
  number, an integer significand and a binary exponent; every operation computes the exact
  result and rounds it to 53 significant bits, ties to even, as IEEE 754 binary64 and SSE2
  code do. The programs only convert and combine times of day, so no operation comes near
  the overflow or the subnormal range and infinities, NaNs and signed zeros are not needed.

  The lemmas show that one rounding changes the value by at most \<open>2 powi - 53\<close> of its
  size, that a value of at most 53 bits is left alone, and the same for each operation.
\<close>

section \<open>Representation and rounding\<close>

datatype dbl = Dbl (mant: int) (expo: int)

definition dval :: "dbl \<Rightarrow> real" where
  "dval d = of_int (mant d) * 2 powi expo d"

text \<open>Round \<open>m / 2 ^ k\<close> to the nearest integer, ties to even.\<close>

definition rne_shift :: "nat \<Rightarrow> int \<Rightarrow> int" where
  "rne_shift k m = (let q = m div 2 ^ k; r = m mod 2 ^ k in
     if 2 * r < 2 ^ k then q
     else if 2 ^ k < 2 * r then q + 1
     else if even q then q else q + 1)"

definition sig_bits :: "int \<Rightarrow> nat" where
  "sig_bits m = floorlog 2 (nat \<bar>m\<bar>)"

definition round53 :: "dbl \<Rightarrow> dbl" where
  "round53 d = (let n = sig_bits (mant d) in
     if n \<le> 53 then d
     else Dbl (rne_shift (n - 53) (mant d)) (expo d + int (n - 53)))"

section \<open>Operations\<close>

definition dmul :: "dbl \<Rightarrow> dbl \<Rightarrow> dbl" where
  "dmul a b = round53 (Dbl (mant a * mant b) (expo a + expo b))"

definition dadd :: "dbl \<Rightarrow> dbl \<Rightarrow> dbl" where
  "dadd a b = (let e = min (expo a) (expo b) in
     round53 (Dbl (mant a * 2 ^ nat (expo a - e) + mant b * 2 ^ nat (expo b - e)) e))"

definition dneg :: "dbl \<Rightarrow> dbl" where
  "dneg a = Dbl (- mant a) (expo a)"

definition dsub :: "dbl \<Rightarrow> dbl \<Rightarrow> dbl" where
  "dsub a b = dadd a (dneg b)"

text \<open>
  Division: the quotient of the significands to 55 bits or more, with one sticky bit that
  records a non-zero remainder, then rounded. The sources divide by non-zero values only.
\<close>

definition ddiv :: "dbl \<Rightarrow> dbl \<Rightarrow> dbl" where
  "ddiv a b = (let k = 55 + sig_bits (mant b);
       n = \<bar>mant a\<bar> * 2 ^ k; d = \<bar>mant b\<bar>;
       q = 2 * (n div d) + (if n mod d = 0 then 0 else 1)
     in round53 (Dbl (sgn (mant a) * sgn (mant b) * q) (expo a - expo b - int k - 1)))"

text \<open>Conversions from and to integers; the cast to an integer truncates towards zero.\<close>

definition dbl_of_int :: "int \<Rightarrow> dbl" where
  "dbl_of_int i = round53 (Dbl i 0)"

definition dtrunc :: "dbl \<Rightarrow> int" where
  "dtrunc d = (if 0 \<le> expo d then mant d * 2 ^ nat (expo d)
     else sgn (mant d) * (\<bar>mant d\<bar> div 2 ^ nat (- expo d)))"

text \<open>The literals \<^verbatim>\<open>1.0e-6\<close> (the nearest double) and \<^verbatim>\<open>1.0e6\<close>.\<close>

definition one_e_m6 :: dbl where
  "one_e_m6 = Dbl 4722366482869645 (- 72)"

definition one_e6 :: dbl where
  "one_e6 = Dbl 1000000 0"

section \<open>The rounding error\<close>

lemma rne_shift_exact: "m mod 2 ^ k = 0 \<Longrightarrow> rne_shift k m = m div 2 ^ k"
  by (simp add: rne_shift_def Let_def)

lemma rne_shift_cases: "rne_shift k m = m div 2 ^ k \<and> 2 * (m mod 2 ^ k) \<le> 2 ^ k
    \<or> rne_shift k m = m div 2 ^ k + 1 \<and> 2 ^ k \<le> 2 * (m mod 2 ^ k)"
  by (auto simp: rne_shift_def Let_def)

lemma rne_shift_error: "2 * \<bar>rne_shift k m * 2 ^ k - m\<bar> \<le> 2 ^ k"
proof -
  define r where "r = m mod 2 ^ k"
  have m: "m = m div 2 ^ k * 2 ^ k + r" by (simp only: r_def div_mult_mod_eq)
  have r: "0 \<le> r" "r < 2 ^ k" by (simp_all add: r_def)
  from rne_shift_cases [of k m] show ?thesis
  proof
    assume "rne_shift k m = m div 2 ^ k \<and> 2 * (m mod 2 ^ k) \<le> 2 ^ k"
    then have "rne_shift k m * 2 ^ k - m = - r" "2 * r \<le> 2 ^ k" using m by (auto simp: r_def)
    then show ?thesis using r by simp
  next
    assume "rne_shift k m = m div 2 ^ k + 1 \<and> 2 ^ k \<le> 2 * (m mod 2 ^ k)"
    then have "rne_shift k m * 2 ^ k - m = 2 ^ k - r" "2 ^ k \<le> 2 * r"
      using m by (auto simp: r_def algebra_simps)
    then show ?thesis using r by simp
  qed
qed

lemma rne_shift_unique:
  assumes "2 * \<bar>K * 2 ^ k - m\<bar> < 2 ^ k"
  shows "rne_shift k m = K"
proof -
  have "\<bar>(rne_shift k m - K) * 2 ^ k\<bar> < 2 ^ k"
    using abs_half_sum_less [OF assms rne_shift_error] by (simp only: left_diff_distrib)
  then have "\<bar>rne_shift k m - K\<bar> * 2 ^ k < 1 * 2 ^ k" by (simp add: abs_mult)
  then have "\<bar>rne_shift k m - K\<bar> < 1" by (rule mult_right_less_imp_less) simp
  then show ?thesis by simp
qed

lemma sig_bits_bounds:
  assumes "m \<noteq> 0"
  shows "2 ^ (sig_bits m - 1) \<le> \<bar>m\<bar>" and "\<bar>m\<bar> < 2 ^ sig_bits m"
proof -
  have "nat \<bar>m\<bar> > 0" using assms by simp
  then have b: "2 ^ (sig_bits m - 1) \<le> nat \<bar>m\<bar>" "nat \<bar>m\<bar> < 2 ^ sig_bits m"
    using floorlog_bounds [of "nat \<bar>m\<bar>" 2] by (simp_all add: sig_bits_def)
  show "2 ^ (sig_bits m - 1) \<le> \<bar>m\<bar>"
    using b(1) by (metis nat_le_iff le_nat_iff abs_ge_zero of_nat_numeral of_nat_power)
  show "\<bar>m\<bar> < 2 ^ sig_bits m"
    using b(2) by (metis abs_ge_zero nat_less_iff of_nat_numeral of_nat_power)
qed

lemma sig_bits_le: "\<bar>m\<bar> < 2 ^ k \<Longrightarrow> sig_bits m \<le> k"
proof (cases "m = 0")
  case False
  assume "\<bar>m\<bar> < 2 ^ k"
  with sig_bits_bounds(1) [OF False] have "(2::int) ^ (sig_bits m - 1) < 2 ^ k" by linarith
  then have "sig_bits m - 1 < k" by (simp add: power_strict_increasing_iff)
  then show ?thesis by simp
qed (simp add: sig_bits_def floorlog_def)

lemma powi_shift: "(2::real) powi (e + int n) = 2 powi e * 2 ^ n"
  by (simp add: power_int_add)

lemma round53_id: "\<bar>mant d\<bar> < 2 ^ 53 \<Longrightarrow> round53 d = d"
  using sig_bits_le [of "mant d" 53] by (simp add: round53_def Let_def)

lemma round53_shift_eq:
  assumes "53 < sig_bits (mant d)"
  shows "dval (round53 d) - dval d =
    of_int (rne_shift (sig_bits (mant d) - 53) (mant d) * 2 ^ (sig_bits (mant d) - 53) - mant d)
      * 2 powi expo d"
  using assms by (simp add: round53_def Let_def dval_def powi_shift algebra_simps del: of_nat_diff)

theorem round53_error: "\<bar>dval (round53 d) - dval d\<bar> \<le> \<bar>dval d\<bar> * 2 powi (- 53)"
proof (cases "sig_bits (mant d) \<le> 53")
  case True
  then show ?thesis by (simp add: round53_def Let_def)
next
  case False
  define n where "n = sig_bits (mant d)"
  define e where "e = rne_shift (n - 53) (mant d) * 2 ^ (n - 53) - mant d"
  have m0: "mant d \<noteq> 0" using False by (auto simp: sig_bits_def floorlog_def)
  have split: "n - 1 = (n - 53) + 52" using False by (simp add: n_def)
  have "2 * \<bar>e\<bar> * 2 ^ 52 \<le> 2 ^ (n - 53) * 2 ^ 52"
    using rne_shift_error [of "n - 53" "mant d"] by (simp add: e_def)
  also have "\<dots> = 2 ^ (n - 1)" by (simp only: split power_add)
  also have "\<dots> \<le> \<bar>mant d\<bar>" using sig_bits_bounds(1) [OF m0] by (simp add: n_def)
  finally have "2 ^ 53 * \<bar>e\<bar> \<le> \<bar>mant d\<bar>" by simp
  then have "real_of_int (2 ^ 53 * \<bar>e\<bar>) \<le> real_of_int \<bar>mant d\<bar>" by (simp only: of_int_le_iff)
  then have b: "\<bar>real_of_int e\<bar> \<le> \<bar>real_of_int (mant d)\<bar> * 2 powi (- 53)"
    by (simp add: power_int_minus field_simps)
  have "dval (round53 d) - dval d = of_int e * 2 powi expo d"
    using round53_shift_eq False by (simp add: e_def n_def)
  then show ?thesis
    using mult_right_mono [OF b, of "2 powi expo d"]
    by (simp add: dval_def abs_mult mult.commute mult.left_commute)
qed

section \<open>The value of each operation\<close>

lemma dval_neg [simp]: "dval (dneg a) = - dval a"
  by (simp add: dneg_def dval_def)

lemma dval_mul_exact: "dval (Dbl (mant a * mant b) (expo a + expo b)) = dval a * dval b"
  by (simp add: dval_def power_int_add)

lemma dval_align: "e \<le> expo a \<Longrightarrow> of_int (mant a * 2 ^ nat (expo a - e)) * 2 powi e = dval a"
  using powi_shift [of e "nat (expo a - e)"] by (simp add: dval_def mult_ac)

lemma dval_add_exact:
  "dval (Dbl (mant a * 2 ^ nat (expo a - min (expo a) (expo b))
     + mant b * 2 ^ nat (expo b - min (expo a) (expo b))) (min (expo a) (expo b)))
   = dval a + dval b"
  using dval_align [of "min (expo a) (expo b)" a] dval_align [of "min (expo a) (expo b)" b]
  by (simp add: dval_def [of "Dbl _ _"] distrib_right)

lemma dmul_error: "\<bar>dval (dmul a b) - dval a * dval b\<bar> \<le> \<bar>dval a * dval b\<bar> * 2 powi (- 53)"
  using round53_error [of "Dbl (mant a * mant b) (expo a + expo b)"]
  by (simp only: dmul_def dval_mul_exact)

lemma dadd_error: "\<bar>dval (dadd a b) - (dval a + dval b)\<bar> \<le> \<bar>dval a + dval b\<bar> * 2 powi (- 53)"
  using round53_error [of "Dbl (mant a * 2 ^ nat (expo a - min (expo a) (expo b))
     + mant b * 2 ^ nat (expo b - min (expo a) (expo b))) (min (expo a) (expo b))"]
  by (simp only: dadd_def Let_def dval_add_exact)

lemma dsub_error: "\<bar>dval (dsub a b) - (dval a - dval b)\<bar> \<le> \<bar>dval a - dval b\<bar> * 2 powi (- 53)"
  using dadd_error [of a "dneg b"] by (simp add: dsub_def)

lemma dbl_of_int_exact: "\<bar>i\<bar> < 2 ^ 53 \<Longrightarrow> dval (dbl_of_int i) = of_int i"
  by (simp add: dbl_of_int_def round53_id) (simp add: dval_def)

lemma dbl_of_int_small: "\<bar>i\<bar> < 2 ^ 53 \<Longrightarrow> dbl_of_int i = Dbl i 0"
  by (simp add: dbl_of_int_def round53_id)

text \<open>An absolute form: a result of size at most \<open>B\<close> is off by at most \<open>B\<close> times \<open>2 powi - 53\<close>.\<close>

lemma rel_to_abs:
  fixes x y B :: real
  assumes "\<bar>x - y\<bar> \<le> \<bar>y\<bar> * 2 powi (- 53)" "\<bar>y\<bar> \<le> B"
  shows "\<bar>x - y\<bar> \<le> B * 2 powi (- 53)"
proof -
  have "\<bar>y\<bar> * 2 powi (- 53) \<le> B * 2 powi (- 53)" using assms(2) by (rule mult_right_mono) simp
  with assms(1) show ?thesis by linarith
qed

section \<open>Division by a power of two is exact\<close>

lemma sgn_mult_self_abs: "sgn (a :: int) * \<bar>a\<bar> = a"
  by (simp add: sgn_if abs_if)

lemma round53_multiple:
  assumes "\<bar>m\<bar> < 2 ^ 53"
  shows "dval (round53 (Dbl (m * 2 ^ j) x)) = dval (Dbl (m * 2 ^ j) x)"
proof (cases "sig_bits (m * 2 ^ j) \<le> 53")
  case True
  then show ?thesis by (simp add: round53_def Let_def)
next
  case False
  define s where "s = sig_bits (m * 2 ^ j) - 53"
  have "\<bar>m * 2 ^ j\<bar> < 2 ^ (53 + j)" using assms by (simp add: abs_mult power_add)
  then have "sig_bits (m * 2 ^ j) \<le> 53 + j" by (rule sig_bits_le)
  then have "s \<le> j" by (simp add: s_def)
  then have "(2::int) ^ s dvd m * 2 ^ j" by (intro dvd_mult le_imp_power_dvd)
  then have "rne_shift s (m * 2 ^ j) * 2 ^ s = m * 2 ^ j" by (simp add: rne_shift_exact)
  then show ?thesis using round53_shift_eq [of "Dbl (m * 2 ^ j) x"] False by (simp add: s_def)
qed

text \<open>A rounded significand has 53 bits, or is the power of two above them.\<close>

lemma round53_mant: "\<bar>mant (round53 d)\<bar> \<le> 2 ^ 53"
proof (cases "sig_bits (mant d) \<le> 53")
  case True
  show ?thesis
  proof (cases "mant d = 0")
    case False
    then have "\<bar>mant d\<bar> < 2 ^ sig_bits (mant d)" by (rule sig_bits_bounds)
    also have "\<dots> \<le> 2 ^ 53" using True by (intro power_increasing) simp_all
    finally show ?thesis using True by (simp add: round53_def Let_def)
  qed (use True in \<open>simp add: round53_def Let_def\<close>)
next
  case False
  define s where "s = sig_bits (mant d) - 53"
  have n: "sig_bits (mant d) = 53 + s" using False by (simp add: s_def)
  have "mant d \<noteq> 0" using False by (auto simp: sig_bits_def floorlog_def)
  from sig_bits_bounds(2) [OF this] have "\<bar>mant d\<bar> < 2 ^ (53 + s)" by (simp only: n)
  then have "\<bar>mant d\<bar> < 2 ^ 53 * 2 ^ s" by (simp only: power_add)
  moreover have "\<bar>rne_shift s (mant d) * 2 ^ s\<bar> \<le> \<bar>mant d\<bar> + 2 ^ s"
    using rne_shift_error [of s "mant d"] by (simp add: abs_if split: if_splits)
  ultimately have "\<bar>rne_shift s (mant d) * 2 ^ s\<bar> < 2 ^ 53 * 2 ^ s + 2 ^ s" by linarith
  then have "\<bar>rne_shift s (mant d)\<bar> * 2 ^ s < (2 ^ 53 + 1) * 2 ^ s"
    by (simp only: abs_mult power_abs abs_numeral distrib_right mult_1)
  then have "\<bar>rne_shift s (mant d)\<bar> < 2 ^ 53 + 1" by (rule mult_right_less_imp_less) simp
  then show ?thesis using False by (simp add: round53_def Let_def s_def)
qed

lemma sig_bits_pow2: "sig_bits (2 ^ j) = Suc j"
proof -
  have "sig_bits (2 ^ j) \<le> Suc j" by (rule sig_bits_le) simp
  moreover have "\<bar>2 ^ j :: int\<bar> < 2 ^ sig_bits (2 ^ j)" by (rule sig_bits_bounds) simp
  then have "(2::int) ^ j < 2 ^ sig_bits (2 ^ j)" by simp
  then have "j < sig_bits (2 ^ j)" by (simp add: power_strict_increasing_iff)
  ultimately show ?thesis by simp
qed

lemma dval_ddiv_pow2:
  assumes "\<bar>mant a\<bar> \<le> 2 ^ 53"
  shows "dval (ddiv a (Dbl (2 ^ j) e)) = dval a / dval (Dbl (2 ^ j) e)"
proof -
  define k where "k = 55 + sig_bits (2 ^ j)"
  have kj: "k = j + 56" by (simp add: k_def sig_bits_pow2)
  have pw: "(2::int) ^ k = 2 ^ j * 2 ^ 56" by (simp add: kj power_add)
  have q: "\<bar>mant a\<bar> * 2 ^ k div 2 ^ j = \<bar>mant a\<bar> * 2 ^ 56" "\<bar>mant a\<bar> * 2 ^ k mod 2 ^ j = 0"
    by (simp_all add: pw mult.assoc [symmetric] mult.commute [of _ "2 ^ j"] mult.left_commute)
  have m: "sgn (mant a) * (c * \<bar>mant a\<bar>) = mant a * c" for c
    by (metis sgn_mult_self_abs mult.left_commute mult.commute)
  have "ddiv a (Dbl (2 ^ j) e) = round53 (Dbl (mant a * 2 ^ 57) (expo a - e - int k - 1))"
    by (simp add: ddiv_def Let_def k_def [symmetric] q m)
  moreover have "dval (round53 (Dbl (mant a * 2 ^ 57) x)) = dval (Dbl (mant a * 2 ^ 57) x)" for x
  proof (cases "\<bar>mant a\<bar> = 2 ^ 53")
    case True
    then have "mant a = 2 ^ 53 \<or> mant a = - (2 ^ 53)" by linarith
    then show ?thesis
      using round53_multiple [of 1 110 x] round53_multiple [of "- 1" 110 x] by auto
  next
    case False
    then show ?thesis using round53_multiple [of "mant a" 57 x] assms by simp
  qed
  ultimately show ?thesis
    by (simp add: dval_def kj power_int_diff power_int_add field_simps)
qed

section \<open>Truncation\<close>

lemma dtrunc_nonneg:
  assumes "0 \<le> mant d"
  shows "dtrunc d = \<lfloor>dval d\<rfloor>"
proof (cases "0 \<le> expo d")
  case True
  then have "dval d = of_int (mant d * 2 ^ nat (expo d))"
    using powi_shift [of 0 "nat (expo d)"] by (simp add: dval_def)
  with True show ?thesis by (simp only: floor_of_int) (simp add: dtrunc_def)
next
  case False
  then have "dval d = real_of_int (mant d) / real_of_int (2 ^ nat (- expo d))"
    by (simp add: dval_def power_int_def field_simps)
  then have "\<lfloor>dval d\<rfloor> = mant d div 2 ^ nat (- expo d)" by (simp only: floor_divide_of_int_eq)
  with False assms show ?thesis by (cases "mant d = 0") (simp_all add: dtrunc_def)
qed

lemma round53_nonneg: "0 \<le> mant d \<Longrightarrow> 0 \<le> mant (round53 d)"
  by (auto simp: round53_def rne_shift_def Let_def pos_imp_zdiv_nonneg_iff)

end
