(* ===== verification/NTP_Time.thy ===== *)
theory NTP_Time
  imports C_Double
begin

text \<open>
  The time conversions of \<^verbatim>\<open>reusedlib.c\<close>: NTP time (seconds since 1900 and a
  32-bit binary fraction) against Unix time (seconds since 1970 and microseconds), with the
  double arithmetic of the source. The lemmas show that the detour through doubles computes
  the integer quotients one expects, where the one exception is, and how far a time stamp
  can move on the way to the wire and back.
\<close>

section \<open>Data\<close>

record ntp_time_t =
  second :: u32
  fraction :: u32

text \<open>\<^verbatim>\<open>struct timeval\<close> of the C library: two 64-bit signed integers.\<close>

record timeval =
  tv_sec :: int
  tv_usec :: int

section \<open>The conversions\<close>

text \<open>
  The hexadecimal literal does not fit an \<^verbatim>\<open>int\<close>, so it is an
  \<^verbatim>\<open>unsigned int\<close>: the subtraction wraps at 32 bits before the result is widened to
  \<^verbatim>\<open>time_t\<close>, and the addition is done in 64 bits and cut to 32.
\<close>

definition convert_ntp_time_into_unix_time :: "ntp_time_t \<Rightarrow> timeval" where
  "convert_ntp_time_into_unix_time ntp =
     \<lparr>tv_sec = uint (second ntp - 0x83AA7E80),
      tv_usec = uint (word_of_int (dtrunc (ddiv (dmul (dbl_of_int (uint (fraction ntp))) one_e6)
                 (dbl_of_int (2 ^ 32)))) :: u32)\<rparr>"

definition unix_fraction_dbl :: "int \<Rightarrow> dbl" where
  "unix_fraction_dbl usec = dmul (dmul (dbl_of_int (usec + 1)) (dbl_of_int (2 ^ 32))) one_e_m6"

text \<open>
  The cast of an out-of-range double to \<^verbatim>\<open>uint32_t\<close> is undefined in C; the code
  gcc emits for x86-64 converts to 64 bits and keeps the low 32.
\<close>

definition convert_unix_time_into_ntp_time :: "timeval \<Rightarrow> ntp_time_t" where
  "convert_unix_time_into_ntp_time epoch =
     \<lparr>second = word_of_int (tv_sec epoch + 0x83AA7E80),
      fraction = word_of_int (dtrunc (unix_fraction_dbl (tv_usec epoch)))\<rparr>"

text \<open>What the two conversions are meant to compute, in integers.\<close>

definition ref_usec :: "int \<Rightarrow> int" where
  "ref_usec f = f * 10 ^ 6 div 2 ^ 32"

definition ref_fraction :: "int \<Rightarrow> int" where
  "ref_fraction usec = (usec + 1) * 2 ^ 32 div 10 ^ 6"

text \<open>A well-formed Unix time in the 32-bit era, and its value in microseconds.\<close>

definition valid_timeval :: "timeval \<Rightarrow> bool" where
  "valid_timeval t \<longleftrightarrow> 0 \<le> tv_sec t \<and> tv_sec t < 2 ^ 32 \<and> 0 \<le> tv_usec t \<and> tv_usec t < 10 ^ 6"

definition usecs :: "timeval \<Rightarrow> int" where
  "usecs t = tv_sec t * 10 ^ 6 + tv_usec t"

section \<open>From NTP to Unix\<close>

lemma dbl_of_int_2_32: "dbl_of_int (2 ^ 32) = Dbl (2 ^ 32) 0"
  by (simp add: dbl_of_int_small)

lemma usec_dbl_value:
  assumes "0 \<le> f" "f < 2 ^ 32"
  shows "dval (ddiv (dmul (dbl_of_int f) one_e6) (dbl_of_int (2 ^ 32))) = of_int (f * 10 ^ 6) / of_int (2 ^ 32)"
proof -
  have f: "\<bar>f * 1000000\<bar> < 2 ^ 53" using assms by simp
  then have m: "dmul (dbl_of_int f) one_e6 = Dbl (f * 1000000) 0"
    using assms by (simp add: dmul_def dbl_of_int_small one_e6_def round53_id)
  have "dval (ddiv (Dbl (f * 1000000) 0) (Dbl (2 ^ 32) 0)) = dval (Dbl (f * 1000000) 0) / dval (Dbl (2 ^ 32) 0)"
    using f by (intro dval_ddiv_pow2) simp
  then show ?thesis by (simp only: m dbl_of_int_2_32) (simp add: dval_def)
qed

lemma ddiv_nonneg: "0 \<le> mant a \<Longrightarrow> 0 \<le> mant b \<Longrightarrow> 0 \<le> mant (ddiv a b)"
  by (auto simp: ddiv_def Let_def sgn_if pos_imp_zdiv_nonneg_iff intro!: round53_nonneg)

lemma dmul_nonneg: "0 \<le> mant a \<Longrightarrow> 0 \<le> mant b \<Longrightarrow> 0 \<le> mant (dmul a b)"
  by (simp add: dmul_def round53_nonneg)

lemma dbl_of_int_nonneg: "0 \<le> i \<Longrightarrow> 0 \<le> mant (dbl_of_int i)"
  by (simp add: dbl_of_int_def round53_nonneg)

lemmas dbl_nonneg = ddiv_nonneg dmul_nonneg dbl_of_int_nonneg

lemma usec_dtrunc:
  assumes "0 \<le> f" "f < 2 ^ 32"
  shows "dtrunc (ddiv (dmul (dbl_of_int f) one_e6) (dbl_of_int (2 ^ 32))) = ref_usec f"
proof -
  have "0 \<le> mant (ddiv (dmul (dbl_of_int f) one_e6) (dbl_of_int (2 ^ 32)))"
    using assms by (intro dbl_nonneg) (simp_all add: one_e6_def)
  then have "dtrunc (ddiv (dmul (dbl_of_int f) one_e6) (dbl_of_int (2 ^ 32)))
      = \<lfloor>(of_int (f * 10 ^ 6) / of_int (2 ^ 32)) :: real\<rfloor>"
    by (simp only: dtrunc_nonneg usec_dbl_value [OF assms])
  also have "\<dots> = ref_usec f" unfolding ref_usec_def by (rule floor_divide_of_int_eq)
  finally show ?thesis .
qed

lemma ref_usec_bounds:
  assumes "0 \<le> f" "f < 2 ^ 32"
  shows "0 \<le> ref_usec f" "ref_usec f < 10 ^ 6"
proof -
  show "0 \<le> ref_usec f" using assms by (simp add: ref_usec_def)
  show "ref_usec f < 10 ^ 6"
    using zdiv_mono1 [of "f * 10 ^ 6" "(2 ^ 32 - 1) * 10 ^ 6" "2 ^ 32"] assms by (simp add: ref_usec_def)
qed

lemma convert_ntp_unfold:
  "convert_ntp_time_into_unix_time n
    = \<lparr>tv_sec = uint (second n - 0x83AA7E80), tv_usec = ref_usec (uint (fraction n))\<rparr>"
proof -
  have f: "0 \<le> uint (fraction n)" "uint (fraction n) < 2 ^ 32"
    using uint_lt2p [of "fraction n"] by simp_all
  have w: "uint (word_of_int (ref_usec (uint (fraction n))) :: u32) = ref_usec (uint (fraction n))"
    using ref_usec_bounds [OF f] by (simp add: uint_word_of_int)
  show ?thesis by (simp only: convert_ntp_time_into_unix_time_def usec_dtrunc [OF f] w)
qed

lemma convert_ntp_usec: "tv_usec (convert_ntp_time_into_unix_time n) = ref_usec (uint (fraction n))"
  by (simp add: convert_ntp_unfold)

lemma convert_ntp_valid: "valid_timeval (convert_ntp_time_into_unix_time n)"
proof -
  have "0 \<le> uint (fraction n)" "uint (fraction n) < 2 ^ 32"
    using uint_lt2p [of "fraction n"] by simp_all
  moreover have "uint (second n - 0x83AA7E80) < 2 ^ 32" using uint_lt2p [of "second n - 0x83AA7E80"] by simp
  ultimately show ?thesis using ref_usec_bounds by (simp add: convert_ntp_unfold valid_timeval_def)
qed

text \<open>
  C10. For every NTP time the conversion to Unix time returns exactly the whole number of
  microseconds in the fraction, below one million, and seconds in the range of 32 bits: the
  double arithmetic of the source loses nothing.
\<close>

theorem convert_ntp_time_into_unix_time_exact:
  "tv_usec (convert_ntp_time_into_unix_time n) = ref_usec (uint (fraction n))
   \<and> valid_timeval (convert_ntp_time_into_unix_time n)"
  using convert_ntp_usec convert_ntp_valid by blast

section \<open>From Unix to NTP\<close>

lemma unix_fraction_value:
  assumes "0 \<le> u" "u < 10 ^ 6"
  shows "\<bar>dval (unix_fraction_dbl u) - of_int ((u + 1) * 2 ^ 32) / 10 ^ 6\<bar> < 1 / 15625"
proof -
  have small: "\<bar>(u + 1) * 2 ^ 32\<bar> < 2 ^ 53" using assms by simp
  define x where "x = dmul (dbl_of_int (u + 1)) (dbl_of_int (2 ^ 32))"
  have x: "x = Dbl ((u + 1) * 2 ^ 32) 0"
    using assms small by (simp add: x_def dmul_def dbl_of_int_small round53_id)
  have dx: "dval x = of_int (u + 1) * 2 ^ 32" by (simp add: x dval_def)
  have d: "dval one_e_m6 = 4722366482869645 / 2 ^ 72" by (simp add: one_e_m6_def dval_def power_int_def field_simps)
  define p where "p = dval x * dval one_e_m6"
  have p: "p = of_int (u + 1) * (4722366482869645 / 2 ^ 40)" by (simp add: p_def dx d field_simps)
  have U: "0 \<le> real_of_int (u + 1)" "real_of_int (u + 1) \<le> 10 ^ 6" using assms by simp_all
  have "\<bar>p\<bar> \<le> 2 ^ 32" using U by (simp add: p abs_mult)
  then have "\<bar>dval (unix_fraction_dbl u) - p\<bar> \<le> 2 ^ 32 * 2 powi (- 53)"
    using rel_to_abs [OF dmul_error [of x one_e_m6]]
    by (simp only: unix_fraction_dbl_def x_def [symmetric] p_def)
  moreover have "p - of_int ((u + 1) * 2 ^ 32) / 10 ^ 6 = of_int (u + 1) * (- 213696 / (2 ^ 40 * 10 ^ 6))"
    by (simp add: p field_simps)
  then have "\<bar>p - of_int ((u + 1) * 2 ^ 32) / 10 ^ 6\<bar> \<le> 1 / 10 ^ 6"
    using U by (simp add: abs_mult)
  moreover have "(2::real) ^ 32 * 2 powi (- 53) \<le> 1 / 10 ^ 6" by (simp add: power_int_def field_simps)
  moreover have "1 / 10 ^ 6 + 1 / 10 ^ 6 < 1 / (15625 :: real)" by simp
  ultimately show ?thesis by (meson abs_diff_trans add_mono order.trans order_refl le_less_trans)
qed

text \<open>
  Where the exact quotient is an integer the rounding decides: the literal is a little less
  than \<open>10 powi - 6\<close>, and the product is still rounded up to the integer.
\<close>

lemma unix_fraction_exact_points:
  assumes j: "1 \<le> j" "j \<le> 64"
  shows "dtrunc (unix_fraction_dbl (15625 * j - 1)) = 2 ^ 26 * j"
proof -
  define M where "M = 15625 * j * 2 ^ 32 * 4722366482869645"
  define s where "s = sig_bits M - 53"
  have M: "unix_fraction_dbl (15625 * j - 1) = round53 (Dbl M (- 72))"
    using j by (simp add: unix_fraction_dbl_def dmul_def dbl_of_int_small round53_id one_e_m6_def M_def)
  have M0: "2 ^ 53 \<le> M" "M < 2 ^ 105" using j by (simp_all add: M_def)
  then have sb: "(2::int) ^ 53 < 2 ^ sig_bits M" "M < 2 ^ sig_bits M" using sig_bits_bounds [of M] by auto
  then have "53 < sig_bits M" by (simp add: power_strict_increasing_iff del: power_numeral)
  have "sig_bits M \<le> 105" using M0 by (intro sig_bits_le) simp
  with \<open>53 < sig_bits M\<close> have s: "sig_bits M = s + 53" "s \<le> 98" by (simp_all add: s_def)
  have "M < 2 ^ s * 2 ^ 53" using sb(2) by (simp only: s(1) power_add)
  then have gap: "2 * (2 ^ 32 * j * 3339) < 2 ^ s" using j by (simp add: M_def)
  have "(2::int) ^ 98 = 2 ^ (98 - s) * 2 ^ s" using s(2) by (simp only: power_add [symmetric]) simp
  then have T: "2 ^ (98 - s) * j * 2 ^ s = 2 ^ 98 * j" by simp
  have "2 ^ 98 * j - M = 2 ^ 32 * j * 3339" by (simp add: M_def)
  then have "\<bar>2 ^ 98 * j - M\<bar> = 2 ^ 32 * j * 3339" using j by simp
  then have "rne_shift s M = 2 ^ (98 - s) * j"
    using gap by (intro rne_shift_unique) (simp only: T)
  then have "dval (round53 (Dbl M (- 72))) = of_int (2 ^ (98 - s) * j * 2 ^ s) * 2 powi (- 72)"
    using round53_shift_eq [of "Dbl M (- 72)"] \<open>53 < sig_bits M\<close>
    by (simp add: s_def [symmetric]) (simp add: dval_def algebra_simps)
  also have "\<dots> = of_int (2 ^ 26 * j)" by (simp only: T) (simp add: power_int_def power_one_over)
  finally have "\<lfloor>dval (round53 (Dbl M (- 72)))\<rfloor> = 2 ^ 26 * j" by (simp only: floor_of_int)
  moreover have "0 \<le> mant (round53 (Dbl M (- 72)))" using M0 by (intro round53_nonneg) simp
  ultimately show ?thesis by (simp only: M dtrunc_nonneg)
qed

lemma ref_fraction_alt: "ref_fraction u = (u + 1) * 2 ^ 26 div 15625"
proof -
  have "(u + 1) * 2 ^ 32 div 10 ^ 6 = ((u + 1) * 2 ^ 26 * 64) div (15625 * 64)" by simp
  also have "\<dots> = (u + 1) * 2 ^ 26 div 15625" by (rule div_mult_mult2) simp
  finally show ?thesis by (simp add: ref_fraction_def)
qed

lemma unix_fraction_nonneg: "0 \<le> u \<Longrightarrow> 0 \<le> mant (unix_fraction_dbl u)"
  unfolding unix_fraction_dbl_def by (intro dbl_nonneg) (simp_all add: one_e_m6_def)

lemma dtrunc_unix_fraction:
  assumes u: "0 \<le> u" "u < 10 ^ 6"
  shows "dtrunc (unix_fraction_dbl u) = ref_fraction u"
proof (cases "15625 dvd u + 1")
  case True
  then obtain j where j: "u + 1 = 15625 * j" by (auto elim: dvdE)
  then have "1 \<le> j" "j \<le> 64" "u = 15625 * j - 1" using u by auto
  then show ?thesis using unix_fraction_exact_points [of j] by (simp add: ref_fraction_alt)
next
  case False
  define p q r where "p = (u + 1) * 2 ^ 26" and "q = p div 15625" and "r = p mod 15625"
  have "coprime (5 ^ 6 :: int) (2 ^ 26)"
    by (simp only: coprime_power_left_iff coprime_power_right_iff) simp
  then have "\<not> 15625 dvd p" using False coprime_dvd_mult_left_iff [of "5 ^ 6" "2 ^ 26" "u + 1"]
    by (simp add: p_def)
  then have "r \<noteq> 0" "0 \<le> r" "r < 15625" by (simp_all add: r_def dvd_eq_mod_eq_0)
  then have r: "1 \<le> r" "r \<le> 15624" by linarith+
  have "p = 15625 * q + r" by (simp only: q_def r_def mult_div_mod_eq)
  then have "real_of_int p = 15625 * of_int q + of_int r" by simp
  then have X: "real_of_int ((u + 1) * 2 ^ 32) / 10 ^ 6 = of_int q + of_int r / 15625"
    by (simp add: p_def field_simps)
  have "1 / 15625 \<le> real_of_int r / 15625" "real_of_int r / 15625 \<le> 1 - 1 / 15625" using r by simp_all
  moreover have "\<bar>dval (unix_fraction_dbl u) - (of_int q + of_int r / 15625)\<bar> < 1 / 15625"
    using unix_fraction_value [OF u] by (simp only: X)
  ultimately have "\<lfloor>dval (unix_fraction_dbl u)\<rfloor> = q" by (intro floor_near)
  then show ?thesis
    using u by (simp add: dtrunc_nonneg unix_fraction_nonneg ref_fraction_alt q_def p_def)
qed

lemma unix_fraction_word:
  assumes "0 \<le> tv_usec t" "tv_usec t < 10 ^ 6"
  shows "uint (fraction (convert_unix_time_into_ntp_time t)) =
      (if tv_usec t = 999999 then 0 else ref_fraction (tv_usec t))"
proof -
  have "ref_fraction (tv_usec t) < 2 ^ 32" if "tv_usec t \<noteq> 999999"
    using that assms zdiv_mono1 [of "(tv_usec t + 1) * 2 ^ 32" "999999 * 2 ^ 32" "10 ^ 6"]
    by (simp add: ref_fraction_def)
  moreover have "0 \<le> ref_fraction (tv_usec t)" using assms by (simp add: ref_fraction_def)
  ultimately show ?thesis
    by (simp add: convert_unix_time_into_ntp_time_def dtrunc_unix_fraction [OF assms]
        ref_fraction_def uint_word_of_int)
qed

text \<open>
  C8. For a well-formed microsecond count the double arithmetic of the conversion to NTP
  time gives exactly \<open>(usec + 1) * 2 ^ 32 div 10 ^ 6\<close>, and the cast to 32 bits keeps this
  value for every count but 999999. For 999999 the double is \<open>2 ^ 32\<close>, the cast is out of
  range and the fraction stored is 0.
\<close>

theorem convert_unix_time_into_ntp_time_fraction:
  assumes "0 \<le> tv_usec t" "tv_usec t < 10 ^ 6"
  shows "dtrunc (unix_fraction_dbl (tv_usec t)) = ref_fraction (tv_usec t)
    \<and> uint (fraction (convert_unix_time_into_ntp_time t)) =
      (if tv_usec t = 999999 then 0 else ref_fraction (tv_usec t))"
  using dtrunc_unix_fraction [OF assms] unix_fraction_word [OF assms] ..

theorem convert_unix_time_into_ntp_time_fraction_witness:
  "uint (fraction (convert_unix_time_into_ntp_time \<lparr>tv_sec = 0, tv_usec = 499999\<rparr>)) = 2147483648
   \<and> uint (fraction (convert_unix_time_into_ntp_time \<lparr>tv_sec = 0, tv_usec = 999999\<rparr>)) = 0"
  using convert_unix_time_into_ntp_time_fraction [of "\<lparr>tv_sec = 0, tv_usec = 499999\<rparr>"]
    convert_unix_time_into_ntp_time_fraction [of "\<lparr>tv_sec = 0, tv_usec = 999999\<rparr>"]
  by (simp add: ref_fraction_def)

section \<open>There and back\<close>

lemma seconds_roundtrip:
  assumes "0 \<le> s" "s < 2 ^ 32"
  shows "uint ((word_of_int (s + 0x83AA7E80) :: u32) - 0x83AA7E80) = s"
proof -
  have "(word_of_int (s + 0x83AA7E80) :: u32) - 0x83AA7E80 = word_of_int s" by simp
  then show ?thesis using assms by (simp add: uint_word_of_int)
qed

lemma ref_usec_fraction:
  "ref_usec (ref_fraction u) = (if 15625 dvd u + 1 then u + 1 else u)"
proof (cases "15625 dvd u + 1")
  case True
  then obtain j where "u + 1 = 15625 * j" by (auto elim: dvdE)
  then show ?thesis by (simp add: ref_usec_def ref_fraction_alt)
next
  case False
  define p where "p = (u + 1) * 2 ^ 26"
  have q: "p = 15625 * (p div 15625) + p mod 15625" by simp
  have "p mod 15625 \<noteq> 0"
  proof
    assume "p mod 15625 = 0"
    moreover have "coprime (5 ^ 6 :: int) (2 ^ 26)"
      by (simp only: coprime_power_left_iff coprime_power_right_iff) simp
    ultimately show False
      using False coprime_dvd_mult_left_iff [of "5 ^ 6" "2 ^ 26" "u + 1"] by (simp add: p_def dvd_eq_mod_eq_0)
  qed
  moreover have "0 \<le> p mod 15625" "p mod 15625 < 15625" by simp_all
  ultimately have b: "p div 15625 * 15625 < p" "p \<le> p div 15625 * 15625 + 15624" using q by linarith+
  have "ref_usec (ref_fraction u) = p div 15625 * 10 ^ 6 div 2 ^ 32"
    by (simp add: ref_usec_def ref_fraction_alt p_def)
  also have "\<dots> = u"
    by (rule div_int_unique_bounds) (use b in \<open>simp_all add: p_def\<close>)
  finally show ?thesis using False by simp
qed

lemma usecs_roundtrip:
  assumes v: "valid_timeval t"
  shows "usecs (convert_ntp_time_into_unix_time (convert_unix_time_into_ntp_time t)) =
    (if tv_usec t = 999999 then usecs t - 999999
     else if 15625 dvd tv_usec t + 1 then usecs t + 1 else usecs t)"
proof -
  let ?n = "convert_unix_time_into_ntp_time t"
  have u: "0 \<le> tv_usec t" "tv_usec t < 10 ^ 6" and s: "0 \<le> tv_sec t" "tv_sec t < 2 ^ 32"
    using v by (simp_all add: valid_timeval_def)
  have "tv_sec (convert_ntp_time_into_unix_time ?n) = tv_sec t"
    using seconds_roundtrip [OF s]
    by (simp add: convert_ntp_time_into_unix_time_def convert_unix_time_into_ntp_time_def)
  moreover have "tv_usec (convert_ntp_time_into_unix_time ?n) = ref_usec (uint (fraction ?n))"
    using convert_ntp_usec by blast
  moreover have "uint (fraction ?n) = (if tv_usec t = 999999 then 0 else ref_fraction (tv_usec t))"
    using unix_fraction_word [OF u] .
  ultimately show ?thesis by (simp add: usecs_def ref_usec_fraction) (simp add: ref_usec_def)
qed

text \<open>
  C9. A time of day that is written into a packet and read back keeps its seconds, and its
  microseconds move by nothing or by one (by one exactly when the count plus one is a
  multiple of 15625), in every microsecond of the second but the last. In the last
  microsecond the time read back is 999999 microseconds early.
\<close>

theorem ntp_unix_roundtrip:
  assumes "valid_timeval t"
  shows "valid_timeval (convert_ntp_time_into_unix_time (convert_unix_time_into_ntp_time t))
    \<and> usecs (convert_ntp_time_into_unix_time (convert_unix_time_into_ntp_time t)) =
    (if tv_usec t = 999999 then usecs t - 999999
     else if 15625 dvd tv_usec t + 1 then usecs t + 1 else usecs t)"
  using usecs_roundtrip [OF assms] convert_ntp_valid by blast

theorem ntp_unix_roundtrip_witness:
  "valid_timeval \<lparr>tv_sec = 1700000000, tv_usec = 15624\<rparr>
   \<and> usecs (convert_ntp_time_into_unix_time (convert_unix_time_into_ntp_time
       \<lparr>tv_sec = 1700000000, tv_usec = 15624\<rparr>)) = 1700000000015625"
proof -
  have v: "valid_timeval \<lparr>tv_sec = 1700000000, tv_usec = 15624\<rparr>" by (simp add: valid_timeval_def)
  show ?thesis using v ntp_unix_roundtrip [OF v] by (simp add: usecs_def)
qed

section \<open>The clock codec as an interface\<close>

text \<open>
  What the protocol relies on: a time stamp that goes through the packet moves forward by at
  most one unit, so differences between two stamps of the same clock are right to one unit.
\<close>

locale clock_codec =
  fixes enc :: "'u \<Rightarrow> 'n" and dec :: "'n \<Rightarrow> 'u" and units :: "'u \<Rightarrow> int" and ok :: "'u \<Rightarrow> bool"
  assumes codec_drift: "ok t \<Longrightarrow> units t \<le> units (dec (enc t)) \<and> units (dec (enc t)) \<le> units t + 1"
begin

lemma elapsed_error:
  assumes "ok s" "ok t"
  shows "\<bar>(units (dec (enc t)) - units (dec (enc s))) - (units t - units s)\<bar> \<le> 1"
  using codec_drift [OF assms(1)] codec_drift [OF assms(2)] by linarith

lemma order_kept: "ok s \<Longrightarrow> ok t \<Longrightarrow> units s < units t \<Longrightarrow> units (dec (enc s)) \<le> units (dec (enc t))"
  using codec_drift [of s] codec_drift [of t] by linarith

end

definition ntp_safe :: "timeval \<Rightarrow> bool" where
  "ntp_safe t \<longleftrightarrow> valid_timeval t \<and> tv_usec t \<noteq> 999999"

interpretation ntp_codec: clock_codec convert_unix_time_into_ntp_time
  convert_ntp_time_into_unix_time usecs ntp_safe
  by unfold_locales (simp add: ntp_safe_def usecs_roundtrip)



end
