(* ===== verification/NTP_Packet.thy ===== *)
theory NTP_Packet
  imports NTP_Time
begin

unbundle bit_operations_syntax

text \<open>
  The packet of \<^verbatim>\<open>sntptools.h\<close>, its layout in memory and the byte-order functions
  of the socket library. \<^verbatim>\<open>sendto\<close> puts the memory of the structure on the wire and
  \<^verbatim>\<open>recvfrom\<close> writes the datagram over it, so the layout is part of the protocol.
  The lemmas show that storing and loading are inverse, and that the wire carries network
  byte order on hosts of either byte order.
\<close>

section \<open>Byte order\<close>

datatype endian = Little | Big

definition be_bytes :: "u32 \<Rightarrow> byte list" where
  "be_bytes w = [ucast (drop_bit 24 w), ucast (drop_bit 16 w), ucast (drop_bit 8 w), ucast w]"

definition of_be :: "byte \<Rightarrow> byte \<Rightarrow> byte \<Rightarrow> byte \<Rightarrow> u32" where
  "of_be a b c d = push_bit 24 (ucast a) OR push_bit 16 (ucast b) OR push_bit 8 (ucast c) OR ucast d"

definition bswap32 :: "u32 \<Rightarrow> u32" where
  "bswap32 w = of_be (ucast w) (ucast (drop_bit 8 w)) (ucast (drop_bit 16 w)) (ucast (drop_bit 24 w))"

text \<open>The C library's \<^verbatim>\<open>htonl\<close> and \<^verbatim>\<open>ntohl\<close>, and \<^verbatim>\<open>htons\<close> for the port.\<close>

definition htonl :: "endian \<Rightarrow> u32 \<Rightarrow> u32" where
  "htonl e w = (case e of Big \<Rightarrow> w | Little \<Rightarrow> bswap32 w)"

definition ntohl :: "endian \<Rightarrow> u32 \<Rightarrow> u32" where
  "ntohl e w = (case e of Big \<Rightarrow> w | Little \<Rightarrow> bswap32 w)"

definition htons :: "endian \<Rightarrow> u16 \<Rightarrow> u16" where
  "htons e w = (case e of Big \<Rightarrow> w
     | Little \<Rightarrow> push_bit 8 w OR drop_bit 8 w)"

text \<open>A 32-bit field in memory.\<close>

definition store32 :: "endian \<Rightarrow> u32 \<Rightarrow> byte list" where
  "store32 e w = (case e of Big \<Rightarrow> be_bytes w | Little \<Rightarrow> rev (be_bytes w))"

definition load32 :: "endian \<Rightarrow> byte \<Rightarrow> byte \<Rightarrow> byte \<Rightarrow> byte \<Rightarrow> u32" where
  "load32 e a b c d = (case e of Big \<Rightarrow> of_be a b c d | Little \<Rightarrow> of_be d c b a)"

section \<open>The packet\<close>

text \<open>
  \<^verbatim>\<open>precision\<close> and \<^verbatim>\<open>root_delay\<close> are signed in the source; both are kept
  as words, read with \<open>sint\<close>.
\<close>

record ntp_packet =
  li_vn_mode :: u8
  stratum :: u8
  poll :: u8
  precision :: u8
  root_delay :: u32
  root_dispersion :: u32
  reference_identifier :: u32
  reference_timestamp :: ntp_time_t
  originate_timestamp :: ntp_time_t
  receive_timestamp :: ntp_time_t
  transmit_timestamp :: ntp_time_t

text \<open>All fields zero, as \<^verbatim>\<open>memset\<close> leaves the structure.\<close>

definition zero_time :: ntp_time_t where
  "zero_time = \<lparr>second = 0, fraction = 0\<rparr>"

definition zero_packet :: ntp_packet where
  "zero_packet = \<lparr>li_vn_mode = 0, stratum = 0, poll = 0, precision = 0, root_delay = 0,
     root_dispersion = 0, reference_identifier = 0, reference_timestamp = zero_time,
     originate_timestamp = zero_time, receive_timestamp = zero_time,
     transmit_timestamp = zero_time\<rparr>"

definition sizeof_ntp_packet :: nat where
  "sizeof_ntp_packet = 48"

definition store_time :: "endian \<Rightarrow> ntp_time_t \<Rightarrow> byte list" where
  "store_time e t = store32 e (second t) @ store32 e (fraction t)"

definition store_packet :: "endian \<Rightarrow> ntp_packet \<Rightarrow> byte list" where
  "store_packet e p =
     [li_vn_mode p, stratum p, poll p, precision p]
     @ store32 e (root_delay p) @ store32 e (root_dispersion p) @ store32 e (reference_identifier p)
     @ store_time e (reference_timestamp p) @ store_time e (originate_timestamp p)
     @ store_time e (receive_timestamp p) @ store_time e (transmit_timestamp p)"

definition load32_at :: "endian \<Rightarrow> byte list \<Rightarrow> nat \<Rightarrow> u32" where
  "load32_at e bs i = load32 e (bs ! i) (bs ! (i + 1)) (bs ! (i + 2)) (bs ! (i + 3))"

definition load_time_at :: "endian \<Rightarrow> byte list \<Rightarrow> nat \<Rightarrow> ntp_time_t" where
  "load_time_at e bs i = \<lparr>second = load32_at e bs i, fraction = load32_at e bs (i + 4)\<rparr>"

definition load_packet :: "endian \<Rightarrow> byte list \<Rightarrow> ntp_packet" where
  "load_packet e bs = \<lparr>li_vn_mode = bs ! 0, stratum = bs ! 1, poll = bs ! 2, precision = bs ! 3,
     root_delay = load32_at e bs 4, root_dispersion = load32_at e bs 8,
     reference_identifier = load32_at e bs 12, reference_timestamp = load_time_at e bs 16,
     originate_timestamp = load_time_at e bs 24, receive_timestamp = load_time_at e bs 32,
     transmit_timestamp = load_time_at e bs 40\<rparr>"

section \<open>Laws of the byte order functions\<close>

lemma ucast_byte_parts [simp]:
  "ucast (of_be a b c d) = d"
  "ucast (drop_bit 8 (of_be a b c d)) = c"
  "ucast (drop_bit 16 (of_be a b c d)) = b"
  "ucast (drop_bit 24 (of_be a b c d)) = a"
  by (rule bit_word_eqI; auto simp: of_be_def bit_simps dest: bit_imp_le_length)+

lemma of_be_parts [simp]:
  "of_be (ucast (drop_bit 24 w)) (ucast (drop_bit 16 w)) (ucast (drop_bit 8 w)) (ucast w) = w"
proof (rule bit_word_eqI)
  fix n assume "n < LENGTH(32)"
  then consider "n < 8" | "8 \<le> n" "n < 16" | "16 \<le> n" "n < 24" | "24 \<le> n" "n < 32" by fastforce
  then show "bit (of_be (ucast (drop_bit 24 w)) (ucast (drop_bit 16 w)) (ucast (drop_bit 8 w)) (ucast w)) n
      \<longleftrightarrow> bit w n"
    by cases (auto simp: of_be_def bit_simps)
qed

lemma be_bytes_of_be [wire_simps]: "be_bytes (of_be a b c d) = [a, b, c, d]"
  by (simp add: be_bytes_def)

lemma length_be_bytes [simp]: "length (be_bytes w) = 4"
  by (simp add: be_bytes_def)

lemma bswap32_bswap32 [simp]: "bswap32 (bswap32 w) = w"
  by (simp add: bswap32_def)

text \<open>
  The interface the senders and receivers rely on: the two conversions undo one another, and
  a converted word in memory is the big-endian form of the value.
\<close>

locale byte_order =
  fixes hton :: "u32 \<Rightarrow> u32" and ntoh :: "u32 \<Rightarrow> u32" and mem :: "u32 \<Rightarrow> byte list"
  assumes ntoh_hton: "ntoh (hton x) = x"
    and hton_ntoh: "hton (ntoh x) = x"
    and mem_hton: "mem (hton x) = be_bytes x"
begin

lemma hton_eq_iff: "hton x = hton y \<longleftrightarrow> x = y"
  by (metis ntoh_hton)

lemma hton_injective: "hton x = y \<longleftrightarrow> x = ntoh y"
  by (metis ntoh_hton hton_ntoh)

lemma wire_of_field: "mem y = be_bytes (ntoh y)"
  by (metis mem_hton hton_ntoh)

end

interpretation net: byte_order "htonl e" "ntohl e" "store32 e" for e
  by unfold_locales
    (auto simp: htonl_def ntohl_def store32_def bswap32_def be_bytes_of_be
      be_bytes_def split: endian.splits)

lemmas [simp] = net.ntoh_hton net.hton_ntoh net.hton_eq_iff

lemma htonl_0 [simp]: "htonl e 0 = 0"
  by (cases e) (simp_all add: htonl_def bswap32_def of_be_def)

lemma htonl_eq_0 [simp]: "htonl e x = 0 \<longleftrightarrow> x = 0"
  using net.hton_eq_iff [of e x 0] by simp

section \<open>Storing and loading\<close>

lemma length_store32 [simp]: "length (store32 e w) = 4"
  by (cases e) (simp_all add: store32_def)

lemma length_store_packet [simp]: "length (store_packet e p) = sizeof_ntp_packet"
  by (simp add: store_packet_def store_time_def sizeof_ntp_packet_def)

lemma store32_elems: "store32 e w = (case e of
     Big \<Rightarrow> [ucast (drop_bit 24 w), ucast (drop_bit 16 w), ucast (drop_bit 8 w), ucast w]
   | Little \<Rightarrow> [ucast w, ucast (drop_bit 8 w), ucast (drop_bit 16 w), ucast (drop_bit 24 w)])"
  by (simp add: store32_def be_bytes_def split: endian.split)

lemma load32_store32_at:
  assumes "length xs = i"
  shows "load32_at e (xs @ store32 e w @ ys) i = w"
  using assms by (cases e) (simp_all add: load32_at_def load32_def store32_elems nth_append)

lemma load_time_store_time_at:
  assumes "length xs = i"
  shows "load_time_at e (xs @ store_time e t @ ys) i = t"
  using load32_store32_at [OF assms, of e "second t" "store32 e (fraction t) @ ys"]
    load32_store32_at [of "xs @ store32 e (second t)" "i + 4" e "fraction t" ys] assms
  by (simp add: load_time_at_def store_time_def)

lemma load_store_packet: "load_packet e (store_packet e p @ ys) = p"
  by (cases e) (simp_all add: load_packet_def load_time_at_def load32_at_def load32_def
      store_packet_def store_time_def store32_elems)

lemma load_store_packet_id [simp]: "load_packet e (store_packet e p) = p"
  using load_store_packet [of e p "[]"] by simp

lemma store_load32: "store32 e (load32 e a b c d) = [a, b, c, d]"
  by (cases e) (simp_all add: load32_def store32_elems)

lemma upt_48: "[0..<48] =
      [0, 1, 2, 3, 4, 5, 6, 7, 8, 9, 10, 11, 12, 13, 14, 15, 16, 17, 18, 19, 20, 21, 22, 23, 24,
       25, 26, 27, 28, 29, 30, 31, 32, 33, 34, 35, 36, 37, 38, 39, 40, 41, 42, 43, 44, 45, 46,
       47]"
  by code_simp

lemma list_48_nth: "length bs = 48 \<Longrightarrow> map ((!) bs) [0..<48] = bs"
  using map_nth [of bs] by simp

lemma store_load_packet: "length bs = sizeof_ntp_packet \<Longrightarrow> store_packet e (load_packet e bs) = bs"
  using list_48_nth [of bs]
  by (simp add: store_packet_def load_packet_def store_time_def load_time_at_def load32_at_def
      store_load32 sizeof_ntp_packet_def upt_48)

section \<open>Packets between hosts\<close>

text \<open>
  A packet written by a host of byte order \<open>e2\<close> and read by one of byte order \<open>e1\<close>: the
  bytes of the first word stay, every 32-bit field is read as the other side converted it.
\<close>

definition recode32 :: "endian \<Rightarrow> endian \<Rightarrow> u32 \<Rightarrow> u32" where
  "recode32 e1 e2 x = htonl e1 (ntohl e2 x)"

definition recode_time :: "endian \<Rightarrow> endian \<Rightarrow> ntp_time_t \<Rightarrow> ntp_time_t" where
  "recode_time e1 e2 t = \<lparr>second = recode32 e1 e2 (second t), fraction = recode32 e1 e2 (fraction t)\<rparr>"

definition recode :: "endian \<Rightarrow> endian \<Rightarrow> ntp_packet \<Rightarrow> ntp_packet" where
  "recode e1 e2 p = \<lparr>li_vn_mode = li_vn_mode p, stratum = stratum p, poll = poll p,
     precision = precision p, root_delay = recode32 e1 e2 (root_delay p),
     root_dispersion = recode32 e1 e2 (root_dispersion p),
     reference_identifier = recode32 e1 e2 (reference_identifier p),
     reference_timestamp = recode_time e1 e2 (reference_timestamp p),
     originate_timestamp = recode_time e1 e2 (originate_timestamp p),
     receive_timestamp = recode_time e1 e2 (receive_timestamp p),
     transmit_timestamp = recode_time e1 e2 (transmit_timestamp p)\<rparr>"

definition ntoh_time :: "endian \<Rightarrow> ntp_time_t \<Rightarrow> ntp_time_t" where
  "ntoh_time e t = \<lparr>second = ntohl e (second t), fraction = ntohl e (fraction t)\<rparr>"

lemma load_store_other: "load_packet e1 (store_packet e2 p) = recode e1 e2 p"
  by (cases e1; cases e2)
    (simp_all add: load_packet_def load_time_at_def load32_at_def load32_def recode_def
      recode_time_def recode32_def htonl_def ntohl_def bswap32_def store_packet_def store_time_def store32_elems)

lemma recode_recode_time [wire_simps]: "recode_time e1 e2 (recode_time e2 e1 t) = t"
  by (simp add: recode_time_def recode32_def)

lemma ntoh_recode_time [wire_simps]: "ntoh_time e1 (recode_time e1 e2 t) = ntoh_time e2 t"
  by (simp add: recode_time_def recode32_def ntoh_time_def)

lemma recode_time_zero [wire_simps]: "recode_time e1 e2 t = zero_time \<longleftrightarrow> t = zero_time"
proof -
  have "ntohl e2 x = 0 \<longleftrightarrow> x = 0" for x using net.hton_injective [of e2 0 x] by auto
  then show ?thesis by (cases t) (simp add: recode_time_def recode32_def zero_time_def)
qed



end
