(* ===== verification/SNTP_Tools.thy ===== *)
theory SNTP_Tools
  imports NTP_Packet
begin

text \<open>
  The functions of \<^verbatim>\<open>sntptools.c\<close> that the client and the server share, the socket
  and output helpers of \<^verbatim>\<open>reusedlib.c\<close>, and the operating system they run on.

  The operating system is a parameter: an \<open>os_env\<close> gives the outcome of every system call
  as a function of the number of calls made before (\<open>tick\<close>), so a theorem about all
  environments covers every clock, every network and every failure. The state that the calls
  change is a \<open>world\<close>: the call counter, the static buffer of \<^verbatim>\<open>inet_ntoa\<close>,
  and the trace of what was printed and sent.
\<close>

section \<open>Addresses\<close>

text \<open>
  \<^verbatim>\<open>struct in_addr\<close> as its four bytes in memory, which are in network order.
\<close>

datatype in_addr = In_Addr byte byte byte byte

record sockaddr_in =
  sin_family :: nat
  sin_port :: u16
  sin_addr :: in_addr

definition AF_INET :: nat where
  "AF_INET = 2"

definition INADDR_ANY :: in_addr where
  "INADDR_ANY = In_Addr 0 0 0 0"

fun dotted :: "in_addr \<Rightarrow> string" where
  "dotted (In_Addr a b c d) =
     digits (unat a) @ ''.'' @ digits (unat b) @ ''.'' @ digits (unat c) @ ''.'' @ digits (unat d)"

text \<open>
  A \<^verbatim>\<open>char *\<close> the program keeps: a string of its own, or the address of the static
  buffer of \<^verbatim>\<open>inet_ntoa\<close>, whose contents every later call replaces.
\<close>

datatype cstr = Lit string | Ntoa_Buf

record host_info =
  name :: "cstr option"
  addr :: sockaddr_in

definition zero_sockaddr :: sockaddr_in where
  "zero_sockaddr = \<lparr>sin_family = 0, sin_port = 0, sin_addr = INADDR_ANY\<rparr>"

section \<open>The operating system\<close>

datatype recv_result = Recv_Error | Datagram "byte list" sockaddr_in

record os_env =
  clock :: "nat \<Rightarrow> timeval"
  recv :: "nat \<Rightarrow> recv_result"
  send_ok :: "nat \<Rightarrow> bool"
  socket_ok :: "nat \<Rightarrow> bool"
  setsockopt_ok :: "nat \<Rightarrow> bool"
  bind_ok :: "nat \<Rightarrow> bool"
  host_by_addr :: "in_addr \<Rightarrow> (string \<times> in_addr) option"
  host_by_name :: "string \<Rightarrow> in_addr option"
  host_endian :: endian

datatype event = Out io_event | Sent nat "byte list" sockaddr_in | Joined in_addr | Closed

record world =
  tick :: nat
  ntoa_buf :: string
  trace :: "event list"

definition step_tick :: "world \<Rightarrow> world" where
  "step_tick w = w\<lparr>tick := Suc (tick w)\<rparr>"

definition emit :: "event \<Rightarrow> world \<Rightarrow> world" where
  "emit ev w = w\<lparr>trace := trace w @ [ev]\<rparr>"

definition cstr_val :: "world \<Rightarrow> cstr \<Rightarrow> string" where
  "cstr_val w p = (case p of Lit s \<Rightarrow> s | Ntoa_Buf \<Rightarrow> ntoa_buf w)"

definition inet_ntoa :: "in_addr \<Rightarrow> world \<Rightarrow> cstr \<times> world" where
  "inet_ntoa a w = (Ntoa_Buf, w\<lparr>ntoa_buf := dotted a\<rparr>)"

definition gettimeofday :: "os_env \<Rightarrow> world \<Rightarrow> timeval \<times> world" where
  "gettimeofday env w = (clock env (tick w), step_tick w)"

definition printf :: "string \<Rightarrow> world \<Rightarrow> world" where
  "printf s w = emit (Out (Stdout s)) w"

definition eprintf :: "string \<Rightarrow> world \<Rightarrow> world" where
  "eprintf s w = emit (Out (Stderr s)) w"

section \<open>reusedlib.c: output and socket options\<close>

text \<open>\<^verbatim>\<open>vsnprintf\<close> keeps at most 4095 characters of the message.\<close>

definition print_debug :: "int \<Rightarrow> string \<Rightarrow> world \<Rightarrow> world" where
  "print_debug enable_debug msg w =
     (if enable_debug \<noteq> 1 then w
      else printf (''DEBUG: '' @ take 4095 msg @ NL) w)"

definition setsockopt :: "os_env \<Rightarrow> world \<Rightarrow> bool \<times> world" where
  "setsockopt env w = (setsockopt_ok env (tick w), step_tick w)"

definition set_socket_recvfrom_timeout :: "os_env \<Rightarrow> int \<Rightarrow> int \<Rightarrow> world \<Rightarrow> int \<times> world" where
  "set_socket_recvfrom_timeout env seconds debug w =
     (let (ok, w1) = setsockopt env w in (if ok then 0 else 1, w1))"

section \<open>sntptools.c\<close>

definition get_ntp_time_of_day :: "os_env \<Rightarrow> world \<Rightarrow> ntp_time_t \<times> world" where
  "get_ntp_time_of_day env w =
     (let (ts_unix, w1) = gettimeofday env w in (convert_unix_time_into_ntp_time ts_unix, w1))"

definition MAXBUFLEN :: nat where
  "MAXBUFLEN = 200"

text \<open>
  \<^verbatim>\<open>recvfrom\<close> may store up to \<^verbatim>\<open>MAXBUFLEN - 1\<close> bytes at the packet, which
  has 48: a longer datagram runs over the end of the structure, and from there on the
  behaviour of the program is undefined. The outcome \<open>Recv_Overrun\<close> carries the number of
  bytes written past the end.
\<close>

datatype recv_outcome = Recv_Failed | Recv_Overrun nat | Recv_Ok ntp_packet sockaddr_in timeval

definition recv_bytes :: "byte list \<Rightarrow> byte list" where
  "recv_bytes bs = take (MAXBUFLEN - 1) bs"

definition pad_packet :: "byte list \<Rightarrow> byte list" where
  "pad_packet bs = bs @ replicate (sizeof_ntp_packet - length bs) 0"

definition recieve_SNTP_packet :: "os_env \<Rightarrow> int \<Rightarrow> world \<Rightarrow> recv_outcome \<times> world" where
  "recieve_SNTP_packet env debug w =
     (case recv env (tick w) of
        Recv_Error \<Rightarrow> (Recv_Failed, print_debug debug ''socket recv timeout'' (step_tick w))
      | Datagram bs from \<Rightarrow>
          if sizeof_ntp_packet < length (recv_bytes bs)
          then (Recv_Overrun (length (recv_bytes bs) - sizeof_ntp_packet), step_tick w)
          else
            (let (dest_time, w1) = gettimeofday env (step_tick w);
                 (p, w2) = inet_ntoa (sin_addr from) w1
             in (Recv_Ok (load_packet (host_endian env) (pad_packet (recv_bytes bs))) from dest_time,
                 print_debug debug (''got packet from '' @ cstr_val w2 p) w2)))"

definition send_SNTP_packet ::
    "os_env \<Rightarrow> ntp_packet \<Rightarrow> sockaddr_in \<Rightarrow> int \<Rightarrow> world \<Rightarrow> int \<times> world" where
  "send_SNTP_packet env pkt to debug w =
     (if \<not> send_ok env (tick w)
      then (1, print_debug debug ''error with sending packet'' (step_tick w))
      else
        (let w1 = step_tick (emit (Sent (tick w) (store_packet (host_endian env) pkt) to) w);
             (p, w2) = inet_ntoa (sin_addr to) w1
         in (0, print_debug debug
                  (''sent '' @ fmt_d (int sizeof_ntp_packet) @ '' bytes to '' @ cstr_val w2 p) w2)))"

section \<open>What the calls change\<close>

definition sends :: "event list \<Rightarrow> (nat \<times> byte list \<times> sockaddr_in) list" where
  "sends tr = List.map_filter (\<lambda>ev. case ev of Sent k bs a \<Rightarrow> Some (k, bs, a) | _ \<Rightarrow> None) tr"

lemma sends_append [env_simps]: "sends (xs @ ys) = sends xs @ sends ys"
  by (simp add: sends_def map_filter_def)

lemma sends_simps [env_simps]:
  "sends [] = []" "sends [Out x] = []" "sends [Sent k bs a] = [(k, bs, a)]"
  "sends [Joined m] = []" "sends [Closed] = []"
  by (simp_all add: sends_def map_filter_def)

lemma printf_effects [env_simps]:
  "tick (printf s w) = tick w" "ntoa_buf (printf s w) = ntoa_buf w"
  "sends (trace (printf s w)) = sends (trace w)"
  "tick (eprintf s w) = tick w" "ntoa_buf (eprintf s w) = ntoa_buf w"
  "sends (trace (eprintf s w)) = sends (trace w)"
  by (simp_all add: printf_def eprintf_def emit_def env_simps)

lemma print_debug_effects [env_simps]:
  "tick (print_debug d s w) = tick w" "ntoa_buf (print_debug d s w) = ntoa_buf w"
  "sends (trace (print_debug d s w)) = sends (trace w)"
  by (simp_all add: print_debug_def env_simps)

lemma step_tick_effects [env_simps]:
  "tick (step_tick w) = Suc (tick w)" "ntoa_buf (step_tick w) = ntoa_buf w" "trace (step_tick w) = trace w"
  by (simp_all add: step_tick_def)

lemma emit_effects [env_simps]:
  "tick (emit ev w) = tick w" "ntoa_buf (emit ev w) = ntoa_buf w" "trace (emit ev w) = trace w @ [ev]"
  by (simp_all add: emit_def)

lemma print_debug_off [simp]: "print_debug 0 s w = w"
  by (simp add: print_debug_def)

lemma recv_failed_iff [env_simps]:
  "fst (recieve_SNTP_packet env d w) = Recv_Failed \<longleftrightarrow> recv env (tick w) = Recv_Error"
  by (simp add: recieve_SNTP_packet_def Let_def split: recv_result.split prod.split)

lemma length_recv_bytes [simp]: "length (recv_bytes bs) = min (length bs) 199"
  by (simp add: recv_bytes_def MAXBUFLEN_def)

lemma length_pad_packet: "length bs \<le> sizeof_ntp_packet \<Longrightarrow> length (pad_packet bs) = sizeof_ntp_packet"
  by (simp add: pad_packet_def)

lemma recv_ok_iff:
  "fst (recieve_SNTP_packet env d w) = Recv_Ok pkt from t \<longleftrightarrow>
     (\<exists>bs. recv env (tick w) = Datagram bs from \<and> length bs \<le> sizeof_ntp_packet
        \<and> pkt = load_packet (host_endian env) (pad_packet bs) \<and> t = clock env (Suc (tick w)))"
  by (auto simp: recieve_SNTP_packet_def Let_def gettimeofday_def inet_ntoa_def env_simps
      sizeof_ntp_packet_def recv_bytes_def MAXBUFLEN_def split: recv_result.split)

lemma recieve_effects [env_simps]:
  "sends (trace (snd (recieve_SNTP_packet env d w))) = sends (trace w)"
  "tick w < tick (snd (recieve_SNTP_packet env d w))"
  by (simp_all add: recieve_SNTP_packet_def Let_def gettimeofday_def inet_ntoa_def env_simps
      split: recv_result.split)

lemma recieve_eq_effects:
  "recieve_SNTP_packet env d w = (r, w1) \<Longrightarrow> sends (trace w1) = sends (trace w) \<and> tick w < tick w1"
  using recieve_effects [where env = env and d = d and w = w] by simp

lemma recv_ok_buffer:
  "recieve_SNTP_packet env d w = (Recv_Ok pkt from t, w') \<Longrightarrow> ntoa_buf w' = dotted (sin_addr from)"
  by (auto simp: recieve_SNTP_packet_def Let_def gettimeofday_def inet_ntoa_def env_simps
      split: recv_result.splits if_splits)

lemma send_effects [env_simps]:
  "fst (send_SNTP_packet env pkt to d w) = (if send_ok env (tick w) then 0 else 1)"
  "sends (trace (snd (send_SNTP_packet env pkt to d w))) = sends (trace w)
     @ (if send_ok env (tick w) then [(tick w, store_packet (host_endian env) pkt, to)] else [])"
  "tick (snd (send_SNTP_packet env pkt to d w)) = Suc (tick w)"
  by (simp_all add: send_SNTP_packet_def Let_def inet_ntoa_def env_simps)


text \<open>
  A concrete environment for examples: a clock that advances one second per call, a network
  on which every call but \<^verbatim>\<open>recvfrom\<close> succeeds, and a resolver that knows nothing.
\<close>

definition quiet_env :: os_env where
  "quiet_env = \<lparr>clock = (\<lambda>n. \<lparr>tv_sec = 1700000000 + int n, tv_usec = 0\<rparr>), recv = (\<lambda>_. Recv_Error),
     send_ok = (\<lambda>_. True), socket_ok = (\<lambda>_. True), setsockopt_ok = (\<lambda>_. True), bind_ok = (\<lambda>_. True),
     host_by_addr = (\<lambda>_. None), host_by_name = (\<lambda>_. None), host_endian = Little\<rparr>"

definition world0 :: world where
  "world0 = \<lparr>tick = 0, ntoa_buf = [], trace = []\<rparr>"

definition peer :: sockaddr_in where
  "peer = \<lparr>sin_family = AF_INET, sin_port = 123, sin_addr = In_Addr 192 0 2 1\<rparr>"


end
