(* ===== verification/SNTP_Server.thy ===== *)
theory SNTP_Server
  imports SNTP_Tools
begin

text \<open>
  The server of \<^verbatim>\<open>sntpserver.c\<close>: initialisation, the check of a request, the reply,
  and the endless loop of \<^verbatim>\<open>main\<close>, one iteration as a function and the loop as a step
  relation. Reading the settings is in the theory of the settings.
\<close>

section \<open>Data\<close>

record sntp_request =
  client :: host_info
  pkt :: ntp_packet
  time_of_request :: ntp_time_t

record server_settings =
  srv_server_port :: int
  srv_debug :: int
  srv_manycast_enabled :: int
  srv_manycast_address :: string

section \<open>Fields of the first byte\<close>

text \<open>Leap indicator, version and mode share the first byte of the packet.\<close>

definition mode_of :: "u8 \<Rightarrow> int" where
  "mode_of b = uint (b AND 7)"

definition version_of :: "u8 \<Rightarrow> int" where
  "version_of b = uint (drop_bit 3 b AND 7)"

section \<open>Operations\<close>

definition create_reply_packet :: "os_env \<Rightarrow> sntp_request \<Rightarrow> world \<Rightarrow> ntp_packet \<times> world" where
  "create_reply_packet env c_req w =
     (let req_version = version_of (li_vn_mode (pkt c_req));
          (transmit_ts_ntp, w1) = get_ntp_time_of_day env w
      in (zero_packet
           \<lparr>li_vn_mode := push_bit 3 (word_of_int req_version) OR 4,
            stratum := 2,
            poll := poll (pkt c_req),
            precision := word_of_int (- 5),
            originate_timestamp :=
              \<lparr>second = second (transmit_timestamp (pkt c_req)),
               fraction = fraction (transmit_timestamp (pkt c_req))\<rparr>,
            receive_timestamp :=
              \<lparr>second = htonl (host_endian env) (second (time_of_request c_req)),
               fraction = htonl (host_endian env) (fraction (time_of_request c_req))\<rparr>,
            transmit_timestamp :=
              \<lparr>second = htonl (host_endian env) (second transmit_ts_ntp),
               fraction = htonl (host_endian env) (fraction transmit_ts_ntp)\<rparr>\<rparr>, w1))"

definition check_packet :: "sntp_request \<Rightarrow> int \<Rightarrow> world \<Rightarrow> int \<times> world" where
  "check_packet c_req debug w =
     (let mode = mode_of (li_vn_mode (pkt c_req));
          vn = version_of (li_vn_mode (pkt c_req));
          msg_strt = ''check failed failed on -''
      in if mode \<noteq> 3
         then (1, print_debug debug
                (msg_strt @ '' packet is not of mode client 3(mode='' @ fmt_d mode @ '')'') w)
         else if vn < 1 \<or> vn > 4
         then (1, print_debug debug
                (msg_strt @ '' packet version is not in range 1 to 4(vn='' @ fmt_d vn @ '')'') w)
         else (0, w))"

definition initialise_server :: "os_env \<Rightarrow> int \<Rightarrow> int \<Rightarrow> world \<Rightarrow> (int \<times> sockaddr_in) \<times> world" where
  "initialise_server env port debug w =
     (let w1 = step_tick w in
      if \<not> socket_ok env (tick w)
      then ((1, zero_sockaddr), print_debug debug ''error creating a socket'' w1)
      else
        (let (ok, w2) = setsockopt env w1 in
         if \<not> ok
         then ((1, zero_sockaddr), print_debug debug ''error setting up reuseable address'' w2)
         else
           (let my_addr = \<lparr>sin_family = AF_INET, sin_port = htons (host_endian env) (word_of_int port),
                        sin_addr = INADDR_ANY\<rparr>;
                w3 = step_tick w2
            in if \<not> bind_ok env (tick w2)
               then ((1, my_addr), print_debug debug ''error binding to socket'' w3)
               else ((0, my_addr), w3))))"

text \<open>
  \<^verbatim>\<open>inet_addr\<close> of the C library is a parameter here; the address it returns is the
  group that is joined.
\<close>

definition setup_manycast ::
    "os_env \<Rightarrow> (string \<Rightarrow> in_addr) \<Rightarrow> string \<Rightarrow> int \<Rightarrow> world \<Rightarrow> int \<times> world" where
  "setup_manycast env inet_addr manycast_address debug w =
     (let (ok, w1) = setsockopt env w in
      if \<not> ok then (1, print_debug debug ''unable to setup socket for manycast'' w1)
      else (0, emit (Joined (inet_addr manycast_address)) w1))"

section \<open>The loop of main\<close>

datatype loop_state = Listening | Undefined nat

definition server_iteration :: "os_env \<Rightarrow> server_settings \<Rightarrow> world \<Rightarrow> loop_state \<times> world" where
  "server_iteration env s_set w =
     (case recieve_SNTP_packet env (srv_debug s_set) w of
        (Recv_Failed, w1) \<Rightarrow>
          (Listening, eprintf (''error while listening for requests'' @ NL) w1)
      | (Recv_Overrun n, w1) \<Rightarrow> (Undefined n, w1)
      | (Recv_Ok request from request_t_unix, w1) \<Rightarrow>
          (let (p, w2) = inet_ntoa (sin_addr from) w1;
               w3 = printf (''recieved a packet from '' @ cstr_val w2 p @ NL) w2;
               client_req = \<lparr>client = \<lparr>name = None, addr = from\<rparr>, pkt = request,
                  time_of_request = convert_unix_time_into_ntp_time request_t_unix\<rparr>;
               (chk, w4) = check_packet client_req (srv_debug s_set) w3
           in if chk \<noteq> 0
              then (let (p, w5) = inet_ntoa (sin_addr from) w4
                    in (Listening, eprintf (''packet check failed, ignoring request for ''
                                     @ cstr_val w5 p @ NL) w5))
              else
                (let (reply_pkt, w5) = create_reply_packet env client_req w4;
                     (sent, w6) = send_SNTP_packet env reply_pkt from (srv_debug s_set) w5
                 in if sent = 0
                    then (let (p, w7) = inet_ntoa (sin_addr from) w6
                          in (Listening, printf (''succesffuly sent reply packet to ''
                                           @ cstr_val w7 p @ NL) w7))
                    else (Listening, w6))))"

text \<open>\<^verbatim>\<open>main\<close> up to the loop: \<open>Inl\<close> is the exit status, \<open>Inr\<close> the state that enters the loop.\<close>

definition server_start ::
    "os_env \<Rightarrow> (string \<Rightarrow> in_addr) \<Rightarrow> server_settings \<Rightarrow> world \<Rightarrow> (int + loop_state) \<times> world" where
  "server_start env inet_addr s_set w =
     (let ((rc, _), w1) = initialise_server env (srv_server_port s_set) (srv_debug s_set) w in
      if rc \<noteq> 0 then (Inl 1, eprintf (''error initialising server'' @ NL) w1)
      else if srv_manycast_enabled s_set \<noteq> 0 then
        (let (mc, w2) = setup_manycast env inet_addr (srv_manycast_address s_set) (srv_debug s_set) w1 in
         if mc \<noteq> 0 then (Inl 1, eprintf (''error setting up socket for manycast'' @ NL) w2)
         else (Inr Listening, w2))
      else (Inr Listening, w1))"

inductive server_step :: "os_env \<Rightarrow> server_settings \<Rightarrow> loop_state \<times> world \<Rightarrow> loop_state \<times> world \<Rightarrow> bool"
  for env s_set where
  iteration: "server_iteration env s_set w = st \<Longrightarrow> server_step env s_set (Listening, w) st"

inductive_cases server_step_from: "server_step env s_set (l, w) st"

inductive server_reachable ::
    "os_env \<Rightarrow> (string \<Rightarrow> in_addr) \<Rightarrow> server_settings \<Rightarrow> loop_state \<times> world \<Rightarrow> bool"
  for env ia s_set where
  start: "server_start env ia s_set \<lparr>tick = 0, ntoa_buf = [], trace = []\<rparr> = (Inr l, w) \<Longrightarrow>
     server_reachable env ia s_set (l, w)"
| step: "server_reachable env ia s_set st \<Longrightarrow> server_step env s_set st st' \<Longrightarrow>
     server_reachable env ia s_set st'"

section \<open>Bits of the first byte\<close>

lemma mode_of_range: "0 \<le> mode_of b \<and> mode_of b \<le> 7"
proof -
  have "b AND 7 \<le> 7" by (rule word_and_le1)
  then have "uint (b AND 7) \<le> uint (7 :: u8)" by (simp add: word_le_def)
  then show ?thesis by (simp add: mode_of_def)
qed

lemma version_of_range: "0 \<le> version_of b \<and> version_of b \<le> 7"
  using mode_of_range [of "drop_bit 3 b"] by (simp add: version_of_def mode_of_def)

lemma word_of_version: "word_of_int (version_of b) = drop_bit 3 b AND (7 :: u8)"
  by (simp add: version_of_def)

lemma four_bits: "bit (4 :: int) n \<longleftrightarrow> n = 2"
  using bit_exp_iff [of 2 n, where 'a = int] by auto

lemma seven_bits: "bit (7 :: int) n \<longleftrightarrow> n < 3"
  using bit_mask_iff [of 3 n, where 'a = int] by (simp add: mask_eq_exp_minus_1)

lemma reply_mode: "mode_of (push_bit 3 v OR 4) = 4"
proof -
  have "(push_bit 3 v OR 4) AND 7 = (4 :: u8)"
    by (rule bit_word_eqI) (auto simp: bit_and_iff bit_or_iff bit_push_bit_iff bit_drop_bit_eq four_bits seven_bits)
  then show ?thesis by (simp add: mode_of_def)
qed

lemma reply_version: "version_of (push_bit 3 (word_of_int (version_of b)) OR 4) = version_of b"
proof -
  have "drop_bit 3 (push_bit 3 (drop_bit 3 b AND 7) OR 4) AND 7 = drop_bit 3 b AND (7 :: u8)"
    by (rule bit_word_eqI) (auto simp: bit_and_iff bit_or_iff bit_push_bit_iff bit_drop_bit_eq four_bits seven_bits)
  then show ?thesis by (simp add: version_of_def)
qed

section \<open>The reply\<close>

text \<open>
  What a client may expect of a reply: server mode, its own version, a stratum of a
  synchronised secondary server, its transmit time echoed, and nothing in the fields the
  server does not fill.
\<close>

definition answers :: "ntp_packet \<Rightarrow> ntp_packet \<Rightarrow> bool" where
  "answers req rep \<longleftrightarrow>
     mode_of (li_vn_mode rep) = 4 \<and> version_of (li_vn_mode rep) = version_of (li_vn_mode req)
     \<and> stratum rep = 2 \<and> poll rep = poll req
     \<and> originate_timestamp rep = transmit_timestamp req
     \<and> root_delay rep = 0 \<and> root_dispersion rep = 0 \<and> reference_identifier rep = 0
     \<and> reference_timestamp rep = zero_time"

definition accepts_request :: "ntp_packet \<Rightarrow> bool" where
  "accepts_request req \<longleftrightarrow> mode_of (li_vn_mode req) = 3
     \<and> 1 \<le> version_of (li_vn_mode req) \<and> version_of (li_vn_mode req) \<le> 4"

lemma check_packet_iff: "fst (check_packet r d w) = 0 \<longleftrightarrow> accepts_request (pkt r)"
  by (auto simp: check_packet_def accepts_request_def Let_def)

lemma check_packet_effects [env_simps]:
  "tick (snd (check_packet r d w)) = tick w"
  "sends (trace (snd (check_packet r d w))) = sends (trace w)"
  by (simp_all add: check_packet_def Let_def env_simps)

lemma check_packet_code: "fst (check_packet r d w) = 0 \<or> fst (check_packet r d w) = 1"
  by (simp add: check_packet_def Let_def)

lemma get_ntp_time_of_day_simps [env_simps]:
  "fst (get_ntp_time_of_day env w) = convert_unix_time_into_ntp_time (clock env (tick w))"
  "snd (get_ntp_time_of_day env w) = step_tick w"
  by (simp_all add: get_ntp_time_of_day_def gettimeofday_def)

lemma create_reply_simps:
  "snd (create_reply_packet env r w) = step_tick w"
  "answers (pkt r) (fst (create_reply_packet env r w))"
  "ntoh_time (host_endian env) (receive_timestamp (fst (create_reply_packet env r w))) = time_of_request r"
  "ntoh_time (host_endian env) (transmit_timestamp (fst (create_reply_packet env r w)))
     = convert_unix_time_into_ntp_time (clock env (tick w))"
  by (simp_all add: create_reply_packet_def Let_def case_prod_unfold env_simps answers_def
      reply_mode reply_version zero_packet_def ntoh_time_def)

section \<open>One iteration\<close>

text \<open>The request an iteration sees, and the reply it builds for it.\<close>

definition request_at :: "os_env \<Rightarrow> nat \<Rightarrow> byte list \<Rightarrow> sockaddr_in \<Rightarrow> sntp_request" where
  "request_at env k bs from = \<lparr>client = \<lparr>name = None, addr = from\<rparr>,
     pkt = load_packet (host_endian env) (pad_packet bs),
     time_of_request = convert_unix_time_into_ntp_time (clock env (Suc k))\<rparr>"

definition reply_at :: "os_env \<Rightarrow> nat \<Rightarrow> byte list \<Rightarrow> sockaddr_in \<Rightarrow> ntp_packet" where
  "reply_at env k bs from =
     fst (create_reply_packet env (request_at env k bs from)
       \<lparr>tick = Suc (Suc k), ntoa_buf = [], trace = []\<rparr>)"

lemma create_reply_depends: "tick w = tick w' \<Longrightarrow>
    fst (create_reply_packet env r w) = fst (create_reply_packet env r w')"
  by (simp add: create_reply_packet_def get_ntp_time_of_day_def gettimeofday_def)

text \<open>The datagram an iteration answers, if it answers one.\<close>

definition served :: "os_env \<Rightarrow> nat \<Rightarrow> (byte list \<times> sockaddr_in) option" where
  "served env k = (case recv env k of
       Recv_Error \<Rightarrow> None
     | Datagram bs from \<Rightarrow>
         if length bs \<le> sizeof_ntp_packet
            \<and> accepts_request (load_packet (host_endian env) (pad_packet bs))
            \<and> send_ok env (Suc (Suc (Suc k)))
         then Some (bs, from) else None)"

lemma server_iteration_sends:
  "sends (trace (snd (server_iteration env s w))) = sends (trace w) @
     (case served env (tick w) of None \<Rightarrow> []
      | Some (bs, from) \<Rightarrow> [(Suc (Suc (Suc (tick w))),
          store_packet (host_endian env) (reply_at env (tick w) bs from), from)])"
proof (cases "recv env (tick w)")
  case Recv_Error
  then show ?thesis
    by (simp add: server_iteration_def recieve_SNTP_packet_def served_def env_simps)
next
  case (Datagram bs a)
  show ?thesis
  proof (cases "length bs \<le> sizeof_ntp_packet")
    case False
    then show ?thesis using Datagram
      by (simp add: server_iteration_def recieve_SNTP_packet_def served_def env_simps
          sizeof_ntp_packet_def min_def)
  next
    case True
    then have take: "recv_bytes bs = bs" by (simp add: recv_bytes_def MAXBUFLEN_def sizeof_ntp_packet_def)
    show ?thesis using Datagram True check_packet_iff [of "request_at env (tick w) bs a"]
      by (auto simp: server_iteration_def recieve_SNTP_packet_def take Let_def case_prod_unfold
          gettimeofday_def inet_ntoa_def served_def env_simps create_reply_simps reply_at_def
          request_at_def intro!: arg_cong [of _ _ "store_packet (host_endian env)"] create_reply_depends)
  qed
qed

lemma server_iteration_tick: "tick w < tick (snd (server_iteration env s w))"
  "served env (tick w) \<noteq> None \<Longrightarrow> Suc (Suc (Suc (tick w))) < tick (snd (server_iteration env s w))"
  by (auto simp: server_iteration_def recieve_SNTP_packet_def served_def Let_def case_prod_unfold
      gettimeofday_def inet_ntoa_def env_simps create_reply_simps check_packet_iff
      sizeof_ntp_packet_def recv_bytes_def MAXBUFLEN_def
      split: recv_result.splits if_splits)

lemma server_iteration_undefined:
  "fst (server_iteration env s w) = Undefined n \<longleftrightarrow>
     (\<exists>bs a. recv env (tick w) = Datagram bs a \<and> 48 < length bs \<and> n = min (length bs) 199 - 48)"
  by (auto simp: server_iteration_def recieve_SNTP_packet_def Let_def case_prod_unfold
      gettimeofday_def inet_ntoa_def sizeof_ntp_packet_def split: recv_result.splits if_splits)

section \<open>Every reachable state\<close>

text \<open>The account the trace gives of one reply.\<close>

definition good_reply :: "os_env \<Rightarrow> nat \<times> byte list \<times> sockaddr_in \<Rightarrow> bool" where
  "good_reply env r = (case r of (k, bs, to) \<Rightarrow>
     \<exists>j req. k = j + 3 \<and> recv env j = Datagram req to \<and> length req \<le> 48
       \<and> accepts_request (load_packet (host_endian env) (pad_packet req))
       \<and> length bs = 48
       \<and> answers (load_packet (host_endian env) (pad_packet req)) (load_packet (host_endian env) bs)
       \<and> ntoh_time (host_endian env) (receive_timestamp (load_packet (host_endian env) bs))
           = convert_unix_time_into_ntp_time (clock env (j + 1))
       \<and> ntoh_time (host_endian env) (transmit_timestamp (load_packet (host_endian env) bs))
           = convert_unix_time_into_ntp_time (clock env (j + 2)))"

definition trace_inv :: "os_env \<Rightarrow> world \<Rightarrow> bool" where
  "trace_inv env w \<longleftrightarrow> (\<forall>r \<in> set (sends (trace w)). good_reply env r \<and> fst r < tick w)
     \<and> sorted_wrt (<) (map fst (sends (trace w)))"

lemma served_good_reply:
  assumes "served env k = Some (bs, a)"
  shows "good_reply env (Suc (Suc (Suc k)), store_packet (host_endian env) (reply_at env k bs a), a)"
proof -
  have d: "recv env k = Datagram bs a" "length bs \<le> 48"
    "accepts_request (load_packet (host_endian env) (pad_packet bs))"
    using assms by (auto simp: served_def sizeof_ntp_packet_def split: recv_result.splits if_splits)
  note r = create_reply_simps [where env = env and r = "request_at env k bs a"
      and w = "\<lparr>tick = Suc (Suc k), ntoa_buf = [], trace = []\<rparr>"]
  have "load_packet (host_endian env) (store_packet (host_endian env) (reply_at env k bs a))
      = reply_at env k bs a"
    by simp
  then show ?thesis using d r
    by (auto simp: good_reply_def reply_at_def request_at_def sizeof_ntp_packet_def intro!: exI [of _ k])
qed

lemma trace_inv_iteration:
  assumes "trace_inv env w"
  shows "trace_inv env (snd (server_iteration env s w))"
proof (cases "served env (tick w)")
  case None
  then have "sends (trace (snd (server_iteration env s w))) = sends (trace w)"
    by (simp add: server_iteration_sends)
  then show ?thesis
    using assms server_iteration_tick(1) [of w env s] by (fastforce simp: trace_inv_def)
next
  case (Some x)
  obtain bs a where x: "x = (bs, a)" by (cases x)
  let ?r = "(Suc (Suc (Suc (tick w))), store_packet (host_endian env) (reply_at env (tick w) bs a), a)"
  have "sends (trace (snd (server_iteration env s w))) = sends (trace w) @ [?r]"
    using Some by (simp add: server_iteration_sends x)
  moreover have "good_reply env ?r" using Some by (intro served_good_reply) (simp add: x)
  moreover have "fst ?r < tick (snd (server_iteration env s w))"
    using server_iteration_tick(2) Some by simp
  ultimately show ?thesis
    using assms server_iteration_tick(1) [of w env s] by (fastforce simp: trace_inv_def sorted_wrt_append)
qed

lemma server_start_inv:
  assumes "server_start env ia s \<lparr>tick = 0, ntoa_buf = [], trace = []\<rparr> = (Inr l, w)"
  shows "trace_inv env w \<and> l = Listening"
  using assms
  by (auto simp: server_start_def initialise_server_def setup_manycast_def setsockopt_def Let_def
      case_prod_unfold env_simps trace_inv_def split: if_splits)

lemma reachable_trace_inv: "server_reachable env ia s st \<Longrightarrow> trace_inv env (snd st)"
proof (induction rule: server_reachable.induct)
  case (start l w)
  then show ?case using server_start_inv by fastforce
next
  case (step st st')
  then obtain w where "st = (Listening, w)" "server_iteration env s w = st'"
    by (auto elim: server_step.cases)
  then show ?case using step.IH trace_inv_iteration [of env w s] by simp
qed

text \<open>
  C3. Whatever the clock, the network and the clients do, every datagram the server has sent
  in a reachable state is a 48-byte reply to one datagram it received before: it goes to the
  sender of that datagram, which was a request of client mode and version 1 to 4; it carries
  server mode, the version and the poll interval of the request, stratum 2, the request's
  transmit time as originate time, and as receive and transmit time the two clock readings
  taken after the datagram arrived. No request is answered twice.
\<close>

theorem server_only_answers:
  assumes "server_reachable env ia s (l, w)"
  shows "(\<forall>r \<in> set (sends (trace w)). good_reply env r) \<and> distinct (map fst (sends (trace w)))"
  using reachable_trace_inv [OF assms]
  by (auto simp: trace_inv_def strict_sorted_iff)

text \<open>A client that sends one request, and the server's view of it.\<close>

definition demo_request :: ntp_packet where
  "demo_request = zero_packet\<lparr>li_vn_mode := 35, transmit_timestamp := \<lparr>second = 1, fraction = 2\<rparr>\<rparr>"

definition demo_env :: os_env where
  "demo_env = quiet_env\<lparr>recv := \<lambda>_. Datagram (store_packet Little demo_request) peer\<rparr>"

definition demo_settings :: server_settings where
  "demo_settings = \<lparr>srv_server_port = 6001, srv_debug = 0, srv_manycast_enabled = 0,
     srv_manycast_address = ''224.0.1.1''\<rparr>"

lemma demo_served: "served demo_env k = Some (store_packet Little demo_request, peer)"
proof -
  have "accepts_request demo_request"
    by (simp add: accepts_request_def demo_request_def mode_of_def version_of_def)
  then show ?thesis by (simp add: served_def demo_env_def quiet_env_def pad_packet_def)
qed

lemma demo_reachable:
  "\<exists>w. server_reachable demo_env ia demo_settings (Listening, w) \<and> length (sends (trace w)) = 1"
proof -
  let ?w0 = "\<lparr>tick = 3, ntoa_buf = [], trace = []\<rparr>"
  have "server_start demo_env ia demo_settings \<lparr>tick = 0, ntoa_buf = [], trace = []\<rparr> = (Inr Listening, ?w0)"
    by (simp add: server_start_def initialise_server_def setsockopt_def demo_env_def demo_settings_def
        quiet_env_def step_tick_def)
  then have r0: "server_reachable demo_env ia demo_settings (Listening, ?w0)" by (rule server_reachable.start)
  let ?st = "server_iteration demo_env demo_settings ?w0"
  have "length (sends (trace (snd ?st))) = 1"
    using server_iteration_sends [of demo_env demo_settings ?w0] by (simp add: demo_served env_simps)
  moreover have "fst ?st = Listening"
    using server_iteration_undefined [of demo_env demo_settings ?w0]
    by (cases "fst ?st") (auto simp: demo_env_def sizeof_ntp_packet_def)
  moreover have "server_reachable demo_env ia demo_settings ?st"
    by (rule server_reachable.step [OF r0]) (rule server_step.iteration, simp)
  ultimately show ?thesis by (metis prod.collapse)
qed

theorem server_only_answers_witness:
  "\<exists>w :: world. length (sends (trace w)) = 1 \<and> (\<forall>r \<in> set (sends (trace w)). good_reply demo_env r)"
proof -
  obtain w where "server_reachable demo_env (\<lambda>_. INADDR_ANY) demo_settings (Listening, w)"
    and "length (sends (trace w)) = 1" using demo_reachable by blast
  with server_only_answers show ?thesis by blast
qed

text \<open>
  C13. An iteration of the loop that receives a request of at most 48 bytes with client mode
  and version 1 to 4 answers it, if the send succeeds, and keeps listening; and the loop is
  left only through a datagram of more than 48 bytes, with undefined behaviour.
\<close>

theorem server_iteration_behaviour:
  "(served env (tick w) = Some (bs, a) \<longrightarrow>
      sends (trace (snd (server_iteration env s w))) =
        sends (trace w) @ [(tick w + 3, store_packet (host_endian env) (reply_at env (tick w) bs a), a)])
   \<and> (served env (tick w) = None \<longrightarrow> sends (trace (snd (server_iteration env s w))) = sends (trace w))
   \<and> (fst (server_iteration env s w) = Listening \<longleftrightarrow>
        (\<forall>bs a. recv env (tick w) = Datagram bs a \<longrightarrow> length bs \<le> 48))"
proof -
  have "fst (server_iteration env s w) = Listening \<longleftrightarrow> (\<nexists>n. fst (server_iteration env s w) = Undefined n)"
    by (cases "fst (server_iteration env s w)") simp_all
  then show ?thesis by (auto simp: server_iteration_sends server_iteration_undefined)
qed

theorem server_iteration_behaviour_witness:
  "length (sends (trace (snd (server_iteration demo_env demo_settings world0)))) = 1
   \<and> fst (server_iteration demo_env demo_settings world0) = Listening"
proof -
  have "served demo_env (tick world0) = Some (store_packet Little demo_request, peer)"
    by (rule demo_served)
  then show ?thesis
    using server_iteration_behaviour [of demo_env world0 "store_packet Little demo_request" peer demo_settings]
    by (simp add: demo_env_def world0_def env_simps sizeof_ntp_packet_def)
qed

end
