(* ===== verification/SNTP_Client.thy ===== *)
theory SNTP_Client
  imports SNTP_Server
begin

text \<open>
  The parts of \<^verbatim>\<open>sntpclient.c\<close> that look at one exchange of packets: the request, the
  sanity checks on a reply, the time stamps it carries, the clock offset and the error bound
  in double arithmetic, and the printing of a result.
\<close>

section \<open>Data\<close>

record core_ts =
  ts_originate_timestamp :: timeval
  ts_receive_timestamp :: timeval
  ts_transmit_timestamp :: timeval
  ts_destination_timestamp :: timeval

record client_settings =
  server_host :: cstr
  server_port :: int
  debug :: int
  recv_uni_timeout :: int
  max_unicast_retries :: int
  poll_wait :: int
  timed_repeat_updates_enabled :: int
  timed_repeat_updates_limit :: int
  manycast_enabled :: int
  manycast_wait_time :: int
  manycast_address :: string

section \<open>The request and the reply\<close>

definition create_packet :: "os_env \<Rightarrow> world \<Rightarrow> ntp_packet \<times> world" where
  "create_packet env w =
     (let (transmit_ts_ntp, w1) = get_ntp_time_of_day env w
      in (zero_packet
           \<lparr>li_vn_mode := push_bit 3 4 OR 3,
            transmit_timestamp :=
              \<lparr>second = htonl (host_endian env) (second transmit_ts_ntp),
               fraction = htonl (host_endian env) (fraction transmit_ts_ntp)\<rparr>\<rparr>, w1))"

definition run_sanity_checks ::
    "ntp_packet \<Rightarrow> ntp_packet \<Rightarrow> int \<Rightarrow> world \<Rightarrow> int \<times> world" where
  "run_sanity_checks req_pkt rep_pkt dbg w =
     (let rep_mode = mode_of (li_vn_mode rep_pkt);
          req_version = version_of (li_vn_mode req_pkt);
          rep_version = version_of (li_vn_mode rep_pkt);
          error_msg = ''sanity checks failed on -''
      in if second (transmit_timestamp req_pkt) \<noteq> second (originate_timestamp rep_pkt)
            \<or> fraction (transmit_timestamp req_pkt) \<noteq> fraction (originate_timestamp rep_pkt)
         then (1, print_debug dbg (error_msg @ '' originate time in the server reply does not ''
                    @ ''match the transmit time in the request.'') w)
         else if uint (stratum rep_pkt) < 0 \<or> uint (stratum rep_pkt) > 15
         then (1, print_debug dbg (error_msg @ '' stratum is not in range 0 to 15(stratum=''
                    @ fmt_d (uint (stratum rep_pkt)) @ '')'') w)
         else if second (transmit_timestamp rep_pkt) = 0 \<and> fraction (transmit_timestamp rep_pkt) = 0
         then (1, print_debug dbg (error_msg @ '' transmit time of reply packet is zero'') w)
         else if rep_mode \<noteq> 4
         then (1, print_debug dbg (error_msg @ '' mode of reply packet is not server(mode=''
                    @ fmt_d rep_mode @ '')'') w)
         else if req_version \<noteq> rep_version
         then (1, print_debug dbg (error_msg @ '' server should be of the same version ''
                    @ ''as the client'') w)
         else (0, w))"

definition get_timestamps_from_packet_in_epoch_time ::
    "endian \<Rightarrow> ntp_packet \<Rightarrow> core_ts \<Rightarrow> core_ts" where
  "get_timestamps_from_packet_in_epoch_time e p ts =
     ts\<lparr>ts_originate_timestamp := convert_ntp_time_into_unix_time
          \<lparr>second = ntohl e (second (originate_timestamp p)),
           fraction = ntohl e (fraction (originate_timestamp p))\<rparr>,
        ts_receive_timestamp := convert_ntp_time_into_unix_time
          \<lparr>second = ntohl e (second (receive_timestamp p)),
           fraction = ntohl e (fraction (receive_timestamp p))\<rparr>,
        ts_transmit_timestamp := convert_ntp_time_into_unix_time
          \<lparr>second = ntohl e (second (transmit_timestamp p)),
           fraction = ntohl e (fraction (transmit_timestamp p))\<rparr>\<rparr>"

section \<open>Offset and error bound\<close>

text \<open>The expression \<^verbatim>\<open>tv_sec + (1.0e-6 * tv_usec)\<close>.\<close>

definition dbl_seconds :: "timeval \<Rightarrow> dbl" where
  "dbl_seconds t = dadd (dbl_of_int (tv_sec t)) (dmul one_e_m6 (dbl_of_int (tv_usec t)))"

definition calculate_clock_offset :: "core_ts \<Rightarrow> dbl" where
  "calculate_clock_offset ts =
     (let t1 = dbl_seconds (ts_originate_timestamp ts);
          t2 = dbl_seconds (ts_receive_timestamp ts);
          t3 = dbl_seconds (ts_transmit_timestamp ts);
          t4 = dbl_seconds (ts_destination_timestamp ts)
      in ddiv (dadd (dsub t2 t1) (dsub t3 t4)) (dbl_of_int 2))"

definition calculate_error_bound :: "core_ts \<Rightarrow> dbl" where
  "calculate_error_bound ts =
     (let t1 = dbl_seconds (ts_originate_timestamp ts);
          t2 = dbl_seconds (ts_receive_timestamp ts);
          t3 = dbl_seconds (ts_transmit_timestamp ts);
          t4 = dbl_seconds (ts_destination_timestamp ts)
      in dsub (dsub t4 t1) (dsub t3 t2))"

section \<open>Printing\<close>

text \<open>The conversion \<^verbatim>\<open>%f\<close>: six decimals of the exact binary value, ties to even.\<close>

definition fmt_f :: "dbl \<Rightarrow> string" where
  "fmt_f d =
     (let n = nat (if 0 \<le> expo d then \<bar>mant d\<bar> * 10 ^ 6 * 2 ^ nat (expo d)
                   else rne_shift (nat (- expo d)) (\<bar>mant d\<bar> * 10 ^ 6))
      in (if mant d < 0 then ''-'' else []) @ digits (n div 10 ^ 6) @ ''.''
         @ fmt_0d 6 (int (n mod 10 ^ 6)))"

text \<open>
  \<^verbatim>\<open>localtime\<close> and \<^verbatim>\<open>strftime\<close> of the C library are the parameter
  \<open>local_time\<close>: the formatted local time of a number of seconds.
\<close>

definition convert_epoch_time_to_human_readable :: "(int \<Rightarrow> string) \<Rightarrow> timeval \<Rightarrow> string" where
  "convert_epoch_time_to_human_readable local_time epoch_time =
     local_time (tv_sec epoch_time) @ ''.'' @ fmt_0d 6 (tv_usec epoch_time)"

definition print_server_results ::
    "(int \<Rightarrow> string) \<Rightarrow> timeval \<Rightarrow> dbl \<Rightarrow> dbl \<Rightarrow> host_info \<Rightarrow> int \<Rightarrow> world \<Rightarrow> world" where
  "print_server_results local_time transmit_time offset error_bound cn strat w =
     (let time_str = convert_epoch_time_to_human_readable local_time transmit_time;
          w1 = printf (time_str @ '' (+0000) '' @ fmt_f offset @ '' +/- '' @ fmt_f error_bound @ '' '') w;
          w2 = (case name cn of None \<Rightarrow> w1 | Some p \<Rightarrow> printf (cstr_val w1 p @ '' '') w1);
          (p, w3) = inet_ntoa (sin_addr (addr cn)) w2
      in printf (cstr_val w3 p @ '' s'' @ fmt_d strat @ '' no-leap'' @ NL) w3)"

definition print_error_message :: "int \<Rightarrow> world \<Rightarrow> world" where
  "print_error_message error_code w =
     eprintf (''error -'' @
       (if error_code = 2 then '' server not found''
        else if error_code = 3 then '' failed to create socket''
        else if error_code = 4 then '' max number of retries hit''
        else if error_code = 5 then '' sending manycast request packet''
        else if error_code = 6 then '' no servers found from manycast query''
        else if error_code = 7 then '' cant set ttl for manycast request''
        else if error_code = 8 then '' cant set recv timeout for socket''
        else '' unknown(code='' @ fmt_d error_code @ '')'') @ NL) w"

section \<open>The sanity checks\<close>

text \<open>What a reply must look like to be believed.\<close>

definition trusted_reply :: "ntp_packet \<Rightarrow> ntp_packet \<Rightarrow> bool" where
  "trusted_reply req rep \<longleftrightarrow>
     originate_timestamp rep = transmit_timestamp req
     \<and> uint (stratum rep) \<le> 15
     \<and> transmit_timestamp rep \<noteq> zero_time
     \<and> mode_of (li_vn_mode rep) = 4
     \<and> version_of (li_vn_mode rep) = version_of (li_vn_mode req)"

lemma sanity_zero_iff: "fst (run_sanity_checks req rep d w) = 0 \<longleftrightarrow> trusted_reply req rep"
  by (auto simp: run_sanity_checks_def trusted_reply_def Let_def zero_time_def)

lemma sanity_effects [env_simps]:
  "tick (snd (run_sanity_checks req rep d w)) = tick w"
  "ntoa_buf (snd (run_sanity_checks req rep d w)) = ntoa_buf w"
  "sends (trace (snd (run_sanity_checks req rep d w))) = sends (trace w)"
  by (simp_all add: run_sanity_checks_def Let_def env_simps)

lemma create_packet_simps:
  "snd (create_packet env w) = step_tick w"
  "mode_of (li_vn_mode (fst (create_packet env w))) = 3"
  "version_of (li_vn_mode (fst (create_packet env w))) = 4"
  "ntoh_time (host_endian env) (transmit_timestamp (fst (create_packet env w)))
     = convert_unix_time_into_ntp_time (clock env (tick w))"
  by (simp_all add: create_packet_def Let_def case_prod_unfold env_simps zero_packet_def ntoh_time_def
      mode_of_def version_of_def)

lemma accepts_created: "accepts_request (fst (create_packet env w))"
  by (simp add: accepts_request_def create_packet_simps)

section \<open>The client against the server\<close>

text \<open>
  What the client relies on when it talks to a server: a request the server accepts is
  answered. The replies of any such server pass the sanity checks.
\<close>

locale responder =
  fixes accepts :: "ntp_packet \<Rightarrow> bool" and reply :: "ntp_packet \<Rightarrow> ntp_packet"
  assumes reply_answers: "accepts req \<Longrightarrow> answers req (reply req)"
begin

lemma reply_trusted:
  assumes "accepts req" "transmit_timestamp (reply req) \<noteq> zero_time"
  shows "trusted_reply req (reply req)"
  using reply_answers [OF assms(1)] assms(2) by (simp add: answers_def trusted_reply_def)

text \<open>The same across two byte orders, client \<open>e1\<close> and server \<open>e2\<close>.\<close>

lemma reply_trusted_wire:
  assumes acc: "accepts (recode e2 e1 req)"
    and nz: "transmit_timestamp (reply (recode e2 e1 req)) \<noteq> zero_time"
  shows "trusted_reply req (recode e1 e2 (reply (recode e2 e1 req)))"
  using reply_answers [OF acc] nz
  by (auto simp: answers_def trusted_reply_def recode_def wire_simps)

end

definition server_reply :: "os_env \<Rightarrow> ntp_time_t \<Rightarrow> world \<Rightarrow> ntp_packet \<Rightarrow> ntp_packet" where
  "server_reply env t w req = fst (create_reply_packet env
     \<lparr>client = \<lparr>name = None, addr = zero_sockaddr\<rparr>, pkt = req, time_of_request = t\<rparr> w)"

lemma server_reply_answers: "answers req (server_reply env t w req)"
  using create_reply_simps(2) [where env = env and w = w and
      r = "\<lparr>client = \<lparr>name = None, addr = zero_sockaddr\<rparr>, pkt = req, time_of_request = t\<rparr>"]
  by (simp add: server_reply_def)

interpretation srv: responder accepts_request "server_reply env t w" for env t w
  by unfold_locales (rule server_reply_answers)

lemma reply_at_server_reply:
  "reply_at env k bs a = server_reply env (convert_unix_time_into_ntp_time (clock env (Suc k)))
     \<lparr>tick = Suc (Suc k), ntoa_buf = [], trace = []\<rparr> (load_packet (host_endian env) (pad_packet bs))"
  by (simp add: reply_at_def request_at_def server_reply_def create_reply_packet_def)

lemma accepts_recode: "accepts_request (recode e1 e2 p) \<longleftrightarrow> accepts_request p"
  by (simp add: accepts_request_def recode_def)

lemma pad_store [simp]: "pad_packet (store_packet e p) = store_packet e p"
  by (simp add: pad_packet_def)

lemma zero_ntoh_time: "t = zero_time \<longleftrightarrow> ntoh_time e t = zero_time"
  using net.hton_injective [of e 0] by (cases t) (auto simp: ntoh_time_def zero_time_def)

lemma request_served:
  assumes "recv es k = Datagram (store_packet (host_endian ec) (fst (create_packet ec wc))) a"
    and "send_ok es (k + 3)"
  shows "served es k = Some (store_packet (host_endian ec) (fst (create_packet ec wc)), a)"
  using assms by (simp add: served_def load_store_other accepts_recode accepts_created eval_nat_numeral)

lemma reply_transmit:
  "ntoh_time (host_endian es) (transmit_timestamp (reply_at es k bs a))
     = convert_unix_time_into_ntp_time (clock es (Suc (Suc k)))"
  "ntoh_time (host_endian es) (receive_timestamp (reply_at es k bs a))
     = convert_unix_time_into_ntp_time (clock es (Suc k))"
  by (simp_all add: reply_at_def create_reply_simps) (simp add: request_at_def)

text \<open>
  C2. The client and the server of the repository understand each other. Take a request the
  client builds on a host of any byte order and put it on the wire; a server on a host of any
  byte order that receives the 48 bytes accepts it, and the 48 bytes it sends back pass the
  client's sanity checks, unless the server's clock reads as the NTP time zero. The three time
  stamps the client takes from the reply are its own clock when it built the request and the
  server's clock after receiving it and before answering, each sent through the conversions.
\<close>

theorem client_server_exchange:
  assumes req: "req = fst (create_packet ec wc)"
    and arrives: "recv es k = Datagram (store_packet (host_endian ec) req) from"
    and sendable: "send_ok es (k + 3)"
    and clock_set: "convert_unix_time_into_ntp_time (clock es (k + 2)) \<noteq> zero_time"
    and rep: "rep = load_packet (host_endian ec)
      (store_packet (host_endian es) (reply_at es k (store_packet (host_endian ec) req) from))"
  shows "served es k = Some (store_packet (host_endian ec) req, from)
    \<and> fst (run_sanity_checks req rep d w) = 0
    \<and> get_timestamps_from_packet_in_epoch_time (host_endian ec) rep ts =
       ts\<lparr>ts_originate_timestamp :=
            convert_ntp_time_into_unix_time (convert_unix_time_into_ntp_time (clock ec (tick wc))),
          ts_receive_timestamp :=
            convert_ntp_time_into_unix_time (convert_unix_time_into_ntp_time (clock es (k + 1))),
          ts_transmit_timestamp :=
            convert_ntp_time_into_unix_time (convert_unix_time_into_ntp_time (clock es (k + 2)))\<rparr>"
proof -
  let ?e1 = "host_endian ec" and ?e2 = "host_endian es"
  let ?r = "reply_at es k (store_packet ?e1 req) from"
  have acc: "accepts_request (recode ?e2 ?e1 req)" by (simp add: accepts_recode req accepts_created)
  have tx: "ntoh_time ?e2 (transmit_timestamp ?r) = convert_unix_time_into_ntp_time (clock es (k + 2))"
    and rx: "ntoh_time ?e2 (receive_timestamp ?r) = convert_unix_time_into_ntp_time (clock es (k + 1))"
    using reply_transmit by simp_all
  then have "transmit_timestamp ?r \<noteq> zero_time" using clock_set zero_ntoh_time by metis
  then have t: "trusted_reply req rep"
    using srv.reply_trusted_wire [OF acc] unfolding rep reply_at_server_reply
    by (simp add: load_store_other)
  then have "originate_timestamp rep = transmit_timestamp req" by (simp add: trusted_reply_def)
  then have "ntoh_time ?e1 (originate_timestamp rep) = convert_unix_time_into_ntp_time (clock ec (tick wc))"
    by (simp add: req create_packet_simps)
  moreover have "ntoh_time ?e1 (receive_timestamp rep) = convert_unix_time_into_ntp_time (clock es (k + 1))"
    "ntoh_time ?e1 (transmit_timestamp rep) = convert_unix_time_into_ntp_time (clock es (k + 2))"
    using rx tx by (simp_all add: rep load_store_other recode_def wire_simps)
  ultimately show ?thesis
    using t request_served [of es k ec wc "from"] arrives sendable
    by (simp add: sanity_zero_iff req get_timestamps_from_packet_in_epoch_time_def ntoh_time_def)
qed

definition exchange_env :: os_env where
  "exchange_env = quiet_env\<lparr>host_endian := Big,
     recv := \<lambda>_. Datagram (store_packet Little (fst (create_packet quiet_env world0))) peer\<rparr>"

lemma exchange_clock_set: "convert_unix_time_into_ntp_time (clock exchange_env (k + 2)) \<noteq> zero_time"
proof -
  have "fraction (convert_unix_time_into_ntp_time (clock exchange_env (k + 2))) \<noteq> 0"
    using unix_fraction_word [of "clock exchange_env (k + 2)"]
    by (simp add: exchange_env_def quiet_env_def ref_fraction_def) (metis uint_0_eq zero_neq_numeral)
  then show ?thesis by (auto simp: zero_time_def)
qed

theorem client_server_exchange_witness:
  "fst (run_sanity_checks (fst (create_packet quiet_env world0))
     (load_packet Little (store_packet Big (reply_at exchange_env 0
        (store_packet Little (fst (create_packet quiet_env world0))) peer))) 0 world0) = 0"
proof -
  let ?req = "fst (create_packet quiet_env world0)"
  have "recv exchange_env 0 = Datagram (store_packet (host_endian quiet_env) ?req) peer"
    by (simp add: exchange_env_def quiet_env_def)
  moreover have "send_ok exchange_env (0 + 3)" by (simp add: exchange_env_def quiet_env_def)
  moreover note exchange_clock_set [of 0]
  ultimately show ?thesis
    using client_server_exchange [OF refl _ _ _ refl, of exchange_env 0 quiet_env world0 peer 0 world0 undefined]
    by (simp add: exchange_env_def quiet_env_def)
qed

end
