(* ===== verification/Clock_Offset.thy ===== *)
theory Clock_Offset
  imports SNTP_Client
begin

text \<open>
  How good the client's arithmetic is: the offset and the error bound it computes in doubles
  against the exact values, and the exact values against the true offset between the clocks.
\<close>

section \<open>Exact counterparts\<close>

definition real_time :: "timeval \<Rightarrow> real" where
  "real_time t = of_int (tv_sec t) + of_int (tv_usec t) / 1000000"

definition exact_offset :: "core_ts \<Rightarrow> real" where
  "exact_offset ts =
     ((real_time (ts_receive_timestamp ts) - real_time (ts_originate_timestamp ts))
      + (real_time (ts_transmit_timestamp ts) - real_time (ts_destination_timestamp ts))) / 2"

definition exact_delay :: "core_ts \<Rightarrow> real" where
  "exact_delay ts =
     (real_time (ts_destination_timestamp ts) - real_time (ts_originate_timestamp ts))
     - (real_time (ts_transmit_timestamp ts) - real_time (ts_receive_timestamp ts))"

definition valid_core_ts :: "core_ts \<Rightarrow> bool" where
  "valid_core_ts ts \<longleftrightarrow> valid_timeval (ts_originate_timestamp ts) \<and> valid_timeval (ts_receive_timestamp ts)
     \<and> valid_timeval (ts_transmit_timestamp ts) \<and> valid_timeval (ts_destination_timestamp ts)"

section \<open>Rounding errors step by step\<close>

text \<open>One microsecond, and the unit roundoff times the sizes that occur.\<close>

lemma roundoff_sizes:
  "4294967300 * 2 powi (- 53) \<le> (48 / 100000000 :: real)"
  "8589934600 * 2 powi (- 53) \<le> (96 / 100000000 :: real)"
  by (simp_all add: power_int_def power_one_over)

text \<open>Bounds on the size of differences, over variables so that linear arithmetic applies.\<close>

lemma diff_size:
  fixes a b x y B :: real
  shows "\<bar>a - x\<bar> \<le> 49 / 100000000 \<Longrightarrow> \<bar>b - y\<bar> \<le> 49 / 100000000 \<Longrightarrow> 0 \<le> x \<and> x \<le> 4294967297 \<Longrightarrow>
    0 \<le> y \<and> y \<le> 4294967297 \<Longrightarrow> \<bar>a - b\<bar> \<le> 4294967300"
  by (elim conjE) linarith

lemma diffs_size:
  fixes a b x y z u :: real
  assumes "\<bar>a - (x - y)\<bar> \<le> 147 / 100000000" "\<bar>b - (z - u)\<bar> \<le> 147 / 100000000"
    "0 \<le> x \<and> x \<le> 4294967297" "0 \<le> y \<and> y \<le> 4294967297"
    "0 \<le> z \<and> z \<le> 4294967297" "0 \<le> u \<and> u \<le> 4294967297"
  shows "\<bar>a + b\<bar> \<le> 8589934600" "\<bar>a - b\<bar> \<le> 8589934600"
  using assms(1,2) assms(3-6) [THEN conjunct1] assms(3-6) [THEN conjunct2] by linarith+

lemma halve_error:
  fixes a x :: real
  shows "\<bar>a - 2 * x\<bar> \<le> 4 / 1000000 \<Longrightarrow> \<bar>a / 2 - x\<bar> \<le> 2 / 1000000"
  by linarith

lemma bound_combine:
  fixes a b x y z :: real
  shows "\<bar>a - x\<bar> \<le> 2 / 1000000 \<Longrightarrow> \<bar>b - y\<bar> \<le> 4 / 1000000 \<Longrightarrow> \<bar>x - z\<bar> \<le> y / 2 \<Longrightarrow>
    \<bar>a - z\<bar> \<le> b / 2 + 4 / 1000000"
  by linarith

lemma three_errors:
  fixes a x c :: real
  shows "\<bar>a - x\<bar> \<le> 147 / 100000000 + 147 / 100000000 + c \<Longrightarrow> c \<le> 96 / 100000000 \<Longrightarrow> \<bar>a - x\<bar> \<le> 4 / 1000000"
  by linarith

lemma dsub_abs:
  assumes "\<bar>dval a - x\<bar> \<le> ea" "\<bar>dval b - y\<bar> \<le> eb" "\<bar>dval a - dval b\<bar> \<le> B"
  shows "\<bar>dval (dsub a b) - (x - y)\<bar> \<le> ea + eb + B * 2 powi (- 53)"
  using rel_to_abs [OF dsub_error assms(3)] assms(1,2) by linarith

lemma dadd_abs:
  assumes "\<bar>dval a - x\<bar> \<le> ea" "\<bar>dval b - y\<bar> \<le> eb" "\<bar>dval a + dval b\<bar> \<le> B"
  shows "\<bar>dval (dadd a b) - (x + y)\<bar> \<le> ea + eb + B * 2 powi (- 53)"
  using rel_to_abs [OF dadd_error assms(3)] assms(1,2) by linarith

lemma microseconds_error:
  assumes "0 \<le> u" "u < 1000000"
  shows "\<bar>dval (dmul one_e_m6 (dbl_of_int u)) - of_int u / 1000000\<bar> \<le> 1 / 1000000000"
proof -
  define p where "p = dval one_e_m6 * dval (dbl_of_int u)"
  have U: "0 \<le> real_of_int u" "real_of_int u \<le> 1000000" using assms by simp_all
  have p: "p = of_int u * (4722366482869645 / 2 ^ 72)"
    using assms by (simp add: p_def dbl_of_int_exact one_e_m6_def) (simp add: dval_def power_int_def power_one_over)
  have "\<bar>p\<bar> \<le> 1" using U by (simp add: p abs_mult)
  then have "\<bar>dval (dmul one_e_m6 (dbl_of_int u)) - p\<bar> \<le> 1 * 2 powi (- 53)"
    using rel_to_abs [OF dmul_error] by (simp only: p_def)
  moreover have "p - of_int u / 1000000 = of_int u * (- 213696 / (2 ^ 72 * 10 ^ 6))"
    by (simp add: p field_simps)
  then have "\<bar>p - of_int u / 1000000\<bar> \<le> 1 / 10000000000" using U by (simp add: abs_mult)
  moreover have "(1::real) * 2 powi (- 53) + 1 / 10000000000 \<le> 1 / 1000000000"
    by (simp add: power_int_def power_one_over)
  ultimately show ?thesis by linarith
qed

lemma valid_timeval_real:
  assumes "valid_timeval t"
  shows "0 \<le> real_of_int (tv_sec t)" "real_of_int (tv_sec t) \<le> 4294967296"
    "0 \<le> real_of_int (tv_usec t) / 1000000" "real_of_int (tv_usec t) / 1000000 \<le> 1"
  using assms by (simp_all add: valid_timeval_def)

lemma sum_size:
  fixes a b x y :: real
  shows "\<bar>a - x\<bar> \<le> 0 \<Longrightarrow> \<bar>b - y\<bar> \<le> 1 / 1000000000 \<Longrightarrow> 0 \<le> x \<Longrightarrow> x \<le> 4294967296 \<Longrightarrow> 0 \<le> y \<Longrightarrow> y \<le> 1 \<Longrightarrow>
    \<bar>a + b\<bar> \<le> 4294967300"
  by linarith

lemma stamp_errors:
  fixes a x c :: real
  shows "\<bar>a - x\<bar> \<le> 0 + 1 / 1000000000 + c \<Longrightarrow> c \<le> 48 / 100000000 \<Longrightarrow> \<bar>a - x\<bar> \<le> 49 / 100000000"
  by linarith

lemma dbl_seconds_error:
  assumes "valid_timeval t"
  shows "\<bar>dval (dbl_seconds t) - real_time t\<bar> \<le> 49 / 100000000"
proof -
  have u: "0 \<le> tv_usec t" "tv_usec t < 1000000" "\<bar>tv_sec t\<bar> < 2 ^ 53"
    using assms by (simp_all add: valid_timeval_def)
  have e: "\<bar>dval (dbl_of_int (tv_sec t)) - of_int (tv_sec t)\<bar> \<le> 0" using u(3) by (simp add: dbl_of_int_exact)
  note m = microseconds_error [OF u(1,2)]
  have "\<bar>dval (dbl_of_int (tv_sec t)) + dval (dmul one_e_m6 (dbl_of_int (tv_usec t)))\<bar> \<le> 4294967300"
    by (rule sum_size [OF e m valid_timeval_real [OF assms]])
  from stamp_errors [OF dadd_abs [OF e m this] roundoff_sizes(1)]
  show ?thesis by (simp only: dbl_seconds_def real_time_def)
qed

lemma real_time_range: "valid_timeval t \<Longrightarrow> 0 \<le> real_time t \<and> real_time t \<le> 4294967297"
  using valid_timeval_real [of t] by (simp add: real_time_def)

lemma dbl_seconds_diff_error:
  assumes "valid_timeval s" "valid_timeval t"
  shows "\<bar>dval (dsub (dbl_seconds t) (dbl_seconds s)) - (real_time t - real_time s)\<bar> \<le> 147 / 100000000"
proof -
  note es = dbl_seconds_error [OF assms(1)] and et = dbl_seconds_error [OF assms(2)]
  have "\<bar>dval (dbl_seconds t) - dval (dbl_seconds s)\<bar> \<le> 4294967300"
    by (rule diff_size [OF et es real_time_range [OF assms(2)] real_time_range [OF assms(1)]])
  from dsub_abs [OF et es this] roundoff_sizes(1) show ?thesis by linarith
qed

lemma round53_ops_mant:
  "\<bar>mant (dadd a b)\<bar> \<le> 2 ^ 53" "\<bar>mant (dsub a b)\<bar> \<le> 2 ^ 53"
  by (simp_all only: dadd_def dsub_def Let_def round53_mant)

lemma dval_halve: "\<bar>mant a\<bar> \<le> 2 ^ 53 \<Longrightarrow> dval (ddiv a (dbl_of_int 2)) = dval a / 2"
  using dval_ddiv_pow2 [of a 1 0] by (simp add: dbl_of_int_small) (simp add: dval_def)

lemma twice_exact_offset:
  "2 * exact_offset ts =
     (real_time (ts_receive_timestamp ts) - real_time (ts_originate_timestamp ts))
     + (real_time (ts_transmit_timestamp ts) - real_time (ts_destination_timestamp ts))"
  by (simp add: exact_offset_def)

lemma offset_error:
  assumes "valid_core_ts ts"
  shows "\<bar>dval (calculate_clock_offset ts) - exact_offset ts\<bar> \<le> 2 / 1000000"
proof -
  let ?t1 = "ts_originate_timestamp ts" and ?t2 = "ts_receive_timestamp ts"
    and ?t3 = "ts_transmit_timestamp ts" and ?t4 = "ts_destination_timestamp ts"
  have v: "valid_timeval ?t1" "valid_timeval ?t2" "valid_timeval ?t3" "valid_timeval ?t4"
    using assms by (simp_all add: valid_core_ts_def)
  note d21 = dbl_seconds_diff_error [OF v(1,2)] and d34 = dbl_seconds_diff_error [OF v(4,3)]
  let ?sum = "dadd (dsub (dbl_seconds ?t2) (dbl_seconds ?t1)) (dsub (dbl_seconds ?t3) (dbl_seconds ?t4))"
  have "\<bar>dval (dsub (dbl_seconds ?t2) (dbl_seconds ?t1)) + dval (dsub (dbl_seconds ?t3) (dbl_seconds ?t4))\<bar>
      \<le> 8589934600"
    by (rule diffs_size(1) [OF d21 d34]) (intro real_time_range v)+
  from three_errors [OF dadd_abs [OF d21 d34 this] roundoff_sizes(2)]
  have "\<bar>dval ?sum - 2 * exact_offset ts\<bar> \<le> 4 / 1000000" by (simp only: twice_exact_offset)
  moreover have "dval (calculate_clock_offset ts) = dval ?sum / 2"
    unfolding calculate_clock_offset_def Let_def by (rule dval_halve) (rule round53_ops_mant)
  ultimately show ?thesis by (simp only: halve_error)
qed

lemma bound_error:
  assumes "valid_core_ts ts"
  shows "\<bar>dval (calculate_error_bound ts) - exact_delay ts\<bar> \<le> 4 / 1000000"
proof -
  let ?t1 = "ts_originate_timestamp ts" and ?t2 = "ts_receive_timestamp ts"
    and ?t3 = "ts_transmit_timestamp ts" and ?t4 = "ts_destination_timestamp ts"
  have v: "valid_timeval ?t1" "valid_timeval ?t2" "valid_timeval ?t3" "valid_timeval ?t4"
    using assms by (simp_all add: valid_core_ts_def)
  note d41 = dbl_seconds_diff_error [OF v(1,4)] and d32 = dbl_seconds_diff_error [OF v(2,3)]
  have "\<bar>dval (dsub (dbl_seconds ?t4) (dbl_seconds ?t1)) - dval (dsub (dbl_seconds ?t3) (dbl_seconds ?t2))\<bar>
      \<le> 8589934600"
    by (rule diffs_size(2) [OF d41 d32]) (intro real_time_range v)+
  from three_errors [OF dsub_abs [OF d41 d32 this] roundoff_sizes(2)]
  show ?thesis unfolding calculate_error_bound_def exact_delay_def Let_def .
qed

section \<open>The two claims\<close>

text \<open>
  C7. For time stamps of the 32-bit era the clock offset the client computes is within two
  microseconds of the exact value of its formula, and the error bound within four.
\<close>

theorem offset_and_bound_accuracy:
  assumes "valid_core_ts ts"
  shows "\<bar>dval (calculate_clock_offset ts) - exact_offset ts\<bar> \<le> 2 / 1000000
    \<and> \<bar>dval (calculate_error_bound ts) - exact_delay ts\<bar> \<le> 4 / 1000000"
  using offset_error [OF assms] bound_error [OF assms] ..

definition demo_ts :: core_ts where
  "demo_ts = \<lparr>ts_originate_timestamp = \<lparr>tv_sec = 1700000000, tv_usec = 100000\<rparr>,
     ts_receive_timestamp = \<lparr>tv_sec = 1700000002, tv_usec = 150000\<rparr>,
     ts_transmit_timestamp = \<lparr>tv_sec = 1700000002, tv_usec = 160000\<rparr>,
     ts_destination_timestamp = \<lparr>tv_sec = 1700000000, tv_usec = 210000\<rparr>\<rparr>"

lemma demo_ts_valid: "valid_core_ts demo_ts"
  by (simp add: valid_core_ts_def demo_ts_def valid_timeval_def)

lemma demo_ts_exact: "exact_offset demo_ts = 2" "exact_delay demo_ts = 1 / 10"
  by (simp_all add: exact_offset_def exact_delay_def demo_ts_def real_time_def)

theorem offset_and_bound_accuracy_witness:
  "\<bar>dval (calculate_clock_offset demo_ts) - 2\<bar> \<le> 2 / 1000000
   \<and> \<bar>dval (calculate_error_bound demo_ts) - 1 / 10\<bar> \<le> 4 / 1000000"
  using offset_and_bound_accuracy [OF demo_ts_valid] by (simp only: demo_ts_exact)

text \<open>
  C6. The offset is right up to half the error bound. If the server's clock is ahead of the
  client's by \<open>theta\<close> and the request and the reply travel for \<open>d1\<close> and \<open>d2\<close>, neither
  negative, then the computed offset differs from \<open>theta\<close> by at most half the computed error
  bound and four microseconds of rounding, however unequal the two delays are.
\<close>

theorem offset_within_half_error_bound:
  assumes v: "valid_core_ts ts"
    and go: "real_time (ts_receive_timestamp ts) = real_time (ts_originate_timestamp ts) + theta + d1"
    and ret: "real_time (ts_destination_timestamp ts) = real_time (ts_transmit_timestamp ts) - theta + d2"
    and nonneg: "0 \<le> d1" "0 \<le> d2"
  shows "\<bar>dval (calculate_clock_offset ts) - theta\<bar> \<le> dval (calculate_error_bound ts) / 2 + 4 / 1000000"
proof -
  have "exact_offset ts = theta + (d1 - d2) / 2" "exact_delay ts = d1 + d2"
    using go ret by (simp_all add: exact_offset_def exact_delay_def)
  then have "\<bar>exact_offset ts - theta\<bar> \<le> exact_delay ts / 2" using nonneg by (simp add: abs_le_iff)
  with offset_error [OF v] bound_error [OF v] show ?thesis by (rule bound_combine)
qed

theorem offset_within_half_error_bound_witness:
  "\<bar>dval (calculate_clock_offset demo_ts) - 2\<bar> \<le> dval (calculate_error_bound demo_ts) / 2 + 4 / 1000000"
proof (rule offset_within_half_error_bound [OF demo_ts_valid, where ?d1.0 = "1 / 20" and ?d2.0 = "1 / 20"])
qed (simp_all add: demo_ts_def real_time_def)

end
