(* ===== verification/C_Text.thy ===== *)
theory C_Text
  imports SNTP_Prelude
begin

text \<open>
  The functions of the C library that read numbers from text. In glibc \<^verbatim>\<open>atoi\<close> is
  \<^verbatim>\<open>strtol\<close>, which stops at the ends of the range of \<^verbatim>\<open>long\<close>, cut to an
  \<^verbatim>\<open>int\<close>; \<^verbatim>\<open>atoll\<close> is the same function without the cut, and
  \<^verbatim>\<open>strtoul\<close> stops at the largest 64-bit number.
\<close>

definition is_space :: "char \<Rightarrow> bool" where
  "is_space c \<longleftrightarrow> (let n = (of_char c :: nat) in n = 32 \<or> 9 \<le> n \<and> n \<le> 13)"

definition digit_val :: "char \<Rightarrow> nat option" where
  "digit_val c = (let n = of_char c in if 48 \<le> n \<and> n \<le> (57 :: nat) then Some (n - 48) else None)"

text \<open>The value of the longest run of digits at the front.\<close>

fun digits_value :: "nat \<Rightarrow> string \<Rightarrow> nat" where
  "digits_value acc [] = acc"
| "digits_value acc (c # cs) =
     (case digit_val c of None \<Rightarrow> acc | Some d \<Rightarrow> digits_value (10 * acc + d) cs)"

definition strtol10 :: "string \<Rightarrow> int" where
  "strtol10 s =
     (let s1 = dropWhile is_space s;
          v = (case s1 of
                 [] \<Rightarrow> 0
               | c # cs \<Rightarrow> if c = CHR ''-'' then - int (digits_value 0 cs)
                            else if c = CHR ''+'' then int (digits_value 0 cs) else int (digits_value 0 s1))
      in max (- (2 ^ 63)) (min (2 ^ 63 - 1) v))"

definition atoi :: "string \<Rightarrow> int" where
  "atoi s = to_int32 (strtol10 s)"

definition atoll :: "string \<Rightarrow> int" where
  "atoll s = strtol10 s"

definition hex_val :: "char \<Rightarrow> nat option" where
  "hex_val c = (let n = of_char c in
     if 48 \<le> n \<and> n \<le> (57 :: nat) then Some (n - 48)
     else if 65 \<le> n \<and> n \<le> 70 then Some (n - 55)
     else if 97 \<le> n \<and> n \<le> 102 then Some (n - 87)
     else None)"

fun hex_value :: "nat \<Rightarrow> string \<Rightarrow> nat" where
  "hex_value acc [] = acc"
| "hex_value acc (c # cs) =
     (case hex_val c of None \<Rightarrow> acc | Some d \<Rightarrow> hex_value (16 * acc + d) cs)"

text \<open>Base 16, on text without blanks and sign in front; a prefix \<^verbatim>\<open>0x\<close> is skipped.\<close>

definition strtoul16 :: "string \<Rightarrow> int" where
  "strtoul16 s =
     (let t = (if take 1 s = ''0'' \<and> length s > 2 \<and> (s ! 1 = CHR ''x'' \<or> s ! 1 = CHR ''X'') \<and> hex_val (s ! 2) \<noteq> None
               then drop 2 s else s)
      in min (2 ^ 64 - 1) (int (hex_value 0 t)))"

definition to_int64 :: "int \<Rightarrow> int" where
  "to_int64 x = (x + 2 ^ 63) mod 2 ^ 64 - 2 ^ 63"

lemma digit_val_char: "d < 10 \<Longrightarrow> digit_val (char_of (48 + d)) = Some d"
  by (simp add: digit_val_def)

lemma digits_value_append:
  "(\<forall>c \<in> set xs. digit_val c \<noteq> None) \<Longrightarrow> digits_value acc (xs @ ys) = digits_value (digits_value acc xs) ys"
  by (induction xs arbitrary: acc) (auto split: option.splits)

lemma digits_are_digits: "\<forall>c \<in> set (digits n). digit_val c \<noteq> None"
proof (induction n rule: digits.induct)
  case (1 n)
  then show ?case by (subst digits.simps) (auto simp: digit_val_char)
qed

lemma digits_value_digits: "digits_value 0 (digits n) = n"
proof (induction n rule: digits.induct)
  case (1 n)
  then show ?case
    by (subst digits.simps) (simp add: digits_value_append digits_are_digits digit_val_char)
qed

lemma digits_hd: "\<exists>c cs. digits n = c # cs \<and> digit_val c \<noteq> None"
  using digits_are_digits [of n] by (cases "digits n") simp_all

text \<open>A number that was printed is read back, if an \<^verbatim>\<open>int\<close> holds it.\<close>

lemma atoi_digits:
  assumes "n < 2 ^ 31"
  shows "atoi (digits n) = int n"
proof -
  obtain c cs where c: "digits n = c # cs" "digit_val c \<noteq> None" using digits_hd by blast
  then have "\<not> is_space c" "c \<noteq> CHR ''-''" "c \<noteq> CHR ''+''"
    by (auto simp: is_space_def digit_val_def Let_def split: if_splits)
  then have "strtol10 (digits n) = max (- (2 ^ 63)) (min (2 ^ 63 - 1) (int n))"
    using digits_value_digits [of n] by (simp add: strtol10_def c)
  then have "strtol10 (digits n) = int n" using assms by simp
  then show ?thesis using assms by (simp add: atoi_def to_int32_id)
qed

end
