(* ===== verification/Client_Modes.thy ===== *)
theory Client_Modes
  imports Clock_Offset C_Text
begin

text \<open>
  The control flow of \<^verbatim>\<open>sntpclient.c\<close>: sockets and addresses, the unicast query with its
  retries and its minimum wait between requests, the manycast discovery, and \<^verbatim>\<open>main\<close>.

  The polling loops end only if the clock advances, so they take a fuel argument and return
  \<open>None\<close> when it runs out; the lemmas say which clocks make them return.
\<close>

section \<open>Addresses\<close>

fun split_on :: "char \<Rightarrow> string \<Rightarrow> string list" where
  "split_on c [] = [[]]"
| "split_on c (x # xs) =
     (if x = c then [] # split_on c xs
      else case split_on c xs of [] \<Rightarrow> [[x]] | y # ys \<Rightarrow> (x # y) # ys)"

fun decimal :: "nat \<Rightarrow> string \<Rightarrow> nat option" where
  "decimal acc [] = Some acc"
| "decimal acc (c # cs) = (case digit_val c of None \<Rightarrow> None | Some d \<Rightarrow> decimal (10 * acc + d) cs)"

text \<open>
  \<^verbatim>\<open>inet_pton\<close> for \<^verbatim>\<open>AF_INET\<close>: four decimal numbers up to 255 without
  leading zeros, separated by dots.
\<close>

definition parse_octet :: "string \<Rightarrow> byte option" where
  "parse_octet s =
     (case s of [] \<Rightarrow> None
      | c # cs \<Rightarrow> if c = CHR ''0'' \<and> cs \<noteq> [] then None
          else (case decimal 0 s of None \<Rightarrow> None
                | Some n \<Rightarrow> if n \<le> 255 then Some (of_nat n) else None))"

definition inet_pton :: "string \<Rightarrow> in_addr option" where
  "inet_pton s = (case map parse_octet (split_on CHR ''.'' s) of
       [Some a, Some b, Some c, Some d] \<Rightarrow> Some (In_Addr a b c d) | _ \<Rightarrow> None)"

section \<open>Sockets, servers, timers\<close>

definition initialise_socket :: "os_env \<Rightarrow> int \<Rightarrow> int \<Rightarrow> world \<Rightarrow> int \<times> world" where
  "initialise_socket env timeout dbg w =
     (let w1 = step_tick w in
      if \<not> socket_ok env (tick w)
      then (3, print_debug dbg (''error creating socket'' @ NL) w1)
      else
        (let (rc, w2) = set_socket_recvfrom_timeout env timeout dbg w1 in
         if rc \<noteq> 0 then (8, print_debug dbg ''error setting socket timeout'' w2)
         else (0, w2)))"

text \<open>
  The resolver's answers are part of the environment. \<open>Inl\<close> is the error code; the structure
  is filled only on success.
\<close>

definition initialise_server_interface ::
    "os_env \<Rightarrow> cstr \<Rightarrow> int \<Rightarrow> int \<Rightarrow> world \<Rightarrow> (int + host_info) \<times> world" where
  "initialise_server_interface env host port dbg w =
     (let fill = (\<lambda>nm a. \<lparr>name = Some nm, addr = \<lparr>sin_family = AF_INET,
                  sin_port = htons (host_endian env) (word_of_int port), sin_addr = a\<rparr>\<rparr>)
      in case inet_pton (cstr_val w host) of
           Some ipaddr \<Rightarrow>
             (case host_by_addr env ipaddr of
                None \<Rightarrow> (Inl 2, print_debug dbg ''unicast server not found'' w)
              | Some (h_name, h_addr) \<Rightarrow> (Inr (fill (Lit h_name) h_addr), w))
         | None \<Rightarrow>
             (case host_by_name env (cstr_val w host) of
                None \<Rightarrow> (Inl 2, print_debug dbg ''unicast server not found'' w)
              | Some h_addr \<Rightarrow> (Inr (fill host h_addr), w)))"

text \<open>
  Both arguments of the comparison are calls of \<^verbatim>\<open>inet_ntoa\<close> and return the same
  buffer. gcc evaluates the arguments from right to left.
\<close>

definition is_same_ipaddr :: "sockaddr_in \<Rightarrow> sockaddr_in \<Rightarrow> world \<Rightarrow> int \<times> world" where
  "is_same_ipaddr sent_addr reply_addr w =
     (let (p2, w1) = inet_ntoa (sin_addr sent_addr) w;
          (p1, w2) = inet_ntoa (sin_addr reply_addr) w1
      in (if cstr_val w2 p1 \<noteq> cstr_val w2 p2 then 1 else 0, w2))"

definition start_timer :: "os_env \<Rightarrow> world \<Rightarrow> timeval \<times> world" where
  "start_timer env w = gettimeofday env w"

definition elapsed :: "timeval \<Rightarrow> timeval \<Rightarrow> int" where
  "elapsed start_time end_time = to_int32 (tv_sec end_time - tv_sec start_time)"

definition get_elapsed_time :: "os_env \<Rightarrow> timeval \<Rightarrow> world \<Rightarrow> int \<times> world" where
  "get_elapsed_time env start_time w =
     (let (end_time, w1) = gettimeofday env w in (elapsed start_time end_time, w1))"

text \<open>The three debug messages of the retry loop share their form.\<close>

definition report_retry :: "os_env \<Rightarrow> client_settings \<Rightarrow> timeval \<Rightarrow> string \<Rightarrow> world \<Rightarrow> world" where
  "report_retry env c_set poll_timer what w =
     (let (el, w1) = get_elapsed_time env poll_timer w;
          rem_time = poll_wait c_set - el
      in print_debug (debug c_set) (''error '' @ what @ '', can poll again in ''
           @ fmt_d (if rem_time < 0 then 0 else rem_time) @ '' second(s).'') w1)"

section \<open>The unicast query\<close>

datatype listen_result = L_Error | L_Undefined nat | L_Reply ntp_packet timeval

text \<open>The inner loop: listen until a reply of the right server, or an error.\<close>

fun listen :: "nat \<Rightarrow> os_env \<Rightarrow> client_settings \<Rightarrow> sockaddr_in \<Rightarrow> timeval \<Rightarrow> world
    \<Rightarrow> (listen_result \<times> world) option" where
  "listen 0 env c_set server_addr poll_timer w = None"
| "listen (Suc fuel) env c_set server_addr poll_timer w =
     (case recieve_SNTP_packet env (debug c_set) w of
        (Recv_Failed, w1) \<Rightarrow>
          Some (L_Error, report_retry env c_set poll_timer ''receiving reply packet'' w1)
      | (Recv_Overrun n, w1) \<Rightarrow> Some (L_Undefined n, w1)
      | (Recv_Ok reply_pkt reply_addr dest_time, w1) \<Rightarrow>
          (let (differ, w2) = is_same_ipaddr server_addr reply_addr w1 in
           if differ \<noteq> 0 then listen fuel env c_set server_addr poll_timer w2
           else Some (L_Reply reply_pkt dest_time, w2)))"

text \<open>
  One pass of the outer loop after the wait: build and send a request, listen, check the
  reply. The second component is the timer the pass has started.
\<close>

datatype attempt = A_Retry | A_Undefined nat | A_Valid ntp_packet timeval

definition query_attempt :: "nat \<Rightarrow> os_env \<Rightarrow> client_settings \<Rightarrow> sockaddr_in \<Rightarrow> world
    \<Rightarrow> (attempt \<times> timeval \<times> world) option" where
  "query_attempt fuel env c_set server_addr w1 =
     (let (request_pkt, w2) = create_packet env w1;
          (poll_timer, w3) = start_timer env w2;
          (rc, w4) = send_SNTP_packet env request_pkt server_addr (debug c_set) w3
      in if rc \<noteq> 0
         then Some (A_Retry, poll_timer, report_retry env c_set poll_timer ''sending request packet'' w4)
         else
           (case listen fuel env c_set server_addr poll_timer w4 of
              None \<Rightarrow> None
            | Some (L_Undefined n, w5) \<Rightarrow> Some (A_Undefined n, poll_timer, w5)
            | Some (L_Error, w5) \<Rightarrow> Some (A_Retry, poll_timer, w5)
            | Some (L_Reply reply_pkt dest_time, w5) \<Rightarrow>
                (let (bad, w6) = run_sanity_checks request_pkt reply_pkt (debug c_set) w5 in
                 if bad \<noteq> 0
                 then Some (A_Retry, poll_timer,
                        report_retry env c_set poll_timer ''running sanity checks'' w6)
                 else Some (A_Valid reply_pkt dest_time, poll_timer, w6))))"

text \<open>The wait check at the head of the loop; no clock is read before the first request.\<close>

definition too_soon :: "os_env \<Rightarrow> client_settings \<Rightarrow> timeval \<Rightarrow> world \<Rightarrow> bool \<times> world" where
  "too_soon env c_set poll_timer w =
     (if tv_sec poll_timer \<noteq> - 1
      then (let (el, w1) = get_elapsed_time env poll_timer w in (el \<le> poll_wait c_set, w1))
      else (False, w))"

datatype query_result = Q_Retries timeval | Q_Undefined nat | Q_Valid ntp_packet timeval timeval

text \<open>The outer loop; \<open>retry_count\<close> and \<open>poll_timer\<close> are its variables.\<close>

fun query_loop :: "nat \<Rightarrow> os_env \<Rightarrow> client_settings \<Rightarrow> sockaddr_in \<Rightarrow> int \<Rightarrow> timeval \<Rightarrow> world
    \<Rightarrow> (query_result \<times> world) option" where
  "query_loop 0 env c_set server_addr retry_count poll_timer w = None"
| "query_loop (Suc fuel) env c_set server_addr retry_count poll_timer w =
     (if retry_count > max_unicast_retries c_set then Some (Q_Retries poll_timer, w)
      else
        (case too_soon env c_set poll_timer w of
           (True, w1) \<Rightarrow> query_loop fuel env c_set server_addr retry_count poll_timer w1
         | (False, w1) \<Rightarrow>
             (case query_attempt fuel env c_set server_addr w1 of
                None \<Rightarrow> None
              | Some (A_Retry, t, w2) \<Rightarrow> query_loop fuel env c_set server_addr (retry_count + 1) t w2
              | Some (A_Undefined n, t, w2) \<Rightarrow> Some (Q_Undefined n, w2)
              | Some (A_Valid reply_pkt dest_time, t, w2) \<Rightarrow> Some (Q_Valid reply_pkt dest_time t, w2))))"

text \<open>
  The results of \<^verbatim>\<open>unicast_mode\<close>: its return code and what it leaves in
  \<^verbatim>\<open>*offset\<close>, \<^verbatim>\<open>*error_bound\<close> and \<^verbatim>\<open>*poll_timer\<close>.
\<close>

datatype unicast_result =
  U_Return (u_code: int) (u_offset: dbl) (u_bound: dbl) (u_timer: timeval)
| U_Undefined nat

definition unicast_mode :: "nat \<Rightarrow> os_env \<Rightarrow> (int \<Rightarrow> string) \<Rightarrow> client_settings \<Rightarrow> dbl \<Rightarrow> dbl
    \<Rightarrow> timeval \<Rightarrow> world \<Rightarrow> (unicast_result \<times> world) option" where
  "unicast_mode fuel env local_time c_set offset0 bound0 timer0 w =
     (let (rc, w1) = initialise_socket env (recv_uni_timeout c_set) (debug c_set) w in
      if rc \<noteq> 0 then Some (U_Return rc offset0 bound0 timer0, w1)
      else
        (case initialise_server_interface env (server_host c_set) (server_port c_set) (debug c_set) w1 of
           (Inl rc, w2) \<Rightarrow> Some (U_Return rc offset0 bound0 timer0, w2)
         | (Inr userver, w2) \<Rightarrow>
             (case query_loop fuel env c_set (addr userver) 1 (timer0\<lparr>tv_sec := - 1\<rparr>) w2 of
                None \<Rightarrow> None
              | Some (Q_Retries t, w3) \<Rightarrow> Some (U_Return 4 offset0 bound0 t, w3)
              | Some (Q_Undefined n, w3) \<Rightarrow> Some (U_Undefined n, w3)
              | Some (Q_Valid reply_pkt dest_time t, w3) \<Rightarrow>
                  (let serv_ts = get_timestamps_from_packet_in_epoch_time (host_endian env) reply_pkt
                         \<lparr>ts_originate_timestamp = dest_time, ts_receive_timestamp = dest_time,
                          ts_transmit_timestamp = dest_time, ts_destination_timestamp = dest_time\<rparr>;
                       offset = calculate_clock_offset serv_ts;
                       error_bound = calculate_error_bound serv_ts;
                       w4 = print_server_results local_time (ts_transmit_timestamp serv_ts) offset
                              error_bound userver (uint (stratum reply_pkt)) w3
                   in Some (U_Return 0 offset error_bound t, emit Closed w4)))))"

section \<open>Manycast discovery\<close>

definition MANYCAST_RECV_TIMEOUT :: int where
  "MANYCAST_RECV_TIMEOUT = 1"

definition MANYCAST_MAX_SERVERS :: nat where
  "MANYCAST_MAX_SERVERS = 10"

text \<open>
  \<^verbatim>\<open>ntp_servers\<close> has ten places and the loop does not check its index: the eleventh
  approved server is written past the array.
\<close>

datatype collect_result = C_Servers "cstr list" | C_Undefined nat | C_Array_Overflow

fun collect_replies :: "nat \<Rightarrow> os_env \<Rightarrow> client_settings \<Rightarrow> ntp_packet \<Rightarrow> timeval \<Rightarrow> cstr list
    \<Rightarrow> world \<Rightarrow> (collect_result \<times> world) option" where
  "collect_replies 0 env c_set request_pkt timer ntp_servers w = None"
| "collect_replies (Suc fuel) env c_set request_pkt timer ntp_servers w =
     (let (el, w1) = get_elapsed_time env timer w in
      if \<not> el \<le> manycast_wait_time c_set then Some (C_Servers ntp_servers, w1)
      else
        (case recieve_SNTP_packet env (debug c_set) w1 of
           (Recv_Failed, w2) \<Rightarrow>
             collect_replies fuel env c_set request_pkt timer ntp_servers
               (print_debug (debug c_set) ''no replys from any server'' w2)
         | (Recv_Overrun n, w2) \<Rightarrow> Some (C_Undefined n, w2)
         | (Recv_Ok reply_pkt server dest_time, w2) \<Rightarrow>
             (let (p, w3) = inet_ntoa (sin_addr server) w2;
                  w4 = print_debug (debug c_set) (''server discovered: '' @ cstr_val w3 p) w3;
                  (bad, w5) = run_sanity_checks request_pkt reply_pkt (debug c_set) w4
              in if bad \<noteq> 0
                 then (let (p, w6) = inet_ntoa (sin_addr server) w5
                       in collect_replies fuel env c_set request_pkt timer ntp_servers
                            (print_debug (debug c_set) (''server '' @ [CHR 0x27] @ cstr_val w6 p
                               @ [CHR 0x27] @ '' failed sanity checks, discarding server'') w6))
                 else
                   (let (q, w6) = inet_ntoa (sin_addr server) w5
                    in if MANYCAST_MAX_SERVERS \<le> length ntp_servers then Some (C_Array_Overflow, w6)
                       else
                         (let (p, w7) = inet_ntoa (sin_addr server) w6
                          in collect_replies fuel env c_set request_pkt timer (ntp_servers @ [q])
                               (print_debug (debug c_set) (''server '' @ [CHR 0x27] @ cstr_val w7 p
                                  @ [CHR 0x27] @ '' is approved'') w7))))))"

datatype discover_result = D_Return (d_code: int) (d_servers: "cstr list") | D_Undefined

definition discover_unicast_servers_with_manycast ::
    "nat \<Rightarrow> os_env \<Rightarrow> client_settings \<Rightarrow> world \<Rightarrow> (discover_result \<times> world) option" where
  "discover_unicast_servers_with_manycast fuel env c_set w =
     (let w0 = print_debug (debug c_set) ''initialising manycast request'' w;
          (rc, w1) = initialise_socket env MANYCAST_RECV_TIMEOUT (debug c_set) w0
      in if rc \<noteq> 0 then Some (D_Return rc [], w1)
         else
           (case initialise_server_interface env (Lit (manycast_address c_set)) (server_port c_set)
                   (debug c_set) w1 of
              (Inl rc, w2) \<Rightarrow> Some (D_Return rc [], w2)
            | (Inr many_grp, w2) \<Rightarrow>
                (let (ok, w3) = setsockopt env w2 in
                 if \<not> ok then Some (D_Return 7 [], print_debug (debug c_set) ''error setting ttl'' w3)
                 else
                   (let (request_pkt, w4) = create_packet env w3;
                        (rc, w5) = send_SNTP_packet env request_pkt (addr many_grp) (debug c_set) w4
                    in if rc \<noteq> 0
                       then Some (D_Return 5 [],
                              print_debug (debug c_set) ''error sending manycast request packet'' w5)
                       else
                         (let (timer, w6) = start_timer env w5 in
                          case collect_replies fuel env c_set request_pkt timer [] w6 of
                            None \<Rightarrow> None
                          | Some (C_Undefined n, w7) \<Rightarrow> Some (D_Undefined, w7)
                          | Some (C_Array_Overflow, w7) \<Rightarrow> Some (D_Undefined, w7)
                          | Some (C_Servers servers, w7) \<Rightarrow>
                              if servers = []
                              then Some (D_Return 6 [], print_debug (debug c_set)
                                     ''no servers found from manycast query'' w7)
                              else Some (D_Return 0 servers, emit Closed w7))))))"

section \<open>main\<close>

text \<open>
  The variables of \<^verbatim>\<open>main\<close> that the repeated queries change. The totals, the poll
  timer, the offset and the error bound have no initial value in the source: the initial
  state is an argument.
\<close>

record repeat_state =
  r_offset :: dbl
  r_bound :: dbl
  r_timer :: timeval
  offset_total :: dbl
  error_bound_total :: dbl
  s_counter :: int

fun wait_poll :: "nat \<Rightarrow> os_env \<Rightarrow> timeval \<Rightarrow> int \<Rightarrow> world \<Rightarrow> world option" where
  "wait_poll 0 env timer wait w = None"
| "wait_poll (Suc fuel) env timer wait w =
     (let (el, w1) = get_elapsed_time env timer w in
      if el \<le> wait then wait_poll fuel env timer wait w1 else Some w1)"

definition repeat_once :: "nat \<Rightarrow> os_env \<Rightarrow> (int \<Rightarrow> string) \<Rightarrow> client_settings \<Rightarrow> repeat_state \<Rightarrow> world
    \<Rightarrow> (repeat_state option \<times> world) option" where
  "repeat_once fuel env local_time c_set st w =
     (case unicast_mode fuel env local_time c_set (r_offset st) (r_bound st) (r_timer st) w of
        None \<Rightarrow> None
      | Some (U_Undefined n, w1) \<Rightarrow> Some (None, w1)
      | Some (U_Return rc off bound timer, w1) \<Rightarrow>
          (let st1 = st\<lparr>r_offset := off, r_bound := bound, r_timer := timer\<rparr> in
           if rc \<noteq> 0 then Some (Some st1, print_error_message rc w1)
           else Some (Some (st1\<lparr>offset_total := dadd (offset_total st) off,
                      error_bound_total := dadd (error_bound_total st) bound,
                      s_counter := s_counter st + 1\<rparr>), w1)))"

fun repeat_loop :: "nat \<Rightarrow> os_env \<Rightarrow> (int \<Rightarrow> string) \<Rightarrow> client_settings \<Rightarrow> int \<Rightarrow> repeat_state \<Rightarrow> world
    \<Rightarrow> (repeat_state option \<times> world) option" where
  "repeat_loop 0 env local_time c_set counter st w = None"
| "repeat_loop (Suc fuel) env local_time c_set counter st w =
     (if \<not> counter < timed_repeat_updates_limit c_set then Some (Some st, w)
      else
        (case (if counter \<noteq> 0 then wait_poll fuel env (r_timer st) (poll_wait c_set) w else Some w) of
           None \<Rightarrow> None
         | Some w1 \<Rightarrow>
             (case repeat_once fuel env local_time c_set st w1 of
                None \<Rightarrow> None
              | Some (None, w2) \<Rightarrow> Some (None, w2)
              | Some (Some st1, w2) \<Rightarrow> repeat_loop fuel env local_time c_set (counter + 1) st1 w2)))"

definition print_statistics :: "repeat_state \<Rightarrow> world \<Rightarrow> world" where
  "print_statistics st w =
     (if s_counter st > 0
      then printf (NL @ ''Statistics -> offset average: ''
             @ fmt_f (ddiv (offset_total st) (dbl_of_int (s_counter st)))
             @ '', error bound average: +/- ''
             @ fmt_f (ddiv (error_bound_total st) (dbl_of_int (s_counter st))) @ NL) w
      else eprintf (''unable to collect any time samples'' @ NL) w)"

datatype main_result = Exit int | Undefined_Behaviour

definition client_query :: "nat \<Rightarrow> os_env \<Rightarrow> (int \<Rightarrow> string) \<Rightarrow> client_settings \<Rightarrow> repeat_state \<Rightarrow> world
    \<Rightarrow> (main_result \<times> world) option" where
  "client_query fuel env local_time c_set st w =
     (if timed_repeat_updates_enabled c_set \<noteq> 1 then
        (case unicast_mode fuel env local_time c_set (r_offset st) (r_bound st) (r_timer st) w of
           None \<Rightarrow> None
         | Some (U_Undefined n, w1) \<Rightarrow> Some (Undefined_Behaviour, w1)
         | Some (U_Return rc off bound timer, w1) \<Rightarrow>
             Some (Exit 0, if rc \<noteq> 0 then print_error_message rc w1 else w1))
      else
        (case repeat_loop fuel env local_time c_set 0 st w of
           None \<Rightarrow> None
         | Some (None, w1) \<Rightarrow> Some (Undefined_Behaviour, w1)
         | Some (Some st1, w1) \<Rightarrow> Some (Exit 0, print_statistics st1 w1)))"

text \<open>\<^verbatim>\<open>main\<close> after the settings are read; \<open>st\<close> holds the uninitialised variables.\<close>

definition client_main :: "nat \<Rightarrow> os_env \<Rightarrow> (int \<Rightarrow> string) \<Rightarrow> client_settings \<Rightarrow> repeat_state \<Rightarrow> world
    \<Rightarrow> (main_result \<times> world) option" where
  "client_main fuel env local_time c_set st w =
     (if manycast_enabled c_set \<noteq> 0 then
        (case discover_unicast_servers_with_manycast fuel env c_set w of
           None \<Rightarrow> None
         | Some (D_Undefined, w1) \<Rightarrow> Some (Undefined_Behaviour, w1)
         | Some (D_Return rc servers, w1) \<Rightarrow>
             if rc \<noteq> 0 then Some (Exit 1, print_error_message rc w1)
             else
               (let c_set1 = c_set\<lparr>server_host := hd servers\<rparr>
                in client_query fuel env local_time c_set1 (st\<lparr>s_counter := 0\<rparr>)
                     (print_debug (debug c_set1) (''using server '' @ [CHR 0x27]
                        @ cstr_val w1 (server_host c_set1) @ [CHR 0x27]
                        @ '' for further unicast operations'') w1)))
      else client_query fuel env local_time c_set (st\<lparr>s_counter := 0\<rparr>) w)"

end
