(* ===== verification/Client_Query.thy ===== *)
theory Client_Query
  imports Client_Modes
begin

text \<open>
  Properties of the unicast query: what it sends and when, what a successful result rests on,
  and that it returns whenever the clock advances.
\<close>

section \<open>The address check\<close>

lemma is_same_ipaddr_simps [env_simps]:
  "fst (is_same_ipaddr a b w) = 0"
  "tick (snd (is_same_ipaddr a b w)) = tick w"
  "trace (snd (is_same_ipaddr a b w)) = trace w"
  "ntoa_buf (snd (is_same_ipaddr a b w)) = dotted (sin_addr b)"
  by (simp_all add: is_same_ipaddr_def inet_ntoa_def cstr_val_def Let_def)

lemma report_retry_effects [env_simps]:
  "tick (report_retry env c t s w) = Suc (tick w)"
  "sends (trace (report_retry env c t s w)) = sends (trace w)"
  "ntoa_buf (report_retry env c t s w) = ntoa_buf w"
  by (simp_all add: report_retry_def get_elapsed_time_def gettimeofday_def Let_def env_simps)

text \<open>So the inner loop never goes round: one receive decides.\<close>

lemma listen_unfold:
  "listen (Suc fuel) env c a t w =
     (case recieve_SNTP_packet env (debug c) w of
        (Recv_Failed, w1) \<Rightarrow> Some (L_Error, report_retry env c t ''receiving reply packet'' w1)
      | (Recv_Overrun n, w1) \<Rightarrow> Some (L_Undefined n, w1)
      | (Recv_Ok p from d, w1) \<Rightarrow> Some (L_Reply p d, snd (is_same_ipaddr a from w1)))"
  using is_same_ipaddr_simps(1)
  by (auto simp: Let_def case_prod_unfold split: recv_outcome.split)

lemma listen_fuel: "0 < f \<Longrightarrow> 0 < g \<Longrightarrow> listen f env c a t w = listen g env c a t w"
  by (cases f; cases g) (simp_all only: listen_unfold less_irrefl)

lemma listen_returns: "0 < f \<Longrightarrow> \<exists>r w'. listen f env c a t w = Some (r, w')"
  by (cases f) (auto simp: listen_unfold simp del: listen.simps split: prod.split recv_outcome.split)

lemma listen_effects:
  assumes "listen f env c a t w = Some (r, w')"
  shows "sends (trace w') = sends (trace w) \<and> tick w < tick w'"
proof (cases f)
  case 0
  with assms show ?thesis by simp
next
  case (Suc n)
  then show ?thesis using assms
    by (auto simp: listen_unfold env_simps simp del: listen.simps
        split: prod.splits recv_outcome.splits dest!: recieve_eq_effects)
qed

lemma listen_reply:
  assumes "listen f env c a t w = Some (L_Reply p d, w')"
  shows "\<exists>bs from. recv env (tick w) = Datagram bs from \<and> length bs \<le> 48
    \<and> p = load_packet (host_endian env) (pad_packet bs) \<and> d = clock env (Suc (tick w))"
proof (cases f)
  case 0
  with assms show ?thesis by simp
next
  case (Suc n)
  then obtain b where "fst (recieve_SNTP_packet env (debug c) w) = Recv_Ok p b d"
    using assms by (auto simp: listen_unfold simp del: listen.simps split: prod.splits recv_outcome.splits)
  then show ?thesis by (auto simp: recv_ok_iff sizeof_ntp_packet_def)
qed

text \<open>
  C18. The client does not check who answers. Whatever server it queried, the first datagram
  of at most 48 bytes that arrives from any address ends the wait for a reply: the comparison
  of the two addresses reads one static buffer twice and never finds a difference.
\<close>

theorem any_sender_is_accepted:
  assumes "recv env (tick w) = Datagram bs from" "length bs \<le> 48"
  shows "fst (is_same_ipaddr server_addr from w) = 0
    \<and> map_option fst (listen (Suc fuel) env c_set server_addr t w)
        = Some (L_Reply (load_packet (host_endian env) (pad_packet bs)) (clock env (Suc (tick w))))"
proof -
  have "fst (recieve_SNTP_packet env (debug c_set) w)
      = Recv_Ok (load_packet (host_endian env) (pad_packet bs)) from (clock env (Suc (tick w)))"
    using assms by (simp add: recv_ok_iff sizeof_ntp_packet_def)
  then show ?thesis
    by (auto simp: listen_unfold env_simps simp del: listen.simps split: prod.split)
qed

definition other_host :: sockaddr_in where
  "other_host = \<lparr>sin_family = AF_INET, sin_port = 9, sin_addr = In_Addr 203 0 113 66\<rparr>"

definition demo_client :: client_settings where
  "demo_client = \<lparr>server_host = Lit ''192.0.2.1'', server_port = 123, debug = 0, recv_uni_timeout = 2,
     max_unicast_retries = 2, poll_wait = 15, timed_repeat_updates_enabled = 0,
     timed_repeat_updates_limit = 1, manycast_enabled = 0, manycast_wait_time = 2,
     manycast_address = ''224.0.1.1''\<rparr>"

theorem any_sender_is_accepted_witness:
  "sin_addr other_host \<noteq> sin_addr peer
   \<and> map_option fst (listen 1 (quiet_env\<lparr>recv := \<lambda>_. Datagram [] other_host\<rparr>) demo_client peer
        \<lparr>tv_sec = 0, tv_usec = 0\<rparr> world0)
      = Some (L_Reply (load_packet Little (pad_packet [])) \<lparr>tv_sec = 1700000001, tv_usec = 0\<rparr>)"
proof -
  let ?env = "quiet_env\<lparr>recv := \<lambda>_. Datagram [] other_host\<rparr>"
  have "recv ?env (tick world0) = Datagram [] other_host" "length ([] :: byte list) \<le> 48" by simp_all
  from any_sender_is_accepted [OF this, of peer 0 demo_client] show ?thesis
    by (simp add: quiet_env_def world0_def other_host_def peer_def del: listen.simps)
qed

section \<open>One attempt\<close>

text \<open>The request a datagram of the trace carries, and the clock readings around it.\<close>

definition good_request :: "os_env \<Rightarrow> sockaddr_in \<Rightarrow> nat \<times> byte list \<times> sockaddr_in \<Rightarrow> bool" where
  "good_request env a r = (case r of (k, bs, to) \<Rightarrow> to = a \<and> 2 \<le> k \<and> length bs = 48
     \<and> accepts_request (load_packet (host_endian env) bs)
     \<and> ntoh_time (host_endian env) (transmit_timestamp (load_packet (host_endian env) bs))
         = convert_unix_time_into_ntp_time (clock env (k - 2)))"

lemma attempt_request:
  "good_request env a (Suc (Suc (tick w)), store_packet (host_endian env) (fst (create_packet env w)), a)"
  by (simp add: good_request_def accepts_created create_packet_simps sizeof_ntp_packet_def)

lemma query_attempt_sends:
  assumes "query_attempt f env c a w = Some (r, t, w')"
  shows "t = clock env (Suc (tick w)) \<and> Suc (Suc (tick w)) < tick w'
    \<and> sends (trace w') = sends (trace w) @
       (if send_ok env (Suc (Suc (tick w)))
        then [(Suc (Suc (tick w)), store_packet (host_endian env) (fst (create_packet env w)), a)] else [])"
  using assms
  by (auto simp: query_attempt_def Let_def case_prod_unfold start_timer_def gettimeofday_def env_simps
      create_packet_simps split: if_splits option.splits listen_result.splits dest!: listen_effects)

lemma query_attempt_valid:
  assumes "query_attempt f env c a w = Some (A_Valid p d, t, w')"
  shows "send_ok env (Suc (Suc (tick w))) \<and> trusted_reply (fst (create_packet env w)) p
    \<and> (\<exists>bs b. recv env (tick w + 3) = Datagram bs b \<and> length bs \<le> 48
         \<and> p = load_packet (host_endian env) (pad_packet bs)) \<and> d = clock env (tick w + 4)"
  using assms
  by (auto simp: query_attempt_def Let_def case_prod_unfold start_timer_def gettimeofday_def env_simps
      create_packet_simps sanity_zero_iff eval_nat_numeral
      split: if_splits option.splits listen_result.splits dest!: listen_reply)

lemma query_attempt_returns:
  assumes "0 < f"
  shows "\<exists>r t w'. query_attempt f env c a w = Some (r, t, w')"
proof -
  define t w3 where "t = fst (start_timer env (snd (create_packet env w)))"
    and "w3 = snd (start_timer env (snd (create_packet env w)))"
  define w4 where "w4 = snd (send_SNTP_packet env (fst (create_packet env w)) a (debug c) w3)"
  obtain r w5 where "listen f env c a t w4 = Some (r, w5)" using listen_returns [OF assms] by blast
  then show ?thesis
    by (cases r) (simp_all add: query_attempt_def Let_def case_prod_unfold flip: t_def w3_def w4_def)
qed

lemma query_attempt_fuel: "0 < f \<Longrightarrow> 0 < g \<Longrightarrow> query_attempt f env c a w = query_attempt g env c a w"
proof -
  assume "0 < f" "0 < g"
  then have "listen f = listen g" by (intro ext listen_fuel)
  then show ?thesis by (simp only: query_attempt_def)
qed

section \<open>The wait\<close>

lemma too_soon_cases:
  assumes "too_soon env c t w = (b, w1)"
  shows "sends (trace w1) = sends (trace w) \<and>
    (if tv_sec t = - 1 then w1 = w \<and> \<not> b
     else tick w1 = Suc (tick w) \<and> b = (elapsed t (clock env (tick w)) \<le> poll_wait c))"
  using assms by (auto simp: too_soon_def get_elapsed_time_def gettimeofday_def Let_def env_simps split: if_splits)

text \<open>
  Sends at the call numbers \<open>ks\<close>, after a timer \<open>t\<close> that was set before call \<open>n\<close>: before each
  send a clock reading shows that more than \<open>wait\<close> seconds have passed since the timer of the
  send before, which is the reading just before that send.
\<close>

fun spaced_from :: "os_env \<Rightarrow> int \<Rightarrow> timeval \<Rightarrow> nat \<Rightarrow> nat list \<Rightarrow> bool" where
  "spaced_from env wait t n [] = True"
| "spaced_from env wait t n (k # ks) =
     ((tv_sec t = - 1 \<or> (\<exists>j. n \<le> j \<and> j < k \<and> wait < elapsed t (clock env j)))
      \<and> spaced_from env wait (clock env (k - 1)) k ks)"

lemma spaced_from_mono:
  "spaced_from env wait t n ks \<Longrightarrow> m \<le> n \<Longrightarrow> spaced_from env wait t m ks"
  by (cases ks) auto

section \<open>The whole query\<close>

text \<open>What the loop has sent by the time it returns.\<close>

definition query_sent ::
    "os_env \<Rightarrow> client_settings \<Rightarrow> sockaddr_in \<Rightarrow> int \<Rightarrow> timeval \<Rightarrow> world \<Rightarrow> world \<Rightarrow> bool" where
  "query_sent env c a rc t w w' \<longleftrightarrow> (\<exists>new. sends (trace w') = sends (trace w) @ new
     \<and> int (length new) \<le> max 0 (max_unicast_retries c - rc + 1)
     \<and> (\<forall>r \<in> set new. good_request env a r)
     \<and> spaced_from env (poll_wait c) t (tick w) (map fst new))"

lemma query_sent_none: "sends (trace w') = sends (trace w) \<Longrightarrow> query_sent env c a rc t w w'"
  by (auto simp: query_sent_def)

text \<open>A pass that only waits, and a pass that sends.\<close>

lemma query_sent_wait:
  assumes "too_soon env c t w = (True, w1)" "query_sent env c a rc t w1 w'"
  shows "query_sent env c a rc t w w'"
proof -
  have "sends (trace w1) = sends (trace w)" "tick w \<le> tick w1"
    using too_soon_cases [OF assms(1)] by (auto split: if_splits)
  then show ?thesis using assms(2) spaced_from_mono by (fastforce simp: query_sent_def)
qed

lemma query_sent_attempt:
  assumes ts: "too_soon env c t w = (False, w1)"
    and at: "query_attempt f env c a w1 = Some (r, t1, w2)"
    and rc: "rc \<le> max_unicast_retries c"
    and rest: "query_sent env c a (rc + 1) t1 w2 w'"
    and clk: "\<forall>n. tv_sec (clock env n) \<noteq> - 1"
  shows "query_sent env c a rc t w w'"
proof -
  let ?k = "Suc (Suc (tick w1))"
  note q = query_attempt_sends [OF at] and s = too_soon_cases [OF ts]
  obtain new where new: "sends (trace w') = sends (trace w2) @ new"
      "int (length new) \<le> max 0 (max_unicast_retries c - (rc + 1) + 1)"
      "\<forall>r \<in> set new. good_request env a r" "spaced_from env (poll_wait c) t1 (tick w2) (map fst new)"
    using rest by (auto simp: query_sent_def)
  have head: "tv_sec t = - 1 \<or> (\<exists>j. tick w \<le> j \<and> j < ?k \<and> poll_wait c < elapsed t (clock env j))"
    using s by (auto split: if_splits)
  show ?thesis
  proof (cases "send_ok env ?k")
    case True
    let ?r = "(?k, store_packet (host_endian env) (fst (create_packet env w1)), a)"
    have "sends (trace w') = sends (trace w) @ ?r # new" using q s new(1) True by simp
    moreover have "spaced_from env (poll_wait c) t (tick w) (map fst (?r # new))"
      using head q new(4) by (auto intro: spaced_from_mono)
    ultimately show ?thesis
      using new(2,3) rc attempt_request [of env a w1] unfolding query_sent_def
      by (intro exI [of _ "?r # new"]) auto
  next
    case False
    have "spaced_from env (poll_wait c) t (tick w) (map fst new)"
    proof (cases new)
      case (Cons x xs)
      then have "tick w2 < fst x" using new(4) q clk by auto
      then have "?k < fst x" using q by simp
      with head have "tv_sec t = - 1 \<or> (\<exists>j. tick w \<le> j \<and> j < fst x \<and> poll_wait c < elapsed t (clock env j))"
        by (meson less_trans)
      then show ?thesis using Cons new(4) by simp
    qed simp
    then show ?thesis using q s new False rc unfolding query_sent_def by (intro exI [of _ new]) auto
  qed
qed

lemma query_loop_sent:
  assumes clk: "\<forall>n. tv_sec (clock env n) \<noteq> - 1"
  shows "query_loop f env c a rc t w = Some (r, w') \<Longrightarrow> query_sent env c a rc t w w'"
proof (induction f arbitrary: rc t w)
  case 0
  then show ?case by simp
next
  case (Suc f)
  show ?case
  proof (cases "rc > max_unicast_retries c")
    case True
    then show ?thesis using Suc.prems by (auto intro: query_sent_none)
  next
    case False
    obtain b w1 where ts: "too_soon env c t w = (b, w1)" by fastforce
    show ?thesis
    proof (cases b)
      case True
      then have tt: "too_soon env c t w = (True, w1)" using ts by simp
      then have "query_sent env c a rc t w1 w'" using Suc False by simp
      then show ?thesis by (rule query_sent_wait [OF tt])
    next
      case nb: False
      then obtain r1 t1 w2 where at: "query_attempt f env c a w1 = Some (r1, t1, w2)"
        using Suc.prems False ts by (auto split: option.splits)
      have "query_sent env c a (rc + 1) t1 w2 w'"
        using Suc False ts nb at by (cases r1) (auto intro: query_sent_none)
      then show ?thesis using query_sent_attempt [OF _ at _ _ clk] ts nb False by simp
    qed
  qed
qed

text \<open>
  The request built at call \<open>k\<close>, and what it means that the packet \<open>p\<close> answers it: it was sent,
  the packet is a datagram received next from some host, and it passes the sanity checks.
\<close>

definition request_of :: "os_env \<Rightarrow> nat \<Rightarrow> ntp_packet" where
  "request_of env k = fst (create_packet env \<lparr>tick = k, ntoa_buf = [], trace = []\<rparr>)"

definition answered_at :: "os_env \<Rightarrow> nat \<Rightarrow> ntp_packet \<Rightarrow> timeval \<Rightarrow> timeval \<Rightarrow> bool" where
  "answered_at env k p d t \<longleftrightarrow> send_ok env (k + 2) \<and> trusted_reply (request_of env k) p
     \<and> (\<exists>bs b. recv env (k + 3) = Datagram bs b \<and> length bs \<le> 48
          \<and> p = load_packet (host_endian env) (pad_packet bs))
     \<and> d = clock env (k + 4) \<and> t = clock env (k + 1)"

lemma create_packet_request: "fst (create_packet env w) = request_of env (tick w)"
  by (simp add: request_of_def create_packet_def get_ntp_time_of_day_def gettimeofday_def)

lemma query_attempt_answered:
  assumes "query_attempt f env c a w = Some (A_Valid p d, t, w')"
  shows "answered_at env (tick w) p d t"
  using query_attempt_valid [OF assms] query_attempt_sends [OF assms]
  by (simp add: answered_at_def create_packet_request eval_nat_numeral)

lemma query_loop_valid:
  "query_loop f env c a rc t w = Some (Q_Valid p d t1, w') \<Longrightarrow> \<exists>k \<ge> tick w. answered_at env k p d t1"
proof (induction f arbitrary: rc t w)
  case 0
  then show ?case by simp
next
  case (Suc f)
  obtain b w1 where ts: "too_soon env c t w = (b, w1)" by fastforce
  then have w1: "tick w \<le> tick w1" using too_soon_cases by (fastforce split: if_splits)
  have le: "rc \<le> max_unicast_retries c" using Suc.prems by (auto split: if_splits)
  show ?case
  proof (cases b)
    case True
    then have "query_loop f env c a rc t w1 = Some (Q_Valid p d t1, w')"
      using Suc.prems le ts by simp
    from Suc.IH [OF this] show ?thesis using w1 by (meson le_trans)
  next
    case False
    then obtain r1 t2 w2 where at: "query_attempt f env c a w1 = Some (r1, t2, w2)"
      using Suc.prems le ts by (auto split: option.splits)
    show ?thesis
    proof (cases r1)
      case A_Retry
      then have "query_loop f env c a (rc + 1) t2 w2 = Some (Q_Valid p d t1, w')"
        using Suc.prems le ts False at by simp
      from Suc.IH [OF this] show ?thesis
        using w1 query_attempt_sends [OF at] by (meson le_trans less_imp_le Suc_leD)
    next
      case (A_Valid p' d')
      then have "p' = p" "d' = d" "t2 = t1" using Suc.prems le ts False at by simp_all
      then show ?thesis using query_attempt_answered at A_Valid w1 by blast
    qed (use Suc.prems le ts False at in simp)
  qed
qed

section \<open>Termination\<close>

text \<open>
  A clock that keeps advancing: from any reading and after any number of calls there is a
  later reading more than \<open>wait\<close> seconds ahead, in the 32-bit difference the code computes.
\<close>

definition advancing :: "os_env \<Rightarrow> int \<Rightarrow> bool" where
  "advancing env wait \<longleftrightarrow> (\<forall>k n. \<exists>m \<ge> n. wait < elapsed (clock env k) (clock env m))"

text \<open>A timer the loop may hold: none yet, or a reading of the clock.\<close>

definition loop_timer :: "os_env \<Rightarrow> timeval \<Rightarrow> bool" where
  "loop_timer env t \<longleftrightarrow> tv_sec t = - 1 \<or> (\<exists>k. t = clock env k)"

lemma loop_timer_deadline:
  assumes "advancing env wait" "loop_timer env t"
  shows "\<exists>m \<ge> n. tv_sec t = - 1 \<or> wait < elapsed t (clock env m)"
  using assms by (auto simp: advancing_def loop_timer_def)

text \<open>One round, given that the loop returns for the next retry count.\<close>

lemma query_round_returns:
  assumes next_round: "\<And>t w. loop_timer env t \<Longrightarrow> \<exists>f r. query_loop f env c a (rc + 1) t w = Some r"
    and m: "tv_sec t = - 1 \<or> poll_wait c < elapsed t (clock env m)" "tick w \<le> m"
  shows "\<exists>f r. query_loop f env c a rc t w = Some r"
  using m
proof (induction "m - tick w" arbitrary: w rule: less_induct)
  case less
  show ?case
  proof (cases "rc > max_unicast_retries c")
    case True
    then have "query_loop 1 env c a rc t w = Some (Q_Retries t, w)" by simp
    then show ?thesis by blast
  next
    case le: False
    obtain b w1 where ts: "too_soon env c t w = (b, w1)" by fastforce
    show ?thesis
    proof (cases b)
      case True
      then have "tick w1 = Suc (tick w)" "tick w \<noteq> m" "tv_sec t \<noteq> - 1"
        using too_soon_cases [OF ts] less.prems by (auto split: if_splits)
      then have "\<exists>f r. query_loop f env c a rc t w1 = Some r" using less by (intro less.hyps) auto
      then obtain f r where "query_loop f env c a rc t w1 = Some r" by blast
      then have "query_loop (Suc f) env c a rc t w = Some r" using le ts True by simp
      then show ?thesis by blast
    next
      case False
      obtain r1 t1 w2 where at: "query_attempt 1 env c a w1 = Some (r1, t1, w2)"
        using query_attempt_returns [OF zero_less_one] by blast
      have "loop_timer env t1" using query_attempt_sends [OF at] by (auto simp: loop_timer_def)
      then obtain f r where f: "query_loop f env c a (rc + 1) t1 w2 = Some r" using next_round by blast
      then have "0 < f" by (cases f) simp_all
      then have at': "query_attempt f env c a w1 = Some (r1, t1, w2)"
        using at query_attempt_fuel [of 1 f] by simp
      have "\<exists>r. query_loop (Suc f) env c a rc t w = Some r"
        using le ts False at' f by (cases r1) simp_all
      then show ?thesis by blast
    qed
  qed
qed

lemma query_loop_returns:
  assumes adv: "advancing env (poll_wait c)"
  shows "loop_timer env t \<Longrightarrow> \<exists>f r. query_loop f env c a rc t w = Some r"
proof (induction "nat (max_unicast_retries c + 1 - rc)" arbitrary: rc t w rule: less_induct)
  case less
  show ?case
  proof (cases "rc > max_unicast_retries c")
    case True
    then have "query_loop 1 env c a rc t w = Some (Q_Retries t, w)" by simp
    then show ?thesis by blast
  next
    case False
    then have "\<exists>f r. query_loop f env c a (rc + 1) t w = Some r" if "loop_timer env t" for t w
      using less.hyps [of "rc + 1" t w] that by simp
    then show ?thesis
      using loop_timer_deadline [OF adv less.prems, of "tick w"] query_round_returns by blast
  qed
qed

section \<open>unicast\_mode\<close>

lemma initialise_socket_effects [env_simps]:
  "sends (trace (snd (initialise_socket env s d w))) = sends (trace w)"
  "tick w \<le> tick (snd (initialise_socket env s d w))"
  "fst (initialise_socket env s d w) \<in> {0, 3, 8}"
  by (simp_all add: initialise_socket_def set_socket_recvfrom_timeout_def setsockopt_def Let_def env_simps)

lemma initialise_server_interface_effects [env_simps]:
  "sends (trace (snd (initialise_server_interface env h p d w))) = sends (trace w)"
  "tick (snd (initialise_server_interface env h p d w)) = tick w"
  "fst (initialise_server_interface env h p d w) = Inl rc \<Longrightarrow> rc = 2"
  by (auto simp: initialise_server_interface_def Let_def env_simps split: option.splits prod.splits)

lemma print_server_results_effects [env_simps]:
  "sends (trace (print_server_results l t o' b cn s w)) = sends (trace w)"
  "tick (print_server_results l t o' b cn s w) = tick w"
  by (simp_all add: print_server_results_def Let_def inet_ntoa_def env_simps split: option.split)

text \<open>The world and the server the query loop starts with, where it is reached.\<close>

definition unicast_ready :: "os_env \<Rightarrow> client_settings \<Rightarrow> world \<Rightarrow> (host_info \<times> world) option" where
  "unicast_ready env c w =
     (let (rc, w1) = initialise_socket env (recv_uni_timeout c) (debug c) w in
      if rc \<noteq> 0 then None
      else case initialise_server_interface env (server_host c) (server_port c) (debug c) w1 of
        (Inl _, w2) \<Rightarrow> None | (Inr u, w2) \<Rightarrow> Some (u, w2))"

lemma unicast_ready_effects:
  assumes "unicast_ready env c w = Some (u, w2)"
  shows "sends (trace w2) = sends (trace w) \<and> tick w \<le> tick w2"
proof -
  define w1 where "w1 = snd (initialise_socket env (recv_uni_timeout c) (debug c) w)"
  have "w2 = snd (initialise_server_interface env (server_host c) (server_port c) (debug c) w1)"
    using assms by (auto simp: unicast_ready_def Let_def case_prod_unfold w1_def split: if_splits sum.splits prod.splits)
  then show ?thesis by (simp add: env_simps w1_def)
qed

text \<open>Where the query loop is not reached, nothing is sent and the code is 2, 3 or 8.\<close>

lemma unicast_not_ready:
  assumes "unicast_ready env c w = None"
  shows "\<exists>rc w'. unicast_mode f env l c x y t w = Some (U_Return rc x y t, w')
    \<and> rc \<in> {2, 3, 8} \<and> sends (trace w') = sends (trace w)"
proof -
  obtain rc w1 where i: "initialise_socket env (recv_uni_timeout c) (debug c) w = (rc, w1)" by fastforce
  obtain h w2 where s: "initialise_server_interface env (server_host c) (server_port c) (debug c) w1 = (h, w2)"
    by fastforce
  have "rc \<in> {0, 3, 8}" "sends (trace w1) = sends (trace w)"
    using initialise_socket_effects(1,3) [of env "recv_uni_timeout c" "debug c" w] i by simp_all
  moreover have "h = Inl e \<Longrightarrow> e = 2" "sends (trace w2) = sends (trace w1)" for e
    using initialise_server_interface_effects(1,3) [of env "server_host c" "server_port c" "debug c" w1] s
    by simp_all
  ultimately show ?thesis
    using assms i s by (cases h) (auto simp: unicast_ready_def unicast_mode_def split: if_splits)
qed

end
