(* ===== verification/Client_Unicast.thy ===== *)
theory Client_Unicast
  imports Client_Query
begin

text \<open>
  The properties of \<^verbatim>\<open>unicast_mode\<close>: the requests it sends, what its results rest
  on, that it returns, and that a good answer to its first request makes it succeed.
\<close>

section \<open>From the loop to the function\<close>

text \<open>The fields of \<^verbatim>\<open>serv_ts\<close> for a reply \<open>p\<close> received at \<open>d\<close>.\<close>

definition reply_ts :: "os_env \<Rightarrow> ntp_packet \<Rightarrow> timeval \<Rightarrow> core_ts" where
  "reply_ts env p d =
     \<lparr>ts_originate_timestamp = convert_ntp_time_into_unix_time (ntoh_time (host_endian env) (originate_timestamp p)),
      ts_receive_timestamp = convert_ntp_time_into_unix_time (ntoh_time (host_endian env) (receive_timestamp p)),
      ts_transmit_timestamp = convert_ntp_time_into_unix_time (ntoh_time (host_endian env) (transmit_timestamp p)),
      ts_destination_timestamp = d\<rparr>"

lemma reply_ts_stamps:
  "get_timestamps_from_packet_in_epoch_time (host_endian env) p
     \<lparr>ts_originate_timestamp = a, ts_receive_timestamp = b, ts_transmit_timestamp = c,
      ts_destination_timestamp = d\<rparr> = reply_ts env p d"
  by (simp add: reply_ts_def get_timestamps_from_packet_in_epoch_time_def ntoh_time_def)

lemma unicast_mode_ready:
  assumes "unicast_ready env c w = Some (u, w2)"
  shows "unicast_mode f env l c x y t w =
     (case query_loop f env c (addr u) 1 (t\<lparr>tv_sec := - 1\<rparr>) w2 of
        None \<Rightarrow> None
      | Some (Q_Retries t1, w3) \<Rightarrow> Some (U_Return 4 x y t1, w3)
      | Some (Q_Undefined n, w3) \<Rightarrow> Some (U_Undefined n, w3)
      | Some (Q_Valid p d t1, w3) \<Rightarrow>
          Some (U_Return 0 (calculate_clock_offset (reply_ts env p d)) (calculate_error_bound (reply_ts env p d)) t1,
            emit Closed (print_server_results l (ts_transmit_timestamp (reply_ts env p d))
              (calculate_clock_offset (reply_ts env p d)) (calculate_error_bound (reply_ts env p d))
              u (uint (stratum p)) w3)))"
proof -
  obtain w1 where "initialise_socket env (recv_uni_timeout c) (debug c) w = (0, w1)"
    "initialise_server_interface env (server_host c) (server_port c) (debug c) w1 = (Inr u, w2)"
    using assms by (auto simp: unicast_ready_def split: prod.splits if_splits sum.splits)
  then show ?thesis
    by (simp add: unicast_mode_def Let_def reply_ts_stamps split: option.split prod.split query_result.split)
qed

lemma unicast_mode_trace:
  assumes "unicast_ready env c w = Some (u, w2)" "unicast_mode f env l c x y t w = Some (r, w')"
  obtains q w3 where "query_loop f env c (addr u) 1 (t\<lparr>tv_sec := - 1\<rparr>) w2 = Some (q, w3)"
    "sends (trace w') = sends (trace w3)"
  using assms(2) unfolding unicast_mode_ready [OF assms(1)]
  by (auto simp: env_simps split: option.splits prod.splits query_result.splits)

text \<open>The address the settings name, as the resolver gives it.\<close>

definition resolved :: "os_env \<Rightarrow> client_settings \<Rightarrow> world \<Rightarrow> sockaddr_in \<Rightarrow> bool" where
  "resolved env c w a \<longleftrightarrow>
     sin_port a = htons (host_endian env) (word_of_int (server_port c)) \<and>
     (case inet_pton (cstr_val w (server_host c)) of
        Some ip \<Rightarrow> map_option snd (host_by_addr env ip) = Some (sin_addr a)
      | None \<Rightarrow> host_by_name env (cstr_val w (server_host c)) = Some (sin_addr a))"

lemma socket_keeps_strings:
  "cstr_val (snd (initialise_socket env s d w)) p = cstr_val w p"
  by (simp add: initialise_socket_def set_socket_recvfrom_timeout_def setsockopt_def Let_def
      cstr_val_def env_simps split: cstr.split)

lemma unicast_ready_resolved:
  assumes "unicast_ready env c w = Some (u, w2)"
  shows "resolved env c w (addr u)"
proof -
  obtain w1 where i: "initialise_socket env (recv_uni_timeout c) (debug c) w = (0, w1)"
    and s: "initialise_server_interface env (server_host c) (server_port c) (debug c) w1 = (Inr u, w2)"
    using assms by (auto simp: unicast_ready_def split: prod.splits if_splits sum.splits)
  have "cstr_val w1 p = cstr_val w p" for p
    using socket_keeps_strings [of env "recv_uni_timeout c" "debug c" w p] i by simp
  then show ?thesis
    using s by (auto simp: resolved_def initialise_server_interface_def Let_def split: option.splits)
qed

section \<open>The requests\<close>

lemma spaced_from_nth:
  assumes "spaced_from env wait t n ks" "\<forall>n. tv_sec (clock env n) \<noteq> - 1" "Suc i < length ks"
  shows "\<exists>j. ks ! i \<le> j \<and> j < ks ! Suc i \<and> wait < elapsed (clock env (ks ! i - 1)) (clock env j)"
  using assms(1,3)
proof (induction ks arbitrary: t n i)
  case (Cons k ks)
  then have sp: "spaced_from env wait (clock env (k - 1)) k ks" by simp
  show ?case
  proof (cases i)
    case 0
    then show ?thesis using sp Cons.prems(2) assms(2) by (cases ks) auto
  next
    case (Suc i')
    then show ?thesis using Cons.IH [OF sp, of i'] Cons.prems(2) by simp
  qed
qed simp

text \<open>
  C15. However the network behaves, a unicast query sends at most
  \<^verbatim>\<open>max_unicast_retries\<close> requests. Each goes to the address the resolver gives for
  the host of the settings, is one a server accepts, and carries the clock read when it was
  built; and between two requests the client has seen more than \<^verbatim>\<open>poll_wait\<close>
  seconds pass since it started the timer of the first one.
\<close>

theorem unicast_requests:
  assumes clk: "\<forall>n. tv_sec (clock env n) \<noteq> - 1"
    and run: "unicast_mode f env l c x y t w = Some (r, w')"
  shows "\<exists>a new. sends (trace w') = sends (trace w) @ new
    \<and> int (length new) \<le> max 0 (max_unicast_retries c)
    \<and> (\<forall>q \<in> set new. resolved env c w a \<and> good_request env a q)
    \<and> (\<forall>i. Suc i < length new \<longrightarrow> (\<exists>j. fst (new ! i) \<le> j \<and> j < fst (new ! Suc i)
         \<and> poll_wait c < elapsed (clock env (fst (new ! i) - 1)) (clock env j)))"
proof (cases "unicast_ready env c w")
  case None
  then have "sends (trace w') = sends (trace w)"
    using unicast_not_ready [OF None, of f l x y t] run by auto
  then show ?thesis by (intro exI [of _ "[]"] exI) simp
next
  case (Some uw)
  then obtain u w2 where rdy: "unicast_ready env c w = Some (u, w2)" by (cases uw) auto
  obtain q w3 where q: "query_loop f env c (addr u) 1 (t\<lparr>tv_sec := - 1\<rparr>) w2 = Some (q, w3)"
    and s: "sends (trace w') = sends (trace w3)" by (rule unicast_mode_trace [OF rdy run])
  obtain new where new: "sends (trace w3) = sends (trace w2) @ new"
      "int (length new) \<le> max 0 (max_unicast_retries c)" "\<forall>r \<in> set new. good_request env (addr u) r"
      "spaced_from env (poll_wait c) (t\<lparr>tv_sec := - 1\<rparr>) (tick w2) (map fst new)"
    using query_loop_sent [OF clk q] by (auto simp: query_sent_def)
  have "\<exists>j. fst (new ! i) \<le> j \<and> j < fst (new ! Suc i)
      \<and> poll_wait c < elapsed (clock env (fst (new ! i) - 1)) (clock env j)" if "Suc i < length new" for i
    using spaced_from_nth [OF new(4) clk, of i] that by simp
  then show ?thesis
    using s new(1-3) unicast_ready_effects [OF rdy] unicast_ready_resolved [OF rdy]
    by (intro exI [of _ new] exI [of _ "addr u"]) simp
qed

text \<open>
  A network that answers nothing, a clock that moves 20 seconds per call, and a resolver that
  knows every address.
\<close>

definition silent_env :: os_env where
  "silent_env = quiet_env\<lparr>host_by_addr := \<lambda>a. Some (''time.example'', a),
     clock := \<lambda>n. \<lparr>tv_sec = 1700000000 + 20 * int n, tv_usec = 0\<rparr>\<rparr>"

lemma attempt_silent:
  assumes "send_ok env (tick w + 2)" "recv env (tick w + 3) = Recv_Error"
  shows "\<exists>w'. query_attempt (Suc f) env c a w = Some (A_Retry, clock env (Suc (tick w)), w')
    \<and> tick w' = tick w + 5 \<and> length (sends (trace w')) = Suc (length (sends (trace w)))"
  using assms
  by (simp add: query_attempt_def Let_def case_prod_unfold start_timer_def gettimeofday_def env_simps
      create_packet_simps listen_unfold recieve_SNTP_packet_def eval_nat_numeral del: listen.simps)

lemma silent_pass:
  assumes "tv_sec t = - 1 \<or> t = clock silent_env k" "int (tick w) - int k \<in> {1..1000}"
    and "rc \<le> max_unicast_retries demo_client"
  shows "\<exists>w' t'. query_loop (Suc (Suc f)) silent_env demo_client a rc t w
      = query_loop (Suc f) silent_env demo_client a (rc + 1) t' w'
    \<and> length (sends (trace w')) = Suc (length (sends (trace w)))
    \<and> (\<exists>k. t' = clock silent_env k \<and> int (tick w') - int k \<in> {1..1000})"
proof -
  obtain b w1 where ts: "too_soon silent_env demo_client t w = (b, w1)" by fastforce
  have el: "15 < elapsed t (clock silent_env (tick w))" if "t = clock silent_env k"
    using assms(2) that by (simp add: elapsed_def silent_env_def quiet_env_def to_int32_def)
  have w1: "\<not> b" "sends (trace w1) = sends (trace w)"
    using too_soon_cases [OF ts] assms(1) el by (auto simp: demo_client_def split: if_splits)
  obtain w' where "query_attempt (Suc f) silent_env demo_client a w1
      = Some (A_Retry, clock silent_env (Suc (tick w1)), w')" "tick w' = tick w1 + 5"
      "length (sends (trace w')) = Suc (length (sends (trace w1)))"
    using attempt_silent [of silent_env w1 f demo_client a] by (auto simp: silent_env_def quiet_env_def)
  then show ?thesis using ts w1 assms(3) by (intro exI [of _ w'] exI [of _ "clock silent_env (Suc (tick w1))"]) auto
qed

lemma silent_ready:
  "\<exists>u w2. unicast_ready silent_env demo_client world0 = Some (u, w2) \<and> tick w2 = 2 \<and> sends (trace w2) = []"
proof -
  have "inet_pton ''192.0.2.1'' = Some (In_Addr 192 0 2 1)" by code_simp
  then show ?thesis
    by (simp add: unicast_ready_def initialise_socket_def set_socket_recvfrom_timeout_def setsockopt_def
        initialise_server_interface_def Let_def demo_client_def cstr_val_def silent_env_def quiet_env_def
        world0_def env_simps)
qed

lemma silent_run:
  "\<exists>r w'. unicast_mode 3 silent_env l demo_client x y t world0 = Some (r, w')
     \<and> length (sends (trace w')) = 2"
proof -
  let ?t = "t\<lparr>tv_sec := - 1\<rparr>"
  obtain u w2 where rdy: "unicast_ready silent_env demo_client world0 = Some (u, w2)"
    and w2: "tick w2 = 2" "sends (trace w2) = []" using silent_ready by blast
  have "tv_sec ?t = - 1 \<or> ?t = clock silent_env 0" "int (tick w2) - int 0 \<in> {1..1000}"
      "1 \<le> max_unicast_retries demo_client"
    using w2 by (simp_all add: demo_client_def)
  from silent_pass [OF this, of 1 "addr u"] obtain w3 t3 k where r1:
      "query_loop 3 silent_env demo_client (addr u) 1 ?t w2 = query_loop 2 silent_env demo_client (addr u) 2 t3 w3"
      "length (sends (trace w3)) = 1" "t3 = clock silent_env k" "int (tick w3) - int k \<in> {1..1000}"
    using w2 by (auto simp: eval_nat_numeral simp del: query_loop.simps)
  from r1 have "tv_sec t3 = - 1 \<or> t3 = clock silent_env k" "int (tick w3) - int k \<in> {1..1000}"
      "2 \<le> max_unicast_retries demo_client"
    by (simp_all add: demo_client_def)
  from silent_pass [OF this, of 0 "addr u"] obtain w4 t4 where
      "query_loop 2 silent_env demo_client (addr u) 2 t3 w3 = query_loop 1 silent_env demo_client (addr u) 3 t4 w4"
      "length (sends (trace w4)) = 2"
    using r1(2) by (auto simp: eval_nat_numeral simp del: query_loop.simps)
  moreover have "query_loop 1 silent_env demo_client (addr u) 3 t4 w4 = Some (Q_Retries t4, w4)" for w4 t4
    by (simp add: demo_client_def)
  ultimately show ?thesis using r1(1) by (simp add: unicast_mode_ready [OF rdy])
qed

theorem unicast_requests_witness:
  "\<exists>r w' a new. unicast_mode 3 silent_env (\<lambda>_. []) demo_client one_e6 one_e6
       \<lparr>tv_sec = 0, tv_usec = 0\<rparr> world0 = Some (r, w')
     \<and> sends (trace w') = new \<and> length new = 2
     \<and> (\<forall>q \<in> set new. good_request silent_env a q)
     \<and> (\<exists>j. fst (new ! 0) \<le> j \<and> j < fst (new ! 1)
         \<and> 15 < elapsed (clock silent_env (fst (new ! 0) - 1)) (clock silent_env j))"
proof -
  obtain r w' where run: "unicast_mode 3 silent_env (\<lambda>_. []) demo_client one_e6 one_e6
      \<lparr>tv_sec = 0, tv_usec = 0\<rparr> world0 = Some (r, w')" "length (sends (trace w')) = 2"
    using silent_run by blast
  have "\<forall>n. tv_sec (clock silent_env n) \<noteq> - 1" by (simp add: silent_env_def quiet_env_def)
  from unicast_requests [OF this run(1)] run show ?thesis
    by (force simp: world0_def sends_simps demo_client_def)
qed

section \<open>Results\<close>

text \<open>
  C16. A unicast query that reports success rests on a real answer: some request it sent was
  answered by a datagram received next whose originate time stamp is that of the request,
  with a stratum of at most 15, mode 4 and the version of the request. The offset and the
  error bound are computed from the clock read for that request, the two server time stamps
  of that datagram, and the clock read on its arrival; the poll timer is the one started for
  that request.
\<close>

theorem unicast_success:
  assumes "unicast_mode f env l c x y t w = Some (U_Return 0 off bound t', w')"
  shows "\<exists>k p ts. tick w \<le> k \<and> answered_at env k p (clock env (k + 4)) t'
    \<and> ts_originate_timestamp ts = convert_ntp_time_into_unix_time (convert_unix_time_into_ntp_time (clock env k))
    \<and> ts_receive_timestamp ts = convert_ntp_time_into_unix_time (ntoh_time (host_endian env) (receive_timestamp p))
    \<and> ts_transmit_timestamp ts = convert_ntp_time_into_unix_time (ntoh_time (host_endian env) (transmit_timestamp p))
    \<and> ts_destination_timestamp ts = clock env (k + 4)
    \<and> off = calculate_clock_offset ts \<and> bound = calculate_error_bound ts"
proof (cases "unicast_ready env c w")
  case None
  then show ?thesis using unicast_not_ready [OF None, of f l x y t] assms by auto
next
  case (Some uw)
  then obtain u w2 where rdy: "unicast_ready env c w = Some (u, w2)" by (cases uw) auto
  obtain p d w3 where q: "query_loop f env c (addr u) 1 (t\<lparr>tv_sec := - 1\<rparr>) w2 = Some (Q_Valid p d t', w3)"
    and r: "off = calculate_clock_offset (reply_ts env p d)" "bound = calculate_error_bound (reply_ts env p d)"
    using assms unfolding unicast_mode_ready [OF rdy]
    by (auto split: option.splits prod.splits query_result.splits)
  obtain k where k: "tick w2 \<le> k" "answered_at env k p d t'" using query_loop_valid [OF q] by blast
  then have d: "d = clock env (k + 4)" and "originate_timestamp p = transmit_timestamp (request_of env k)"
    by (auto simp: answered_at_def trusted_reply_def)
  then have "ntoh_time (host_endian env) (originate_timestamp p) = convert_unix_time_into_ntp_time (clock env k)"
    by (simp add: request_of_def create_packet_simps)
  then show ?thesis
    using k d r unicast_ready_effects [OF rdy]
    by (intro exI [of _ k] exI [of _ p] exI [of _ "reply_ts env p d"]) (simp add: reply_ts_def)
qed

text \<open>The other direction: one good answer is enough.\<close>

lemma attempt_answered:
  assumes "send_ok env (tick w + 2)" "recv env (tick w + 3) = Datagram bs b" "length bs \<le> 48"
    and "trusted_reply (request_of env (tick w)) (load_packet (host_endian env) (pad_packet bs))"
  shows "\<exists>w'. query_attempt (Suc f) env c a w
      = Some (A_Valid (load_packet (host_endian env) (pad_packet bs)) (clock env (tick w + 4)),
          clock env (tick w + 1), w')"
proof -
  define w4 where "w4 = snd (send_SNTP_packet env (fst (create_packet env w)) a (debug c) (step_tick (step_tick w)))"
  have w4: "tick w4 = tick w + 3" by (simp add: w4_def env_simps)
  then have "fst (recieve_SNTP_packet env (debug c) w4)
      = Recv_Ok (load_packet (host_endian env) (pad_packet bs)) b (clock env (tick w + 4))"
    using assms(2,3) by (simp add: recv_ok_iff sizeof_ntp_packet_def add.commute)
  then obtain v where "recieve_SNTP_packet env (debug c) w4
      = (Recv_Ok (load_packet (host_endian env) (pad_packet bs)) b (clock env (tick w + 4)), v)"
    by (metis prod.collapse)
  then obtain w5 where "listen (Suc f) env c a (clock env (tick w + 1)) w4
      = Some (L_Reply (load_packet (host_endian env) (pad_packet bs)) (clock env (tick w + 4)), w5)"
    by (simp add: listen_unfold del: listen.simps)
  then show ?thesis
    using assms(1,4) by (simp add: query_attempt_def Let_def case_prod_unfold start_timer_def gettimeofday_def
        env_simps create_packet_simps sanity_zero_iff flip: w4_def create_packet_request)
qed

text \<open>The answer \<open>bs\<close> to the request built at call \<open>n\<close> is one the client believes.\<close>

definition good_answer :: "os_env \<Rightarrow> nat \<Rightarrow> byte list \<Rightarrow> bool" where
  "good_answer env n bs \<longleftrightarrow> length bs \<le> 48
     \<and> trusted_reply (request_of env n) (load_packet (host_endian env) (pad_packet bs))"

lemma unicast_answered_first:
  assumes rdy: "unicast_ready env c w = Some (u, w2)" and ret: "1 \<le> max_unicast_retries c"
    and "send_ok env (tick w2 + 2)" "recv env (tick w2 + 3) = Datagram bs b" "good_answer env (tick w2) bs"
    and p: "p = load_packet (host_endian env) (pad_packet bs)" and ts: "ts = reply_ts env p (clock env (tick w2 + 4))"
  shows "\<exists>w'. unicast_mode (Suc (Suc f)) env l c x y t w
      = Some (U_Return 0 (calculate_clock_offset ts) (calculate_error_bound ts) (clock env (tick w2 + 1)), w')"
proof -
  obtain w3 where "query_attempt (Suc f) env c (addr u) w2
      = Some (A_Valid p (clock env (tick w2 + 4)), clock env (tick w2 + 1), w3)"
    using attempt_answered [of env w2 bs b f c "addr u"] assms by (auto simp: good_answer_def)
  then have "query_loop (Suc (Suc f)) env c (addr u) 1 (t\<lparr>tv_sec := - 1\<rparr>) w2
      = Some (Q_Valid p (clock env (tick w2 + 4)) (clock env (tick w2 + 1)), w3)"
    using ret by (simp add: too_soon_def)
  then show ?thesis by (simp add: unicast_mode_ready [OF rdy] ts del: query_loop.simps)
qed

section \<open>Return\<close>

lemma query_attempt_mono:
  assumes "query_attempt f env c a w = Some r" "f \<le> g"
  shows "query_attempt g env c a w = Some r"
proof (cases f)
  case 0
  have "query_attempt 0 env c a w = Some r \<Longrightarrow> query_attempt g env c a w = Some r"
    by (auto simp: query_attempt_def Let_def case_prod_unfold split: if_splits)
  then show ?thesis using assms 0 by simp
next
  case (Suc n)
  then show ?thesis using query_attempt_fuel [of f g env c a w] assms by simp
qed

lemma query_loop_mono:
  "query_loop f env c a rc t w = Some r \<Longrightarrow> f \<le> g \<Longrightarrow> query_loop g env c a rc t w = Some r"
proof (induction f arbitrary: g rc t w)
  case (Suc f)
  then obtain h where g: "g = Suc h" "f \<le> h" by (cases g) auto
  show ?case
  proof (cases "rc > max_unicast_retries c")
    case False
    obtain b w1 where ts: "too_soon env c t w = (b, w1)" by fastforce
    show ?thesis
    proof (cases b)
      case True
      then show ?thesis using Suc.prems(1) Suc.IH g ts False by simp
    next
      case nb: False
      then obtain r1 t1 w2 where at: "query_attempt f env c a w1 = Some (r1, t1, w2)"
        using Suc.prems(1) False ts by (auto split: option.splits)
      then show ?thesis
        using Suc.prems(1) Suc.IH g ts False nb query_attempt_mono [OF at g(2)] by (cases r1) simp_all
    qed
  qed (use Suc.prems(1) g in simp)
qed simp

lemma unicast_mode_mono:
  assumes "unicast_mode f env l c x y t w = Some r" "f \<le> g"
  shows "unicast_mode g env l c x y t w = Some r"
proof (cases "unicast_ready env c w")
  case None
  then show ?thesis
    using assms(1) by (auto simp: unicast_ready_def unicast_mode_def Let_def split: prod.splits if_splits sum.splits)
next
  case (Some uw)
  then obtain u w2 where rdy: "unicast_ready env c w = Some (u, w2)" by (cases uw) auto
  then obtain q where "query_loop f env c (addr u) 1 (t\<lparr>tv_sec := - 1\<rparr>) w2 = Some q"
    using assms(1) by (auto simp: unicast_mode_ready split: option.splits)
  then show ?thesis using assms(1) query_loop_mono [OF _ assms(2)] by (simp add: unicast_mode_ready [OF rdy])
qed

lemma unicast_mode_returns:
  assumes adv: "advancing env (poll_wait c)"
  shows "\<exists>n r w'. (\<forall>f \<ge> n. unicast_mode f env l c x y t w = Some (r, w'))
    \<and> (case r of U_Return code off bound t' \<Rightarrow> code = 0 \<or> code \<in> {2, 3, 4, 8} \<and> off = x \<and> bound = y
       | U_Undefined m \<Rightarrow> True)"
proof (cases "unicast_ready env c w")
  case None
  obtain rc w' where "unicast_mode 0 env l c x y t w = Some (U_Return rc x y t, w')" "rc \<in> {2, 3, 8}"
    using unicast_not_ready [OF None] by blast
  then have "\<forall>f \<ge> 0. unicast_mode f env l c x y t w = Some (U_Return rc x y t, w')"
    using unicast_mode_mono by blast
  then show ?thesis
    using \<open>rc \<in> {2, 3, 8}\<close> by (intro exI [of _ 0] exI [of _ "U_Return rc x y t"] exI [of _ w']) auto
next
  case (Some uw)
  then obtain u w2 where rdy: "unicast_ready env c w = Some (u, w2)" by (cases uw) auto
  have "loop_timer env (t\<lparr>tv_sec := - 1\<rparr>)" by (simp add: loop_timer_def)
  then obtain n q where n: "query_loop n env c (addr u) 1 (t\<lparr>tv_sec := - 1\<rparr>) w2 = Some q"
    using query_loop_returns [OF adv] by blast
  then have "unicast_mode n env l c x y t w \<noteq> None"
    by (simp add: unicast_mode_ready [OF rdy] split: prod.split query_result.split)
  then obtain r w' where r: "unicast_mode n env l c x y t w = Some (r, w')" by auto
  then have "case r of U_Return code off bound t' \<Rightarrow> code = 0 \<or> code \<in> {2, 3, 4, 8} \<and> off = x \<and> bound = y
      | U_Undefined m \<Rightarrow> True"
    by (auto simp: unicast_mode_ready [OF rdy] split: option.splits prod.splits query_result.splits)
  then show ?thesis using r unicast_mode_mono [OF r] by blast
qed


lemma silent_advancing: "advancing silent_env 15"
  unfolding advancing_def
proof (intro allI)
  fix k n
  have "(2147483668 + 85899345920 * int n) mod 4294967296 = 2147483668"
    using mod_mult_self2 [of "2147483668 :: int" 4294967296 "20 * int n"] by simp
  then have "elapsed (clock silent_env k) (clock silent_env (k + 1 + 2 ^ 32 * n)) = 20"
    by (simp add: elapsed_def silent_env_def quiet_env_def to_int32_def)
  moreover have "n \<le> k + 1 + 2 ^ 32 * n" by simp
  ultimately show "\<exists>m \<ge> n. 15 < elapsed (clock silent_env k) (clock silent_env m)"
    by (intro exI [of _ "k + 1 + 2 ^ 32 * n"]) simp
qed


text \<open>A network on which a stratum 2 server answers the request built at call 2.\<close>

definition answer_pkt :: ntp_packet where
  "answer_pkt = zero_packet\<lparr>li_vn_mode := 36, stratum := 2,
     originate_timestamp := transmit_timestamp (request_of silent_env 2),
     receive_timestamp := \<lparr>second = 7, fraction = 9\<rparr>, transmit_timestamp := \<lparr>second = 7, fraction = 10\<rparr>\<rparr>"

definition answer_env :: os_env where
  "answer_env = silent_env\<lparr>recv := \<lambda>_. Datagram (store_packet Little answer_pkt) peer\<rparr>"

lemma answer_good: "good_answer answer_env 2 (store_packet Little answer_pkt)"
proof -
  have "request_of answer_env 2 = request_of silent_env 2"
    by (simp add: answer_env_def request_of_def create_packet_def get_ntp_time_of_day_def gettimeofday_def)
  moreover have "version_of (li_vn_mode (request_of silent_env 2)) = 4"
    by (simp add: request_of_def create_packet_simps)
  ultimately show ?thesis
    by (simp add: good_answer_def trusted_reply_def answer_env_def silent_env_def quiet_env_def answer_pkt_def
        mode_of_def version_of_def zero_time_def sizeof_ntp_packet_def)
qed

lemma answer_run:
  "\<exists>off bound t' w'. unicast_mode 2 answer_env l demo_client x y t world0 = Some (U_Return 0 off bound t', w')"
proof -
  obtain u w2 where rdy: "unicast_ready answer_env demo_client world0 = Some (u, w2)" "tick w2 = 2"
    using silent_ready
    by (auto simp: answer_env_def unicast_ready_def initialise_socket_def set_socket_recvfrom_timeout_def
        setsockopt_def initialise_server_interface_def Let_def split: if_splits option.splits)
  have "1 \<le> max_unicast_retries demo_client" "send_ok answer_env (tick w2 + 2)"
      "recv answer_env (tick w2 + 3) = Datagram (store_packet Little answer_pkt) peer"
    by (simp_all add: demo_client_def answer_env_def silent_env_def quiet_env_def)
  from unicast_answered_first [OF rdy(1) this _ refl refl, of 0 l x y t] answer_good rdy(2)
  show ?thesis by (auto simp: eval_nat_numeral)
qed

theorem unicast_success_witness:
  "\<exists>t' p k. answered_at answer_env k p (clock answer_env (k + 4)) t'"
proof -
  obtain off bound t' w' where "unicast_mode 2 answer_env (\<lambda>_. []) demo_client one_e6 one_e6
      \<lparr>tv_sec = 0, tv_usec = 0\<rparr> world0 = Some (U_Return 0 off bound t', w')"
    using answer_run by blast
  from unicast_success [OF this] show ?thesis by blast
qed

end
