(* ===== verification/End_To_End.thy ===== *)
theory End_To_End
  imports Client_Unicast
begin

text \<open>
  The client and the server of the repository together: what one successful query tells the
  user about the difference between the two clocks.
\<close>

section \<open>Time stamps through a packet\<close>

abbreviation recoded :: "timeval \<Rightarrow> timeval" where
  "recoded t \<equiv> convert_ntp_time_into_unix_time (convert_unix_time_into_ntp_time t)"

lemma real_time_usecs: "real_time t = of_int (usecs t) / 1000000"
  by (simp add: real_time_def usecs_def field_simps)

lemma recoded_drift:
  assumes "ntp_safe t"
  shows "real_time t \<le> real_time (recoded t) \<and> real_time (recoded t) \<le> real_time t + 1 / 1000000"
  using ntp_codec.codec_drift [OF assms] by (simp add: real_time_usecs field_simps)

text \<open>The offset computed from stamps that moved forward by at most a microsecond each.\<close>

lemma drift_offset:
  fixes t1 t2 t3 t4 :: real
  assumes "t1 \<le> t1'" "t1' \<le> t1 + e" "t2 \<le> t2'" "t2' \<le> t2 + e" "t3 \<le> t3'" "t3' \<le> t3 + e"
    and "t2 = t1 + theta + d1" "t4 = t3 - theta + d2" "0 \<le> d1" "0 \<le> d2"
  shows "\<bar>((t2' - t1') + (t3' - t4)) / 2 - theta\<bar> \<le> ((t4 - t1') - (t3' - t2')) / 2 + 2 * e"
  using assms by (simp add: abs_le_iff field_simps)

section \<open>The reply of the server\<close>

text \<open>
  The server on host \<open>es\<close> receives at its call \<open>k\<close> the request the client on host \<open>ec\<close> built
  at its call \<open>n\<close>, and the client's next datagram is the reply.
\<close>

definition exchanged :: "os_env \<Rightarrow> nat \<Rightarrow> os_env \<Rightarrow> nat \<Rightarrow> sockaddr_in \<Rightarrow> sockaddr_in \<Rightarrow> bool" where
  "exchanged ec n es k client_addr server_addr \<longleftrightarrow>
     send_ok ec (n + 2) \<and> send_ok es (k + 3)
     \<and> recv es k = Datagram (store_packet (host_endian ec) (request_of ec n)) client_addr
     \<and> recv ec (n + 3) = Datagram (store_packet (host_endian es)
          (reply_at es k (store_packet (host_endian ec) (request_of ec n)) client_addr)) server_addr"

definition reply_seen :: "os_env \<Rightarrow> nat \<Rightarrow> os_env \<Rightarrow> nat \<Rightarrow> sockaddr_in \<Rightarrow> ntp_packet" where
  "reply_seen ec n es k a = load_packet (host_endian ec) (store_packet (host_endian es)
     (reply_at es k (store_packet (host_endian ec) (request_of ec n)) a))"

lemma accepts_request_of: "accepts_request (request_of env n)"
  by (simp add: request_of_def accepts_created)

lemma reply_seen_trusted:
  assumes "convert_unix_time_into_ntp_time (clock es (k + 2)) \<noteq> zero_time"
  shows "trusted_reply (request_of ec n) (reply_seen ec n es k a)"
proof -
  let ?b = "store_packet (host_endian ec) (request_of ec n)"
  have "ntoh_time (host_endian es) (transmit_timestamp (reply_at es k ?b a)) \<noteq> zero_time"
    using assms reply_transmit by simp
  then have "transmit_timestamp (reply_at es k ?b a) \<noteq> zero_time" using zero_ntoh_time by metis
  then show ?thesis
    using srv.reply_trusted_wire [where ?e1.0 = "host_endian ec" and ?e2.0 = "host_endian es"
        and req = "request_of ec n"] accepts_request_of accepts_recode
    unfolding reply_seen_def reply_at_server_reply by (simp add: load_store_other)
qed

lemma reply_seen_ts:
  assumes "trusted_reply (request_of ec n) (reply_seen ec n es k a)"
  shows "reply_ts ec (reply_seen ec n es k a) d =
    \<lparr>ts_originate_timestamp = recoded (clock ec n), ts_receive_timestamp = recoded (clock es (k + 1)),
     ts_transmit_timestamp = recoded (clock es (k + 2)), ts_destination_timestamp = d\<rparr>"
proof -
  have "ntoh_time (host_endian ec) (originate_timestamp (reply_seen ec n es k a))
      = convert_unix_time_into_ntp_time (clock ec n)"
    using assms by (simp add: trusted_reply_def request_of_def create_packet_simps)
  moreover have "ntoh_time (host_endian ec) (receive_timestamp (reply_seen ec n es k a))
      = convert_unix_time_into_ntp_time (clock es (k + 1))"
    "ntoh_time (host_endian ec) (transmit_timestamp (reply_seen ec n es k a))
      = convert_unix_time_into_ntp_time (clock es (k + 2))"
    using reply_transmit by (simp_all add: reply_seen_def load_store_other recode_def wire_simps)
  ultimately show ?thesis by (simp add: reply_ts_def)
qed

lemma ntp_safe_nonzero: "ntp_safe t \<Longrightarrow> convert_unix_time_into_ntp_time t \<noteq> zero_time"
proof
  assume s: "ntp_safe t" and z: "convert_unix_time_into_ntp_time t = zero_time"
  then have u: "0 \<le> tv_usec t" "tv_usec t < 999999" by (auto simp: ntp_safe_def valid_timeval_def)
  then have "uint (fraction (convert_unix_time_into_ntp_time t)) = ref_fraction (tv_usec t)"
    using unix_fraction_word [of t] by simp
  then have "ref_fraction (tv_usec t) = 0" using z by (simp add: zero_time_def)
  moreover have "1 \<le> ref_fraction (tv_usec t)"
    using zdiv_mono1 [of "10 ^ 6" "(tv_usec t + 1) * 2 ^ 32" "10 ^ 6"] u(1) by (simp add: ref_fraction_def)
  ultimately show False by simp
qed

section \<open>What the user is told\<close>

lemma exchange_accuracy:
  assumes safe: "ntp_safe (clock ec n)" "ntp_safe (clock es (k + 1))" "ntp_safe (clock es (k + 2))"
      "valid_timeval (clock ec (n + 4))"
    and go: "real_time (clock es (k + 1)) = real_time (clock ec n) + theta + d1"
    and ret: "real_time (clock ec (n + 4)) = real_time (clock es (k + 2)) - theta + d2"
    and nonneg: "0 \<le> d1" "0 \<le> d2"
    and ts: "ts = \<lparr>ts_originate_timestamp = recoded (clock ec n), ts_receive_timestamp = recoded (clock es (k + 1)),
     ts_transmit_timestamp = recoded (clock es (k + 2)), ts_destination_timestamp = clock ec (n + 4)\<rparr>"
  shows "\<bar>dval (calculate_clock_offset ts) - theta\<bar> \<le> dval (calculate_error_bound ts) / 2 + 6 / 1000000"
proof -
  have v: "valid_core_ts ts" using safe by (simp add: ts valid_core_ts_def convert_ntp_valid)
  have "\<bar>exact_offset ts - theta\<bar> \<le> exact_delay ts / 2 + 2 * (1 / 1000000)"
    using drift_offset [OF _ _ _ _ _ _ go ret nonneg] recoded_drift [OF safe(1)] recoded_drift [OF safe(2)]
      recoded_drift [OF safe(3)]
    by (simp only: ts exact_offset_def exact_delay_def core_ts.simps)
  then show ?thesis using offset_error [OF v] bound_error [OF v] by linarith
qed

text \<open>
  C1. What a query against this server tells the user. Let the client be able to start, and
  the server receive the client's first request and the client the server's answer to it. Let
  the server's clock be \<open>theta\<close> seconds ahead of the client's, the request and the reply
  travel for \<open>d1\<close> and \<open>d2\<close> seconds, and no clock be read in the last microsecond of a second.
  Then the server answers, the query succeeds, and the offset it reports is within half of the error bound it
  reports, and six microseconds, of \<open>theta\<close>.
\<close>

theorem query_finds_clock_offset:
  assumes rdy: "unicast_ready ec c w = Some (u, w2)" and ret: "1 \<le> max_unicast_retries c"
    and ex: "exchanged ec (tick w2) es k client_addr server_addr"
    and safe: "ntp_safe (clock ec (tick w2))" "ntp_safe (clock es (k + 1))" "ntp_safe (clock es (k + 2))"
      "valid_timeval (clock ec (tick w2 + 4))"
    and go: "real_time (clock es (k + 1)) = real_time (clock ec (tick w2)) + theta + d1"
    and rtn: "real_time (clock ec (tick w2 + 4)) = real_time (clock es (k + 2)) - theta + d2"
    and nonneg: "0 \<le> d1" "0 \<le> d2"
  shows "\<exists>off bound t' w'. served es k = Some (store_packet (host_endian ec) (request_of ec (tick w2)), client_addr)
    \<and> unicast_mode (Suc (Suc f)) ec l c x y t w = Some (U_Return 0 off bound t', w')
    \<and> \<bar>dval off - theta\<bar> \<le> dval bound / 2 + 6 / 1000000"
proof -
  let ?p = "reply_seen ec (tick w2) es k client_addr"
  let ?bs = "store_packet (host_endian es)
     (reply_at es k (store_packet (host_endian ec) (request_of ec (tick w2))) client_addr)"
  have tr: "trusted_reply (request_of ec (tick w2)) ?p" by (intro reply_seen_trusted ntp_safe_nonzero safe)
  have p: "?p = load_packet (host_endian ec) (pad_packet ?bs)" by (simp add: reply_seen_def)
  have "send_ok ec (tick w2 + 2)" "recv ec (tick w2 + 3) = Datagram ?bs server_addr"
    using ex by (simp_all add: exchanged_def)
  moreover have "good_answer ec (tick w2) ?bs"
    using tr p by (simp add: good_answer_def sizeof_ntp_packet_def)
  ultimately obtain w' where "unicast_mode (Suc (Suc f)) ec l c x y t w
      = Some (U_Return 0 (calculate_clock_offset (reply_ts ec ?p (clock ec (tick w2 + 4))))
          (calculate_error_bound (reply_ts ec ?p (clock ec (tick w2 + 4)))) (clock ec (tick w2 + 1)), w')"
    using unicast_answered_first [OF rdy ret _ _ _ p refl] by blast
  moreover have "served es k = Some (store_packet (host_endian ec) (request_of ec (tick w2)), client_addr)"
    using ex unfolding exchanged_def request_of_def by (intro request_served) simp_all
  moreover note exchange_accuracy [OF safe go rtn nonneg reply_seen_ts [OF tr]]
  ultimately show ?thesis by blast
qed

text \<open>
  An example: the server's clock is 1000 seconds ahead, and both clocks move 20 seconds per
  call; the reply reaches the client 80 seconds after the request was built.
\<close>

definition ahead_env :: os_env where
  "ahead_env = silent_env\<lparr>host_endian := Big,
     clock := \<lambda>n. \<lparr>tv_sec = 1700001040 + 20 * int n, tv_usec = 0\<rparr>,
     recv := \<lambda>_. Datagram (store_packet Little (request_of silent_env 2)) other_host\<rparr>"

definition near_env :: os_env where
  "near_env = silent_env\<lparr>recv := \<lambda>_. Datagram (store_packet Big
     (reply_at ahead_env 0 (store_packet Little (request_of silent_env 2)) other_host)) peer\<rparr>"

lemma near_ready: "\<exists>u w2. unicast_ready near_env demo_client world0 = Some (u, w2) \<and> tick w2 = 2"
  using silent_ready
  by (auto simp: near_env_def unicast_ready_def initialise_socket_def set_socket_recvfrom_timeout_def
      setsockopt_def initialise_server_interface_def Let_def split: if_splits option.splits)

lemma near_exchanged: "exchanged near_env 2 ahead_env 0 other_host peer"
proof -
  have "request_of near_env 2 = request_of silent_env 2"
    by (simp add: near_env_def request_of_def create_packet_def get_ntp_time_of_day_def gettimeofday_def)
  then show ?thesis by (simp add: exchanged_def near_env_def ahead_env_def silent_env_def quiet_env_def)
qed

theorem query_finds_clock_offset_witness:
  "\<exists>off bound t' w'. unicast_mode 2 near_env (\<lambda>_. []) demo_client one_e6 one_e6
      \<lparr>tv_sec = 0, tv_usec = 0\<rparr> world0 = Some (U_Return 0 off bound t', w')
    \<and> \<bar>dval off - 1000\<bar> \<le> dval bound / 2 + 6 / 1000000"
proof -
  obtain u w2 where rdy: "unicast_ready near_env demo_client world0 = Some (u, w2)" "tick w2 = 2"
    using near_ready by blast
  note envs = near_env_def ahead_env_def silent_env_def quiet_env_def demo_client_def ntp_safe_def
    valid_timeval_def real_time_def
  have "\<exists>off bound t' w'. served ahead_env 0
        = Some (store_packet (host_endian near_env) (request_of near_env (tick w2)), other_host)
      \<and> unicast_mode (Suc (Suc 0)) near_env (\<lambda>_. []) demo_client one_e6 one_e6
          \<lparr>tv_sec = 0, tv_usec = 0\<rparr> world0 = Some (U_Return 0 off bound t', w')
      \<and> \<bar>dval off - 1000\<bar> \<le> dval bound / 2 + 6 / 1000000"
    by (rule query_finds_clock_offset [OF rdy(1), where es = ahead_env and k = 0 and client_addr = other_host
        and server_addr = peer and ?d1.0 = 20 and ?d2.0 = 40])
      (use near_exchanged rdy(2) in \<open>simp_all add: envs\<close>)
  then show ?thesis by (auto simp: eval_nat_numeral)
qed

end
