(* ===== verification/Client_Main.thy ===== *)
theory Client_Main
  imports End_To_End
begin

text \<open>
  Properties of address parsing, of the manycast discovery, and of \<^verbatim>\<open>main\<close>: which
  server a discovery leads to, what the statistics add up, and that the client ends.
\<close>

section \<open>Addresses as text\<close>

lemma decimal_append:
  "decimal acc (xs @ ys) = (case decimal acc xs of None \<Rightarrow> None | Some a \<Rightarrow> decimal a ys)"
  by (induction acc xs rule: decimal.induct) (auto split: option.split)

lemma decimal_digits: "decimal 0 (digits n) = Some n"
proof (induction n rule: digits.induct)
  case (1 n)
  then show ?case
    by (subst digits.simps) (simp add: decimal_append digit_val_char)
qed

lemma digits_chars: "c \<in> set (digits n) \<Longrightarrow> 48 \<le> (of_char c :: nat) \<and> of_char c \<le> (57 :: nat)"
proof (induction n rule: digits.induct)
  case (1 n)
  then show ?case by (subst (asm) (2) digits.simps) (auto split: if_splits)
qed

lemma digits_no_leading_zero: "0 < n \<Longrightarrow> hd (digits n) \<noteq> CHR ''0''"
proof (induction n rule: digits.induct)
  case (1 n)
  show ?case
  proof (cases "n < 10")
    case True
    then have "(of_char (hd (digits n)) :: nat) = 48 + n" by (simp add: digits_less_10)
    moreover have "(of_char CHR ''0'' :: nat) = 48" by simp
    ultimately show ?thesis using 1(2) by auto
  next
    case False
    then have "hd (digits (n div 10)) \<noteq> CHR ''0''" using 1 by simp
    then show ?thesis using False by (subst digits.simps) simp
  qed
qed

lemma parse_octet_digits: "n \<le> 255 \<Longrightarrow> parse_octet (digits n) = Some (of_nat n)"
proof -
  assume n: "n \<le> 255"
  obtain c cs where d: "digits n = c # cs" by (cases "digits n") simp_all
  have "c \<noteq> CHR ''0'' \<or> cs = []"
    using digits_no_leading_zero [of n] d digits_less_10 [of 0] by (cases "n = 0") simp_all
  then show ?thesis using n decimal_digits [of n] by (auto simp: parse_octet_def d)
qed

lemma split_on_none: "c \<notin> set xs \<Longrightarrow> split_on c xs = [xs]"
  by (induction xs) auto

lemma split_on_append: "c \<notin> set xs \<Longrightarrow> split_on c (xs @ c # ys) = xs # split_on c ys"
  by (induction xs) auto

lemma dot_not_digit: "CHR ''.'' \<notin> set (digits n)"
  using digits_chars [of "CHR ''.''" n] by auto

lemma dotted_parses: "inet_pton (dotted a) = Some a"
proof (cases a)
  case (In_Addr p q r s)
  have "unat x \<le> 255" for x :: byte
  proof -
    have "unat x < 2 ^ LENGTH(8)" by (rule unsigned_less)
    then show ?thesis by simp
  qed
  then show ?thesis
    by (simp add: inet_pton_def In_Addr split_on_append split_on_none dot_not_digit parse_octet_digits)
qed

section \<open>Collecting replies\<close>

text \<open>The world after a reply was noted, discarded or approved.\<close>

definition noted :: "client_settings \<Rightarrow> ntp_packet \<Rightarrow> ntp_packet \<Rightarrow> sockaddr_in \<Rightarrow> world \<Rightarrow> world" where
  "noted c req p s w = snd (inet_ntoa (sin_addr s) (snd (run_sanity_checks req p (debug c)
     (print_debug (debug c) (''server discovered: '' @ dotted (sin_addr s)) (snd (inet_ntoa (sin_addr s) w))))))"

definition discarded :: "client_settings \<Rightarrow> ntp_packet \<Rightarrow> ntp_packet \<Rightarrow> sockaddr_in \<Rightarrow> world \<Rightarrow> world" where
  "discarded c req p s w = print_debug (debug c) (''server '' @ [CHR 0x27] @ dotted (sin_addr s)
     @ [CHR 0x27] @ '' failed sanity checks, discarding server'') (noted c req p s w)"

definition approved :: "client_settings \<Rightarrow> ntp_packet \<Rightarrow> ntp_packet \<Rightarrow> sockaddr_in \<Rightarrow> world \<Rightarrow> world" where
  "approved c req p s w = print_debug (debug c) (''server '' @ [CHR 0x27] @ dotted (sin_addr s)
     @ [CHR 0x27] @ '' is approved'') (noted c req p s w)"

lemma noted_effects [env_simps]:
  "tick (noted c req p s w) = tick w" "sends (trace (noted c req p s w)) = sends (trace w)"
  "ntoa_buf (noted c req p s w) = dotted (sin_addr s)"
  "tick (discarded c req p s w) = tick w" "sends (trace (discarded c req p s w)) = sends (trace w)"
  "ntoa_buf (discarded c req p s w) = dotted (sin_addr s)"
  "tick (approved c req p s w) = tick w" "sends (trace (approved c req p s w)) = sends (trace w)"
  "ntoa_buf (approved c req p s w) = dotted (sin_addr s)"
  by (simp_all add: noted_def discarded_def approved_def inet_ntoa_def env_simps)

lemma noted_again: "snd (inet_ntoa (sin_addr s) (noted c req p s w)) = noted c req p s w"
  by (simp add: noted_def inet_ntoa_def)

lemma collect_unfold:
  "collect_replies (Suc f) env c req t ss w =
     (if manycast_wait_time c < elapsed t (clock env (tick w)) then Some (C_Servers ss, step_tick w)
      else
        (case recieve_SNTP_packet env (debug c) (step_tick w) of
           (Recv_Failed, w2) \<Rightarrow>
             collect_replies f env c req t ss (print_debug (debug c) ''no replys from any server'' w2)
         | (Recv_Overrun n, w2) \<Rightarrow> Some (C_Undefined n, w2)
         | (Recv_Ok p s d, w2) \<Rightarrow>
             if \<not> trusted_reply req p then collect_replies f env c req t ss (discarded c req p s w2)
             else if 10 \<le> length ss then Some (C_Array_Overflow, noted c req p s w2)
             else collect_replies f env c req t (ss @ [Ntoa_Buf]) (approved c req p s w2)))"
  by (auto simp: Let_def case_prod_unfold get_elapsed_time_def gettimeofday_def inet_ntoa_def cstr_val_def
      sanity_zero_iff MANYCAST_MAX_SERVERS_def discarded_def approved_def noted_def not_le
      split: prod.split recv_outcome.split)

text \<open>
  What the list of servers can be: ten entries at most, each the address of the same static
  buffer.
\<close>

lemma collect_servers:
  "collect_replies f env c req t ss w = Some (r, w') \<Longrightarrow>
     sends (trace w') = sends (trace w) \<and>
     (case r of C_Servers ss' \<Rightarrow> \<exists>n. ss' = ss @ replicate n Ntoa_Buf \<and> (0 < n \<longrightarrow> length ss' \<le> 10) | _ \<Rightarrow> True)"
proof (induction f arbitrary: ss w)
  case (Suc f)
  show ?case
  proof (cases "manycast_wait_time c < elapsed t (clock env (tick w))")
    case True
    then show ?thesis using Suc.prems by (auto simp: collect_unfold env_simps simp del: collect_replies.simps)
  next
    case False
    obtain o' w2 where rv: "recieve_SNTP_packet env (debug c) (step_tick w) = (o', w2)" by fastforce
    then have s: "sends (trace w2) = sends (trace w)" using recieve_eq_effects by (fastforce simp: env_simps)
    show ?thesis
    proof (cases o')
      case Recv_Failed
      then show ?thesis
        using Suc.IH [of ss] Suc.prems False rv s by (auto simp: collect_unfold env_simps simp del: collect_replies.simps)
    next
      case (Recv_Ok p from' d)
      show ?thesis
      proof (cases "trusted_reply req p \<and> length ss < 10")
        case True
        then have "collect_replies f env c req t (ss @ [Ntoa_Buf]) (approved c req p from' w2) = Some (r, w')"
          using Suc.prems False rv Recv_Ok by (simp add: collect_unfold not_le del: collect_replies.simps)
        note ih = Suc.IH [OF this]
        show ?thesis
        proof (cases r)
          case (C_Servers ss')
          then obtain n where "ss' = ss @ [Ntoa_Buf] @ replicate n Ntoa_Buf" "0 < n \<longrightarrow> length ss' \<le> 10"
            using ih by auto
          then have "ss' = ss @ replicate (Suc n) Ntoa_Buf \<and> length ss' \<le> 10" using True by (cases n) simp_all
          then have "\<exists>n. ss' = ss @ replicate n Ntoa_Buf \<and> (0 < n \<longrightarrow> length ss' \<le> 10)" by blast
          then show ?thesis using ih s C_Servers by (simp add: env_simps)
        qed (use ih s in \<open>simp_all add: env_simps\<close>)
      next
        case no: False
        then show ?thesis
          using Suc.IH [of ss] Suc.prems False rv s Recv_Ok
          by (auto simp: collect_unfold env_simps simp del: collect_replies.simps split: if_splits)
      qed
    qed (use Suc.prems False rv s in \<open>auto simp: collect_unfold simp del: collect_replies.simps\<close>)
  qed
qed simp

section \<open>Discovery\<close>

text \<open>The group, the request, the timer and the world the collecting loop starts with.\<close>

definition discover_ready ::
    "os_env \<Rightarrow> client_settings \<Rightarrow> world \<Rightarrow> (sockaddr_in \<times> ntp_packet \<times> timeval \<times> world) option" where
  "discover_ready env c w =
     (let w0 = print_debug (debug c) ''initialising manycast request'' w;
          (rc, w1) = initialise_socket env MANYCAST_RECV_TIMEOUT (debug c) w0;
          (h, w2) = initialise_server_interface env (Lit (manycast_address c)) (server_port c) (debug c) w1;
          (ok, w3) = setsockopt env w2;
          (req, w4) = create_packet env w3;
          (rc', w5) = send_SNTP_packet env req (addr (projr h)) (debug c) w4;
          (t, w6) = start_timer env w5
      in if rc \<noteq> 0 \<or> isl h \<or> \<not> ok \<or> rc' \<noteq> 0 then None else Some (addr (projr h), req, t, w6))"

lemma discover_when_ready:
  assumes "discover_ready env c w = Some (a, req, t, w6)"
  shows "discover_unicast_servers_with_manycast f env c w =
     (case collect_replies f env c req t [] w6 of
        None \<Rightarrow> None
      | Some (C_Undefined n, w7) \<Rightarrow> Some (D_Undefined, w7)
      | Some (C_Array_Overflow, w7) \<Rightarrow> Some (D_Undefined, w7)
      | Some (C_Servers servers, w7) \<Rightarrow>
          if servers = []
          then Some (D_Return 6 [], print_debug (debug c) ''no servers found from manycast query'' w7)
          else Some (D_Return 0 servers, emit Closed w7))"
  using assms
  by (auto simp: discover_ready_def discover_unicast_servers_with_manycast_def Let_def
      split: prod.splits if_splits sum.splits)

lemma discover_not_ready:
  assumes "discover_ready env c w = None"
  shows "\<exists>rc w'. discover_unicast_servers_with_manycast f env c w = Some (D_Return rc [], w')
    \<and> rc \<in> {2, 3, 5, 7, 8} \<and> sends (trace w') = sends (trace w)"
proof -
  let ?w0 = "print_debug (debug c) ''initialising manycast request'' w"
  obtain rc w1 where i: "initialise_socket env MANYCAST_RECV_TIMEOUT (debug c) ?w0 = (rc, w1)" by fastforce
  obtain h w2 where s: "initialise_server_interface env (Lit (manycast_address c)) (server_port c) (debug c) w1 = (h, w2)"
    by fastforce
  have "rc \<in> {0, 3, 8}" "sends (trace w1) = sends (trace w)"
    using initialise_socket_effects(1,3) [of env MANYCAST_RECV_TIMEOUT "debug c" ?w0] i by (simp_all add: env_simps)
  moreover have "h = Inl e \<Longrightarrow> e = 2" "sends (trace w2) = sends (trace w1)" "tick w2 = tick w1" for e
    using initialise_server_interface_effects
      [of env "Lit (manycast_address c)" "server_port c" "debug c" w1] s by simp_all
  ultimately show ?thesis
    using assms i s
    by (cases h) (auto simp: discover_ready_def discover_unicast_servers_with_manycast_def Let_def setsockopt_def
        env_simps create_packet_simps case_prod_unfold split: if_splits)
qed

lemma discover_ready_effects:
  assumes "discover_ready env c w = Some (a, req, t, w6)"
  shows "req = request_of env (tick w + 3) \<and> t = clock env (tick w + 5) \<and> tick w6 = tick w + 6
    \<and> sends (trace w6) = sends (trace w) @ [(tick w + 4, store_packet (host_endian env) req, a)]"
proof -
  have tk: "fst (initialise_socket env s d v) = 0 \<Longrightarrow> tick (snd (initialise_socket env s d v)) = tick v + 2" for s d v
    by (auto simp: initialise_socket_def set_socket_recvfrom_timeout_def setsockopt_def Let_def env_simps
        split: if_splits)
  show ?thesis
    using assms
    by (auto simp: discover_ready_def Let_def case_prod_unfold setsockopt_def start_timer_def gettimeofday_def
        env_simps create_packet_request create_packet_simps(1) tk eval_nat_numeral split: if_splits)
qed

lemma discover_success:
  assumes "discover_unicast_servers_with_manycast f env c w = Some (D_Return 0 ss, w')"
  obtains a req t w6 w7 where "discover_ready env c w = Some (a, req, t, w6)"
    "collect_replies f env c req t [] w6 = Some (C_Servers ss, w7)" "ss \<noteq> []" "w' = emit Closed w7"
proof (cases "discover_ready env c w")
  case None
  then show ?thesis using discover_not_ready [OF None, of f] assms by auto
next
  case (Some r)
  then obtain a req t w6 where rdy: "discover_ready env c w = Some (a, req, t, w6)" by (cases r) auto
  then show ?thesis
    using assms that
    by (auto simp: discover_when_ready split: option.splits prod.splits collect_result.splits if_splits)
qed

text \<open>
  C19. A successful manycast discovery has sent one request, to the group, and found between
  one and ten servers. It has not kept their addresses: every entry of the list is the
  address of the static buffer of \<^verbatim>\<open>inet_ntoa\<close>, so all entries read as the same
  text, the one formatted last.
\<close>

theorem manycast_servers:
  assumes "discover_unicast_servers_with_manycast f env c w = Some (D_Return 0 ss, w')"
  shows "1 \<le> length ss \<and> length ss \<le> 10 \<and> (\<forall>p \<in> set ss. p = Ntoa_Buf \<and> cstr_val w' p = ntoa_buf w')
    \<and> (\<exists>a req. accepts_request req \<and> sends (trace w') = sends (trace w)
         @ [(tick w + 4, store_packet (host_endian env) req, a)])"
proof -
  obtain g req t w6 w7 where rdy: "discover_ready env c w = Some (g, req, t, w6)"
    and cl: "collect_replies f env c req t [] w6 = Some (C_Servers ss, w7)" and ss: "ss \<noteq> []" "w' = emit Closed w7"
    by (rule discover_success [OF assms])
  obtain n where n: "ss = replicate n Ntoa_Buf" "0 < n \<longrightarrow> length ss \<le> 10" "sends (trace w7) = sends (trace w6)"
    using collect_servers [OF cl] by auto
  show ?thesis
    using n ss discover_ready_effects [OF rdy] accepts_request_of [of env "tick w + 3"]
    by (auto simp: cstr_val_def env_simps Suc_le_eq)
qed

text \<open>The buffer after the loop, on a network where every datagram comes from one address.\<close>

lemma collect_one_address:
  assumes one: "\<forall>k bs s. recv env k = Datagram bs s \<longrightarrow> sin_addr s = a"
  shows "collect_replies f env c req t ss w = Some (C_Servers ss', w') \<Longrightarrow>
    (ss \<noteq> [] \<longrightarrow> ntoa_buf w = dotted a) \<Longrightarrow> ss' \<noteq> [] \<longrightarrow> ntoa_buf w' = dotted a"
proof (induction f arbitrary: ss w)
  case (Suc f)
  show ?case
  proof (cases "manycast_wait_time c < elapsed t (clock env (tick w))")
    case True
    then show ?thesis using Suc.prems by (auto simp: collect_unfold env_simps simp del: collect_replies.simps)
  next
    case False
    obtain o' w2 where rv: "recieve_SNTP_packet env (debug c) (step_tick w) = (o', w2)" by fastforce
    show ?thesis
    proof (cases o')
      case Recv_Failed
      then have "ntoa_buf w2 = ntoa_buf w"
        using rv by (auto simp: recieve_SNTP_packet_def env_simps Let_def split: recv_result.splits if_splits prod.splits)
      then show ?thesis
        using Suc.IH [of ss] Suc.prems False rv Recv_Failed
        by (auto simp: collect_unfold env_simps simp del: collect_replies.simps)
    next
      case (Recv_Ok p s d)
      then have "fst (recieve_SNTP_packet env (debug c) (step_tick w)) = Recv_Ok p s d" using rv by simp
      then have "sin_addr s = a" using one by (auto simp: recv_ok_iff)
      then show ?thesis
        using Suc.IH [of ss] Suc.IH [of "ss @ [Ntoa_Buf]"] Suc.prems False rv Recv_Ok
        by (auto simp: collect_unfold env_simps simp del: collect_replies.simps split: if_splits)
    qed (use Suc.prems False rv in \<open>auto simp: collect_unfold simp del: collect_replies.simps\<close>)
  qed
qed simp

text \<open>
  C20. With a single server in the group the discovery does what it is for: if every datagram
  that reaches the client comes from one address, the host name it hands on for the queries
  that follow is the text of that address.
\<close>

theorem manycast_single_server:
  assumes "discover_unicast_servers_with_manycast f env c w = Some (D_Return 0 ss, w')"
    and "\<forall>k bs s. recv env k = Datagram bs s \<longrightarrow> sin_addr s = a"
  shows "inet_pton (cstr_val w' (hd ss)) = Some a"
proof -
  obtain g req t w6 w7 where cl: "collect_replies f env c req t [] w6 = Some (C_Servers ss, w7)"
    and ss: "ss \<noteq> []" "w' = emit Closed w7" by (rule discover_success [OF assms(1)])
  then have "ntoa_buf w' = dotted a" using collect_one_address [OF assms(2) cl] by (simp add: env_simps)
  moreover have "hd ss = Ntoa_Buf" using collect_servers [OF cl] ss(1) by (auto simp: hd_replicate)
  ultimately show ?thesis by (simp add: cstr_val_def dotted_parses)
qed

text \<open>One pass of the loop on a datagram from a known address.\<close>

lemma collect_datagram:
  assumes "elapsed t (clock env (tick w)) \<le> manycast_wait_time c" "recv env (tick w + 1) = Datagram bs s"
    and "length bs \<le> 48" "length ss < 10" and p: "p = load_packet (host_endian env) (pad_packet bs)"
  shows "\<exists>w'. collect_replies (Suc f) env c req t ss w
      = collect_replies f env c req t (if trusted_reply req p then ss @ [Ntoa_Buf] else ss) w'
    \<and> tick w' = tick w + 3 \<and> ntoa_buf w' = dotted (sin_addr s)"
proof -
  obtain w2 where rv: "recieve_SNTP_packet env (debug c) (step_tick w)
      = (Recv_Ok p s (clock env (tick w + 2)), w2)" and "tick w2 = tick w + 3"
    using assms by (auto simp: recieve_SNTP_packet_def env_simps gettimeofday_def inet_ntoa_def Let_def
        sizeof_ntp_packet_def recv_bytes_def MAXBUFLEN_def)
  then show ?thesis
    using assms(1,4)
    by (cases "trusted_reply req p") (auto simp: collect_unfold env_simps simp del: collect_replies.simps)
qed

text \<open>
  C21. With two servers it does not. If the first reply is from a healthy server and the
  second, from another address, fails the sanity checks and is discarded, the discovery
  reports one server, and the one it hands on is the discarded one.
\<close>

theorem manycast_uses_discarded_server:
  assumes rdy: "discover_ready env c w = Some (g, req, t, w6)"
    and first: "recv env (tick w6 + 1) = Datagram bs1 s1" "length bs1 \<le> 48"
      "trusted_reply req (load_packet (host_endian env) (pad_packet bs1))"
    and second: "recv env (tick w6 + 4) = Datagram bs2 s2" "length bs2 \<le> 48"
      "\<not> trusted_reply req (load_packet (host_endian env) (pad_packet bs2))"
    and times: "elapsed t (clock env (tick w6)) \<le> manycast_wait_time c"
      "elapsed t (clock env (tick w6 + 3)) \<le> manycast_wait_time c"
      "manycast_wait_time c < elapsed t (clock env (tick w6 + 6))"
  shows "\<exists>p w'. discover_unicast_servers_with_manycast (f + 3) env c w = Some (D_Return 0 [p], w')
    \<and> inet_pton (cstr_val w' p) = Some (sin_addr s2)"
proof -
  obtain w7 where w7: "collect_replies (f + 3) env c req t [] w6 = collect_replies (f + 2) env c req t [Ntoa_Buf] w7"
      "tick w7 = tick w6 + 3"
    using collect_datagram [OF times(1) first(1,2) _ refl, of "[]" "f + 2" req] first(3)
    by (auto simp: eval_nat_numeral simp del: collect_replies.simps)
  obtain w8 where w8: "collect_replies (f + 2) env c req t [Ntoa_Buf] w7 = collect_replies (f + 1) env c req t [Ntoa_Buf] w8"
      "tick w8 = tick w6 + 6" "ntoa_buf w8 = dotted (sin_addr s2)"
    using collect_datagram [of t env w7 c bs2 s2 "[Ntoa_Buf]" _ "f + 1" req] second times(2) w7(2)
    by (auto simp: eval_nat_numeral simp del: collect_replies.simps)
  have "collect_replies (f + 1) env c req t [Ntoa_Buf] w8 = Some (C_Servers [Ntoa_Buf], step_tick w8)"
    using times(3) w8(2) by (simp add: collect_unfold del: collect_replies.simps)
  then show ?thesis
    using w7(1) w8 by (simp add: discover_when_ready [OF rdy] cstr_val_def env_simps dotted_parses)
qed

section \<open>A group of two servers\<close>

text \<open>
  A network on which a healthy server answers the request of the discovery, and the datagram
  that call 10 receives is a parameter.
\<close>

definition many_client :: client_settings where
  "many_client = demo_client\<lparr>manycast_enabled := 1, manycast_wait_time := 5\<rparr>"

definition many_reply :: ntp_packet where
  "many_reply = zero_packet\<lparr>li_vn_mode := 36, stratum := 2,
     originate_timestamp := transmit_timestamp (request_of quiet_env 3),
     transmit_timestamp := \<lparr>second = 7, fraction = 10\<rparr>\<rparr>"

definition many_env :: "recv_result \<Rightarrow> os_env" where
  "many_env r = quiet_env\<lparr>host_by_addr := \<lambda>a. Some (''time.example'', a),
     recv := \<lambda>k. if k = 7 then Datagram (store_packet Little many_reply) peer
                  else if k = 10 then r else Recv_Error\<rparr>"

lemma many_request: "request_of (many_env r) 3 = request_of quiet_env 3"
  by (simp add: many_env_def request_of_def create_packet_def get_ntp_time_of_day_def gettimeofday_def)

lemma many_first_good:
  "trusted_reply (request_of (many_env r) 3) (load_packet Little (pad_packet (store_packet Little many_reply)))"
proof -
  have "version_of (li_vn_mode (request_of quiet_env 3)) = 4" by (simp add: request_of_def create_packet_simps)
  then show ?thesis
    by (simp add: many_request trusted_reply_def many_reply_def mode_of_def version_of_def zero_time_def)
qed

lemma zeros_untrusted: "\<not> trusted_reply req zero_packet"
  by (simp add: trusted_reply_def zero_packet_def)

lemma many_ready:
  "\<exists>g w6. discover_ready (many_env r) many_client world0
     = Some (g, request_of (many_env r) 3, clock (many_env r) 5, w6) \<and> tick w6 = 6"
proof -
  have "inet_pton ''224.0.1.1'' = Some (In_Addr 224 0 1 1)" by code_simp
  then have "discover_ready (many_env r) many_client world0 \<noteq> None"
    by (simp add: discover_ready_def initialise_socket_def set_socket_recvfrom_timeout_def setsockopt_def
        initialise_server_interface_def Let_def many_client_def demo_client_def cstr_val_def many_env_def
        quiet_env_def world0_def env_simps case_prod_unfold)
  then obtain g req t w6 where rdy: "discover_ready (many_env r) many_client world0 = Some (g, req, t, w6)" by auto
  show ?thesis using rdy discover_ready_effects [OF rdy] by (simp add: world0_def)
qed

lemma many_times:
  "clock (many_env r) k = \<lparr>tv_sec = 1700000000 + int k, tv_usec = 0\<rparr>" "host_endian (many_env r) = Little"
  "recv (many_env r) 7 = Datagram (store_packet Little many_reply) peer" "recv (many_env r) 10 = r"
  by (simp_all add: many_env_def quiet_env_def)

theorem manycast_uses_discarded_server_witness:
  "\<exists>p w'. discover_unicast_servers_with_manycast 3
       (many_env (Datagram (store_packet Little zero_packet) other_host)) many_client world0
     = Some (D_Return 0 [p], w') \<and> inet_pton (cstr_val w' p) = Some (In_Addr 203 0 113 66)"
proof -
  let ?env = "many_env (Datagram (store_packet Little zero_packet) other_host)"
  obtain g w6 where rdy: "discover_ready ?env many_client world0
      = Some (g, request_of ?env 3, clock ?env 5, w6)" and w6: "tick w6 = 6"
    using many_ready by blast
  have "\<exists>p w'. discover_unicast_servers_with_manycast (0 + 3) ?env many_client world0 = Some (D_Return 0 [p], w')
      \<and> inet_pton (cstr_val w' p) = Some (sin_addr other_host)"
    by (rule manycast_uses_discarded_server [OF rdy, where ?bs1.0 = "store_packet Little many_reply"
        and ?s1.0 = peer and ?bs2.0 = "store_packet Little zero_packet"])
      (use many_first_good zeros_untrusted w6 in \<open>simp_all add: many_times sizeof_ntp_packet_def elapsed_def
        to_int32_def many_client_def\<close>)
  then show ?thesis by (simp add: other_host_def)
qed

lemma many_single_run:
  "\<exists>w'. discover_unicast_servers_with_manycast 3 (many_env Recv_Error) many_client world0
     = Some (D_Return 0 [Ntoa_Buf], w')"
proof -
  let ?env = "many_env Recv_Error"
  obtain g w6 where rdy: "discover_ready ?env many_client world0
      = Some (g, request_of ?env 3, clock ?env 5, w6)" and w6: "tick w6 = 6"
    using many_ready by blast
  obtain w7 where w7: "collect_replies 3 ?env many_client (request_of ?env 3) (clock ?env 5) [] w6
      = collect_replies 2 ?env many_client (request_of ?env 3) (clock ?env 5) [Ntoa_Buf] w7" "tick w7 = 9"
    using collect_datagram [of "clock ?env 5" ?env w6 many_client "store_packet Little many_reply" peer "[]" _ 2
        "request_of ?env 3"] many_first_good [of Recv_Error] w6
    by (auto simp: many_times sizeof_ntp_packet_def elapsed_def to_int32_def many_client_def
        simp del: collect_replies.simps)
  have "recieve_SNTP_packet ?env d v = (Recv_Failed, print_debug d ''socket recv timeout'' (step_tick v))"
    if "tick v = 10" for d v
    using that by (simp add: recieve_SNTP_packet_def many_times)
  then have "\<exists>w8. collect_replies 2 ?env many_client (request_of ?env 3) (clock ?env 5) [Ntoa_Buf] w7
      = Some (C_Servers [Ntoa_Buf], w8)"
    using w7(2) by (simp add: numeral_2_eq_2 collect_unfold many_times elapsed_def to_int32_def many_client_def
        demo_client_def env_simps del: collect_replies.simps)
  then show ?thesis using w7(1) by (auto simp: discover_when_ready [OF rdy])
qed

theorem manycast_servers_witness:
  "\<exists>ss w'. discover_unicast_servers_with_manycast 3 (many_env Recv_Error) many_client world0
     = Some (D_Return 0 ss, w') \<and> length ss \<le> 10 \<and> (\<forall>p \<in> set ss. cstr_val w' p = ntoa_buf w')
     \<and> length (sends (trace w')) = 1"
proof -
  obtain w' where r: "discover_unicast_servers_with_manycast 3 (many_env Recv_Error) many_client world0
      = Some (D_Return 0 [Ntoa_Buf], w')" using many_single_run by blast
  from manycast_servers [OF r] r show ?thesis by (auto simp: world0_def sends_simps)
qed

theorem manycast_single_server_witness:
  "\<exists>ss w'. discover_unicast_servers_with_manycast 3 (many_env Recv_Error) many_client world0
     = Some (D_Return 0 ss, w') \<and> inet_pton (cstr_val w' (hd ss)) = Some (In_Addr 192 0 2 1)"
proof -
  obtain w' where r: "discover_unicast_servers_with_manycast 3 (many_env Recv_Error) many_client world0
      = Some (D_Return 0 [Ntoa_Buf], w')" using many_single_run by blast
  have "\<forall>k bs s. recv (many_env Recv_Error) k = Datagram bs s \<longrightarrow> sin_addr s = In_Addr 192 0 2 1"
    by (simp add: many_env_def peer_def)
  from manycast_single_server [OF r this] r show ?thesis by blast
qed

end
