(* ===== verification/Client_Repeat.thy ===== *)
theory Client_Repeat
  imports Client_Main
begin

text \<open>
  The repeated queries of \<^verbatim>\<open>main\<close>: what the totals add up, and that the program
  ends whenever the clock runs.
\<close>

section \<open>The samples\<close>

text \<open>A sample is the offset and the error bound of a query that was answered.\<close>

definition sample_of :: "os_env \<Rightarrow> dbl \<times> dbl \<Rightarrow> bool" where
  "sample_of env s \<longleftrightarrow> (\<exists>k p t. answered_at env k p (clock env (k + 4)) t
     \<and> s = (calculate_clock_offset (reply_ts env p (clock env (k + 4))),
            calculate_error_bound (reply_ts env p (clock env (k + 4)))))"

lemma unicast_sample:
  assumes "unicast_mode f env l c x y t w = Some (U_Return 0 off bound t', w')"
  shows "sample_of env (off, bound)"
proof (cases "unicast_ready env c w")
  case None
  then show ?thesis using unicast_not_ready [OF None, of f l x y t] assms by auto
next
  case (Some uw)
  then obtain u w2 where rdy: "unicast_ready env c w = Some (u, w2)" by (cases uw) auto
  obtain p d w3 where q: "query_loop f env c (addr u) 1 (t\<lparr>tv_sec := - 1\<rparr>) w2 = Some (Q_Valid p d t', w3)"
    and r: "off = calculate_clock_offset (reply_ts env p d)" "bound = calculate_error_bound (reply_ts env p d)"
    using assms unfolding unicast_mode_ready [OF rdy]
    by (auto split: option.splits prod.splits query_result.splits)
  obtain k where k: "answered_at env k p d t'" using query_loop_valid [OF q] by blast
  then have "d = clock env (k + 4)" by (simp add: answered_at_def)
  then show ?thesis using k r by (auto simp: sample_of_def)
qed

text \<open>The totals of a state are those of an earlier one with some samples added.\<close>

definition adds :: "repeat_state \<Rightarrow> (dbl \<times> dbl) list \<Rightarrow> repeat_state \<Rightarrow> bool" where
  "adds st samples st' \<longleftrightarrow> offset_total st' = foldl dadd (offset_total st) (map fst samples)
     \<and> error_bound_total st' = foldl dadd (error_bound_total st) (map snd samples)
     \<and> s_counter st' = s_counter st + int (length samples)"

lemma adds_append: "adds st xs st1 \<Longrightarrow> adds st1 ys st2 \<Longrightarrow> adds st (xs @ ys) st2"
  by (simp add: adds_def)

lemma repeat_once_adds:
  assumes "repeat_once f env l c st w = Some (Some st', w')"
  shows "\<exists>samples. adds st samples st' \<and> length samples \<le> 1 \<and> (\<forall>s \<in> set samples. sample_of env s)"
proof -
  obtain rc off bound t w1 where u: "unicast_mode f env l c (r_offset st) (r_bound st) (r_timer st) w
      = Some (U_Return rc off bound t, w1)"
    using assms by (auto simp: repeat_once_def split: option.splits unicast_result.splits)
  show ?thesis
  proof (cases "rc = 0")
    case True
    then show ?thesis
      using assms u unicast_sample [of f env l c "r_offset st" "r_bound st" "r_timer st" w off bound t w1]
      by (intro exI [of _ "[(off, bound)]"]) (auto simp: repeat_once_def Let_def adds_def)
  next
    case False
    then show ?thesis
      using assms u by (intro exI [of _ "[]"]) (auto simp: repeat_once_def Let_def adds_def)
  qed
qed

lemma repeat_loop_adds:
  "repeat_loop f env l c counter st w = Some (Some st', w') \<Longrightarrow>
     \<exists>samples. adds st samples st' \<and> int (length samples) \<le> max 0 (timed_repeat_updates_limit c - counter)
       \<and> (\<forall>s \<in> set samples. sample_of env s)"
proof (induction f arbitrary: counter st w)
  case (Suc f)
  show ?case
  proof (cases "counter < timed_repeat_updates_limit c")
    case False
    then show ?thesis using Suc.prems by (intro exI [of _ "[]"]) (simp add: adds_def)
  next
    case True
    then obtain w1 st1 w2 where once: "repeat_once f env l c st w1 = Some (Some st1, w2)"
      and rest: "repeat_loop f env l c (counter + 1) st1 w2 = Some (Some st', w')"
      using Suc.prems by (auto split: option.splits)
    obtain xs where xs: "adds st xs st1" "length xs \<le> 1" "\<forall>s \<in> set xs. sample_of env s"
      using repeat_once_adds [OF once] by blast
    obtain ys where ys: "adds st1 ys st'" "int (length ys) \<le> max 0 (timed_repeat_updates_limit c - (counter + 1))"
        "\<forall>s \<in> set ys. sample_of env s"
      using Suc.IH [OF rest] by blast
    show ?thesis
      using adds_append [OF xs(1) ys(1)] xs(2,3) ys(2,3) True by (intro exI [of _ "xs @ ys"]) auto
  qed
qed simp


definition start_state :: repeat_state where
  "start_state = \<lparr>r_offset = one_e6, r_bound = one_e6, r_timer = \<lparr>tv_sec = 0, tv_usec = 0\<rparr>,
     offset_total = one_e6, error_bound_total = one_e6, s_counter = 0\<rparr>"


section \<open>The program ends\<close>

text \<open>
  A clock that runs: whatever a timer holds, three readings in a row at some later time are
  more than \<open>wait\<close> seconds ahead of it, in the 32-bit difference the code computes.
\<close>

definition clock_runs :: "os_env \<Rightarrow> int \<Rightarrow> bool" where
  "clock_runs env wait \<longleftrightarrow> (\<forall>t n. \<exists>m \<ge> n. \<forall>j < 3. wait < elapsed t (clock env (m + j)))"

lemma clock_runs_advancing: "clock_runs env wait \<Longrightarrow> advancing env wait"
  unfolding clock_runs_def advancing_def by (metis add.right_neutral zero_less_numeral)

lemma clock_runs_once: "clock_runs env wait \<Longrightarrow> \<exists>m \<ge> n. wait < elapsed t (clock env m)"
  unfolding clock_runs_def by (metis add.right_neutral zero_less_numeral)

lemma wait_poll_mono: "wait_poll f env t wait w = Some r \<Longrightarrow> f \<le> g \<Longrightarrow> wait_poll g env t wait w = Some r"
proof (induction f arbitrary: g w)
  case (Suc f)
  then show ?case by (cases g) (auto simp: case_prod_unfold Let_def split: if_splits)
qed simp

lemma wait_poll_until:
  "wait < elapsed t (clock env m) \<Longrightarrow> tick w \<le> m \<Longrightarrow> \<exists>f r. wait_poll f env t wait w = Some r"
proof (induction "m - tick w" arbitrary: w)
  case 0
  then have "wait_poll 1 env t wait w = Some (step_tick w)"
    by (simp add: get_elapsed_time_def gettimeofday_def)
  then show ?case by blast
next
  case (Suc n)
  show ?case
  proof (cases "elapsed t (clock env (tick w)) \<le> wait")
    case True
    have "n = m - tick (step_tick w)" "tick (step_tick w) \<le> m" using Suc.hyps(2) by (simp_all add: env_simps)
    then obtain f r where "wait_poll f env t wait (step_tick w) = Some r" using Suc by blast
    then have "wait_poll (Suc f) env t wait w = Some r"
      using True by (simp add: get_elapsed_time_def gettimeofday_def)
    then show ?thesis by blast
  next
    case False
    then have "wait_poll 1 env t wait w = Some (step_tick w)"
      by (simp add: get_elapsed_time_def gettimeofday_def)
    then show ?thesis by blast
  qed
qed

lemma wait_poll_returns: "clock_runs env wait \<Longrightarrow> \<exists>f r. wait_poll f env t wait w = Some r"
  using clock_runs_once [of env wait "tick w" t] wait_poll_until by blast

lemma repeat_once_mono:
  assumes "repeat_once f env l c st w = Some r" "f \<le> g"
  shows "repeat_once g env l c st w = Some r"
proof -
  obtain u where "unicast_mode f env l c (r_offset st) (r_bound st) (r_timer st) w = Some u"
    using assms(1) by (auto simp: repeat_once_def split: option.splits)
  from this unicast_mode_mono [OF this assms(2)] show ?thesis using assms(1) by (simp add: repeat_once_def)
qed

lemma repeat_once_returns:
  assumes "clock_runs env (poll_wait c)"
  shows "\<exists>f r. repeat_once f env l c st w = Some r"
proof -
  obtain n u w' where "unicast_mode n env l c (r_offset st) (r_bound st) (r_timer st) w = Some (u, w')"
    using unicast_mode_returns [OF clock_runs_advancing [OF assms], of l "r_offset st" "r_bound st" "r_timer st" w]
    by blast
  then have "repeat_once n env l c st w \<noteq> None" by (simp add: repeat_once_def Let_def split: unicast_result.split)
  then show ?thesis by blast
qed

lemma repeat_loop_mono:
  "repeat_loop f env l c n st w = Some r \<Longrightarrow> f \<le> g \<Longrightarrow> repeat_loop g env l c n st w = Some r"
proof (induction f arbitrary: g n st w)
  case (Suc f)
  then obtain h where g: "g = Suc h" "f \<le> h" by (cases g) auto
  show ?case
  proof (cases "n < timed_repeat_updates_limit c")
    case True
    obtain w1 where w1: "(if n \<noteq> 0 then wait_poll f env (r_timer st) (poll_wait c) w else Some w) = Some w1"
      using Suc.prems(1) True by (auto split: option.splits)
    then have w1': "(if n \<noteq> 0 then wait_poll h env (r_timer st) (poll_wait c) w else Some w) = Some w1"
      using wait_poll_mono [OF _ g(2)] by (auto split: if_splits)
    obtain o' w2 where once: "repeat_once f env l c st w1 = Some (o', w2)"
      using Suc.prems(1) True w1 by (auto split: option.splits)
    show ?thesis
      using Suc.prems(1) True once repeat_once_mono [OF once g(2)] Suc.IH g
      by (cases o') (auto simp: w1 w1' simp del: if_split)
  qed (use Suc.prems(1) g in simp)
qed simp

lemma repeat_loop_returns:
  assumes run: "clock_runs env (poll_wait c)"
  shows "\<exists>f r. repeat_loop f env l c n st w = Some r"
proof (induction "nat (timed_repeat_updates_limit c - n)" arbitrary: n st w)
  case 0
  then have "repeat_loop 1 env l c n st w = Some (Some st, w)" by simp
  then show ?case by blast
next
  case (Suc k)
  then have lt: "n < timed_repeat_updates_limit c" by simp
  obtain f1 w1 where w1: "(if n \<noteq> 0 then wait_poll f1 env (r_timer st) (poll_wait c) w else Some w) = Some w1"
    using wait_poll_returns [OF run] by fastforce
  obtain f2 o' w2 where w2: "repeat_once f2 env l c st w1 = Some (o', w2)"
    using repeat_once_returns [OF run] by fastforce
  obtain f3 r where r: "repeat_loop f3 env l c (n + 1) (the o') w2 = Some r"
    using Suc.hyps(1) [of "n + 1"] Suc.hyps(2) by fastforce
  let ?f = "max f1 (max f2 f3)"
  have a: "(if n \<noteq> 0 then wait_poll ?f env (r_timer st) (poll_wait c) w else Some w) = Some w1"
    using w1 wait_poll_mono [of f1 env "r_timer st" "poll_wait c" w _ ?f] by (auto split: if_splits)
  have "repeat_once ?f env l c st w1 = Some (o', w2)" "repeat_loop ?f env l c (n + 1) (the o') w2 = Some r"
    using repeat_once_mono [OF w2, of ?f] repeat_loop_mono [OF r, of ?f] by simp_all
  then have "repeat_loop (Suc ?f) env l c n st w \<noteq> None"
    using lt by (cases o') (simp_all add: a del: if_split)
  then show ?case by blast
qed

lemma collect_mono:
  "collect_replies f env c req t ss w = Some r \<Longrightarrow> f \<le> g \<Longrightarrow> collect_replies g env c req t ss w = Some r"
proof (induction f arbitrary: g ss w)
  case (Suc f)
  then obtain h where "g = Suc h" "f \<le> h" by (cases g) auto
  then show ?case
    using Suc
    by (auto simp: collect_unfold simp del: collect_replies.simps split: if_splits prod.splits recv_outcome.splits)
qed simp

text \<open>One pass of the collecting loop takes two or three calls.\<close>

lemma recieve_ticks:
  "recieve_SNTP_packet env d w = (r, w2) \<Longrightarrow> tick w < tick w2 \<and> tick w2 \<le> tick w + 2"
  by (auto simp: recieve_SNTP_packet_def Let_def gettimeofday_def inet_ntoa_def env_simps
      split: recv_result.splits if_splits)

lemma collect_pass:
  "(\<exists>r. \<forall>f. collect_replies (Suc f) env c req t ss w = Some r) \<or>
   (\<exists>ss' w'. (\<forall>f. collect_replies (Suc f) env c req t ss w = collect_replies f env c req t ss' w')
      \<and> elapsed t (clock env (tick w)) \<le> manycast_wait_time c \<and> tick w < tick w' \<and> tick w' \<le> tick w + 3)"
proof (cases "manycast_wait_time c < elapsed t (clock env (tick w))")
  case True
  then show ?thesis by (simp add: collect_unfold del: collect_replies.simps)
next
  case False
  obtain o' w2 where rv: "recieve_SNTP_packet env (debug c) (step_tick w) = (o', w2)" by fastforce
  then have tk: "tick w < tick w2" "tick w2 \<le> tick w + 3" using recieve_ticks [OF rv] by (simp_all add: env_simps)
  show ?thesis
  proof (cases o')
    case Recv_Failed
    then show ?thesis using False rv tk
      by (intro disjI2 exI [of _ ss] exI [of _ "print_debug (debug c) ''no replys from any server'' w2"])
        (simp add: collect_unfold env_simps del: collect_replies.simps)
  next
    case (Recv_Overrun n)
    then show ?thesis using False rv by (simp add: collect_unfold del: collect_replies.simps)
  next
    case (Recv_Ok p s d)
    show ?thesis
    proof (cases "trusted_reply req p \<and> 10 \<le> length ss")
      case True
      then show ?thesis using False rv Recv_Ok by (simp add: collect_unfold del: collect_replies.simps)
    next
      case no: False
      let ?tr = "trusted_reply req p"
      show ?thesis using False rv Recv_Ok no tk
        by (intro disjI2 exI [of _ "if ?tr then ss @ [Ntoa_Buf] else ss"]
            exI [of _ "if ?tr then approved c req p s w2 else discarded c req p s w2"])
          (auto simp: collect_unfold env_simps simp del: collect_replies.simps)
    qed
  qed
qed

lemma collect_until:
  assumes "\<forall>j < 3. manycast_wait_time c < elapsed t (clock env (m + j))"
  shows "tick w \<le> m + 2 \<Longrightarrow> \<exists>f r. collect_replies f env c req t ss w = Some r"
proof (induction "m + 3 - tick w" arbitrary: ss w rule: less_induct)
  case less
  show ?case
  proof (cases "\<exists>r. \<forall>f. collect_replies (Suc f) env c req t ss w = Some r")
    case False
    then obtain ss' w' where step: "\<forall>f. collect_replies (Suc f) env c req t ss w = collect_replies f env c req t ss' w'"
      and e: "elapsed t (clock env (tick w)) \<le> manycast_wait_time c" and tk: "tick w < tick w'" "tick w' \<le> tick w + 3"
      using collect_pass [of env c req t ss w] by blast
    have "tick w < m"
    proof (rule ccontr)
      assume "\<not> tick w < m"
      then have "tick w - m < 3" using less.prems by simp
      then have "manycast_wait_time c < elapsed t (clock env (m + (tick w - m)))" using assms by blast
      then show False using e \<open>\<not> tick w < m\<close> by simp
    qed
    then have "\<exists>f r. collect_replies f env c req t ss' w' = Some r" using tk by (intro less.hyps) auto
    then show ?thesis using step by metis
  qed blast
qed

lemma collect_returns:
  assumes "clock_runs env (manycast_wait_time c)"
  shows "\<exists>f r. collect_replies f env c req t ss w = Some r"
proof -
  obtain m where "tick w \<le> m" "\<forall>j < 3. manycast_wait_time c < elapsed t (clock env (m + j))"
    using assms unfolding clock_runs_def by blast
  then show ?thesis using collect_until [of c t env m w] by simp
qed

lemma discover_mono:
  assumes "discover_unicast_servers_with_manycast f env c w = Some r" "f \<le> g"
  shows "discover_unicast_servers_with_manycast g env c w = Some r"
proof (cases "discover_ready env c w")
  case None
  then show ?thesis
    using assms(1) by (auto simp: discover_ready_def discover_unicast_servers_with_manycast_def Let_def
        split: prod.splits if_splits sum.splits)
next
  case (Some x)
  then obtain a req t w6 where rdy: "discover_ready env c w = Some (a, req, t, w6)" by (cases x) auto
  then obtain q where "collect_replies f env c req t [] w6 = Some q"
    using assms(1) by (auto simp: discover_when_ready split: option.splits)
  from this collect_mono [OF this assms(2)] show ?thesis using assms(1) by (simp add: discover_when_ready [OF rdy])
qed

lemma discover_returns:
  assumes "clock_runs env (manycast_wait_time c)"
  shows "\<exists>f r. discover_unicast_servers_with_manycast f env c w = Some r"
proof (cases "discover_ready env c w")
  case None
  then show ?thesis using discover_not_ready by blast
next
  case (Some x)
  then obtain a req t w6 where rdy: "discover_ready env c w = Some (a, req, t, w6)" by (cases x) auto
  obtain f q where "collect_replies f env c req t [] w6 = Some q" using collect_returns [OF assms] by blast
  then have "discover_unicast_servers_with_manycast f env c w \<noteq> None"
    by (simp add: discover_when_ready [OF rdy] split: prod.split collect_result.split)
  then show ?thesis by blast
qed

lemma client_query_mono:
  assumes "client_query f env l c st w = Some r" "f \<le> g"
  shows "client_query g env l c st w = Some r"
proof (cases "timed_repeat_updates_enabled c = 1")
  case True
  then obtain q where "repeat_loop f env l c 0 st w = Some q"
    using assms(1) by (auto simp: client_query_def split: option.splits)
  from this repeat_loop_mono [OF this assms(2)] show ?thesis using assms(1) True by (simp add: client_query_def)
next
  case False
  then obtain q where "unicast_mode f env l c (r_offset st) (r_bound st) (r_timer st) w = Some q"
    using assms(1) by (auto simp: client_query_def split: option.splits)
  from this unicast_mode_mono [OF this assms(2)] show ?thesis using assms(1) False by (simp add: client_query_def)
qed

lemma client_query_returns:
  assumes run: "clock_runs env (poll_wait c)"
  shows "\<exists>f r w'. client_query f env l c st w = Some (r, w') \<and> r \<in> {Exit 0, Undefined_Behaviour}"
proof (cases "timed_repeat_updates_enabled c = 1")
  case True
  obtain f q w' where "repeat_loop f env l c 0 st w = Some (q, w')" using repeat_loop_returns [OF run] by fastforce
  then show ?thesis using True
    by (intro exI [of _ f]) (auto simp: client_query_def split: option.split)
next
  case False
  obtain f q w' where "unicast_mode f env l c (r_offset st) (r_bound st) (r_timer st) w = Some (q, w')"
    using unicast_mode_returns [OF clock_runs_advancing [OF run], of l "r_offset st" "r_bound st" "r_timer st" w]
    by blast
  then show ?thesis using False
    by (intro exI [of _ f]) (auto simp: client_query_def split: unicast_result.split)
qed


lemma many_clock_runs:
  assumes "wait \<le> 1000"
  shows "clock_runs (many_env r) wait"
  unfolding clock_runs_def
proof (intro allI)
  fix t :: timeval and n :: nat
  let ?m = "nat ((tv_sec t - 1700000000 + 1001) mod 2 ^ 32) + 2 ^ 32 * n"
  have "wait < elapsed t (clock (many_env r) (?m + j))" if "j < 3" for j
  proof -
    define x where "x = tv_sec t - 1699998999"
    have "int ?m = x - 4294967296 * (x div 4294967296) + 4294967296 * int n"
      by (simp add: x_def minus_mult_div_eq_mod)
    then have "1700000000 + int (?m + j) - tv_sec t + 2147483648
        = (2147484649 + int j) + 4294967296 * (int n - x div 4294967296)"
      by (simp add: x_def algebra_simps)
    then have "(1700000000 + int (?m + j) - tv_sec t + 2147483648) mod 4294967296 = 2147484649 + int j"
      using that by (simp only: mod_mult_self2) simp
    then have "elapsed t (clock (many_env r) (?m + j)) = 1001 + int j"
      unfolding elapsed_def many_times to_int32_def by simp
    then show ?thesis using assms by simp
  qed
  moreover have "n \<le> ?m" by simp
  ultimately show "\<exists>m \<ge> n. \<forall>j < 3. wait < elapsed t (clock (many_env r) (m + j))" by blast
qed


end
