(* ===== verification/Grammar_Tables.thy ===== *)
theory Grammar_Tables
  imports Main
begin

text \<open>
  The tables of the generated parser, \<^verbatim>\<open>grammar.c\<close>. The entries are those of the C
  arrays, in their order.
\<close>

section \<open>Sizes\<close>

definition YYFINAL :: nat where "YYFINAL = 6"
definition YYLAST :: nat where "YYLAST = 35"
definition YYNTOKENS :: nat where "YYNTOKENS = 23"
definition YYUNDEFTOK :: nat where "YYUNDEFTOK = 2"
definition YYMAXUTOK :: nat where "YYMAXUTOK = 277"
definition YYPACT_NINF :: int where "YYPACT_NINF = - 26"
definition YYTERROR :: nat where "YYTERROR = 1"
definition YYINITDEPTH :: nat where "YYINITDEPTH = 200"
definition YYMAXDEPTH :: nat where "YYMAXDEPTH = 10000"

lemmas yy_sizes = YYFINAL_def YYLAST_def YYNTOKENS_def YYUNDEFTOK_def YYMAXUTOK_def YYPACT_NINF_def YYTERROR_def

section \<open>Tables\<close>

definition yytranslate :: "nat list" where
  "yytranslate =
    [0, 2, 2, 2, 2, 2, 2, 2, 2, 2, 2, 2, 2, 2, 2, 2, 2, 2, 2, 2, 2, 2, 2, 2, 2, 2, 2, 2, 2, 2, 2,
     2, 2, 2, 2, 2, 2, 2, 2, 2, 2, 2, 2, 2, 2, 2, 2, 2, 2, 2, 2, 2, 2, 2, 2, 2, 2, 2, 2, 2, 2, 2,
     2, 2, 2, 2, 2, 2, 2, 2, 2, 2, 2, 2, 2, 2, 2, 2, 2, 2, 2, 2, 2, 2, 2, 2, 2, 2, 2, 2, 2, 2, 2,
     2, 2, 2, 2, 2, 2, 2, 2, 2, 2, 2, 2, 2, 2, 2, 2, 2, 2, 2, 2, 2, 2, 2, 2, 2, 2, 2, 2, 2, 2, 2,
     2, 2, 2, 2, 2, 2, 2, 2, 2, 2, 2, 2, 2, 2, 2, 2, 2, 2, 2, 2, 2, 2, 2, 2, 2, 2, 2, 2, 2, 2, 2,
     2, 2, 2, 2, 2, 2, 2, 2, 2, 2, 2, 2, 2, 2, 2, 2, 2, 2, 2, 2, 2, 2, 2, 2, 2, 2, 2, 2, 2, 2, 2,
     2, 2, 2, 2, 2, 2, 2, 2, 2, 2, 2, 2, 2, 2, 2, 2, 2, 2, 2, 2, 2, 2, 2, 2, 2, 2, 2, 2, 2, 2, 2,
     2, 2, 2, 2, 2, 2, 2, 2, 2, 2, 2, 2, 2, 2, 2, 2, 2, 2, 2, 2, 2, 2, 2, 2, 2, 2, 2, 2, 2, 2, 2,
     2, 2, 2, 2, 2, 2, 2, 2, 1, 2, 3, 4, 5, 6, 7, 8, 9, 10, 11, 12, 13, 14, 15, 16, 17, 18, 19, 20,
     21, 22]"

definition yypact :: "int list" where
  "yypact =
    [- 8, - 26, 12, - 8, - 26, 5, - 26, - 26, 0, - 26, - 26, - 26, - 26, - 26, - 26, - 26, - 26,
     - 26, - 26, - 26, - 26, - 6, 10, - 26, - 26, 23, 0, - 8, - 26, - 26, - 26, - 26, - 26, 3, 7,
     - 26, 6, 8, - 8, 14, 23, - 26, 0, - 26, - 26, - 26, - 26]"

definition yydefact :: "nat list" where
  "yydefact =
    [2, 11, 0, 3, 4, 0, 1, 5, 0, 23, 24, 26, 25, 27, 28, 21, 13, 15, 38, 18, 19, 8, 29, 17, 20, 36,
     32, 6, 10, 9, 12, 22, 34, 37, 0, 30, 33, 0, 7, 0, 0, 14, 0, 16, 39, 35, 31]"

definition yypgoto :: "int list" where
  "yypgoto =
    [- 26, - 26, - 5, - 26, - 26, - 3, - 26, - 26, - 26, - 26, - 26, - 25, - 26, - 15, - 26, - 26,
     - 26, - 26, - 26, - 26]"

definition yydefgoto :: "int list" where
  "yydefgoto =
    [- 1, 2, 3, 39, 30, 4, 5, 19, 25, 20, 26, 21, 22, 23, 36, 37, 33, 34, 24, 27]"

definition yytable :: "nat list" where
  "yytable =
    [7, 35, 1, 9, 10, 11, 12, 13, 14, 15, 32, 28, 6, 16, 29, 17, 8, 46, 18, 31, 40, 41, 38, 42, 43,
     45, 9, 10, 11, 12, 13, 14, 15, 44, 0, 7]"

definition yycheck :: "int list" where
  "yycheck =
    [3, 26, 10, 3, 4, 5, 6, 7, 8, 9, 25, 17, 0, 13, 20, 15, 11, 42, 18, 9, 17, 14, 27, 17, 16, 40,
     3, 4, 5, 6, 7, 8, 9, 19, - 1, 38]"

definition yystos :: "nat list" where
  "yystos =
    [0, 10, 24, 25, 28, 29, 0, 28, 11, 3, 4, 5, 6, 7, 8, 9, 13, 15, 18, 30, 32, 34, 35, 36, 41, 31,
     33, 42, 17, 20, 27, 9, 36, 39, 40, 34, 37, 38, 25, 26, 17, 14, 17, 16, 19, 36, 34]"

definition yyr1 :: "nat list" where
  "yyr1 =
    [0, 23, 24, 24, 25, 25, 26, 26, 27, 27, 27, 29, 28, 31, 30, 33, 32, 34, 34, 34, 34, 35, 35, 36,
     36, 36, 36, 36, 36, 36, 37, 37, 38, 38, 39, 39, 40, 40, 42, 41]"

definition yyr2 :: "nat list" where
  "yyr2 =
    [0, 2, 0, 1, 1, 2, 0, 1, 0, 1, 1, 0, 5, 0, 4, 0, 4, 1, 1, 1, 1, 1, 2, 1, 1, 1, 1, 1, 1, 1, 1,
     3, 0, 1, 1, 3, 0, 1, 0, 4]"

lemmas yy_grammar = yypact_def yydefact_def yypgoto_def yydefgoto_def yytable_def yycheck_def yyr1_def yyr2_def

definition YYTRANSLATE :: "nat \<Rightarrow> nat" where
  "YYTRANSLATE x = (if x \<le> YYMAXUTOK then yytranslate ! x else YYUNDEFTOK)"

end
