(* ===== verification/Scanner_Tables.thy ===== *)
theory Scanner_Tables
  imports Main
begin

text \<open>
  The tables of the generated scanner, \<^verbatim>\<open>scanner.c\<close>, and one transition of the
  automaton they encode. The entries are those of the C arrays, in their order.
\<close>

section \<open>Tables\<close>

definition yy_accept :: "nat list" where
  "yy_accept =
    [0, 0, 0, 0, 0, 0, 0, 0, 0, 43, 41, 22, 21, 21, 5, 41, 37, 38, 29, 41, 24, 30, 41, 31, 31, 23,
     39, 29, 29, 35, 36, 25, 26, 22, 41, 3, 4, 3, 6, 15, 14, 17, 20, 42, 22, 0, 40, 29, 30, 31, 30,
     0, 1, 0, 30, 0, 32, 0, 29, 29, 22, 0, 0, 2, 6, 12, 0, 11, 10, 7, 8, 9, 17, 19, 18, 0, 30, 30,
     0, 0, 30, 32, 33, 29, 29, 0, 0, 0, 30, 34, 29, 27, 0, 13, 34, 28, 0, 0, 0, 0, 0, 16, 0]"

definition yy_ec :: "nat list" where
  "yy_ec =
    [0, 1, 1, 1, 1, 1, 1, 1, 1, 2, 3, 1, 4, 5, 1, 1, 1, 1, 1, 1, 1, 1, 1, 1, 1, 1, 1, 1, 1, 1, 1,
     1, 2, 1, 6, 7, 1, 1, 1, 1, 8, 9, 10, 11, 12, 13, 14, 15, 16, 17, 17, 17, 17, 17, 17, 17, 17,
     17, 18, 19, 1, 20, 1, 1, 21, 22, 23, 23, 23, 24, 25, 26, 26, 26, 26, 26, 27, 26, 26, 26, 26,
     26, 28, 29, 30, 31, 26, 26, 32, 26, 26, 33, 34, 35, 1, 36, 1, 22, 23, 37, 38, 39, 40, 26, 26,
     41, 26, 26, 42, 26, 43, 26, 26, 26, 44, 29, 45, 46, 26, 26, 32, 26, 26, 47, 1, 48, 1, 1, 1, 1,
     1, 1, 1, 1, 1, 1, 1, 1, 1, 1, 1, 1, 1, 1, 1, 1, 1, 1, 1, 1, 1, 1, 1, 1, 1, 1, 1, 1, 1, 1, 1,
     1, 1, 1, 1, 1, 1, 1, 1, 1, 1, 1, 1, 1, 1, 1, 1, 1, 1, 1, 1, 1, 1, 1, 1, 1, 1, 1, 1, 1, 1, 1,
     1, 1, 1, 1, 1, 1, 1, 1, 1, 1, 1, 1, 1, 1, 1, 1, 1, 1, 1, 1, 1, 1, 1, 1, 1, 1, 1, 1, 1, 1, 1,
     1, 1, 1, 1, 1, 1, 1, 1, 1, 1, 1, 1, 1, 1, 1, 1, 1, 1, 1, 1, 1, 1, 1, 1, 1, 1, 1, 1, 1, 1, 1,
     1, 1]"

definition yy_meta :: "nat list" where
  "yy_meta =
    [0, 1, 1, 1, 1, 1, 2, 1, 1, 1, 3, 1, 1, 3, 1, 1, 4, 4, 1, 1, 1, 1, 4, 4, 4, 4, 3, 3, 3, 3, 3,
     3, 3, 1, 2, 1, 3, 4, 4, 4, 4, 3, 3, 3, 3, 3, 3, 1, 1]"

definition yy_base :: "nat list" where
  "yy_base =
    [0, 0, 47, 47, 48, 46, 47, 48, 49, 203, 204, 200, 204, 204, 204, 198, 204, 204, 0, 45, 204, 47,
     50, 60, 74, 204, 204, 178, 28, 204, 204, 204, 204, 64, 158, 204, 204, 183, 0, 204, 63, 0, 204,
     83, 195, 193, 204, 0, 88, 102, 98, 62, 204, 190, 104, 119, 162, 0, 67, 65, 121, 127, 124, 204,
     0, 204, 0, 204, 204, 204, 204, 204, 0, 204, 204, 108, 117, 122, 134, 132, 136, 204, 139, 136,
     116, 126, 0, 140, 142, 135, 130, 0, 102, 204, 204, 0, 85, 72, 63, 98, 158, 204, 204, 169, 173,
     177, 181, 183, 187, 191, 89, 66, 63]"

definition yy_def :: "nat list" where
  "yy_def =
    [0, 102, 1, 103, 103, 104, 104, 105, 105, 102, 102, 102, 102, 102, 102, 106, 102, 102, 107,
     102, 102, 102, 102, 102, 102, 102, 102, 107, 107, 102, 102, 102, 102, 102, 102, 102, 102, 102,
     108, 102, 102, 109, 102, 102, 102, 106, 102, 107, 102, 102, 102, 102, 102, 106, 102, 102, 102,
     110, 107, 107, 102, 102, 102, 102, 108, 102, 111, 102, 102, 102, 102, 102, 109, 102, 102, 102,
     102, 102, 102, 102, 102, 102, 110, 107, 107, 102, 112, 102, 102, 102, 107, 107, 102, 102, 102,
     107, 102, 102, 102, 102, 102, 102, 0, 102, 102, 102, 102, 102, 102, 102, 102, 102, 102]"

definition yy_nxt :: "nat list" where
  "yy_nxt =
    [0, 10, 11, 12, 13, 13, 14, 15, 16, 17, 18, 19, 20, 19, 21, 22, 23, 24, 25, 26, 25, 10, 18, 18,
     18, 27, 18, 18, 18, 18, 28, 18, 18, 29, 10, 30, 10, 18, 18, 18, 27, 18, 18, 18, 18, 28, 18,
     31, 32, 33, 36, 36, 39, 39, 42, 42, 59, 37, 37, 48, 52, 49, 49, 50, 50, 53, 60, 93, 34, 65,
     86, 51, 59, 75, 54, 75, 49, 49, 76, 76, 40, 40, 43, 43, 55, 61, 51, 56, 54, 73, 49, 49, 57,
     82, 83, 66, 84, 67, 55, 55, 100, 56, 99, 68, 50, 50, 69, 70, 71, 83, 98, 84, 51, 55, 50, 50,
     54, 74, 49, 49, 77, 77, 51, 60, 76, 76, 55, 51, 78, 56, 79, 97, 79, 76, 76, 80, 80, 51, 77,
     77, 91, 55, 61, 78, 96, 87, 78, 87, 80, 80, 88, 88, 80, 80, 95, 91, 88, 88, 88, 88, 100, 78,
     94, 92, 101, 90, 89, 85, 62, 95, 35, 35, 35, 35, 38, 38, 38, 38, 41, 41, 41, 41, 45, 45, 45,
     45, 47, 47, 64, 81, 64, 64, 72, 46, 72, 72, 46, 44, 63, 62, 58, 46, 44, 102, 9, 102, 102, 102,
     102, 102, 102, 102, 102, 102, 102, 102, 102, 102, 102, 102, 102, 102, 102, 102, 102, 102, 102,
     102, 102, 102, 102, 102, 102, 102, 102, 102, 102, 102, 102, 102, 102, 102, 102, 102, 102, 102,
     102, 102, 102, 102, 102, 102, 102]"

definition yy_chk :: "nat list" where
  "yy_chk =
    [0, 1, 1, 1, 1, 1, 1, 1, 1, 1, 1, 1, 1, 1, 1, 1, 1, 1, 1, 1, 1, 1, 1, 1, 1, 1, 1, 1, 1, 1, 1,
     1, 1, 1, 1, 1, 1, 1, 1, 1, 1, 1, 1, 1, 1, 1, 1, 1, 1, 2, 3, 4, 5, 6, 7, 8, 28, 3, 4, 19, 22,
     19, 19, 21, 21, 22, 33, 112, 2, 40, 111, 21, 28, 51, 23, 51, 23, 23, 51, 51, 5, 6, 7, 8, 23,
     33, 21, 23, 24, 43, 24, 24, 23, 110, 58, 40, 59, 40, 24, 23, 99, 24, 98, 40, 48, 48, 40, 40,
     40, 58, 97, 59, 48, 24, 50, 50, 49, 43, 49, 49, 54, 54, 50, 60, 75, 75, 49, 48, 54, 49, 55,
     96, 55, 76, 76, 55, 55, 50, 77, 77, 84, 49, 60, 54, 92, 78, 77, 78, 79, 79, 78, 78, 80, 80,
     90, 84, 87, 87, 88, 88, 100, 77, 89, 85, 100, 83, 82, 62, 61, 90, 103, 103, 103, 103, 104,
     104, 104, 104, 105, 105, 105, 105, 106, 106, 106, 106, 107, 107, 108, 56, 108, 108, 109, 53,
     109, 109, 45, 44, 37, 34, 27, 15, 11, 9, 102, 102, 102, 102, 102, 102, 102, 102, 102, 102,
     102, 102, 102, 102, 102, 102, 102, 102, 102, 102, 102, 102, 102, 102, 102, 102, 102, 102, 102,
     102, 102, 102, 102, 102, 102, 102, 102, 102, 102, 102, 102, 102, 102, 102, 102, 102, 102, 102,
     102]"

definition yy_rule_can_match_eol :: "nat list" where
  "yy_rule_can_match_eol =
    [0, 0, 0, 0, 1, 0, 1, 0, 0, 0, 0, 0, 0, 0, 0, 0, 0, 1, 0, 0, 0, 1, 0, 0, 0, 0, 0, 0, 0, 0, 0,
     0, 0, 0, 0, 0, 0, 0, 0, 0, 0, 0, 0]"

lemmas yy_tables = yy_accept_def yy_ec_def yy_meta_def yy_base_def yy_def_def yy_nxt_def yy_chk_def

section \<open>A transition\<close>

definition YY_JAM :: nat where
  "YY_JAM = 102"

text \<open>
  The inner loop: while the entry does not belong to the state, fall back to the default
  state, with the class mapped once a template state is reached. The fuel counts the fallbacks;
  \<open>None\<close> is an access outside a table, or more fallbacks than that.
\<close>

fun yy_resolve :: "nat \<Rightarrow> nat \<Rightarrow> nat \<Rightarrow> nat option" where
  "yy_resolve fuel s c =
     (if s < length yy_base \<and> yy_base ! s + c < length yy_chk
      then (if yy_chk ! (yy_base ! s + c) = s then Some (yy_nxt ! (yy_base ! s + c))
            else case fuel of 0 \<Rightarrow> None
                 | Suc f \<Rightarrow>
                     (let d = yy_def ! s
                      in if 103 \<le> d \<and> length yy_meta \<le> c then None
                         else yy_resolve f d (if 103 \<le> d then yy_meta ! c else c)))
      else None)"

declare yy_resolve.simps [simp del]

definition yy_fallbacks :: nat where
  "yy_fallbacks = 2"

definition yy_trans :: "nat \<Rightarrow> nat \<Rightarrow> nat option" where
  "yy_trans s c = yy_resolve yy_fallbacks s c"

end
