(* ===== verification/Config_Tree.thy ===== *)
theory Config_Tree
  imports C_Double
begin

text \<open>
  The settings tree of \<^verbatim>\<open>libconfig.c\<close>: settings, their child lists, and the
  operations that search, add and remove children.

  A setting is a value; a \<^verbatim>\<open>config_setting_t *\<close> the C code hands out is the
  position of the child in its parent, and a chain of them a path of positions. The fields
  \<^verbatim>\<open>parent\<close> and \<^verbatim>\<open>config\<close> are the tree itself and the configuration that
  the operations take as an argument. The C union \<^verbatim>\<open>config_value_t\<close> and the field
  \<^verbatim>\<open>type\<close> are one datatype: no operation reads a member of the union that the type
  does not select, and the storage is zeroed when a setting is made.
\<close>

section \<open>Settings\<close>

definition CONFIG_TYPE_NONE :: int where "CONFIG_TYPE_NONE = 0"
definition CONFIG_TYPE_GROUP :: int where "CONFIG_TYPE_GROUP = 1"
definition CONFIG_TYPE_INT :: int where "CONFIG_TYPE_INT = 2"
definition CONFIG_TYPE_INT64 :: int where "CONFIG_TYPE_INT64 = 3"
definition CONFIG_TYPE_FLOAT :: int where "CONFIG_TYPE_FLOAT = 4"
definition CONFIG_TYPE_STRING :: int where "CONFIG_TYPE_STRING = 5"
definition CONFIG_TYPE_BOOL :: int where "CONFIG_TYPE_BOOL = 6"
definition CONFIG_TYPE_ARRAY :: int where "CONFIG_TYPE_ARRAY = 7"
definition CONFIG_TYPE_LIST :: int where "CONFIG_TYPE_LIST = 8"

lemmas config_types = CONFIG_TYPE_NONE_def CONFIG_TYPE_GROUP_def CONFIG_TYPE_INT_def CONFIG_TYPE_INT64_def
  CONFIG_TYPE_FLOAT_def CONFIG_TYPE_STRING_def CONFIG_TYPE_BOOL_def CONFIG_TYPE_ARRAY_def CONFIG_TYPE_LIST_def

text \<open>
  \<open>capacity\<close> is the number of pointers the block behind \<^verbatim>\<open>elements\<close> has room for; the
  code keeps no such field but writes at an index, so the model does.
\<close>

datatype config_setting =
  Setting (s_name: "string option") (s_format: int) (s_value: config_value) (s_hook: nat) (s_line: nat)
    (s_file: "string option")
and config_value =
  V_None | V_Group "config_list option" | V_Int int | V_Int64 int | V_Float dbl | V_String "string option"
| V_Bool int | V_Array "config_list option" | V_List "config_list option"
and config_list =
  Config_List (elements: "config_setting list") (capacity: nat)

fun value_type :: "config_value \<Rightarrow> int" where
  "value_type V_None = CONFIG_TYPE_NONE"
| "value_type (V_Group l) = CONFIG_TYPE_GROUP"
| "value_type (V_Int i) = CONFIG_TYPE_INT"
| "value_type (V_Int64 i) = CONFIG_TYPE_INT64"
| "value_type (V_Float d) = CONFIG_TYPE_FLOAT"
| "value_type (V_String s) = CONFIG_TYPE_STRING"
| "value_type (V_Bool i) = CONFIG_TYPE_BOOL"
| "value_type (V_Array l) = CONFIG_TYPE_ARRAY"
| "value_type (V_List l) = CONFIG_TYPE_LIST"

definition config_setting_type :: "config_setting \<Rightarrow> int" where
  "config_setting_type s = value_type (s_value s)"

text \<open>The zeroed value of a type.\<close>

definition zero_value :: "int \<Rightarrow> config_value" where
  "zero_value t =
     (if t = CONFIG_TYPE_GROUP then V_Group None else if t = CONFIG_TYPE_INT then V_Int 0
      else if t = CONFIG_TYPE_INT64 then V_Int64 0 else if t = CONFIG_TYPE_FLOAT then V_Float (Dbl 0 0)
      else if t = CONFIG_TYPE_STRING then V_String None else if t = CONFIG_TYPE_BOOL then V_Bool 0
      else if t = CONFIG_TYPE_ARRAY then V_Array None else if t = CONFIG_TYPE_LIST then V_List None
      else V_None)"

fun value_list :: "config_value \<Rightarrow> config_list option" where
  "value_list (V_Group l) = l"
| "value_list (V_Array l) = l"
| "value_list (V_List l) = l"
| "value_list _ = None"

fun with_list :: "config_list \<Rightarrow> config_value \<Rightarrow> config_value" where
  "with_list l (V_Group _) = V_Group (Some l)"
| "with_list l (V_Array _) = V_Array (Some l)"
| "with_list l (V_List _) = V_List (Some l)"
| "with_list l v = v"

fun set_value :: "config_value \<Rightarrow> config_setting \<Rightarrow> config_setting" where
  "set_value v (Setting n f _ h l file) = Setting n f v h l file"

definition is_aggregate :: "config_setting \<Rightarrow> bool" where
  "is_aggregate s \<longleftrightarrow> config_setting_type s = CONFIG_TYPE_GROUP \<or> config_setting_type s = CONFIG_TYPE_ARRAY
     \<or> config_setting_type s = CONFIG_TYPE_LIST"

text \<open>The children, whether the list is a null pointer or empty.\<close>

definition children :: "config_setting \<Rightarrow> config_setting list" where
  "children s = (case value_list (s_value s) of None \<Rightarrow> [] | Some l \<Rightarrow> elements l)"

section \<open>Names\<close>

definition PATH_TOKENS :: string where
  "PATH_TOKENS = '':./''"

definition is_path_token :: "char \<Rightarrow> bool" where
  "is_path_token c \<longleftrightarrow> c \<in> set PATH_TOKENS"

text \<open>The value of a \<^verbatim>\<open>char\<close>, which is signed.\<close>

definition schar :: "char \<Rightarrow> int" where
  "schar c = (let n = of_char c in if n < 128 then n else n - 256)"

fun config_name_compare :: "string \<Rightarrow> string \<Rightarrow> int" where
  "config_name_compare [] [] = 0"
| "config_name_compare [] (q # qs) = (if is_path_token q then 0 else - 1)"
| "config_name_compare (p # ps) [] = (if is_path_token p then 0 else 1)"
| "config_name_compare (p # ps) (q # qs) =
     (if is_path_token p \<and> is_path_token q then 0
      else if is_path_token p then - 1
      else if is_path_token q then 1
      else if schar p < schar q then - 1
      else if schar p > schar q then 1
      else config_name_compare ps qs)"

text \<open>\<^verbatim>\<open>isalpha\<close> and \<^verbatim>\<open>isdigit\<close> of the C locale.\<close>

definition is_alpha :: "char \<Rightarrow> bool" where
  "is_alpha c \<longleftrightarrow> (let n = (of_char c :: nat) in 65 \<le> n \<and> n \<le> 90 \<or> 97 \<le> n \<and> n \<le> 122)"

definition is_digit :: "char \<Rightarrow> bool" where
  "is_digit c \<longleftrightarrow> (let n = (of_char c :: nat) in 48 \<le> n \<and> n \<le> 57)"

definition config_validate_name :: "string \<Rightarrow> bool" where
  "config_validate_name s =
     (case s of [] \<Rightarrow> False
      | c # cs \<Rightarrow> (is_alpha c \<or> c = CHR ''*'')
          \<and> list_all (\<lambda>d. is_alpha d \<or> is_digit d \<or> d \<in> set ''*_-'') cs)"

section \<open>Child lists\<close>

definition CHUNK_SIZE :: nat where
  "CHUNK_SIZE = 16"

text \<open>
  \<open>Null\<close> is a null pointer, \<open>Undefined\<close> an access outside an object: a write past the block
  of a list, or a null name that is compared.
\<close>

datatype 'a c_result = Null | Ptr 'a | Undefined

definition config_list_add :: "config_list \<Rightarrow> config_setting \<Rightarrow> config_list c_result" where
  "config_list_add list setting =
     (let len = length (elements list);
          cap = (if len mod CHUNK_SIZE = 0 then len + CHUNK_SIZE else capacity list)
      in if len < cap then Ptr (Config_List (elements list @ [setting]) cap) else Undefined)"

fun search_from :: "nat \<Rightarrow> config_setting list \<Rightarrow> string \<Rightarrow> nat option" where
  "search_from i [] name = None"
| "search_from i (found # rest) name =
     (case s_name found of
        None \<Rightarrow> search_from (Suc i) rest name
      | Some n \<Rightarrow> if config_name_compare name n = 0 then Some i else search_from (Suc i) rest name)"

definition config_list_search :: "config_list option \<Rightarrow> string \<Rightarrow> nat option" where
  "config_list_search list name = (case list of None \<Rightarrow> None | Some l \<Rightarrow> search_from 0 (elements l) name)"

definition config_list_remove :: "config_list \<Rightarrow> nat \<Rightarrow> config_list" where
  "config_list_remove list idx =
     Config_List (take idx (elements list) @ drop (Suc idx) (elements list)) (capacity list)"

definition config_vector_checktype :: "config_setting \<Rightarrow> int \<Rightarrow> bool" where
  "config_vector_checktype vector type =
     (case value_list (s_value vector) of None \<Rightarrow> True
      | Some l \<Rightarrow>
          (case elements l of [] \<Rightarrow> True
           | e # es \<Rightarrow> if config_setting_type vector = CONFIG_TYPE_LIST then True
                        else config_setting_type e = type))"

section \<open>Finding, adding and removing children\<close>

text \<open>The index is an \<^verbatim>\<open>unsigned int\<close>.\<close>

definition config_setting_get_elem :: "config_setting \<Rightarrow> nat \<Rightarrow> nat option" where
  "config_setting_get_elem vector idx =
     (case value_list (s_value vector) of None \<Rightarrow> None
      | Some l \<Rightarrow> if \<not> is_aggregate vector then None
                    else if length (elements l) \<le> idx then None else Some idx)"

definition config_setting_get_member :: "config_setting \<Rightarrow> string \<Rightarrow> nat option" where
  "config_setting_get_member setting name =
     (if config_setting_type setting \<noteq> CONFIG_TYPE_GROUP then None
      else config_list_search (value_list (s_value setting)) name)"

definition config_setting_length :: "config_setting \<Rightarrow> nat" where
  "config_setting_length setting =
     (if \<not> is_aggregate setting then 0
      else case value_list (s_value setting) of None \<Rightarrow> 0 | Some l \<Rightarrow> length (elements l))"

text \<open>The parent with the new child, which is its last.\<close>

definition config_setting_create :: "config_setting \<Rightarrow> string option \<Rightarrow> int \<Rightarrow> config_setting c_result" where
  "config_setting_create parent name type =
     (if \<not> is_aggregate parent then Null
      else
        (let setting = Setting name 0 (zero_value type) 0 0 None;
             list = (case value_list (s_value parent) of None \<Rightarrow> Config_List [] 0 | Some l \<Rightarrow> l)
         in case config_list_add list setting of
              Ptr l \<Rightarrow> Ptr (set_value (with_list l (s_value parent)) parent)
            | Null \<Rightarrow> Null
            | Undefined \<Rightarrow> Undefined))"

definition config_setting_add :: "config_setting \<Rightarrow> string option \<Rightarrow> int \<Rightarrow> config_setting c_result" where
  "config_setting_add parent name0 type =
     (if type < CONFIG_TYPE_NONE \<or> CONFIG_TYPE_LIST < type then Null
      else
        (let name = (if config_setting_type parent = CONFIG_TYPE_ARRAY
                        \<or> config_setting_type parent = CONFIG_TYPE_LIST then None else name0)
         in case name of
              Some n \<Rightarrow>
                if \<not> config_validate_name n then Null
                else if config_setting_get_member parent n \<noteq> None then Null
                else config_setting_create parent name type
            | None \<Rightarrow>
                if config_setting_type parent = CONFIG_TYPE_GROUP
                   \<and> (\<exists>e \<in> set (children parent). s_name e \<noteq> None) then Undefined
                else config_setting_create parent name type))"

text \<open>
  Destroying a setting: the hooks that are handed to the destructor, where one is registered,
  in the order of the calls.
\<close>

fun config_setting_destroy :: "config_setting \<Rightarrow> nat list" and destroy_value :: "config_value \<Rightarrow> nat list"
  and config_list_destroy :: "config_list \<Rightarrow> nat list" where
  "config_setting_destroy (Setting n f v hook l file) = destroy_value v @ (if hook \<noteq> 0 then [hook] else [])"
| "destroy_value (V_Group (Some l)) = config_list_destroy l"
| "destroy_value (V_Array (Some l)) = config_list_destroy l"
| "destroy_value (V_List (Some l)) = config_list_destroy l"
| "destroy_value _ = []"
| "config_list_destroy (Config_List es c) = concat (map config_setting_destroy es)"

text \<open>The result is the parent without the child, and the hooks of the child.\<close>

definition config_setting_remove :: "config_setting \<Rightarrow> string \<Rightarrow> (config_setting \<times> nat list) option" where
  "config_setting_remove parent name =
     (if config_setting_type parent \<noteq> CONFIG_TYPE_GROUP then None
      else
        (case value_list (s_value parent) of None \<Rightarrow> None
         | Some l \<Rightarrow>
             (case config_list_search (Some l) name of None \<Rightarrow> None
              | Some idx \<Rightarrow>
                  Some (set_value (with_list (config_list_remove l idx) (s_value parent)) parent,
                        config_setting_destroy (elements l ! idx)))))"

definition config_setting_remove_elem :: "config_setting \<Rightarrow> nat \<Rightarrow> (config_setting \<times> nat list) option" where
  "config_setting_remove_elem parent idx =
     (case value_list (s_value parent) of None \<Rightarrow> None
      | Some l \<Rightarrow>
          if \<not> is_aggregate parent then None
          else if length (elements l) \<le> idx then None
          else Some (set_value (with_list (config_list_remove l idx) (s_value parent)) parent,
                     config_setting_destroy (elements l ! idx)))"

text \<open>\<^verbatim>\<open>config_setting_index\<close> of the child a pointer names: its position.\<close>

definition config_setting_index :: "nat list \<Rightarrow> int" where
  "config_setting_index path = (if path = [] then - 1 else int (last path))"

end
