(* ===== verification/Strbuf.thy ===== *)
theory Strbuf
  imports Config_Tree
begin

text \<open>
  The string buffer of \<^verbatim>\<open>strbuf.c\<close>, in which scanner and parser put strings
  together: a block that grows in steps of 64 bytes.
\<close>

section \<open>Operations\<close>

definition STRING_BLOCK_SIZE :: nat where
  "STRING_BLOCK_SIZE = 64"

text \<open>
  \<open>sb_string\<close> is a null pointer or the text up to the terminating NUL; \<open>sb_capacity\<close> is the
  size of the block.
\<close>

record strbuf =
  sb_string :: "string option"
  sb_length :: nat
  sb_capacity :: nat

definition strbuf_zero :: strbuf where
  "strbuf_zero = \<lparr>sb_string = None, sb_length = 0, sb_capacity = 0\<rparr>"

definition NUL :: char where
  "NUL = CHR 0x00"

text \<open>What \<^verbatim>\<open>strlen\<close> and \<^verbatim>\<open>strcpy\<close> see of an array of characters.\<close>

definition c_string :: "string \<Rightarrow> string" where
  "c_string text = takeWhile (\<lambda>c. c \<noteq> NUL) text"

definition strbuf_release :: "strbuf \<Rightarrow> string option \<times> strbuf" where
  "strbuf_release buf = (sb_string buf, strbuf_zero)"

definition sb_text :: "strbuf \<Rightarrow> string" where
  "sb_text buf = (case sb_string buf of None \<Rightarrow> [] | Some s \<Rightarrow> s)"

text \<open>The copy is undefined when text and NUL do not fit into the block.\<close>

definition strbuf_append :: "strbuf \<Rightarrow> string \<Rightarrow> strbuf c_result" where
  "strbuf_append buf text =
     (let len = length (c_string text);
          newlen = sb_length buf + len + 1;
          cap = (if newlen > sb_capacity buf
                 then (newlen + (STRING_BLOCK_SIZE - 1)) div STRING_BLOCK_SIZE * STRING_BLOCK_SIZE
                 else sb_capacity buf)
      in if sb_length buf + len < cap
         then Ptr \<lparr>sb_string = Some (take (sb_length buf) (sb_text buf) @ c_string text),
                   sb_length = sb_length buf + len, sb_capacity = cap\<rparr>
         else Undefined)"

section \<open>The buffer never overflows\<close>

definition strbuf_ok :: "strbuf \<Rightarrow> bool" where
  "strbuf_ok buf \<longleftrightarrow> sb_length buf = length (sb_text buf) \<and> NUL \<notin> set (sb_text buf)
     \<and> STRING_BLOCK_SIZE dvd sb_capacity buf \<and> sb_capacity buf \<le> sb_length buf + STRING_BLOCK_SIZE
     \<and> (sb_string buf \<noteq> None \<longrightarrow> sb_length buf < sb_capacity buf)"

lemma strbuf_zero_ok [simp]: "strbuf_ok strbuf_zero" "sb_text strbuf_zero = []"
  by (simp_all add: strbuf_ok_def strbuf_zero_def sb_text_def)

lemma NUL_c_string [simp]: "NUL \<notin> set (c_string s)"
  by (auto simp: c_string_def dest: set_takeWhileD)

lemma c_string_id: "NUL \<notin> set s \<Longrightarrow> c_string s = s"
  unfolding c_string_def by (rule takeWhile_eq_all_conv [THEN iffD2]) auto

lemma c_string_c_string [simp]: "c_string (c_string s) = c_string s"
  by (simp add: c_string_id)

lemma round_up_block:
  fixes b n :: nat
  assumes "0 < b"
  shows "n \<le> (n + (b - 1)) div b * b" "(n + (b - 1)) div b * b \<le> n + (b - 1)"
proof -
  define q r where "q = (n + (b - 1)) div b * b" and "r = (n + (b - 1)) mod b"
  have "r < b" using assms by (simp add: r_def)
  moreover have "q + r = n + (b - 1)" unfolding q_def r_def by (rule div_mult_mod_eq)
  ultimately have "n \<le> q" "q \<le> n + (b - 1)" using assms by arith+
  then show "n \<le> (n + (b - 1)) div b * b" "(n + (b - 1)) div b * b \<le> n + (b - 1)" by (simp_all add: q_def)
qed

lemma strbuf_append_ok:
  assumes "strbuf_ok buf"
  obtains buf' where "strbuf_append buf text = Ptr buf'" "strbuf_ok buf'"
    "sb_text buf' = sb_text buf @ c_string text" "sb_string buf' \<noteq> None"
proof -
  define n where "n = sb_length buf + length (c_string text) + 1"
  define cap where "cap = (if n > sb_capacity buf
     then (n + (STRING_BLOCK_SIZE - 1)) div STRING_BLOCK_SIZE * STRING_BLOCK_SIZE else sb_capacity buf)"
  have cap: "n \<le> cap" "cap \<le> n + (STRING_BLOCK_SIZE - 1)" "STRING_BLOCK_SIZE dvd cap"
    using round_up_block [of STRING_BLOCK_SIZE n] assms
    by (auto simp: cap_def strbuf_ok_def STRING_BLOCK_SIZE_def n_def)
  define b where "b = \<lparr>sb_string = Some (take (sb_length buf) (sb_text buf) @ c_string text),
     sb_length = sb_length buf + length (c_string text), sb_capacity = cap\<rparr>"
  have "strbuf_append buf text = Ptr b"
    using cap(1) unfolding strbuf_append_def Let_def n_def [symmetric] cap_def [symmetric] b_def
    by (simp add: n_def)
  moreover have "sb_text b = sb_text buf @ c_string text"
    using assms by (simp add: b_def sb_text_def [of "\<lparr>sb_string = _, sb_length = _, sb_capacity = _\<rparr>"] strbuf_ok_def)
  moreover from this have "strbuf_ok b"
    using cap assms by (auto simp: strbuf_ok_def b_def n_def STRING_BLOCK_SIZE_def)
  ultimately show ?thesis using that by (simp add: b_def)
qed

text \<open>Appending a list of texts, as the actions of a string token do one after the other.\<close>

fun append_all :: "strbuf \<Rightarrow> string list \<Rightarrow> strbuf c_result" where
  "append_all buf [] = Ptr buf"
| "append_all buf (t # ts) =
     (case strbuf_append buf t of Ptr b \<Rightarrow> append_all b ts | Null \<Rightarrow> Null | Undefined \<Rightarrow> Undefined)"

text \<open>
  C40. Whatever is appended to a fresh string buffer, no copy leaves its block: the buffer
  holds the concatenation of the texts, each up to its first NUL, and at most 64 bytes of the
  block are unused.
\<close>

theorem strbuf_holds_all:
  "\<exists>buf. append_all strbuf_zero texts = Ptr buf \<and> sb_text buf = concat (map c_string texts)
     \<and> (texts \<noteq> [] \<longrightarrow> sb_length buf < sb_capacity buf) \<and> sb_capacity buf \<le> sb_length buf + STRING_BLOCK_SIZE"
proof -
  have gen: "strbuf_ok b \<Longrightarrow> \<exists>buf. append_all b texts = Ptr buf \<and> strbuf_ok buf
      \<and> sb_text buf = sb_text b @ concat (map c_string texts) \<and> (texts \<noteq> [] \<longrightarrow> sb_string buf \<noteq> None)" for b
  proof (induction texts arbitrary: b)
    case (Cons t ts)
    obtain b1 where b1: "strbuf_append b t = Ptr b1" "strbuf_ok b1" "sb_text b1 = sb_text b @ c_string t"
        "sb_string b1 \<noteq> None" using Cons.prems by (rule strbuf_append_ok)
    show ?case using Cons.IH [OF b1(2)] b1 by (cases ts) auto
  qed simp
  obtain buf where "append_all strbuf_zero texts = Ptr buf" "strbuf_ok buf"
      "sb_text buf = concat (map c_string texts)" "texts \<noteq> [] \<longrightarrow> sb_string buf \<noteq> None"
    using gen [of strbuf_zero] by auto
  then show ?thesis by (auto simp: strbuf_ok_def)
qed

theorem strbuf_holds_all_witness:
  "\<exists>buf. append_all strbuf_zero [''ab'', ''c''] = Ptr buf \<and> sb_text buf = ''abc'' \<and> sb_length buf < sb_capacity buf"
proof -
  have "concat (map c_string [''ab'', ''c'']) = ''abc''" by code_simp
  then show ?thesis using strbuf_holds_all [of "[''ab'', ''c'']"] by auto
qed

end
