(* ===== verification/Scan_Context.thy ===== *)
theory Scan_Context
  imports Strbuf
begin

text \<open>
  The scan context of \<^verbatim>\<open>scanctx.c\<close>: the stack of open include files, the string a
  token is collected in, and the list of the names of all files that were read.
\<close>

section \<open>State\<close>

definition MAX_INCLUDE_DEPTH :: nat where
  "MAX_INCLUDE_DEPTH = 10"

definition SCAN_CHUNK_SIZE :: nat where
  "SCAN_CHUNK_SIZE = 32"

text \<open>
  What \<^verbatim>\<open>fopen\<close> finds under a path. On Linux a directory can be opened for reading;
  only reading from it fails.
\<close>

datatype file_node = Regular string | Directory

type_synonym file_system = "string \<Rightarrow> file_node option"

text \<open>Opening and closing of streams, in the order of the calls.\<close>

datatype stream_event = Fopen string | Fclose string

text \<open>
  The arrays \<^verbatim>\<open>files\<close>, \<^verbatim>\<open>buffers\<close> and \<^verbatim>\<open>streams\<close> have ten
  entries each; a stream is named by the path it was opened with. \<open>sc_room\<close> is the number
  of pointers the block behind \<^verbatim>\<open>filenames\<close> has room for. The buffers of the scanner are
  of the type \<open>'b\<close>.
\<close>

record 'b scan_context =
  sc_top_filename :: "string option"
  sc_files :: "string list"
  sc_buffers :: "'b option list"
  sc_streams :: "string list"
  sc_depth :: nat
  sc_string :: strbuf
  sc_filenames :: "string list"
  sc_room :: nat
  sc_log :: "stream_event list"

definition scanctx_zero :: "'b scan_context" where
  "scanctx_zero = \<lparr>sc_top_filename = None, sc_files = replicate MAX_INCLUDE_DEPTH [],
     sc_buffers = replicate MAX_INCLUDE_DEPTH None, sc_streams = replicate MAX_INCLUDE_DEPTH [], sc_depth = 0,
     sc_string = strbuf_zero, sc_filenames = [], sc_room = 0, sc_log = []\<rparr>"

section \<open>Operations\<close>

text \<open>A name that is known is found in the list; a new one is stored at its end.\<close>

definition scanctx_add_filename :: "'b scan_context \<Rightarrow> string \<Rightarrow> (string \<times> 'b scan_context) c_result" where
  "scanctx_add_filename ctx filename =
     (if filename \<in> set (sc_filenames ctx) then Ptr (filename, ctx)
      else
        (let n = length (sc_filenames ctx);
             room = (if n mod SCAN_CHUNK_SIZE = 0 then n + SCAN_CHUNK_SIZE else sc_room ctx)
         in if n < room then Ptr (filename, ctx\<lparr>sc_filenames := sc_filenames ctx @ [filename], sc_room := room\<rparr>)
            else Undefined))"

definition scanctx_init :: "string option \<Rightarrow> 'b scan_context c_result" where
  "scanctx_init top_filename =
     (case top_filename of None \<Rightarrow> Ptr scanctx_zero
      | Some f \<Rightarrow>
          (case scanctx_add_filename scanctx_zero f of
             Ptr (n, ctx) \<Rightarrow> Ptr (ctx\<lparr>sc_top_filename := Some n\<rparr>) | Null \<Rightarrow> Null | Undefined \<Rightarrow> Undefined))"

text \<open>Closes what is still open and hands the names to the configuration.\<close>

definition scanctx_cleanup :: "'b scan_context \<Rightarrow> string list \<times> 'b scan_context" where
  "scanctx_cleanup ctx =
     (sc_filenames ctx,
      ctx\<lparr>sc_log := sc_log ctx @ map Fclose (take (sc_depth ctx) (sc_streams ctx)),
          sc_string := snd (strbuf_release (sc_string ctx))\<rparr>)"

definition scanctx_append_string :: "'b scan_context \<Rightarrow> string \<Rightarrow> 'b scan_context c_result" where
  "scanctx_append_string ctx text =
     (case strbuf_append (sc_string ctx) text of
        Ptr b \<Rightarrow> Ptr (ctx\<lparr>sc_string := b\<rparr>) | Null \<Rightarrow> Null | Undefined \<Rightarrow> Undefined)"

definition scanctx_take_string :: "'b scan_context \<Rightarrow> string \<times> 'b scan_context" where
  "scanctx_take_string ctx =
     (let (r, b) = strbuf_release (sc_string ctx)
      in ((case r of None \<Rightarrow> [] | Some s \<Rightarrow> s), ctx\<lparr>sc_string := b\<rparr>))"

definition scanctx_current_filename :: "'b scan_context \<Rightarrow> string option" where
  "scanctx_current_filename ctx =
     (if sc_depth ctx = 0 then sc_top_filename ctx else Some (sc_files ctx ! (sc_depth ctx - 1)))"

definition err_bad_include :: string where
  "err_bad_include = ''cannot open include file''"

definition err_include_too_deep :: string where
  "err_include_too_deep = ''include file nesting too deep''"

definition FILE_SEPARATOR :: string where
  "FILE_SEPARATOR = ''/''"

text \<open>
  The outcome of \<^verbatim>\<open>scanctx_push_include\<close>: the open file, an error text and a null
  pointer, or an access outside an array.
\<close>

datatype 'b push_result = Pushed file_node "'b scan_context" | Push_Error string "'b scan_context" | Push_Undefined

definition include_path :: "string option \<Rightarrow> string \<Rightarrow> string" where
  "include_path dir file = (case dir of None \<Rightarrow> file | Some d \<Rightarrow> d @ FILE_SEPARATOR @ file)"

definition scanctx_push_include ::
    "file_system \<Rightarrow> string option \<Rightarrow> 'b scan_context \<Rightarrow> 'b \<Rightarrow> 'b push_result" where
  "scanctx_push_include fs dir ctx buffer =
     (if sc_depth ctx = MAX_INCLUDE_DEPTH then Push_Error err_include_too_deep ctx
      else
        (let (file, ctx1) = scanctx_take_string ctx; path = include_path dir file
         in case fs path of
              None \<Rightarrow> Push_Error err_bad_include ctx1
            | Some node \<Rightarrow>
                (case scanctx_add_filename ctx1 file of
                   Ptr (name, ctx2) \<Rightarrow>
                     if sc_depth ctx2 < MAX_INCLUDE_DEPTH
                     then Pushed node (ctx2\<lparr>sc_streams := (sc_streams ctx2)[sc_depth ctx2 := path],
                            sc_files := (sc_files ctx2)[sc_depth ctx2 := name],
                            sc_buffers := (sc_buffers ctx2)[sc_depth ctx2 := Some buffer],
                            sc_depth := Suc (sc_depth ctx2), sc_log := sc_log ctx2 @ [Fopen path]\<rparr>)
                     else Push_Undefined
                 | _ \<Rightarrow> Push_Undefined)))"

definition scanctx_pop_include :: "'b scan_context \<Rightarrow> 'b option \<times> 'b scan_context" where
  "scanctx_pop_include ctx =
     (if sc_depth ctx = 0 then (None, ctx)
      else
        (let d = sc_depth ctx - 1
         in (sc_buffers ctx ! d, ctx\<lparr>sc_depth := d, sc_log := sc_log ctx @ [Fclose (sc_streams ctx ! d)]\<rparr>)))"

section \<open>Invariant\<close>

text \<open>The streams that the trace leaves open, innermost last.\<close>

fun still_open :: "string list \<Rightarrow> stream_event list \<Rightarrow> string list option" where
  "still_open st [] = Some st"
| "still_open st (Fopen p # es) = still_open (st @ [p]) es"
| "still_open st (Fclose p # es) =
     (if st \<noteq> [] \<and> last st = p then still_open (butlast st) es else None)"

definition scanctx_ok :: "'b scan_context \<Rightarrow> bool" where
  "scanctx_ok ctx \<longleftrightarrow> sc_depth ctx \<le> MAX_INCLUDE_DEPTH \<and> length (sc_files ctx) = MAX_INCLUDE_DEPTH
     \<and> length (sc_buffers ctx) = MAX_INCLUDE_DEPTH \<and> length (sc_streams ctx) = MAX_INCLUDE_DEPTH
     \<and> (\<forall>i < sc_depth ctx. sc_buffers ctx ! i \<noteq> None)
     \<and> strbuf_ok (sc_string ctx) \<and> distinct (sc_filenames ctx)
     \<and> set (take (sc_depth ctx) (sc_files ctx)) \<subseteq> set (sc_filenames ctx)
     \<and> (\<forall>n. sc_top_filename ctx = Some n \<longrightarrow> n \<in> set (sc_filenames ctx))
     \<and> (SCAN_CHUNK_SIZE dvd length (sc_filenames ctx) \<or> length (sc_filenames ctx) < sc_room ctx)
     \<and> SCAN_CHUNK_SIZE dvd sc_room ctx
     \<and> still_open [] (sc_log ctx) = Some (take (sc_depth ctx) (sc_streams ctx))"

lemma still_open_append: "still_open st (xs @ ys) = Option.bind (still_open st xs) (\<lambda>s. still_open s ys)"
  by (induction st xs rule: still_open.induct) auto

lemma scanctx_zero_ok [simp]: "scanctx_ok scanctx_zero"
  by (simp add: scanctx_ok_def scanctx_zero_def)

lemma room_for_next:
  fixes b n r :: nat
  assumes "b dvd n \<or> n < r" "b dvd r" "0 < b"
  shows "n < (if n mod b = 0 then n + b else r)" "b dvd (if n mod b = 0 then n + b else r)"
    "b dvd Suc n \<or> Suc n < (if n mod b = 0 then n + b else r)"
proof -
  show "n < (if n mod b = 0 then n + b else r)" "b dvd (if n mod b = 0 then n + b else r)"
    using assms by (auto simp: dvd_eq_mod_eq_0)
  then show "b dvd Suc n \<or> Suc n < (if n mod b = 0 then n + b else r)"
    by (metis Suc_lessI)
qed

lemma scanctx_add_filename_ok:
  assumes "scanctx_ok ctx"
  obtains ctx' where "scanctx_add_filename ctx f = Ptr (f, ctx')" "scanctx_ok ctx'"
    "set (sc_filenames ctx') = insert f (set (sc_filenames ctx))"
    "\<exists>r ns. ctx' = ctx\<lparr>sc_filenames := ns, sc_room := r\<rparr>"
proof (cases "f \<in> set (sc_filenames ctx)")
  case True
  show ?thesis
  proof (rule that [of ctx])
    have "ctx = ctx\<lparr>sc_filenames := sc_filenames ctx, sc_room := sc_room ctx\<rparr>" by simp
    then show "\<exists>r ns. ctx = ctx\<lparr>sc_filenames := ns, sc_room := r\<rparr>" by blast
  qed (use True assms in \<open>auto simp: scanctx_add_filename_def\<close>)
next
  case False
  define n where "n = length (sc_filenames ctx)"
  define r where "r = (if n mod SCAN_CHUNK_SIZE = 0 then n + SCAN_CHUNK_SIZE else sc_room ctx)"
  have r: "n < r" "SCAN_CHUNK_SIZE dvd r" "SCAN_CHUNK_SIZE dvd Suc n \<or> Suc n < r"
    unfolding r_def using room_for_next [of SCAN_CHUNK_SIZE n "sc_room ctx"] assms
    by (simp_all add: scanctx_ok_def n_def SCAN_CHUNK_SIZE_def)
  show ?thesis
  proof (rule that [of "ctx\<lparr>sc_filenames := sc_filenames ctx @ [f], sc_room := r\<rparr>"])
    show "scanctx_add_filename ctx f = Ptr (f, ctx\<lparr>sc_filenames := sc_filenames ctx @ [f], sc_room := r\<rparr>)"
      using r(1) False unfolding scanctx_add_filename_def Let_def n_def [symmetric] r_def [symmetric] by simp
    show "scanctx_ok (ctx\<lparr>sc_filenames := sc_filenames ctx @ [f], sc_room := r\<rparr>)"
      using assms r False by (auto simp: scanctx_ok_def n_def)
  qed auto
qed

lemma scanctx_append_ok:
  assumes "scanctx_ok ctx"
  obtains ctx' where "scanctx_append_string ctx text = Ptr ctx'" "scanctx_ok ctx'"
    "sb_text (sc_string ctx') = sb_text (sc_string ctx) @ c_string text"
    "\<exists>b. ctx' = ctx\<lparr>sc_string := b\<rparr>"
proof -
  have "strbuf_ok (sc_string ctx)" using assms by (simp add: scanctx_ok_def)
  then obtain b where b: "strbuf_append (sc_string ctx) text = Ptr b" "strbuf_ok b"
      "sb_text b = sb_text (sc_string ctx) @ c_string text" by (rule strbuf_append_ok)
  show ?thesis
    by (rule that [of "ctx\<lparr>sc_string := b\<rparr>"]) (use b assms in \<open>auto simp: scanctx_append_string_def scanctx_ok_def\<close>)
qed

lemma scanctx_take_ok:
  "scanctx_ok ctx \<Longrightarrow> scanctx_take_string ctx = (sb_text (sc_string ctx), ctx\<lparr>sc_string := strbuf_zero\<rparr>)
     \<and> scanctx_ok (ctx\<lparr>sc_string := strbuf_zero\<rparr>)"
  by (auto simp: scanctx_take_string_def strbuf_release_def sb_text_def scanctx_ok_def)

lemma scanctx_pop_ok:
  assumes "scanctx_ok ctx" "scanctx_pop_include ctx = (b, ctx')"
  shows "scanctx_ok ctx'" "b = None \<longleftrightarrow> sc_depth ctx = 0" "sc_depth ctx' = sc_depth ctx - 1"
    "sc_string ctx' = sc_string ctx" "sc_filenames ctx' = sc_filenames ctx"
proof -
  have "scanctx_ok ctx' \<and> (b = None \<longleftrightarrow> sc_depth ctx = 0) \<and> sc_depth ctx' = sc_depth ctx - 1
    \<and> sc_string ctx' = sc_string ctx \<and> sc_filenames ctx' = sc_filenames ctx"
  proof (cases "sc_depth ctx")
    case 0
    then show ?thesis using assms by (simp add: scanctx_pop_include_def)
  next
    case (Suc d)
    then have c: "b = sc_buffers ctx ! d"
        "ctx' = ctx\<lparr>sc_depth := d, sc_log := sc_log ctx @ [Fclose (sc_streams ctx ! d)]\<rparr>"
      using assms(2) by (auto simp: scanctx_pop_include_def Let_def)
    have "take (Suc d) (sc_streams ctx) = take d (sc_streams ctx) @ [sc_streams ctx ! d]"
      using assms(1) Suc by (auto simp: scanctx_ok_def intro!: take_Suc_conv_app_nth)
    then have "still_open [] (sc_log ctx') = Some (take d (sc_streams ctx))"
      using assms(1) Suc by (simp add: c(2) scanctx_ok_def still_open_append)
    moreover have "set (take d (sc_files ctx)) \<subseteq> set (take (Suc d) (sc_files ctx))"
      by (rule set_take_subset_set_take) simp
    ultimately show ?thesis using assms(1) Suc by (auto simp: c scanctx_ok_def)
  qed
  then show "scanctx_ok ctx'" "b = None \<longleftrightarrow> sc_depth ctx = 0" "sc_depth ctx' = sc_depth ctx - 1"
    "sc_string ctx' = sc_string ctx" "sc_filenames ctx' = sc_filenames ctx" by blast+
qed

lemma scanctx_push_ok:
  assumes "scanctx_ok ctx"
  shows "case scanctx_push_include fs dir ctx b of
     Pushed node ctx' \<Rightarrow> scanctx_ok ctx' \<and> sc_depth ctx' = Suc (sc_depth ctx) \<and> sc_depth ctx < MAX_INCLUDE_DEPTH
       \<and> fs (include_path dir (sb_text (sc_string ctx))) = Some node
       \<and> fst (scanctx_pop_include ctx') = Some b
       \<and> take (sc_depth ctx) (sc_streams ctx') = take (sc_depth ctx) (sc_streams ctx)
       \<and> scanctx_current_filename ctx' = Some (sb_text (sc_string ctx))
   | Push_Error e ctx' \<Rightarrow> scanctx_ok ctx' \<and> sc_depth ctx' = sc_depth ctx \<and> sc_log ctx' = sc_log ctx
       \<and> e = (if sc_depth ctx = MAX_INCLUDE_DEPTH then err_include_too_deep else err_bad_include)
       \<and> (sc_depth ctx < MAX_INCLUDE_DEPTH \<longrightarrow> fs (include_path dir (sb_text (sc_string ctx))) = None)
   | Push_Undefined \<Rightarrow> False"
proof (cases "sc_depth ctx = MAX_INCLUDE_DEPTH \<or> fs (include_path dir (sb_text (sc_string ctx))) = None")
  case True
  then show ?thesis
    using assms scanctx_take_ok [OF assms] by (auto simp: scanctx_push_include_def)
next
  case False
  define f where "f = sb_text (sc_string ctx)"
  obtain node where node: "fs (include_path dir f) = Some node" using False by (auto simp: f_def)
  define c1 where "c1 = ctx\<lparr>sc_string := strbuf_zero\<rparr>"
  have c1: "scanctx_take_string ctx = (f, c1)" "scanctx_ok c1" using scanctx_take_ok [OF assms] by (auto simp: f_def c1_def)
  obtain c2 where c2: "scanctx_add_filename c1 f = Ptr (f, c2)" "scanctx_ok c2"
      "set (sc_filenames c2) = insert f (set (sc_filenames c1))" "\<exists>r ns. c2 = c1\<lparr>sc_filenames := ns, sc_room := r\<rparr>"
    using c1(2) by (rule scanctx_add_filename_ok)
  have d: "sc_depth c2 = sc_depth ctx" using c2(4) by (auto simp: c1_def)
  have lt: "sc_depth c2 < MAX_INCLUDE_DEPTH" using assms False d by (simp add: scanctx_ok_def)
  define c3 where "c3 = c2\<lparr>sc_streams := (sc_streams c2)[sc_depth c2 := include_path dir f],
     sc_files := (sc_files c2)[sc_depth c2 := f], sc_buffers := (sc_buffers c2)[sc_depth c2 := Some b],
     sc_depth := Suc (sc_depth c2), sc_log := sc_log c2 @ [Fopen (include_path dir f)]\<rparr>"
  have "scanctx_ok c3"
    using c2(2,3) lt unfolding scanctx_ok_def c3_def
    by (auto simp: still_open_append take_Suc_conv_app_nth less_Suc_eq nth_list_update)
  moreover have "scanctx_push_include fs dir ctx b = Pushed node c3"
    using False node c1 c2(1) lt by (simp add: scanctx_push_include_def c3_def f_def Let_def)
  moreover have "length (sc_buffers c2) = MAX_INCLUDE_DEPTH" "length (sc_files c2) = MAX_INCLUDE_DEPTH"
    using c2(2) by (simp_all add: scanctx_ok_def)
  moreover have "sc_streams c2 = sc_streams ctx" using c2(4) by (auto simp: c1_def)
  ultimately show ?thesis
    using lt d node by (simp add: c3_def scanctx_pop_include_def Let_def f_def scanctx_current_filename_def)
qed

text \<open>
  C39. The include stack: opening an include file never writes outside the arrays of ten
  entries, and is refused with a text of its own when ten files are open or the file does not
  exist. A file that was opened is the current one, under the name the text gave; popping
  gives back the buffer that was interrupted and closes the stream, so that at every moment
  the open streams are exactly those on the stack.
\<close>

theorem include_stack:
  assumes "scanctx_ok ctx"
  shows "case scanctx_push_include fs dir ctx b of
     Pushed node ctx' \<Rightarrow> scanctx_ok ctx' \<and> sc_depth ctx' = Suc (sc_depth ctx) \<and> sc_depth ctx < MAX_INCLUDE_DEPTH
       \<and> fs (include_path dir (sb_text (sc_string ctx))) = Some node
       \<and> scanctx_current_filename ctx' = Some (sb_text (sc_string ctx))
       \<and> (\<exists>c. scanctx_pop_include ctx' = (Some b, c) \<and> scanctx_ok c \<and> sc_depth c = sc_depth ctx
            \<and> still_open [] (sc_log c) = still_open [] (sc_log ctx))
   | Push_Error e ctx' \<Rightarrow> scanctx_ok ctx' \<and> sc_depth ctx' = sc_depth ctx \<and> sc_log ctx' = sc_log ctx
       \<and> e = (if sc_depth ctx = MAX_INCLUDE_DEPTH then err_include_too_deep else err_bad_include)
   | Push_Undefined \<Rightarrow> False"
proof (cases "scanctx_push_include fs dir ctx b")
  case (Pushed node ctx')
  note p = scanctx_push_ok [OF assms, of fs dir b, unfolded Pushed push_result.case]
  obtain c where c: "scanctx_pop_include ctx' = (Some b, c)" using p by (metis prod.collapse)
  have "scanctx_ok c" "sc_depth c = sc_depth ctx" using scanctx_pop_ok [OF _ c] p by simp_all
  moreover have "sc_streams c = sc_streams ctx'" using c by (auto simp: scanctx_pop_include_def Let_def split: if_splits)
  ultimately have "still_open [] (sc_log c) = still_open [] (sc_log ctx)"
    using p assms by (simp add: scanctx_ok_def)
  then show ?thesis using Pushed p c \<open>scanctx_ok c\<close> \<open>sc_depth c = sc_depth ctx\<close> by simp
qed (use scanctx_push_ok [OF assms, of fs dir b] in auto)

definition demo_ctx :: "nat scan_context" where
  "demo_ctx = scanctx_zero\<lparr>sc_string := \<lparr>sb_string = Some ''a'', sb_length = 1, sb_capacity = 64\<rparr>\<rparr>"

lemma demo_ctx_ok: "scanctx_ok demo_ctx"
  by (simp add: demo_ctx_def scanctx_ok_def scanctx_zero_def strbuf_ok_def sb_text_def STRING_BLOCK_SIZE_def NUL_def)

theorem include_stack_witness:
  "scanctx_ok demo_ctx \<and> (case scanctx_push_include [''a'' \<mapsto> Regular ''x = 1;''] None demo_ctx 7 of
     Pushed node ctx' \<Rightarrow> node = Regular ''x = 1;'' \<and> sc_depth ctx' = 1 \<and> scanctx_current_filename ctx' = Some ''a''
   | _ \<Rightarrow> False)"
proof -
  have t: "sb_text (sc_string demo_ctx) = ''a''" "sc_depth demo_ctx = 0" "include_path None ''a'' = ''a''"
    by (simp_all add: demo_ctx_def sb_text_def scanctx_zero_def include_path_def)
  have "scanctx_push_include [''a'' \<mapsto> Regular ''x = 1;''] None demo_ctx 7 \<noteq> Push_Error e c" for e c
    using scanctx_push_ok [OF demo_ctx_ok, of "[''a'' \<mapsto> Regular ''x = 1;'']" None 7] t
    by (auto simp: MAX_INCLUDE_DEPTH_def)
  then show ?thesis
    using include_stack [OF demo_ctx_ok, of "[''a'' \<mapsto> Regular ''x = 1;'']" None 7] t demo_ctx_ok
    by (auto split: push_result.splits)
qed

end
