(* ===== verification/Config_Store.thy ===== *)
theory Config_Store
  imports Config_Tree "HOL-Library.Multiset"
begin

text \<open>
  The settings tree keeps its shape: the invariant of the tree, that adding and removing
  children preserves it, and that the members of a group behave as a finite map from names.
\<close>

section \<open>Name comparison\<close>

text \<open>The part of a path up to the first token.\<close>

definition seg :: "string \<Rightarrow> string" where
  "seg n = takeWhile (\<lambda>c. \<not> is_path_token c) n"

lemma schar_inj: "schar p = schar q \<Longrightarrow> p = q"
proof -
  assume e: "schar p = schar q"
  have b: "(of_char c :: int) < 256" for c by (cases c) (simp add: of_char_def)
  have nn: "0 \<le> (of_char c :: int)" for c by (cases c) (simp add: of_char_def)
  have "(of_char p :: int) = of_char q"
    using e b [of p] b [of q] nn [of p] nn [of q] by (auto simp: schar_def Let_def split: if_splits)
  then show "p = q" by (simp add: of_char_eq_iff)
qed

lemma name_compare_zero: "config_name_compare a b = 0 \<longleftrightarrow> seg a = seg b"
proof (induction a b rule: config_name_compare.induct)
  case (4 p ps q qs)
  then show ?case
    using schar_inj [of p q] by (auto simp: seg_def not_less_iff_gr_or_eq)
qed (simp_all add: seg_def)

lemma valid_name_chars: "config_validate_name n \<Longrightarrow> c \<in> set n \<Longrightarrow> \<not> is_path_token c"
  by (cases n) (auto simp: config_validate_name_def is_path_token_def PATH_TOKENS_def is_alpha_def is_digit_def
      Let_def list_all_iff)

lemma seg_valid [simp]: "config_validate_name n \<Longrightarrow> seg n = n"
  by (auto simp: seg_def takeWhile_eq_all_conv valid_name_chars)

lemma seg_idem [simp]: "seg (seg n) = seg n"
  by (simp add: seg_def)

section \<open>The invariant\<close>

text \<open>
  Lists have room for what they hold, in whole chunks; the members of a group have valid,
  distinct names; the elements of arrays and lists have none.
\<close>

definition names_ok :: "config_setting list \<Rightarrow> bool" where
  "names_ok xs \<longleftrightarrow> (\<forall>x \<in> set xs. \<exists>n. s_name x = Some n \<and> config_validate_name n)
     \<and> distinct (map s_name xs)"

lemma names_ok_Nil [simp]: "names_ok []"
  by (simp add: names_ok_def)

definition list_room :: "config_list \<Rightarrow> bool" where
  "list_room l \<longleftrightarrow> length (elements l) \<le> capacity l \<and> CHUNK_SIZE dvd capacity l"

definition shape_ok :: "config_value \<Rightarrow> bool" where
  "shape_ok v \<longleftrightarrow> (case value_list v of None \<Rightarrow> True
     | Some l \<Rightarrow> list_room l \<and> (if value_type v = CONFIG_TYPE_GROUP then names_ok (elements l)
                                  else \<forall>x \<in> set (elements l). s_name x = None))"

fun wf_setting :: "config_setting \<Rightarrow> bool" and wf_value :: "config_value \<Rightarrow> bool"
  and wf_list :: "config_list \<Rightarrow> bool" where
  "wf_setting (Setting n f v h l file) = wf_value v"
| "wf_value (V_Group (Some l)) = (shape_ok (V_Group (Some l)) \<and> wf_list l)"
| "wf_value (V_Array (Some l)) = (shape_ok (V_Array (Some l)) \<and> wf_list l)"
| "wf_value (V_List (Some l)) = (shape_ok (V_List (Some l)) \<and> wf_list l)"
| "wf_value _ = True"
| "wf_list (Config_List es c) = (\<forall>e \<in> set es. wf_setting e)"

lemma wf_list_iff: "wf_list l \<longleftrightarrow> (\<forall>e \<in> set (elements l). wf_setting e)"
  by (cases l) simp

lemma wf_value_iff:
  "wf_value v \<longleftrightarrow> shape_ok v \<and> (case value_list v of None \<Rightarrow> True | Some l \<Rightarrow> \<forall>e \<in> set (elements l). wf_setting e)"
proof (cases v)
  case (V_Group x)
  then show ?thesis by (cases x) (simp_all add: shape_ok_def wf_list_iff)
next
  case (V_Array x)
  then show ?thesis by (cases x) (simp_all add: shape_ok_def wf_list_iff)
next
  case (V_List x)
  then show ?thesis by (cases x) (simp_all add: shape_ok_def wf_list_iff)
qed (simp_all add: shape_ok_def)

lemma wf_setting_iff: "wf_setting s \<longleftrightarrow> wf_value (s_value s)"
  by (cases s) simp

lemma s_value_set_value [simp]: "s_value (set_value v s) = v"
  by (cases s) simp

lemma s_name_set_value [simp]: "s_name (set_value v s) = s_name s"
  by (cases s) simp

lemma with_list_simps [simp]:
  "value_type (with_list l v) = value_type v"
  "is_aggregate s \<Longrightarrow> value_list (with_list l (s_value s)) = Some l"
  by (cases v) (simp_all, cases "s_value s", simp_all add: is_aggregate_def config_setting_type_def config_types)

lemma wf_zero_value [simp]: "wf_value (zero_value t)"
  by (simp add: zero_value_def)

lemma type_zero_value: "CONFIG_TYPE_NONE \<le> t \<Longrightarrow> t \<le> CONFIG_TYPE_LIST \<Longrightarrow> value_type (zero_value t) = t"
  by (simp add: zero_value_def config_types)

lemma list_add_room:
  assumes "list_room l"
  shows "\<exists>c. config_list_add l x = Ptr (Config_List (elements l @ [x]) c)
    \<and> list_room (Config_List (elements l @ [x]) c)"
proof -
  let ?n = "length (elements l)"
  have "?n < capacity l" if "?n mod 16 \<noteq> 0"
    using assms that by (cases "?n = capacity l") (auto simp: list_room_def CHUNK_SIZE_def)
  moreover have "16 dvd ?n + 16" if "?n mod 16 = 0" using that by (simp add: dvd_eq_mod_eq_0)
  ultimately show ?thesis
    using assms by (auto simp: config_list_add_def list_room_def CHUNK_SIZE_def Let_def)
qed

lemma list_remove_room: "list_room l \<Longrightarrow> list_room (config_list_remove l i)"
  by (auto simp: list_room_def config_list_remove_def)

lemma list_room_empty: "list_room (Config_List [] 0)"
  by (simp add: list_room_def)

text \<open>Replacing the list of a well-formed aggregate.\<close>

lemma wf_with_list:
  assumes "is_aggregate s" "list_room l" "\<forall>e \<in> set (elements l). wf_setting e"
    and "if config_setting_type s = CONFIG_TYPE_GROUP then names_ok (elements l)
         else \<forall>x \<in> set (elements l). s_name x = None"
  shows "wf_setting (set_value (with_list l (s_value s)) s)"
  using assms
  by (simp add: wf_setting_iff [of "set_value _ _"] wf_value_iff [of "with_list _ _"] shape_ok_def
      config_setting_type_def split: if_splits)

lemma children_with_list:
  "is_aggregate s \<Longrightarrow> children (set_value (with_list l (s_value s)) s) = elements l"
  by (simp add: children_def)

lemma wf_children:
  assumes "wf_setting s" "is_aggregate s"
  shows "\<forall>e \<in> set (children s). wf_setting e"
    and "if config_setting_type s = CONFIG_TYPE_GROUP then names_ok (children s)
         else \<forall>x \<in> set (children s). s_name x = None"
proof -
  have a: "shape_ok (s_value s)"
    "case value_list (s_value s) of None \<Rightarrow> True | Some l \<Rightarrow> \<forall>e \<in> set (elements l). wf_setting e"
    using assms(1) by (simp_all only: wf_setting_iff [of s] wf_value_iff [of "s_value s"])
  show "\<forall>e \<in> set (children s). wf_setting e"
    using a by (cases "value_list (s_value s)") (simp_all add: children_def)
  show "if config_setting_type s = CONFIG_TYPE_GROUP then names_ok (children s)
      else \<forall>x \<in> set (children s). s_name x = None"
    using a by (cases "value_list (s_value s)") (simp_all add: shape_ok_def children_def config_setting_type_def split: if_splits)
qed

section \<open>The members of a group as a map\<close>

definition group_map :: "config_setting \<Rightarrow> string \<Rightarrow> config_setting option" where
  "group_map s = map_of (map (\<lambda>e. (the (s_name e), e)) (children s))"

definition lookup_member :: "config_setting \<Rightarrow> string \<Rightarrow> config_setting option" where
  "lookup_member s n = map_option ((!) (children s)) (config_setting_get_member s n)"

definition is_group :: "config_setting \<Rightarrow> bool" where
  "is_group s \<longleftrightarrow> config_setting_type s = CONFIG_TYPE_GROUP"

lemma is_group_aggregate [simp]: "is_group s \<Longrightarrow> is_aggregate s"
  by (simp add: is_group_def is_aggregate_def)

lemma wf_group_names: "wf_setting s \<Longrightarrow> is_group s \<Longrightarrow> names_ok (children s)"
  using wf_children(2) [of s] is_group_aggregate [of s] by (simp add: is_group_def)

lemma search_from_map_of:
  assumes "\<forall>x \<in> set xs. \<exists>n. s_name x = Some n \<and> config_validate_name n"
  shows "map_option (\<lambda>k. xs ! (k - i)) (search_from i xs n) = map_of (map (\<lambda>e. (the (s_name e), e)) xs) (seg n)
    \<and> (\<forall>k. search_from i xs n = Some k \<longrightarrow> i \<le> k \<and> k - i < length xs)"
  using assms
proof (induction xs arbitrary: i)
  case (Cons x xs)
  obtain m where m: "s_name x = Some m" "config_validate_name m" using Cons.prems by auto
  have ih: "map_option (\<lambda>k. xs ! (k - Suc i)) (search_from (Suc i) xs n)
        = map_of (map (\<lambda>e. (the (s_name e), e)) xs) (seg n)"
    "\<And>k. search_from (Suc i) xs n = Some k \<Longrightarrow> Suc i \<le> k \<and> k - Suc i < length xs"
    using Cons.IH [of "Suc i"] Cons.prems by auto
  show ?case
  proof (cases "seg n = m")
    case True
    then show ?thesis using m by (simp add: name_compare_zero)
  next
    case False
    then have s: "search_from i (x # xs) n = search_from (Suc i) xs n" using m by (simp add: name_compare_zero)
    have "map_option (\<lambda>k. (x # xs) ! (k - i)) (search_from (Suc i) xs n)
        = map_option (\<lambda>k. xs ! (k - Suc i)) (search_from (Suc i) xs n)"
      using ih(2) by (intro option.map_cong0) (auto simp: nth_Cons' Suc_le_eq)
    then show ?thesis using ih s m False by (auto simp: Suc_le_eq)
  qed
qed simp

lemma lookup_member_map:
  assumes "wf_setting s" "is_group s"
  shows "lookup_member s n = group_map s (seg n)"
    and "config_setting_get_member s n = Some i \<Longrightarrow> i < length (children s)"
proof -
  have g: "config_setting_get_member s n = search_from 0 (children s) n"
    using assms(2) by (auto simp: config_setting_get_member_def is_group_def config_list_search_def children_def
        split: option.split)
  have "\<forall>x \<in> set (children s). \<exists>n. s_name x = Some n \<and> config_validate_name n"
    using wf_group_names [OF assms] by (simp add: names_ok_def)
  from search_from_map_of [OF this, of 0 n] g
  show "lookup_member s n = group_map s (seg n)" "config_setting_get_member s n = Some i \<Longrightarrow> i < length (children s)"
    by (simp_all add: lookup_member_def group_map_def)
qed

lemma get_member_none: "wf_setting s \<Longrightarrow> is_group s \<Longrightarrow>
    config_setting_get_member s n = None \<longleftrightarrow> group_map s (seg n) = None"
  using lookup_member_map(1) [of s n] unfolding lookup_member_def by (metis map_option_is_None)

definition new_setting :: "string \<Rightarrow> int \<Rightarrow> config_setting" where
  "new_setting n t = Setting (Some n) 0 (zero_value t) 0 0 None"

definition type_ok :: "int \<Rightarrow> bool" where
  "type_ok t \<longleftrightarrow> CONFIG_TYPE_NONE \<le> t \<and> t \<le> CONFIG_TYPE_LIST"

lemma map_of_snoc: "k \<notin> fst ` set xs \<Longrightarrow> map_of (xs @ [(k, v)]) = (map_of xs)(k \<mapsto> v)"
  using map_of_eq_None_iff [of xs k] by (auto simp: fun_eq_iff map_add_def split: option.split)

lemma group_names_image:
  "names_ok xs \<Longrightarrow> n \<in> (\<lambda>e. the (s_name e)) ` set xs \<longleftrightarrow> Some n \<in> s_name ` set xs"
  by (force simp: names_ok_def)

lemma aggregate_room:
  assumes "wf_setting s"
  shows "list_room (case value_list (s_value s) of None \<Rightarrow> Config_List [] 0 | Some l \<Rightarrow> l)
    \<and> elements (case value_list (s_value s) of None \<Rightarrow> Config_List [] 0 | Some l \<Rightarrow> l) = children s"
  using assms list_room_empty
  by (auto simp: wf_setting_iff [of s] wf_value_iff [of "s_value s"] shape_ok_def children_def split: option.splits)

text \<open>Making a child, for any aggregate.\<close>

lemma create_ok:
  assumes "wf_setting s" "is_aggregate s"
    and names: "if is_group s then names_ok (children s @ [Setting nm 0 (zero_value t) 0 0 None]) else nm = None"
  shows "\<exists>s'. config_setting_create s nm t = Ptr s' \<and> wf_setting s'
    \<and> config_setting_type s' = config_setting_type s
    \<and> children s' = children s @ [Setting nm 0 (zero_value t) 0 0 None]"
proof -
  let ?x = "Setting nm 0 (zero_value t) 0 0 None"
  obtain l where l: "(case value_list (s_value s) of None \<Rightarrow> Config_List [] 0 | Some l \<Rightarrow> l) = l" by simp
  have room: "list_room l" "elements l = children s" using aggregate_room [OF assms(1)] l by simp_all
  obtain c where c: "config_list_add l ?x = Ptr (Config_List (children s @ [?x]) c)"
      "list_room (Config_List (children s @ [?x]) c)"
    using list_add_room [OF room(1), of ?x] room(2) by auto
  let ?s' = "set_value (with_list (Config_List (children s @ [?x]) c) (s_value s)) s"
  have "wf_setting ?s'"
    using assms c(2) wf_children [OF assms(1,2)]
    by (intro wf_with_list) (auto simp: is_group_def wf_setting_iff [of "Setting _ _ _ _ _ _"] split: if_splits)
  moreover have "config_setting_create s nm t = Ptr ?s'"
    using assms(2) c(1) l by (simp add: config_setting_create_def Let_def)
  moreover have "config_setting_type ?s' = config_setting_type s" by (simp add: config_setting_type_def)
  ultimately show ?thesis using children_with_list [OF assms(2)] by auto
qed

lemma names_ok_snoc:
  assumes "names_ok xs" "config_validate_name n" "map_of (map (\<lambda>e. (the (s_name e), e)) xs) n = None"
  shows "names_ok (xs @ [new_setting n t])"
proof -
  have "Some n \<notin> s_name ` set xs"
    using assms(3) group_names_image [OF assms(1), of n] by (simp add: map_of_eq_None_iff image_image)
  then show ?thesis using assms(1,2) by (auto simp: names_ok_def new_setting_def)
qed

lemma add_member:
  assumes wf: "wf_setting s" "is_group s" and n: "config_validate_name n" and t: "type_ok t"
  shows "if group_map s n = None
    then \<exists>s'. config_setting_add s (Some n) t = Ptr s' \<and> wf_setting s' \<and> is_group s'
      \<and> children s' = children s @ [new_setting n t] \<and> group_map s' = (group_map s)(n \<mapsto> new_setting n t)
    else config_setting_add s (Some n) t = Null"
proof (cases "group_map s n = None")
  case True
  then have free: "config_setting_get_member s n = None" using get_member_none [OF wf, of n] n by simp
  have "names_ok (children s @ [new_setting n t])"
    using names_ok_snoc [OF wf_group_names [OF wf] n] True by (simp add: group_map_def)
  then obtain s' where c: "config_setting_create s (Some n) t = Ptr s'" "wf_setting s'"
      "config_setting_type s' = config_setting_type s" "children s' = children s @ [new_setting n t]"
    using create_ok [OF wf(1) is_group_aggregate [OF wf(2)], of "Some n" t] wf(2) by (auto simp: new_setting_def)
  have "n \<notin> fst ` set (map (\<lambda>e. (the (s_name e), e)) (children s))"
    using True by (simp add: group_map_def map_of_eq_None_iff)
  from map_of_snoc [OF this, of "new_setting n t"]
  have "group_map s' = (group_map s)(n \<mapsto> new_setting n t)"
    using c(4) by (simp add: group_map_def) (simp add: new_setting_def)
  then show ?thesis
    using c free True n t wf(2) by (auto simp: config_setting_add_def type_ok_def is_group_def config_types)
next
  case False
  then have "config_setting_get_member s n \<noteq> None" using get_member_none [OF wf, of n] n by simp
  then show ?thesis
    using False n t wf(2) by (auto simp: config_setting_add_def type_ok_def is_group_def config_types)
qed

lemma names_ok_remove: "names_ok (xs @ x # ys) \<Longrightarrow> names_ok (xs @ ys)"
  by (auto simp: names_ok_def)

lemma map_of_remove:
  assumes "names_ok (xs @ x # ys)"
  shows "map_of (map (\<lambda>e. (the (s_name e), e)) (xs @ ys))
    = (map_of (map (\<lambda>e. (the (s_name e), e)) (xs @ x # ys)))(the (s_name x) := None)"
proof -
  have named: "\<exists>k. s_name y = Some k" if "y \<in> set (xs @ x # ys)" for y
    using assms that unfolding names_ok_def by blast
  have "s_name y \<noteq> s_name x" if "y \<in> set xs \<union> set ys" for y
    using assms that by (auto simp: names_ok_def image_iff)
  then have "the (s_name y) \<noteq> the (s_name x)" if "y \<in> set xs \<union> set ys" for y
    using named [of y] named [of x] that by auto
  then have "map_of (map (\<lambda>e. (the (s_name e), e)) xs) (the (s_name x)) = None"
    "map_of (map (\<lambda>e. (the (s_name e), e)) ys) (the (s_name x)) = None"
    by (force simp: map_of_eq_None_iff)+
  then show ?thesis by (auto simp: fun_eq_iff map_add_def split: option.split)
qed

lemma removed_children:
  "i < length (children s) \<Longrightarrow> value_list (s_value s) = Some l \<Longrightarrow>
     elements (config_list_remove l i) = take i (children s) @ drop (Suc i) (children s)"
  by (simp add: config_list_remove_def children_def)

lemma wf_remove:
  assumes wf: "wf_setting s" "is_aggregate s" and l: "value_list (s_value s) = Some l" and i: "i < length (children s)"
  shows "wf_setting (set_value (with_list (config_list_remove l i) (s_value s)) s)"
proof -
  have split: "children s = take i (children s) @ children s ! i # drop (Suc i) (children s)"
    using i by (rule id_take_nth_drop)
  have es: "elements (config_list_remove l i) = take i (children s) @ drop (Suc i) (children s)"
    using removed_children [OF i l] .
  have sub: "set (elements (config_list_remove l i)) \<subseteq> set (children s)"
    unfolding es using set_take_subset set_drop_subset by fastforce
  have "list_room (config_list_remove l i)"
    using aggregate_room [OF wf(1)] l by (intro list_remove_room) simp
  moreover have "names_ok (elements (config_list_remove l i))" if "config_setting_type s = CONFIG_TYPE_GROUP"
    using wf_children(2) [OF wf] that
      names_ok_remove [of "take i (children s)" "children s ! i" "drop (Suc i) (children s)"]
    unfolding es split [symmetric] by simp
  ultimately show ?thesis
    using wf_children [OF wf] sub wf(2) by (intro wf_with_list) (auto split: if_splits)
qed

lemma remove_member:
  assumes wf: "wf_setting s" "is_group s"
  shows "case group_map s (seg n) of
      None \<Rightarrow> config_setting_remove s n = None
    | Some e \<Rightarrow> \<exists>s'. config_setting_remove s n = Some (s', config_setting_destroy e) \<and> wf_setting s' \<and> is_group s'
        \<and> group_map s' = (group_map s)(seg n := None)"
proof (cases "config_setting_get_member s n")
  case None
  then have "group_map s (seg n) = None" using get_member_none [OF wf] by blast
  then show ?thesis using None wf(2)
    by (auto simp: config_setting_remove_def config_setting_get_member_def is_group_def split: option.split)
next
  case (Some i)
  then obtain l where l: "value_list (s_value s) = Some l" "config_list_search (Some l) n = Some i"
    using wf(2) by (cases "value_list (s_value s)")
      (auto simp: config_setting_get_member_def is_group_def config_list_search_def split: if_splits)
  have i: "i < length (children s)" using lookup_member_map(2) [OF wf Some] .
  let ?s' = "set_value (with_list (config_list_remove l i) (s_value s)) s"
  have e: "group_map s (seg n) = Some (children s ! i)"
    using lookup_member_map(1) [OF wf, of n] Some by (simp add: lookup_member_def)
  have split: "children s = take i (children s) @ children s ! i # drop (Suc i) (children s)"
    using i by (rule id_take_nth_drop)
  have nm: "the (s_name (children s ! i)) = seg n"
    using map_of_SomeD [OF e [unfolded group_map_def]] by auto
  have "names_ok (take i (children s) @ children s ! i # drop (Suc i) (children s))"
    using wf_group_names [OF wf] by (simp only: split [symmetric])
  from map_of_remove [OF this] have "group_map ?s' = (group_map s)(seg n := None)"
    unfolding group_map_def nm split [symmetric]
    using children_with_list [of s] removed_children [OF i l(1)] wf(2) by simp
  moreover have "is_group ?s'" using wf(2) by (simp add: is_group_def config_setting_type_def)
  ultimately show ?thesis
    using e l wf(2) wf_remove [OF wf(1) _ l(1) i] by (simp add: config_setting_remove_def is_group_def is_aggregate_def children_def)
qed

section \<open>Interface: a store of named entries\<close>

text \<open>
  What a reader or writer of a group relies on: \<open>put\<close> adds an entry under a name that is
  free and refuses one that is taken, \<open>del\<close> removes the entry of a name, and no operation
  touches another name.
\<close>

locale named_store =
  fixes ok :: "'s \<Rightarrow> bool" and find :: "'s \<Rightarrow> string \<Rightarrow> 'e option" and put :: "'s \<Rightarrow> string \<Rightarrow> 't \<Rightarrow> 's option"
    and del :: "'s \<Rightarrow> string \<Rightarrow> 's option" and fresh :: "string \<Rightarrow> 't \<Rightarrow> 'e"
    and good :: "string \<Rightarrow> bool" and good_type :: "'t \<Rightarrow> bool"
  assumes put_new: "ok s \<Longrightarrow> good n \<Longrightarrow> good_type t \<Longrightarrow> find s n = None \<Longrightarrow>
      \<exists>s'. put s n t = Some s' \<and> ok s' \<and> (\<forall>m. good m \<longrightarrow> find s' m = (if m = n then Some (fresh n t) else find s m))"
    and put_taken: "ok s \<Longrightarrow> good n \<Longrightarrow> good_type t \<Longrightarrow> find s n \<noteq> None \<Longrightarrow> put s n t = None"
    and del_present: "ok s \<Longrightarrow> good n \<Longrightarrow> find s n \<noteq> None \<Longrightarrow>
      \<exists>s'. del s n = Some s' \<and> ok s' \<and> (\<forall>m. good m \<longrightarrow> find s' m = (if m = n then None else find s m))"
    and del_absent: "ok s \<Longrightarrow> good n \<Longrightarrow> find s n = None \<Longrightarrow> del s n = None"
begin

lemma put_then_del:
  assumes "ok s" "good n" "good_type t" "find s n = None"
  shows "\<exists>s1 s2. put s n t = Some s1 \<and> del s1 n = Some s2 \<and> ok s2 \<and> (\<forall>m. good m \<longrightarrow> find s2 m = find s m)"
proof -
  obtain s1 where s1: "put s n t = Some s1" "ok s1" "\<forall>m. good m \<longrightarrow> find s1 m = (if m = n then Some (fresh n t) else find s m)"
    using put_new [OF assms] by blast
  then have "find s1 n \<noteq> None" using assms(2) by simp
  then obtain s2 where "del s1 n = Some s2" "ok s2" "\<forall>m. good m \<longrightarrow> find s2 m = (if m = n then None else find s1 m)"
    using del_present [OF s1(2) assms(2)] by blast
  then show ?thesis using s1 assms(4) by auto
qed

text \<open>Entering a list of names one after the other, giving up at the first refusal.\<close>

lemma put_all:
  assumes "ok s" "\<forall>(n, t) \<in> set kvs. good n \<and> good_type t \<and> find s n = None"
  shows "if distinct (map fst kvs)
    then \<exists>s'. foldl (\<lambda>r (n, t). Option.bind r (\<lambda>s. put s n t)) (Some s) kvs = Some s' \<and> ok s'
      \<and> (\<forall>m. good m \<longrightarrow> find s' m = (case map_of kvs m of None \<Rightarrow> find s m | Some t \<Rightarrow> Some (fresh m t)))
    else foldl (\<lambda>r (n, t). Option.bind r (\<lambda>s. put s n t)) (Some s) kvs = None"
  using assms(2)
proof (induction kvs rule: rev_induct)
  case Nil
  then show ?case using assms(1) by simp
next
  case (snoc x kvs)
  obtain n t where x: "x = (n, t)" by (cases x)
  then have nt: "good n" "good_type t" "find s n = None" using snoc.prems by auto
  show ?case
  proof (cases "distinct (map fst kvs)")
    case True
    then obtain s' where s': "foldl (\<lambda>r (n, t). Option.bind r (\<lambda>s. put s n t)) (Some s) kvs = Some s'" "ok s'"
        "\<forall>m. good m \<longrightarrow> find s' m = (case map_of kvs m of None \<Rightarrow> find s m | Some t \<Rightarrow> Some (fresh m t))"
      using snoc by auto
    show ?thesis
    proof (cases "n \<in> fst ` set kvs")
      case True
      then obtain t' where "map_of kvs n = Some t'" by (metis map_of_eq_None_iff option.exhaust)
      then have "find s' n \<noteq> None" using s'(3) nt(1) by simp
      then show ?thesis using True s'(1) put_taken [OF s'(2) nt(1,2)] x by simp
    next
      case no: False
      then have "map_of kvs n = None" by (simp add: map_of_eq_None_iff)
      then have "find s' n = None" using s'(3) nt(1,3) by simp
      then obtain s'' where s'': "put s' n t = Some s''" "ok s''"
          "\<forall>m. good m \<longrightarrow> find s'' m = (if m = n then Some (fresh n t) else find s' m)"
        using put_new [OF s'(2) nt(1,2)] by blast
      have "map_of (kvs @ [x]) = (map_of kvs)(n \<mapsto> t)" using no map_of_snoc x by simp
      then show ?thesis using True no s'(1,3) s'' x by simp
    qed
  next
    case False
    then show ?thesis using snoc x by simp
  qed
qed

end

text \<open>The pointers of the C interface as options.\<close>

definition put_member :: "config_setting \<Rightarrow> string \<Rightarrow> int \<Rightarrow> config_setting option" where
  "put_member s n t = (case config_setting_add s (Some n) t of Ptr s' \<Rightarrow> Some s' | _ \<Rightarrow> None)"

definition del_member :: "config_setting \<Rightarrow> string \<Rightarrow> config_setting option" where
  "del_member s n = map_option fst (config_setting_remove s n)"

interpretation group: named_store "\<lambda>s. wf_setting s \<and> is_group s" lookup_member put_member del_member
    new_setting config_validate_name type_ok
proof
  fix s n t assume a: "wf_setting s \<and> is_group s" "config_validate_name n"
  then have l: "lookup_member s m = group_map s (seg m)" for m using lookup_member_map by simp
  show "\<exists>s'. put_member s n t = Some s' \<and> (wf_setting s' \<and> is_group s') \<and> (\<forall>m. config_validate_name m \<longrightarrow>
      lookup_member s' m = (if m = n then Some (new_setting n t) else lookup_member s m))"
    if "type_ok t" "lookup_member s n = None"
    using add_member [of s n t] a that lookup_member_map(1) by (auto simp: put_member_def l)
  show "put_member s n t = None" if "type_ok t" "lookup_member s n \<noteq> None"
    using add_member [of s n t] a that by (auto simp: put_member_def l)
  show "\<exists>s'. del_member s n = Some s' \<and> (wf_setting s' \<and> is_group s') \<and> (\<forall>m. config_validate_name m \<longrightarrow>
      lookup_member s' m = (if m = n then None else lookup_member s m))"
    if "lookup_member s n \<noteq> None"
    using remove_member [of s n] a that lookup_member_map(1) by (auto simp: del_member_def l split: option.splits)
  show "del_member s n = None" if "lookup_member s n = None"
    using remove_member [of s n] a that by (auto simp: del_member_def l)
qed

section \<open>The claims\<close>

text \<open>
  C24. Adding and removing children keeps the settings tree well formed: child lists never
  hold more pointers than the block behind them, which is a whole number of chunks, the
  members of a group have valid and distinct names, and the elements of arrays and lists have
  none. Adding never writes past the block, and the only undefined call is one that adds a
  member without a name to a group.
\<close>

theorem tree_operations_keep_shape:
  assumes "wf_setting s" "is_group s \<longrightarrow> nm \<noteq> None"
  shows "(case config_setting_add s nm t of Ptr s' \<Rightarrow> wf_setting s' | Null \<Rightarrow> True | Undefined \<Rightarrow> False)
    \<and> (case config_setting_remove s n of None \<Rightarrow> True | Some (s', _) \<Rightarrow> wf_setting s')
    \<and> (case config_setting_remove_elem s i of None \<Rightarrow> True | Some (s', _) \<Rightarrow> wf_setting s')"
proof (intro conjI)
  show "case config_setting_add s nm t of Ptr s' \<Rightarrow> wf_setting s' | Null \<Rightarrow> True | Undefined \<Rightarrow> False"
  proof (cases "is_group s \<and> type_ok t")
    case True
    then obtain n where "nm = Some n" using assms(2) by auto
    then show ?thesis
      using add_member [of s n t] assms True
      by (cases "config_validate_name n") (auto simp: config_setting_add_def is_group_def config_types split: if_splits)
  next
    case False
    then consider "\<not> type_ok t" | "\<not> is_group s" "is_aggregate s" "type_ok t" | "\<not> is_aggregate s" by blast
    then show ?thesis
    proof cases
      case 1
      then have "config_setting_add s nm t = Null" by (auto simp: config_setting_add_def type_ok_def)
      then show ?thesis by simp
    next
      case 2
      then have "config_setting_add s nm t = config_setting_create s None t"
        by (simp add: config_setting_add_def type_ok_def is_group_def is_aggregate_def not_le)
      then show ?thesis using create_ok [OF assms(1) 2(2), of None t] 2(1) by auto
    next
      case 3
      then have "config_setting_add s nm t = Null"
        by (simp add: config_setting_add_def config_setting_create_def is_aggregate_def split: option.split)
      then show ?thesis by simp
    qed
  qed
  show "case config_setting_remove s n of None \<Rightarrow> True | Some (s', _) \<Rightarrow> wf_setting s'"
    using remove_member [OF assms(1), of n]
    by (cases "is_group s") (auto simp: config_setting_remove_def is_group_def split: option.splits)
  show "case config_setting_remove_elem s i of None \<Rightarrow> True | Some (s', _) \<Rightarrow> wf_setting s'"
    using wf_remove [OF assms(1), of _ i]
    by (auto simp: config_setting_remove_elem_def children_def not_le split: option.splits)
qed

theorem tree_operations_keep_shape_witness:
  "case config_setting_add (Setting None 0 (V_Group None) 0 0 None) (Some ''poll_wait'') CONFIG_TYPE_INT of
     Ptr s' \<Rightarrow> wf_setting s' | Null \<Rightarrow> True | Undefined \<Rightarrow> False"
proof -
  have "wf_setting (Setting None 0 (V_Group None) 0 0 None)" by simp
  from tree_operations_keep_shape [OF this, of "Some ''poll_wait''" CONFIG_TYPE_INT] show ?thesis by simp
qed

text \<open>
  C25. The members of a group are a finite map from names to settings. A lookup compares its
  argument up to the first path token; adding a valid name that is free extends the map with
  a zeroed setting of the given type, and adding one that is taken returns a null pointer;
  removing deletes the name and returns the setting under it to the destructor.
\<close>

theorem group_is_a_map:
  assumes "wf_setting s" "is_group s"
  shows "lookup_member s n = group_map s (seg n)
    \<and> (config_validate_name n \<and> type_ok t \<longrightarrow>
        (case group_map s n of
           None \<Rightarrow> \<exists>s'. config_setting_add s (Some n) t = Ptr s' \<and> group_map s' = (group_map s)(n \<mapsto> new_setting n t)
         | Some _ \<Rightarrow> config_setting_add s (Some n) t = Null))
    \<and> (case group_map s (seg n) of
         None \<Rightarrow> config_setting_remove s n = None
       | Some e \<Rightarrow> \<exists>s'. config_setting_remove s n = Some (s', config_setting_destroy e)
           \<and> group_map s' = (group_map s)(seg n := None))"
  using lookup_member_map(1) [OF assms] add_member [OF assms, of n t] remove_member [OF assms, of n]
  by (auto split: option.splits)

definition demo_group :: config_setting where
  "demo_group = Setting None 0 (V_Group (Some (Config_List [new_setting ''debug'' CONFIG_TYPE_BOOL] 16))) 0 0 None"

lemma demo_group_ok: "wf_setting demo_group" "is_group demo_group"
proof -
  have "config_validate_name ''debug''" by code_simp
  then show "wf_setting demo_group"
    by (simp add: demo_group_def shape_ok_def list_room_def CHUNK_SIZE_def names_ok_def new_setting_def zero_value_def
        config_types)
  show "is_group demo_group" by (simp add: is_group_def demo_group_def config_setting_type_def)
qed

theorem group_is_a_map_witness:
  "lookup_member demo_group ''debug.level'' = Some (new_setting ''debug'' CONFIG_TYPE_BOOL)
   \<and> config_setting_add demo_group (Some ''debug'') CONFIG_TYPE_INT = Null"
proof -
  have g: "group_map demo_group = [''debug'' \<mapsto> new_setting ''debug'' CONFIG_TYPE_BOOL]"
    by (simp add: group_map_def children_def demo_group_def new_setting_def)
  have "seg ''debug.level'' = ''debug''" "config_validate_name ''debug''" "type_ok CONFIG_TYPE_INT" by code_simp+
  then show ?thesis
    using group_is_a_map [OF demo_group_ok, of "''debug.level''"]
      group_is_a_map [OF demo_group_ok, of "''debug''" CONFIG_TYPE_INT] g by simp
qed

text \<open>
  C26. Filling a group: adding members one after the other to a well-formed group that has
  none of their names succeeds exactly when the names are distinct, and then every name is
  found with its type and every other name as before.
\<close>

theorem group_fill:
  assumes "wf_setting s" "is_group s"
    and "\<forall>(n, t) \<in> set kvs. config_validate_name n \<and> type_ok t \<and> lookup_member s n = None"
  shows "if distinct (map fst kvs)
    then \<exists>s'. foldl (\<lambda>r (n, t). Option.bind r (\<lambda>s. put_member s n t)) (Some s) kvs = Some s'
      \<and> (wf_setting s' \<and> is_group s')
      \<and> (\<forall>m. config_validate_name m \<longrightarrow> lookup_member s' m =
           (case map_of kvs m of None \<Rightarrow> lookup_member s m | Some t \<Rightarrow> Some (new_setting m t)))
    else foldl (\<lambda>r (n, t). Option.bind r (\<lambda>s. put_member s n t)) (Some s) kvs = None"
  using assms by (intro group.put_all) simp_all

theorem group_fill_witness:
  "foldl (\<lambda>r (n, t). Option.bind r (\<lambda>s. put_member s n t)) (Some demo_group)
     [(''server_port'', CONFIG_TYPE_INT), (''server_port'', CONFIG_TYPE_STRING)] = None"
proof -
  have g: "group_map demo_group = [''debug'' \<mapsto> new_setting ''debug'' CONFIG_TYPE_BOOL]"
    by (simp add: group_map_def children_def demo_group_def new_setting_def)
  have n: "seg ''server_port'' = ''server_port''" "config_validate_name ''server_port''"
      "type_ok CONFIG_TYPE_INT" "type_ok CONFIG_TYPE_STRING" by code_simp+
  have "lookup_member demo_group ''server_port'' = None"
    using lookup_member_map(1) [OF demo_group_ok, of "''server_port''"] n(1) g by simp
  then have "\<forall>(n, t) \<in> set [(''server_port'', CONFIG_TYPE_INT), (''server_port'', CONFIG_TYPE_STRING)].
      config_validate_name n \<and> type_ok t \<and> lookup_member demo_group n = None"
    using n by simp
  from group_fill [OF demo_group_ok this] show ?thesis by simp
qed

lemma destroy_aggregate:
  "is_aggregate s \<Longrightarrow> config_setting_destroy s
     = concat (map config_setting_destroy (children s)) @ (if s_hook s \<noteq> 0 then [s_hook s] else [])"
  by (cases s; cases "s_value s"; cases "value_list (s_value s)"; cases "the (value_list (s_value s))")
    (auto simp: is_aggregate_def config_setting_type_def children_def config_types)

lemma concat_map_remove:
  assumes "i < length xs"
  shows "mset (concat (map f xs)) = mset (f (xs ! i)) + mset (concat (map f (take i xs @ drop (Suc i) xs)))"
proof -
  have "mset (concat (map f xs)) = mset (concat (map f (take i xs @ xs ! i # drop (Suc i) xs)))"
    using id_take_nth_drop [OF assms] by simp
  then show ?thesis by simp
qed

lemma remove_elem_parts:
  assumes "config_setting_remove_elem s i = Some (s', destroyed)"
  shows "i < length (children s)" "children s' = take i (children s) @ drop (Suc i) (children s)"
    "destroyed = config_setting_destroy (children s ! i)" "is_aggregate s" "is_aggregate s'" "s_hook s' = s_hook s"
    "s_name s' = s_name s" "config_setting_type s' = config_setting_type s" "wf_setting s \<Longrightarrow> wf_setting s'"
proof -
  obtain l where l: "value_list (s_value s) = Some l" "is_aggregate s" "i < length (elements l)"
      "s' = set_value (with_list (config_list_remove l i) (s_value s)) s"
      "destroyed = config_setting_destroy (elements l ! i)"
    using assms by (auto simp: config_setting_remove_elem_def not_le split: option.splits if_splits)
  then show "children s' = take i (children s) @ drop (Suc i) (children s)"
    using children_with_list [of s] by (simp add: children_def config_list_remove_def)
  show "i < length (children s)" "destroyed = config_setting_destroy (children s ! i)" "is_aggregate s"
    using l by (simp_all add: children_def)
  show "is_aggregate s'" "config_setting_type s' = config_setting_type s"
    using l(2,4) by (simp_all add: is_aggregate_def config_setting_type_def)
  show "s_hook s' = s_hook s" "s_name s' = s_name s" using l(4) by (cases s; simp)+
  show "wf_setting s'" if "wf_setting s"
    using wf_remove [OF that, of _ i] l by (auto simp: children_def)
qed

lemma search_from_range: "search_from i xs n = Some k \<Longrightarrow> i \<le> k \<and> k < i + length xs"
  by (induction i xs n rule: search_from.induct) (auto split: option.splits if_splits)

lemma remove_is_remove_elem:
  assumes "config_setting_remove s n = Some r"
  obtains i where "config_setting_remove_elem s i = Some r"
proof -
  obtain l i where l: "config_setting_type s = CONFIG_TYPE_GROUP" "value_list (s_value s) = Some l"
      "config_list_search (Some l) n = Some i"
      "r = (set_value (with_list (config_list_remove l i) (s_value s)) s, config_setting_destroy (elements l ! i))"
    using assms by (auto simp: config_setting_remove_def split: option.splits if_splits)
  have "i < length (elements l)" using l(3) search_from_range [of 0 "elements l" n i] by (simp add: config_list_search_def)
  then have "config_setting_remove_elem s i = Some r"
    using l by (simp add: config_setting_remove_elem_def is_aggregate_def not_le)
  then show thesis by (rule that)
qed

lemma remove_elem_hooks:
  assumes "config_setting_remove_elem s i = Some (s', destroyed)"
  shows "mset (config_setting_destroy s) = mset destroyed + mset (config_setting_destroy s')"
  using concat_map_remove [of i "children s" config_setting_destroy] remove_elem_parts [OF assms]
  by (simp add: destroy_aggregate [of s] destroy_aggregate [of s'])



end
