(* ===== verification/Config_Values.thy ===== *)
theory Config_Values
  imports Config_Store
begin

text \<open>
  Reading and writing the values of settings in \<^verbatim>\<open>libconfig.c\<close>: the typed getters
  and setters with their automatic conversions, the element functions of arrays and lists, and
  the output format. The functions that start with two underscores in the source have the
  suffix \<open>_p\<close> here.
\<close>

unbundle bit_operations_syntax

section \<open>The configuration\<close>

datatype config_error = CONFIG_ERR_NONE | CONFIG_ERR_FILE_IO | CONFIG_ERR_PARSE

record config =
  root :: config_setting
  options :: int
  tab_width :: nat
  default_format :: int
  include_dir :: "string option"
  error_text :: "string option"
  error_file :: "string option"
  error_line :: int
  error_type :: config_error
  filenames :: "string list"

definition CONFIG_OPTION_AUTOCONVERT :: int where
  "CONFIG_OPTION_AUTOCONVERT = 0x01"

definition CONFIG_OPTION_SEMICOLON_SEPARATORS :: int where
  "CONFIG_OPTION_SEMICOLON_SEPARATORS = 0x02"

definition CONFIG_OPTION_COLON_ASSIGNMENT_FOR_GROUPS :: int where
  "CONFIG_OPTION_COLON_ASSIGNMENT_FOR_GROUPS = 0x04"

definition CONFIG_OPTION_COLON_ASSIGNMENT_FOR_NON_GROUPS :: int where
  "CONFIG_OPTION_COLON_ASSIGNMENT_FOR_NON_GROUPS = 0x08"

definition CONFIG_OPTION_OPEN_BRACE_ON_SEPARATE_LINE :: int where
  "CONFIG_OPTION_OPEN_BRACE_ON_SEPARATE_LINE = 0x10"

lemmas config_options = CONFIG_OPTION_AUTOCONVERT_def CONFIG_OPTION_SEMICOLON_SEPARATORS_def
  CONFIG_OPTION_COLON_ASSIGNMENT_FOR_GROUPS_def CONFIG_OPTION_COLON_ASSIGNMENT_FOR_NON_GROUPS_def
  CONFIG_OPTION_OPEN_BRACE_ON_SEPARATE_LINE_def

definition config_init :: config where
  "config_init = \<lparr>root = Setting None 0 (V_Group None) 0 0 None,
     options = CONFIG_OPTION_SEMICOLON_SEPARATORS OR CONFIG_OPTION_COLON_ASSIGNMENT_FOR_GROUPS
       OR CONFIG_OPTION_OPEN_BRACE_ON_SEPARATE_LINE,
     tab_width = 2, default_format = 0, include_dir = None, error_text = None, error_file = None,
     error_line = 0, error_type = CONFIG_ERR_NONE, filenames = []\<rparr>"

definition config_has_option :: "config \<Rightarrow> int \<Rightarrow> bool" where
  "config_has_option c opt \<longleftrightarrow> options c AND opt \<noteq> 0"

definition config_set_auto_convert :: "config \<Rightarrow> bool \<Rightarrow> config" where
  "config_set_auto_convert c flag =
     (if flag then c\<lparr>options := options c OR CONFIG_OPTION_AUTOCONVERT\<rparr>
      else c\<lparr>options := options c AND NOT CONFIG_OPTION_AUTOCONVERT\<rparr>)"

definition config_get_auto_convert :: "config \<Rightarrow> bool" where
  "config_get_auto_convert c = config_has_option c CONFIG_OPTION_AUTOCONVERT"

definition config_set_options :: "config \<Rightarrow> int \<Rightarrow> config" where
  "config_set_options c opts = c\<lparr>options := opts\<rparr>"

definition config_get_options :: "config \<Rightarrow> int" where
  "config_get_options c = options c"

definition config_set_include_dir :: "config \<Rightarrow> string \<Rightarrow> config" where
  "config_set_include_dir c dir = c\<lparr>include_dir := Some dir\<rparr>"

definition config_setting_set_hook :: "config_setting \<Rightarrow> nat \<Rightarrow> config_setting" where
  "config_setting_set_hook s hook = (case s of Setting n f v _ l file \<Rightarrow> Setting n f v hook l file)"

section \<open>Conversions\<close>

definition INT32_MIN :: int where "INT32_MIN = - (2 ^ 31)"
definition INT32_MAX :: int where "INT32_MAX = 2 ^ 31 - 1"

text \<open>
  The conversion of a double to an integer type with \<open>w\<close> bits is undefined when the truncated
  value does not fit.
\<close>

definition int_of_dbl :: "nat \<Rightarrow> dbl \<Rightarrow> int option" where
  "int_of_dbl w d = (let i = dtrunc d in if - (2 ^ (w - 1)) \<le> i \<and> i < 2 ^ (w - 1) then Some i else None)"

text \<open>The conversion of an integer to \<^verbatim>\<open>float\<close>, which has 24 significant bits.\<close>

definition float_of_int :: "int \<Rightarrow> dbl" where
  "float_of_int i = (let n = sig_bits i in
     if n \<le> 24 then Dbl i 0 else Dbl (rne_shift (n - 24) i) (int (n - 24)))"

section \<open>Getters\<close>

text \<open>
  The outcome of a getter: a value and \<^verbatim>\<open>CONFIG_TRUE\<close>, or \<^verbatim>\<open>CONFIG_FALSE\<close>
  with the target as it was, or an undefined conversion.
\<close>

datatype 'a got = Got 'a | Not_Got | Got_Undefined

fun got_option :: "'a option \<Rightarrow> 'a got" where
  "got_option None = Got_Undefined"
| "got_option (Some x) = Got x"

definition config_setting_get_int_p :: "config \<Rightarrow> config_setting \<Rightarrow> int got" where
  "config_setting_get_int_p c setting =
     (case s_value setting of
        V_Int i \<Rightarrow> Got i
      | V_Int64 i \<Rightarrow> if i > INT32_MAX \<or> i < INT32_MIN then Got 0 else Got i
      | V_Float d \<Rightarrow> if config_has_option c CONFIG_OPTION_AUTOCONVERT then got_option (int_of_dbl 32 d) else Not_Got
      | _ \<Rightarrow> Not_Got)"

definition config_setting_get_int64_p :: "config \<Rightarrow> config_setting \<Rightarrow> int got" where
  "config_setting_get_int64_p c setting =
     (case s_value setting of
        V_Int64 i \<Rightarrow> Got i
      | V_Int i \<Rightarrow> Got i
      | V_Float d \<Rightarrow> if config_has_option c CONFIG_OPTION_AUTOCONVERT then got_option (int_of_dbl 64 d) else Not_Got
      | _ \<Rightarrow> Not_Got)"

definition config_setting_get_float_p :: "config \<Rightarrow> config_setting \<Rightarrow> dbl got" where
  "config_setting_get_float_p c setting =
     (case s_value setting of
        V_Float d \<Rightarrow> Got d
      | V_Int i \<Rightarrow> if config_get_auto_convert c then Got (dbl_of_int i) else Not_Got
      | V_Int64 i \<Rightarrow> if config_get_auto_convert c then Got (dbl_of_int i) else Not_Got
      | _ \<Rightarrow> Not_Got)"

text \<open>The public getters start from a default.\<close>

fun got_or :: "'a \<Rightarrow> 'a got \<Rightarrow> 'a option" where
  "got_or d (Got x) = Some x"
| "got_or d Not_Got = Some d"
| "got_or d Got_Undefined = None"

definition config_setting_get_int :: "config \<Rightarrow> config_setting \<Rightarrow> int option" where
  "config_setting_get_int c s = got_or 0 (config_setting_get_int_p c s)"

definition config_setting_get_int64 :: "config \<Rightarrow> config_setting \<Rightarrow> int option" where
  "config_setting_get_int64 c s = got_or 0 (config_setting_get_int64_p c s)"

definition config_setting_get_float :: "config \<Rightarrow> config_setting \<Rightarrow> dbl option" where
  "config_setting_get_float c s = got_or (Dbl 0 0) (config_setting_get_float_p c s)"

definition config_setting_get_bool :: "config_setting \<Rightarrow> int" where
  "config_setting_get_bool s = (case s_value s of V_Bool i \<Rightarrow> i | _ \<Rightarrow> 0)"

definition config_setting_get_string :: "config_setting \<Rightarrow> string option" where
  "config_setting_get_string s = (case s_value s of V_String str \<Rightarrow> str | _ \<Rightarrow> None)"

section \<open>Setters\<close>

text \<open>The result is the changed setting, or none for \<^verbatim>\<open>CONFIG_FALSE\<close>.\<close>

definition config_setting_set_int :: "config \<Rightarrow> config_setting \<Rightarrow> int \<Rightarrow> config_setting option" where
  "config_setting_set_int c s value =
     (case s_value s of
        V_None \<Rightarrow> Some (set_value (V_Int value) s)
      | V_Int _ \<Rightarrow> Some (set_value (V_Int value) s)
      | V_Float _ \<Rightarrow> if config_get_auto_convert c then Some (set_value (V_Float (float_of_int value)) s) else None
      | _ \<Rightarrow> None)"

definition config_setting_set_int64 :: "config \<Rightarrow> config_setting \<Rightarrow> int \<Rightarrow> config_setting option" where
  "config_setting_set_int64 c s value =
     (case s_value s of
        V_None \<Rightarrow> Some (set_value (V_Int64 value) s)
      | V_Int64 _ \<Rightarrow> Some (set_value (V_Int64 value) s)
      | V_Int _ \<Rightarrow> Some (set_value (V_Int (if value > INT32_MAX \<or> value < INT32_MIN then 0 else value)) s)
      | V_Float _ \<Rightarrow> if config_get_auto_convert c then Some (set_value (V_Float (float_of_int value)) s) else None
      | _ \<Rightarrow> None)"

definition config_setting_set_float :: "config \<Rightarrow> config_setting \<Rightarrow> dbl \<Rightarrow> config_setting c_result" where
  "config_setting_set_float c s value =
     (let conv = (\<lambda>w mk. if config_has_option c CONFIG_OPTION_AUTOCONVERT
            then (case int_of_dbl w value of None \<Rightarrow> Undefined | Some i \<Rightarrow> Ptr (set_value (mk i) s)) else Null)
      in case s_value s of
           V_None \<Rightarrow> Ptr (set_value (V_Float value) s)
         | V_Float _ \<Rightarrow> Ptr (set_value (V_Float value) s)
         | V_Int _ \<Rightarrow> conv 32 V_Int
         | V_Int64 _ \<Rightarrow> conv 64 V_Int64
         | _ \<Rightarrow> Null)"

definition config_setting_set_bool :: "config_setting \<Rightarrow> int \<Rightarrow> config_setting option" where
  "config_setting_set_bool s value =
     (case s_value s of
        V_None \<Rightarrow> Some (set_value (V_Bool value) s)
      | V_Bool _ \<Rightarrow> Some (set_value (V_Bool value) s)
      | _ \<Rightarrow> None)"

definition config_setting_set_string :: "config_setting \<Rightarrow> string option \<Rightarrow> config_setting option" where
  "config_setting_set_string s value =
     (case s_value s of
        V_None \<Rightarrow> Some (set_value (V_String value) s)
      | V_String _ \<Rightarrow> Some (set_value (V_String value) s)
      | _ \<Rightarrow> None)"

definition CONFIG_FORMAT_DEFAULT :: int where "CONFIG_FORMAT_DEFAULT = 0"
definition CONFIG_FORMAT_HEX :: int where "CONFIG_FORMAT_HEX = 1"

definition config_setting_set_format :: "config_setting \<Rightarrow> int \<Rightarrow> config_setting option" where
  "config_setting_set_format s format =
     (if config_setting_type s \<noteq> CONFIG_TYPE_INT \<and> config_setting_type s \<noteq> CONFIG_TYPE_INT64
         \<or> format \<noteq> CONFIG_FORMAT_DEFAULT \<and> format \<noteq> CONFIG_FORMAT_HEX then None
      else Some (case s of Setting n _ v h l file \<Rightarrow> Setting n format v h l file))"

definition config_setting_get_format :: "config \<Rightarrow> config_setting \<Rightarrow> int" where
  "config_setting_get_format c s = (if s_format s \<noteq> 0 then s_format s else default_format c)"

section \<open>Elements of arrays and lists\<close>

text \<open>The index of the C interface is an \<^verbatim>\<open>int\<close> that becomes unsigned.\<close>

definition elem_at :: "config_setting \<Rightarrow> int \<Rightarrow> config_setting option" where
  "elem_at vector idx = map_option ((!) (children vector)) (config_setting_get_elem vector (nat (idx mod 2 ^ 32)))"

definition config_setting_get_int_elem :: "config \<Rightarrow> config_setting \<Rightarrow> int \<Rightarrow> int option" where
  "config_setting_get_int_elem c vector idx =
     (case elem_at vector idx of None \<Rightarrow> Some 0 | Some e \<Rightarrow> config_setting_get_int c e)"

definition config_setting_get_int64_elem :: "config \<Rightarrow> config_setting \<Rightarrow> int \<Rightarrow> int option" where
  "config_setting_get_int64_elem c vector idx =
     (case elem_at vector idx of None \<Rightarrow> Some 0 | Some e \<Rightarrow> config_setting_get_int64 c e)"

definition config_setting_get_float_elem :: "config \<Rightarrow> config_setting \<Rightarrow> int \<Rightarrow> dbl option" where
  "config_setting_get_float_elem c vector idx =
     (case elem_at vector idx of None \<Rightarrow> Some (Dbl 0 0) | Some e \<Rightarrow> config_setting_get_float c e)"

definition config_setting_get_bool_elem :: "config_setting \<Rightarrow> int \<Rightarrow> int" where
  "config_setting_get_bool_elem vector idx =
     (case elem_at vector idx of None \<Rightarrow> 0 | Some e \<Rightarrow> (case s_value e of V_Bool i \<Rightarrow> i | _ \<Rightarrow> 0))"

definition config_setting_get_string_elem :: "config_setting \<Rightarrow> int \<Rightarrow> string option" where
  "config_setting_get_string_elem vector idx =
     (case elem_at vector idx of None \<Rightarrow> None
      | Some e \<Rightarrow> (case s_value e of V_String str \<Rightarrow> str | _ \<Rightarrow> None))"

text \<open>A change of the child at a position.\<close>

definition put_child :: "nat \<Rightarrow> config_setting \<Rightarrow> config_setting \<Rightarrow> config_setting" where
  "put_child i e s =
     (case value_list (s_value s) of None \<Rightarrow> s
      | Some l \<Rightarrow> set_value (with_list (Config_List ((elements l)[i := e]) (capacity l)) (s_value s)) s)"

text \<open>
  The five element setters have one shape: a negative index appends a new element of the type
  of the function, any other selects an element, and then the setter runs on it. The result
  is the vector and the position of the element.
\<close>

definition set_elem :: "(config_setting \<Rightarrow> config_setting c_result) \<Rightarrow> int \<Rightarrow> config_setting \<Rightarrow> int
    \<Rightarrow> (config_setting \<times> nat) c_result" where
  "set_elem setter type vector idx =
     (if config_setting_type vector \<noteq> CONFIG_TYPE_ARRAY \<and> config_setting_type vector \<noteq> CONFIG_TYPE_LIST then Null
      else
        (case (if idx < 0
               then (if \<not> config_vector_checktype vector type then Null
                     else case config_setting_create vector None type of
                            Ptr v \<Rightarrow> Ptr (v, length (children v) - 1) | Null \<Rightarrow> Null | Undefined \<Rightarrow> Undefined)
               else (case config_setting_get_elem vector (nat (idx mod 2 ^ 32)) of
                       None \<Rightarrow> Null | Some i \<Rightarrow> Ptr (vector, i))) of
           Null \<Rightarrow> Null
         | Undefined \<Rightarrow> Undefined
         | Ptr (v, i) \<Rightarrow>
             (case setter (children v ! i) of
                Ptr e \<Rightarrow> Ptr (put_child i e v, i) | Null \<Rightarrow> Null | Undefined \<Rightarrow> Undefined)))"

fun ptr_option :: "'a option \<Rightarrow> 'a c_result" where
  "ptr_option None = Null"
| "ptr_option (Some x) = Ptr x"

definition config_setting_set_int_elem ::
    "config \<Rightarrow> config_setting \<Rightarrow> int \<Rightarrow> int \<Rightarrow> (config_setting \<times> nat) c_result" where
  "config_setting_set_int_elem c vector idx value =
     set_elem (\<lambda>e. ptr_option (config_setting_set_int c e value)) CONFIG_TYPE_INT vector idx"

definition config_setting_set_int64_elem ::
    "config \<Rightarrow> config_setting \<Rightarrow> int \<Rightarrow> int \<Rightarrow> (config_setting \<times> nat) c_result" where
  "config_setting_set_int64_elem c vector idx value =
     set_elem (\<lambda>e. ptr_option (config_setting_set_int64 c e value)) CONFIG_TYPE_INT64 vector idx"

definition config_setting_set_float_elem ::
    "config \<Rightarrow> config_setting \<Rightarrow> int \<Rightarrow> dbl \<Rightarrow> (config_setting \<times> nat) c_result" where
  "config_setting_set_float_elem c vector idx value =
     set_elem (\<lambda>e. config_setting_set_float c e value) CONFIG_TYPE_FLOAT vector idx"

definition config_setting_set_bool_elem ::
    "config_setting \<Rightarrow> int \<Rightarrow> int \<Rightarrow> (config_setting \<times> nat) c_result" where
  "config_setting_set_bool_elem vector idx value =
     set_elem (\<lambda>e. ptr_option (config_setting_set_bool e value)) CONFIG_TYPE_BOOL vector idx"

definition config_setting_set_string_elem ::
    "config_setting \<Rightarrow> int \<Rightarrow> string option \<Rightarrow> (config_setting \<times> nat) c_result" where
  "config_setting_set_string_elem vector idx value =
     set_elem (\<lambda>e. ptr_option (config_setting_set_string e value)) CONFIG_TYPE_STRING vector idx"

section \<open>Setting and getting\<close>

lemma float_of_int_exact: "\<bar>i\<bar> < 2 ^ 24 \<Longrightarrow> float_of_int i = Dbl i 0"
proof -
  assume i: "\<bar>i\<bar> < 2 ^ 24"
  then have "nat \<bar>i\<bar> < 2 ^ 24" by (simp add: nat_less_iff)
  then have "sig_bits i \<le> 24" unfolding sig_bits_def by (intro floorlog_leI) simp_all
  then show ?thesis by (simp add: float_of_int_def)
qed

lemma dtrunc_int [simp]: "dtrunc (Dbl i 0) = i"
  by (simp add: dtrunc_def)

lemma s_type_set_value [simp]: "config_setting_type (set_value v s) = value_type v"
  by (simp add: config_setting_type_def)


definition auto_config :: config where
  "auto_config = config_set_auto_convert config_init True"

lemma auto_config_on: "config_get_auto_convert auto_config"
  by code_simp


lemma sig_bits_25: "2 ^ 24 < v \<Longrightarrow> v < 2 ^ 25 \<Longrightarrow> sig_bits v = 25"
proof -
  assume v: "2 ^ 24 < v" "v < (2 ^ 25 :: int)"
  have "floorlog 2 (nat v) \<le> 25" using v by (intro floorlog_leI) (simp_all add: nat_less_iff)
  moreover have "25 \<le> floorlog 2 (nat v)"
    using v floorlog_geI [of 2 25 "nat v"] by (simp add: le_nat_iff)
  ultimately show ?thesis using v by (simp add: sig_bits_def)
qed

lemma float_of_odd:
  assumes "2 ^ 24 < v" "v < 2 ^ 25" "odd v"
  shows "dtrunc (float_of_int v) \<in> {v - 1, v + 1}"
proof -
  obtain q where q: "v = 2 * q + 1" using assms(3) by (elim oddE)
  then have "v div 2 = q" "v mod 2 = 1" by simp_all
  then show ?thesis
    using sig_bits_25 [OF assms(1,2)] q by (simp add: float_of_int_def rne_shift_def dtrunc_def Let_def)
qed

text \<open>
  Automatic conversion loses digits. Storing an integer in a setting of type float goes
  through \<^verbatim>\<open>float\<close>, so an odd integer between \<open>2 ^ 24\<close> and \<open>2 ^ 25\<close> is not what is
  read back, though a double would hold it.
\<close>

theorem autoconvert_loses_digits:
  assumes "config_get_auto_convert c" "config_setting_type s = CONFIG_TYPE_FLOAT"
    and "2 ^ 24 < v" "v < 2 ^ 25" "odd v"
  shows "\<exists>s' r. config_setting_set_int c s v = Some s' \<and> config_setting_get_int_p c s' = Got r \<and> \<bar>r - v\<bar> = 1"
proof -
  obtain d where d: "s_value s = V_Float d"
    using assms(2) by (cases "s_value s") (simp_all add: config_setting_type_def config_types)
  have r: "dtrunc (float_of_int v) \<in> {v - 1, v + 1}" using assms(3-5) by (rule float_of_odd)
  then have "int_of_dbl 32 (float_of_int v) = Some (dtrunc (float_of_int v))"
    using assms(3,4) by (auto simp: int_of_dbl_def Let_def)
  then show ?thesis
    using assms(1) d r
    by (auto simp: config_setting_set_int_def config_setting_get_int_p_def config_get_auto_convert_def)
qed

theorem autoconvert_loses_digits_witness:
  "\<exists>s' r. config_setting_set_int auto_config (Setting None 0 (V_Float (Dbl 1 0)) 0 0 None) 16777217 = Some s'
     \<and> config_setting_get_int_p auto_config s' = Got r \<and> \<bar>r - 16777217\<bar> = 1"
  by (rule autoconvert_loses_digits) (simp_all add: auto_config_on config_setting_type_def)

section \<open>Arrays keep one type\<close>

definition one_type :: "config_setting \<Rightarrow> bool" where
  "one_type s \<longleftrightarrow> (config_setting_type s = CONFIG_TYPE_ARRAY \<longrightarrow>
     (\<exists>t. t \<noteq> CONFIG_TYPE_NONE \<and> (\<forall>x \<in> set (children s). config_setting_type x = t)))"

text \<open>A setter that keeps the name and the children of an element and, once it has one, its type.\<close>

definition tame :: "(config_setting \<Rightarrow> config_setting c_result) \<Rightarrow> bool" where
  "tame setter \<longleftrightarrow> (\<forall>e e'. setter e = Ptr e' \<longrightarrow> s_name e' = s_name e \<and> wf_setting e'
     \<and> (config_setting_type e \<noteq> CONFIG_TYPE_NONE \<longrightarrow> config_setting_type e' = config_setting_type e))"

lemma wf_scalar [simp]:
  "wf_setting (set_value (V_Int i) s)" "wf_setting (set_value (V_Int64 i) s)" "wf_setting (set_value (V_Float d) s)"
  "wf_setting (set_value (V_Bool i) s)" "wf_setting (set_value (V_String str) s)"
  by (simp_all add: wf_setting_iff)

lemma setters_tame:
  "tame (\<lambda>e. ptr_option (config_setting_set_int c e i))" "tame (\<lambda>e. ptr_option (config_setting_set_int64 c e i))"
  "tame (\<lambda>e. config_setting_set_float c e d)" "tame (\<lambda>e. ptr_option (config_setting_set_bool e i))"
  "tame (\<lambda>e. ptr_option (config_setting_set_string e str))"
  by (auto simp: tame_def config_setting_set_int_def config_setting_set_int64_def config_setting_set_float_def
      config_setting_set_bool_def config_setting_set_string_def config_setting_type_def Let_def
      split: config_value.splits if_splits option.splits)

lemma put_child_effects:
  assumes "i < length (children s)" "is_aggregate s"
  shows "children (put_child i e s) = (children s)[i := e]" "config_setting_type (put_child i e s) = config_setting_type s"
  using assms by (auto simp: put_child_def children_def config_setting_type_def split: option.splits)

lemma names_ok_update:
  assumes "names_ok xs" "s_name e = s_name (xs ! i)" "i < length xs"
  shows "names_ok (xs[i := e])"
proof -
  have "map s_name (xs[i := e]) = map s_name xs"
    using assms(2,3) list_update_id [of "map s_name xs" i] by (simp add: map_update)
  then show ?thesis using assms set_update_subset_insert [of xs i e] by (fastforce simp: names_ok_def)
qed

lemma wf_put_child:
  assumes wf: "wf_setting s" "is_aggregate s" and i: "i < length (children s)"
    and e: "wf_setting e" "s_name e = s_name (children s ! i)"
  shows "wf_setting (put_child i e s)"
proof -
  obtain l where l: "value_list (s_value s) = Some l" "children s = elements l"
    using i by (auto simp: children_def split: option.splits)
  let ?l = "Config_List ((elements l)[i := e]) (capacity l)"
  have sub: "set ((elements l)[i := e]) \<subseteq> insert e (set (elements l))" by (rule set_update_subset_insert)
  have "list_room ?l" using aggregate_room [OF wf(1)] l by (simp add: list_room_def)
  moreover have "\<forall>x \<in> set (elements ?l). wf_setting x" using wf_children(1) [OF wf] sub e l by auto
  moreover have "if config_setting_type s = CONFIG_TYPE_GROUP then names_ok (elements ?l)
      else \<forall>x \<in> set (elements ?l). s_name x = None"
    using wf_children(2) [OF wf] names_ok_update [of "children s" e i] sub e i l by (auto split: if_splits)
  ultimately have "wf_setting (set_value (with_list ?l (s_value s)) s)" using wf(2) by (intro wf_with_list)
  then show ?thesis using l by (simp add: put_child_def)
qed

text \<open>Selecting the element: a new last one, or an existing one.\<close>

lemma set_elem_cases:
  assumes wf: "wf_setting vec" and r: "set_elem setter t vec idx = Ptr (v', i)"
  obtains (append) v e' where "idx < 0" "wf_setting v" "config_setting_type v = config_setting_type vec"
      "children v = children vec @ [Setting None 0 (zero_value t) 0 0 None]" "i = length (children vec)"
      "config_vector_checktype vec t" "setter (children v ! i) = Ptr e'" "v' = put_child i e' v"
      "config_setting_type vec \<in> {CONFIG_TYPE_ARRAY, CONFIG_TYPE_LIST}"
    | (update) e' where "0 \<le> idx" "i = nat (idx mod 2 ^ 32)" "i < length (children vec)"
      "setter (children vec ! i) = Ptr e'" "v' = put_child i e' vec"
      "config_setting_type vec \<in> {CONFIG_TYPE_ARRAY, CONFIG_TYPE_LIST}"
proof (cases "idx < 0")
  case True
  have ty: "config_setting_type vec \<in> {CONFIG_TYPE_ARRAY, CONFIG_TYPE_LIST}" "config_vector_checktype vec t"
    using r True by (auto simp: set_elem_def split: if_splits)
  then have "is_aggregate vec" "\<not> is_group vec" by (auto simp: is_aggregate_def is_group_def config_types)
  then obtain v where v: "config_setting_create vec None t = Ptr v" "wf_setting v"
      "config_setting_type v = config_setting_type vec"
      "children v = children vec @ [Setting None 0 (zero_value t) 0 0 None]"
    using create_ok [OF wf, of None t] by auto
  then show ?thesis
    using r True ty append by (auto simp: set_elem_def split: if_splits c_result.splits)
next
  case False
  have ty: "config_setting_type vec \<in> {CONFIG_TYPE_ARRAY, CONFIG_TYPE_LIST}"
    using r by (auto simp: set_elem_def split: if_splits)
  then obtain k where k: "config_setting_get_elem vec (nat (idx mod 2 ^ 32)) = Some k"
    using r False by (auto simp: set_elem_def split: if_splits option.splits)
  then have "k = nat (idx mod 2 ^ 32)" "k < length (children vec)"
    by (auto simp: config_setting_get_elem_def children_def split: option.splits if_splits)
  then show ?thesis
    using r False ty k update by (auto simp: set_elem_def split: if_splits c_result.splits)
qed

lemma checktype_one_type:
  assumes "one_type vec" "config_vector_checktype vec t" "config_setting_type vec = CONFIG_TYPE_ARRAY"
  shows "\<forall>x \<in> set (children vec). config_setting_type x = t"
  using assms
  by (auto simp: one_type_def config_vector_checktype_def children_def config_types split: option.splits list.splits)

lemma set_elem_ok:
  assumes wf: "wf_setting vec" and one: "one_type vec" and tm: "tame setter"
    and t: "type_ok t" "t \<noteq> CONFIG_TYPE_NONE" and r: "set_elem setter t vec idx = Ptr (v', i)"
  shows "wf_setting v' \<and> one_type v' \<and> config_setting_type v' = config_setting_type vec
    \<and> (\<forall>j. j \<noteq> i \<and> j < length (children vec) \<longrightarrow> children v' ! j = children vec ! j)
    \<and> length (children v') = length (children vec) + (if idx < 0 then 1 else 0)"
  using wf r
proof (cases rule: set_elem_cases)
  case (append v e')
  have agg: "is_aggregate v" using append(3,9) by (auto simp: is_aggregate_def config_types)
  have e: "children v ! i = Setting None 0 (zero_value t) 0 0 None" using append(4,5) by simp
  have et: "config_setting_type (children v ! i) = t"
    using t e type_zero_value by (simp add: type_ok_def config_setting_type_def)
  then have e': "s_name e' = s_name (children v ! i)" "wf_setting e'" "config_setting_type e' = t"
    using tm append(7) t(2) by (auto simp: tame_def)
  have i: "i < length (children v)" using append(4,5) by simp
  have c: "children v' = children vec @ [e']"
    using put_child_effects(1) [OF i agg] append(4,5,8) by simp
  have "one_type v'"
    using checktype_one_type [OF one append(6)] append(3) c e'(3) t(2) put_child_effects(2) [OF i agg] append(8)
    by (auto simp: one_type_def)
  then show ?thesis
    using c append wf_put_child [OF append(2) agg i e'(2,1)] put_child_effects(2) [OF i agg] by (simp add: nth_append)
next
  case (update e')
  have agg: "is_aggregate vec" using update(6) by (auto simp: is_aggregate_def config_types)
  have e': "s_name e' = s_name (children vec ! i)" "wf_setting e'"
    using tm update(4) by (auto simp: tame_def)
  have c: "children v' = (children vec)[i := e']" using put_child_effects(1) [OF update(3) agg] update(5) by simp
  have "config_setting_type e' = config_setting_type (children vec ! i)" if "config_setting_type vec = CONFIG_TYPE_ARRAY"
    using one that tm update(3,4) by (fastforce simp: one_type_def tame_def)
  then have "one_type v'"
    using one c update(3,5) put_child_effects(2) [OF update(3) agg] set_update_subset_insert [of "children vec" i e']
    by (fastforce simp: one_type_def)
  then show ?thesis
    using c update wf_put_child [OF wf agg update(3) e'(2,1)] put_child_effects(2) [OF update(3) agg] by simp
qed

text \<open>
  C29. The element setters keep arrays homogeneous. On a well-formed array or list, each of
  the five functions leaves a well-formed setting; if all elements of an array had one type
  they still do; all other elements are as they were; and a negative index adds one element.
\<close>

theorem element_setters_keep_arrays:
  assumes "wf_setting vec" "one_type vec"
    and "config_setting_set_int_elem c vec idx i = Ptr (v', k) \<or> config_setting_set_int64_elem c vec idx i = Ptr (v', k)
      \<or> config_setting_set_float_elem c vec idx d = Ptr (v', k) \<or> config_setting_set_bool_elem vec idx i = Ptr (v', k)
      \<or> config_setting_set_string_elem vec idx str = Ptr (v', k)"
  shows "wf_setting v' \<and> one_type v' \<and> config_setting_type v' = config_setting_type vec
    \<and> (\<forall>j. j \<noteq> k \<and> j < length (children vec) \<longrightarrow> children v' ! j = children vec ! j)
    \<and> length (children v') = length (children vec) + (if idx < 0 then 1 else 0)"
  using assms(3)
  unfolding config_setting_set_int_elem_def config_setting_set_int64_elem_def config_setting_set_float_elem_def
    config_setting_set_bool_elem_def config_setting_set_string_elem_def
  by (elim disjE; intro set_elem_ok [OF assms(1,2)]; assumption?)
    (simp_all add: setters_tame type_ok_def config_types)

definition demo_array :: config_setting where
  "demo_array = Setting (Some ''ports'') 0 (V_Array (Some (Config_List [Setting None 0 (V_Int 123) 0 0 None] 16))) 0 0 None"

theorem element_setters_keep_arrays_witness:
  "\<exists>v' k. config_setting_set_int_elem config_init demo_array (- 1) 6001 = Ptr (v', k)
     \<and> one_type v' \<and> length (children v') = 2 \<and> children v' ! 0 = Setting None 0 (V_Int 123) 0 0 None"
proof -
  have wf: "wf_setting demo_array" "one_type demo_array"
    by (auto simp: demo_array_def shape_ok_def list_room_def CHUNK_SIZE_def config_types one_type_def children_def
        config_setting_type_def)
  have "\<exists>v' k. config_setting_set_int_elem config_init demo_array (- 1) 6001 = Ptr (v', k) \<and> k = 1"
    by (simp add: config_setting_set_int_elem_def set_elem_def demo_array_def config_setting_type_def config_types
        config_vector_checktype_def config_setting_create_def is_aggregate_def config_list_add_def CHUNK_SIZE_def
        children_def zero_value_def config_setting_set_int_def Let_def)
  then obtain v' k where r: "config_setting_set_int_elem config_init demo_array (- 1) 6001 = Ptr (v', k)" "k = 1"
    by blast
  from element_setters_keep_arrays [OF wf disjI1 [OF r(1)]] r show ?thesis
    by (auto simp: demo_array_def children_def)
qed

end
