(* ===== verification/C_Float_Text.thy ===== *)
theory C_Float_Text
  imports C_Double C_Text
begin

text \<open>
  The two functions of the C library between text and \<^verbatim>\<open>double\<close> that libconfig calls:
  \<^verbatim>\<open>atof\<close>, on the texts its scanner accepts as floating point numbers, and the
  conversion \<^verbatim>\<open>%.15g\<close>. Both are exact up to one correct rounding. The model of doubles
  has no infinities, subnormal numbers or negative zero: \<open>atof\<close> is \<open>None\<close> where it would need one.
\<close>

section \<open>Reading\<close>

text \<open>Sign, digits before and after the point, exponent.\<close>

definition is_dec :: "char \<Rightarrow> bool" where
  "is_dec c \<longleftrightarrow> digit_val c \<noteq> None"

fun split_sign :: "string \<Rightarrow> bool \<times> string" where
  "split_sign [] = (False, [])"
| "split_sign (c # cs) = (if c = CHR ''-'' then (True, cs) else if c = CHR ''+'' then (False, cs) else (False, c # cs))"

definition exponent_part :: "string \<Rightarrow> int" where
  "exponent_part s =
     (case s of [] \<Rightarrow> 0
      | c # cs \<Rightarrow>
          if c = CHR ''e'' \<or> c = CHR ''E''
          then (let (neg, ds) = split_sign cs in if neg then - int (digits_value 0 ds) else int (digits_value 0 ds))
          else 0)"

text \<open>The number \<open>m * 10 ^ k\<close> rounded once.\<close>

definition dbl_of_dec :: "int \<Rightarrow> int \<Rightarrow> dbl" where
  "dbl_of_dec m k = (if 0 \<le> k then round53 (Dbl (m * 10 ^ nat k) 0) else ddiv (Dbl m 0) (Dbl (10 ^ nat (- k)) 0))"

text \<open>The position of the leading bit of a number that is not zero.\<close>

definition lead_bit :: "dbl \<Rightarrow> int" where
  "lead_bit d = int (sig_bits (mant d)) + expo d"

definition atof :: "string \<Rightarrow> dbl option" where
  "atof s =
     (let (neg, s1) = split_sign s;
          ip = takeWhile is_dec s1; r1 = dropWhile is_dec s1;
          (fp, r2) = (case r1 of [] \<Rightarrow> ([], [])
                      | c # cs \<Rightarrow> if c = CHR ''.'' then (takeWhile is_dec cs, dropWhile is_dec cs) else ([], r1));
          m = int (digits_value 0 (ip @ fp));
          k = exponent_part r2 - int (length fp);
          d = dbl_of_dec (if neg then - m else m) k
      in if m = 0 then (if neg \<and> ip @ fp \<noteq> [] then None else Some (Dbl 0 0))
         else if lead_bit d \<le> 1024 \<and> - 1022 < lead_bit d then Some d else None)"

section \<open>Writing\<close>

text \<open>
  The conversion \<^verbatim>\<open>%.15g\<close>: the value is rounded to 15 significant digits, ties to even;
  its decimal exponent decides between the plain and the exponential form, and zeros at the
  end of the fraction are dropped.
\<close>

definition dec_ratio :: "dbl \<Rightarrow> nat \<times> nat" where
  "dec_ratio d = (if 0 \<le> expo d then (nat \<bar>mant d\<bar> * 2 ^ nat (expo d), 1) else (nat \<bar>mant d\<bar>, 2 ^ nat (- expo d)))"

text \<open>\<open>n / q\<close> rounded to an integer.\<close>

definition rne_div :: "nat \<Rightarrow> nat \<Rightarrow> nat" where
  "rne_div n q = (let a = n div q; r = n mod q in
     if 2 * r < q then a else if q < 2 * r then a + 1 else if even a then a else a + 1)"

text \<open>\<open>n / q\<close> times ten to the power \<open>k\<close>, rounded.\<close>

definition scaled :: "nat \<Rightarrow> nat \<Rightarrow> int \<Rightarrow> nat" where
  "scaled n q k = (if 0 \<le> k then rne_div (n * 10 ^ nat k) q else rne_div n (q * 10 ^ nat (- k)))"

text \<open>
  The decimal exponent of \<open>n / q\<close>: from an upper estimate downwards, the first one at which
  the number is not below the power of ten.
\<close>

fun dec_expo :: "nat \<Rightarrow> nat \<Rightarrow> nat \<Rightarrow> int \<Rightarrow> int" where
  "dec_expo 0 n q e = e"
| "dec_expo (Suc f) n q e =
     (if (if 0 \<le> e then q * 10 ^ nat e \<le> n else q \<le> n * 10 ^ nat (- e)) then e else dec_expo f n q (e - 1))"

definition strip_zeros :: "string \<Rightarrow> string" where
  "strip_zeros s = rev (dropWhile (\<lambda>c. c = CHR ''0'') (rev s))"

definition fmt_expo :: "int \<Rightarrow> string" where
  "fmt_expo e = (if e < 0 then ''e-'' else ''e+'') @ (if \<bar>e\<bar> < 10 then ''0'' else []) @ digits (nat \<bar>e\<bar>)"

definition point :: "string \<Rightarrow> string \<Rightarrow> string" where
  "point ip fp = (if strip_zeros fp = [] then ip else ip @ ''.'' @ strip_zeros fp)"

definition fmt_15g :: "dbl \<Rightarrow> string" where
  "fmt_15g d =
     (if mant d = 0 then ''0''
      else
        (let (n, q) = dec_ratio d;
             top_e = int (length (digits n)) - int (length (digits q)) + 1;
             e0 = dec_expo 4 n q top_e;
             m0 = scaled n q (14 - e0);
             (m, e) = (if m0 = 10 ^ 15 then (10 ^ 14, e0 + 1) else (m0, e0));
             ds = digits m;
             sign = (if mant d < 0 then ''-'' else [])
         in if e < - 4 \<or> 15 \<le> e then sign @ point (take 1 ds) (drop 1 ds) @ fmt_expo e
            else if 0 \<le> e then sign @ point (take (nat (e + 1)) ds) (drop (nat (e + 1)) ds)
            else sign @ point ''0'' (replicate (nat (- e - 1)) CHR ''0'' @ ds)))"

end
