(* ===== verification/Scanner.thy ===== *)
theory Scanner
  imports Scanner_Tables Scan_Context Config_Values C_Float_Text
begin

text \<open>
  The scanner of configuration files: the function \<^verbatim>\<open>libconfig_yylex\<close> that flex has
  generated into \<^verbatim>\<open>scanner.c\<close>, with the actions of the rules.

  The buffers of flex are an implementation of a sequence of characters: an input buffer is
  refilled when the automaton meets the end-of-buffer character, and matching goes on where
  it was. The model keeps the sequence itself, the characters that are not yet consumed.
\<close>

section \<open>State\<close>

text \<open>
  An input buffer: the unread characters, whether the automaton is at the beginning of a line,
  the line number, and whether the stream behind the buffer can be read.
\<close>

record yy_buffer_state =
  yy_input :: string
  yy_at_bol :: bool
  yy_bs_lineno :: int
  yy_readable :: bool

text \<open>The start condition, the current buffer, the scan context and what was echoed to the output.\<close>

record yyguts =
  yy_start :: nat
  yy_buffer :: yy_buffer_state
  yy_extra :: "yy_buffer_state scan_context"
  yy_out :: string

definition INITIAL :: nat where "INITIAL = 0"
definition COMMENT :: nat where "COMMENT = 1"
definition STRING :: nat where "STRING = 2"
definition INCLUDE :: nat where "INCLUDE = 3"

definition BEGIN :: "nat \<Rightarrow> yyguts \<Rightarrow> yyguts" where
  "BEGIN cond yyg = yyg\<lparr>yy_start := 1 + 2 * cond\<rparr>"

definition yy_create_buffer :: "file_node \<Rightarrow> yy_buffer_state" where
  "yy_create_buffer node =
     (case node of
        Regular text \<Rightarrow> \<lparr>yy_input = text, yy_at_bol = True, yy_bs_lineno = 1, yy_readable = True\<rparr>
      | Directory \<Rightarrow> \<lparr>yy_input = [], yy_at_bol = True, yy_bs_lineno = 1, yy_readable = False\<rparr>)"

text \<open>Scanning a string: a copy up to its NUL.\<close>

definition yy_scan_string :: "string \<Rightarrow> yy_buffer_state" where
  "yy_scan_string str = \<lparr>yy_input = c_string str, yy_at_bol = True, yy_bs_lineno = 1, yy_readable = True\<rparr>"

definition yy_switch_to_buffer :: "yy_buffer_state \<Rightarrow> yyguts \<Rightarrow> yyguts" where
  "yy_switch_to_buffer b yyg = yyg\<lparr>yy_buffer := b\<rparr>"

definition yyget_lineno :: "yyguts \<Rightarrow> int" where
  "yyget_lineno yyg = yy_bs_lineno (yy_buffer yyg)"

definition yylex_init_extra :: "yy_buffer_state scan_context \<Rightarrow> yy_buffer_state \<Rightarrow> yyguts" where
  "yylex_init_extra ctx b = \<lparr>yy_start = 1, yy_buffer = b, yy_extra = ctx, yy_out = []\<rparr>"

section \<open>Matching\<close>

text \<open>
  The class of a character. A NUL of the input has class 1, as in
  \<^verbatim>\<open>yy_get_previous_state\<close> and \<^verbatim>\<open>yy_try_NUL_trans\<close>; class 0 is the end-of-buffer
  character.
\<close>

definition yy_class :: "char \<Rightarrow> nat" where
  "yy_class c = (if c = NUL then 1 else yy_ec ! of_char c)"

text \<open>
  The automaton runs until it jams or the input ends, and remembers the last accepting state
  and its position. The outer \<open>None\<close> is an access outside a table.
\<close>

fun yy_match :: "nat \<Rightarrow> string \<Rightarrow> nat \<Rightarrow> (nat \<times> nat) option \<Rightarrow> (nat \<times> nat) option option" where
  "yy_match s [] n last_acc = Some (if yy_accept ! s \<noteq> 0 then Some (s, n) else last_acc)"
| "yy_match s (c # cs) n last_acc =
     (let l = (if yy_accept ! s \<noteq> 0 then Some (s, n) else last_acc)
      in case yy_trans s (yy_class c) of None \<Rightarrow> None
         | Some t \<Rightarrow> if t = YY_JAM then Some l else yy_match t cs (Suc n) l)"

section \<open>Tokens\<close>

definition TOK_BOOLEAN :: nat where "TOK_BOOLEAN = 258"
definition TOK_INTEGER :: nat where "TOK_INTEGER = 259"
definition TOK_HEX :: nat where "TOK_HEX = 260"
definition TOK_INTEGER64 :: nat where "TOK_INTEGER64 = 261"
definition TOK_HEX64 :: nat where "TOK_HEX64 = 262"
definition TOK_FLOAT :: nat where "TOK_FLOAT = 263"
definition TOK_STRING :: nat where "TOK_STRING = 264"
definition TOK_NAME :: nat where "TOK_NAME = 265"
definition TOK_EQUALS :: nat where "TOK_EQUALS = 266"
definition TOK_ARRAY_START :: nat where "TOK_ARRAY_START = 268"
definition TOK_ARRAY_END :: nat where "TOK_ARRAY_END = 269"
definition TOK_LIST_START :: nat where "TOK_LIST_START = 270"
definition TOK_LIST_END :: nat where "TOK_LIST_END = 271"
definition TOK_COMMA :: nat where "TOK_COMMA = 272"
definition TOK_GROUP_START :: nat where "TOK_GROUP_START = 273"
definition TOK_GROUP_END :: nat where "TOK_GROUP_END = 274"
definition TOK_SEMICOLON :: nat where "TOK_SEMICOLON = 275"
definition TOK_GARBAGE :: nat where "TOK_GARBAGE = 276"
definition TOK_ERROR :: nat where "TOK_ERROR = 277"
definition YYEOF :: nat where "YYEOF = 0"

lemmas tokens = TOK_BOOLEAN_def TOK_INTEGER_def TOK_HEX_def TOK_INTEGER64_def TOK_HEX64_def TOK_FLOAT_def
  TOK_STRING_def TOK_NAME_def TOK_EQUALS_def TOK_ARRAY_START_def TOK_ARRAY_END_def TOK_LIST_START_def
  TOK_LIST_END_def TOK_COMMA_def TOK_GROUP_START_def TOK_GROUP_END_def TOK_SEMICOLON_def TOK_GARBAGE_def
  TOK_ERROR_def YYEOF_def

text \<open>
  The semantic value of a token: the member of the union that was written. A name is the text
  of the token itself, which stays in place until the scanner is called again.
\<close>

datatype yystype = Y_None | Y_Int int | Y_Int64 int | Y_Float dbl | Y_String string

text \<open>
  What a call returns: a token with its value, where one is written; the end of the process
  with a message of flex; undefined behaviour; or a floating point number outside the model.
\<close>

datatype lex_result = Token nat "yystype option" | Lex_Fatal string | Lex_Undefined | Lex_Range

datatype lex_step = Lex_Goes_On config yyguts | Lex_Returns lex_result config yyguts

section \<open>Actions\<close>

definition yy_token :: "nat \<Rightarrow> yystype option \<Rightarrow> config \<Rightarrow> yyguts \<Rightarrow> lex_step" where
  "yy_token t v config yyg = Lex_Returns (Token t v) config yyg"

definition yy_append :: "string \<Rightarrow> config \<Rightarrow> yyguts \<Rightarrow> lex_step" where
  "yy_append text config yyg =
     (case scanctx_append_string (yy_extra yyg) text of
        Ptr ctx \<Rightarrow> Lex_Goes_On config (yyg\<lparr>yy_extra := ctx\<rparr>)
      | _ \<Rightarrow> Lex_Returns Lex_Undefined config yyg)"

definition yy_take_string :: "config \<Rightarrow> yyguts \<Rightarrow> lex_step" where
  "yy_take_string config yyg =
     (let (s, ctx) = scanctx_take_string (yy_extra yyg)
      in Lex_Returns (Token TOK_STRING (Some (Y_String s))) config (BEGIN INITIAL (yyg\<lparr>yy_extra := ctx\<rparr>)))"

definition yy_include :: "file_system \<Rightarrow> config \<Rightarrow> yyguts \<Rightarrow> lex_step" where
  "yy_include fs config yyg =
     (case scanctx_push_include fs (include_dir config) (yy_extra yyg) (yy_buffer yyg) of
        Pushed node ctx \<Rightarrow>
          Lex_Goes_On config (BEGIN INITIAL (yy_switch_to_buffer (yy_create_buffer node) (yyg\<lparr>yy_extra := ctx\<rparr>)))
      | Push_Error e ctx \<Rightarrow>
          Lex_Returns (Token TOK_ERROR None)
            (config\<lparr>error_text := Some e, error_file := scanctx_current_filename ctx, error_line := yyget_lineno yyg\<rparr>)
            (yyg\<lparr>yy_extra := ctx\<rparr>)
      | Push_Undefined \<Rightarrow> Lex_Returns Lex_Undefined config yyg)"

text \<open>The escape \<^verbatim>\<open>\x\<close> with two digits.\<close>

definition hex_escape :: "string \<Rightarrow> string" where
  "hex_escape yytext = [char_of (hex_value 0 (drop 2 yytext) mod 256)]"

definition yy_float :: "string \<Rightarrow> config \<Rightarrow> yyguts \<Rightarrow> lex_step" where
  "yy_float yytext config yyg =
     (case atof yytext of
        None \<Rightarrow> Lex_Returns Lex_Range config yyg
      | Some d \<Rightarrow> Lex_Returns (Token TOK_FLOAT (Some (Y_Float d))) config yyg)"

text \<open>The rules for comments, strings and include directives.\<close>

definition yy_text_action :: "file_system \<Rightarrow> nat \<Rightarrow> string \<Rightarrow> config \<Rightarrow> yyguts \<Rightarrow> lex_step" where
  "yy_text_action fs act yytext config yyg =
     (if act = 1 then Lex_Goes_On config (BEGIN COMMENT yyg)
      else if act = 2 then Lex_Goes_On config (BEGIN INITIAL yyg)
      else if act = 3 \<or> act = 4 then Lex_Goes_On config yyg
      else if act = 5 then Lex_Goes_On config (BEGIN STRING yyg)
      else if act = 6 then yy_append yytext config yyg
      else if act = 7 then yy_append [CHR 0x0A] config yyg
      else if act = 8 then yy_append [CHR 0x0D] config yyg
      else if act = 9 then yy_append [CHR 0x09] config yyg
      else if act = 10 then yy_append [CHR 0x0C] config yyg
      else if act = 11 then yy_append [CHR 0x5C] config yyg
      else if act = 12 then yy_append [CHR 0x22] config yyg
      else if act = 13 then yy_append (hex_escape yytext) config yyg
      else if act = 14 then yy_append [CHR 0x5C] config yyg
      else if act = 15 then yy_take_string config yyg
      else if act = 16 then Lex_Goes_On config (BEGIN INCLUDE yyg)
      else if act = 17 then yy_append yytext config yyg
      else if act = 18 then yy_append [CHR 0x5C] config yyg
      else if act = 19 then yy_append [CHR 0x22] config yyg
      else yy_include fs config yyg)"

text \<open>The switch over the rules.\<close>

definition yy_action :: "file_system \<Rightarrow> nat \<Rightarrow> string \<Rightarrow> config \<Rightarrow> yyguts \<Rightarrow> lex_step" where
  "yy_action fs act yytext config yyg =
     (if 1 \<le> act \<and> act \<le> 20 then yy_text_action fs act yytext config yyg
      else if act = 21 \<or> act = 22 then Lex_Goes_On config yyg
      else if act = 23 then yy_token TOK_EQUALS None config yyg
      else if act = 24 then yy_token TOK_COMMA None config yyg
      else if act = 25 then yy_token TOK_GROUP_START None config yyg
      else if act = 26 then yy_token TOK_GROUP_END None config yyg
      else if act = 27 then yy_token TOK_BOOLEAN (Some (Y_Int 1)) config yyg
      else if act = 28 then yy_token TOK_BOOLEAN (Some (Y_Int 0)) config yyg
      else if act = 29 then yy_token TOK_NAME (Some (Y_String yytext)) config yyg
      else if act = 30 then yy_float yytext config yyg
      else if act = 31 then yy_token TOK_INTEGER (Some (Y_Int (atoi yytext))) config yyg
      else if act = 32 then yy_token TOK_INTEGER64 (Some (Y_Int64 (atoll yytext))) config yyg
      else if act = 33 then yy_token TOK_HEX (Some (Y_Int (to_int32 (strtoul16 yytext)))) config yyg
      else if act = 34 then yy_token TOK_HEX64 (Some (Y_Int64 (to_int64 (strtoul16 yytext)))) config yyg
      else if act = 35 then yy_token TOK_ARRAY_START None config yyg
      else if act = 36 then yy_token TOK_ARRAY_END None config yyg
      else if act = 37 then yy_token TOK_LIST_START None config yyg
      else if act = 38 then yy_token TOK_LIST_END None config yyg
      else if act = 39 then yy_token TOK_SEMICOLON None config yyg
      else if act = 40 then Lex_Goes_On config yyg
      else if act = 41 then yy_token TOK_GARBAGE None config yyg
      else if act = 42 then Lex_Goes_On config (yyg\<lparr>yy_out := yy_out yyg @ yytext\<rparr>)
      else Lex_Returns (Lex_Fatal ''fatal flex scanner internal error--no action found'') config yyg)"

section \<open>One round of the loop\<close>

text \<open>
  Before the action, the new lines of the token are counted, if the rule can match them, and
  the buffer notes whether it is at the beginning of a line. The comment rule ends one
  character earlier than it matched.
\<close>

definition yy_consume :: "nat \<Rightarrow> nat \<Rightarrow> yyguts \<Rightarrow> string \<times> yyguts" where
  "yy_consume act len yyg =
     (let b = yy_buffer yyg;
          yyleng = (if act = 40 then len - 1 else len);
          yytext = take yyleng (yy_input b);
          newlines = (if yy_rule_can_match_eol ! act \<noteq> 0 then length (filter (\<lambda>c. c = CHR 0x0A) (take len (yy_input b))) else 0)
      in (yytext, yyg\<lparr>yy_buffer := b\<lparr>yy_input := drop yyleng (yy_input b),
            yy_at_bol := (if yyleng > 0 then last yytext = CHR 0x0A else yy_at_bol b),
            yy_bs_lineno := yy_bs_lineno b + int newlines\<rparr>\<rparr>))"

definition yy_eof :: "config \<Rightarrow> yyguts \<Rightarrow> lex_step" where
  "yy_eof config yyg =
     (if \<not> yy_readable (yy_buffer yyg)
      then Lex_Returns (Lex_Fatal ''input in flex scanner failed'') config yyg
      else
        (case scanctx_pop_include (yy_extra yyg) of
           (Some buf, ctx) \<Rightarrow> Lex_Goes_On config (yy_switch_to_buffer buf (yyg\<lparr>yy_extra := ctx\<rparr>))
         | (None, ctx) \<Rightarrow> Lex_Returns (Token YYEOF None) config (yyg\<lparr>yy_extra := ctx\<rparr>)))"

definition yy_scan :: "file_system \<Rightarrow> config \<Rightarrow> yyguts \<Rightarrow> lex_step" where
  "yy_scan fs config yyg =
     (let b = yy_buffer yyg
      in if yy_input b = [] then yy_eof config yyg
         else
           (case yy_match (yy_start yyg + (if yy_at_bol b then 1 else 0)) (yy_input b) 0 None of
              Some (Some (s, n)) \<Rightarrow>
                (let (yytext, yyg1) = yy_consume (yy_accept ! s) n yyg in yy_action fs (yy_accept ! s) yytext config yyg1)
            | _ \<Rightarrow> Lex_Returns Lex_Undefined config yyg))"

text \<open>The outcome \<open>None\<close> is a call that does not return.\<close>

partial_function (option) yylex :: "file_system \<Rightarrow> config \<Rightarrow> yyguts \<Rightarrow> (lex_result \<times> config \<times> yyguts) option" where
  "yylex fs config yyg =
     (case yy_scan fs config yyg of
        Lex_Returns r c g \<Rightarrow> Some (r, c, g)
      | Lex_Goes_On c g \<Rightarrow> yylex fs c g)"

declare yylex.simps [code]

end
