(* ===== verification/Config_Lookup.thy ===== *)
theory Config_Lookup
  imports Config_Values C_Text
begin

text \<open>
  Lookup by path in \<^verbatim>\<open>libconfig.c\<close>, and the typed lookups that applications call.
\<close>

section \<open>Paths\<close>

text \<open>The setting a pointer names, given the setting the chain of positions starts from.\<close>

fun deref :: "config_setting \<Rightarrow> nat list \<Rightarrow> config_setting" where
  "deref s [] = s"
| "deref s (i # is) = deref (children s ! i) is"

lemma path_step_decreases:
  assumes "p = dropWhile is_path_token p0" "p \<noteq> []" "p1 = (if hd p = CHR ''['' then tl p else p)"
  shows "length (dropWhile (\<lambda>c. \<not> is_path_token c) p1) < length p0"
proof -
  have le: "length p \<le> length p0" using assms(1) by (simp add: length_dropWhile_le)
  obtain c cs where c: "p = c # cs" using assms(2) by (cases p) auto
  have "\<not> is_path_token c" using assms(1) c by (metis hd_dropWhile list.discI list.sel(1))
  then have "length (dropWhile (\<lambda>c. \<not> is_path_token c) p1) \<le> length cs"
    using assms(3) c by (simp add: length_dropWhile_le)
  then show ?thesis using le c by simp
qed

text \<open>
  The loop of \<^verbatim>\<open>config_setting_lookup\<close>: the current setting, the positions taken so far,
  and the rest of the path.
\<close>

function lookup_from :: "config_setting \<Rightarrow> nat list \<Rightarrow> string \<Rightarrow> nat list option" where
  "lookup_from setting taken p0 =
     (let p = dropWhile is_path_token p0 in
      if p = [] then Some taken
      else
        (let p1 = (if hd p = CHR ''['' then tl p else p);
             found = (if hd p = CHR ''['' then config_setting_get_elem setting (nat (atoi p1 mod 2 ^ 32))
                      else config_setting_get_member setting p)
         in case found of
              None \<Rightarrow> if p1 = [] then Some taken else None
            | Some i \<Rightarrow> lookup_from (children setting ! i) (taken @ [i]) (dropWhile (\<lambda>c. \<not> is_path_token c) p1)))"
  by pat_completeness auto
termination
  by (relation "measure (\<lambda>(s, t, p). length p)") (auto intro: path_step_decreases)

declare lookup_from.simps [simp del]

definition config_setting_lookup :: "config_setting \<Rightarrow> string \<Rightarrow> nat list option" where
  "config_setting_lookup setting path = lookup_from setting [] path"

definition config_lookup :: "config \<Rightarrow> string \<Rightarrow> config_setting option" where
  "config_lookup c path = map_option (deref (root c)) (config_setting_lookup (root c) path)"

section \<open>Typed lookups\<close>

definition config_lookup_string :: "config \<Rightarrow> string \<Rightarrow> string option got" where
  "config_lookup_string c path =
     (case config_lookup c path of None \<Rightarrow> Not_Got
      | Some s \<Rightarrow> if config_setting_type s \<noteq> CONFIG_TYPE_STRING then Not_Got
                    else Got (config_setting_get_string s))"

definition config_lookup_int :: "config \<Rightarrow> string \<Rightarrow> int got" where
  "config_lookup_int c path =
     (case config_lookup c path of None \<Rightarrow> Not_Got | Some s \<Rightarrow> config_setting_get_int_p c s)"

definition config_lookup_int64 :: "config \<Rightarrow> string \<Rightarrow> int got" where
  "config_lookup_int64 c path =
     (case config_lookup c path of None \<Rightarrow> Not_Got | Some s \<Rightarrow> config_setting_get_int64_p c s)"

definition config_lookup_float :: "config \<Rightarrow> string \<Rightarrow> dbl got" where
  "config_lookup_float c path =
     (case config_lookup c path of None \<Rightarrow> Not_Got | Some s \<Rightarrow> config_setting_get_float_p c s)"

definition config_lookup_bool :: "config \<Rightarrow> string \<Rightarrow> int got" where
  "config_lookup_bool c path =
     (case config_lookup c path of None \<Rightarrow> Not_Got
      | Some s \<Rightarrow> if config_setting_type s \<noteq> CONFIG_TYPE_BOOL then Not_Got else Got (config_setting_get_bool s))"

definition config_setting_lookup_int :: "config \<Rightarrow> config_setting \<Rightarrow> string \<Rightarrow> int got" where
  "config_setting_lookup_int c setting name =
     (case lookup_member setting name of None \<Rightarrow> Not_Got | Some s \<Rightarrow> config_setting_get_int_p c s)"

definition config_setting_lookup_int64 :: "config \<Rightarrow> config_setting \<Rightarrow> string \<Rightarrow> int got" where
  "config_setting_lookup_int64 c setting name =
     (case lookup_member setting name of None \<Rightarrow> Not_Got | Some s \<Rightarrow> config_setting_get_int64_p c s)"

definition config_setting_lookup_float :: "config \<Rightarrow> config_setting \<Rightarrow> string \<Rightarrow> dbl got" where
  "config_setting_lookup_float c setting name =
     (case lookup_member setting name of None \<Rightarrow> Not_Got | Some s \<Rightarrow> config_setting_get_float_p c s)"

definition config_setting_lookup_string :: "config_setting \<Rightarrow> string \<Rightarrow> string option got" where
  "config_setting_lookup_string setting name =
     (case lookup_member setting name of None \<Rightarrow> Not_Got
      | Some s \<Rightarrow> if config_setting_type s \<noteq> CONFIG_TYPE_STRING then Not_Got
                    else Got (config_setting_get_string s))"

definition config_setting_lookup_bool :: "config_setting \<Rightarrow> string \<Rightarrow> int got" where
  "config_setting_lookup_bool setting name =
     (case lookup_member setting name of None \<Rightarrow> Not_Got
      | Some s \<Rightarrow> if config_setting_type s \<noteq> CONFIG_TYPE_BOOL then Not_Got else Got (config_setting_get_bool s))"

section \<open>One step of a path\<close>

lemma lookup_from_nil [simp]: "lookup_from s t [] = Some t"
  by (subst lookup_from.simps) simp

lemma lookup_from_token: "is_path_token c \<Longrightarrow> lookup_from s t (c # p) = lookup_from s t p"
  by (subst (1 2) lookup_from.simps) simp

lemma get_member_seg:
  assumes "seg a = seg b"
  shows "config_setting_get_member s a = config_setting_get_member s b"
proof -
  have "search_from i xs a = search_from i xs b" for i xs
    using assms by (induction i xs a rule: search_from.induct) (simp_all add: name_compare_zero split: option.split)
  then show ?thesis
    by (simp add: config_setting_get_member_def config_list_search_def split: option.split)
qed

lemma valid_name_hd:
  assumes "config_validate_name n"
  obtains c cs where "n = c # cs" "c \<noteq> CHR ''[''" "\<not> is_path_token c"
proof (cases n)
  case (Cons c cs)
  moreover have "c \<noteq> CHR ''[''" using assms Cons by (auto simp: config_validate_name_def is_alpha_def)
  moreover have "\<not> is_path_token c" using valid_name_chars [OF assms, of c] Cons by simp
  ultimately show ?thesis using that by blast
qed (use assms in \<open>simp add: config_validate_name_def\<close>)

text \<open>The rest of a path after a name is empty or starts with a token.\<close>

definition path_rest :: "string \<Rightarrow> bool" where
  "path_rest p \<longleftrightarrow> p = [] \<or> is_path_token (hd p)"

lemma seg_append: "config_validate_name n \<Longrightarrow> path_rest p \<Longrightarrow> seg (n @ p) = n"
  by (cases p) (auto simp: seg_def path_rest_def takeWhile_append valid_name_chars)

lemma dropWhile_name:
  "config_validate_name n \<Longrightarrow> path_rest p \<Longrightarrow> dropWhile (\<lambda>c. \<not> is_path_token c) (n @ p) = p"
  by (cases p) (auto simp: path_rest_def dropWhile_append valid_name_chars)

lemma lookup_from_name:
  assumes "config_validate_name n" "path_rest p"
  shows "lookup_from s t (n @ p) =
    (case config_setting_get_member s n of None \<Rightarrow> None | Some i \<Rightarrow> lookup_from (children s ! i) (t @ [i]) p)"
proof -
  obtain c cs where c: "n = c # cs" "c \<noteq> CHR ''[''" "\<not> is_path_token c" by (rule valid_name_hd [OF assms(1)])
  have "config_setting_get_member s (n @ p) = config_setting_get_member s n"
    by (rule get_member_seg) (simp add: seg_append assms)
  then show ?thesis
    using dropWhile_name [OF assms] c by (subst lookup_from.simps) (simp add: Let_def split: option.split)
qed

lemma lookup_from_unfold:
  assumes "p = dropWhile is_path_token p0" "p1 = (if hd p = CHR ''['' then tl p else p)"
    and "found = (if hd p = CHR ''['' then config_setting_get_elem s (nat (atoi p1 mod 2 ^ 32))
      else config_setting_get_member s p)"
  shows "lookup_from s t p0 = (if p = [] then Some t else case found of
      None \<Rightarrow> if p1 = [] then Some t else None
    | Some i \<Rightarrow> lookup_from (children s ! i) (t @ [i]) (dropWhile (\<lambda>c. \<not> is_path_token c) p1))"
  unfolding assms by (subst lookup_from.simps) (simp only: Let_def)

lemma lookup_from_taken: "lookup_from s t p0 = map_option ((@) t) (lookup_from s [] p0)"
proof (induction "length p0" arbitrary: s t p0 rule: less_induct)
  case less
  define p where "p = dropWhile is_path_token p0"
  define p1 where "p1 = (if hd p = CHR ''['' then tl p else p)"
  define found where "found = (if hd p = CHR ''['' then config_setting_get_elem s (nat (atoi p1 mod 2 ^ 32))
     else config_setting_get_member s p)"
  let ?q = "dropWhile (\<lambda>c. \<not> is_path_token c) p1"
  note u = lookup_from_unfold [OF p_def p1_def found_def]
  show ?case
  proof (cases "p = [] \<or> found = None")
    case True
    then show ?thesis by (auto simp: u)
  next
    case False
    then obtain i where i: "found = Some i" by auto
    have "length ?q < length p0" using False p_def p1_def by (intro path_step_decreases) auto
    from less [OF this] have "lookup_from (children s ! i) (t' @ [i]) ?q
        = map_option ((@) (t' @ [i])) (lookup_from (children s ! i) [] ?q)" for t' .
    note ih = this
    have "(@) (t @ [i]) = (\<lambda>x. t @ i # x)" by (simp add: fun_eq_iff)
    with ih [of t] ih [of "[]"] show ?thesis using False i by (simp add: u option.map_comp comp_def)
  qed
qed

section \<open>Paths of names\<close>

text \<open>What a path of names means: one group after the other.\<close>

fun walk :: "config_setting \<Rightarrow> string list \<Rightarrow> config_setting option" where
  "walk s [] = Some s"
| "walk s (n # ns) = (if \<not> is_group s then None else case group_map s n of None \<Rightarrow> None | Some e \<Rightarrow> walk e ns)"

fun join_path :: "char \<Rightarrow> string list \<Rightarrow> string" where
  "join_path c [] = []"
| "join_path c [n] = n"
| "join_path c (n # ns) = n @ c # join_path c ns"

lemma member_of_group:
  assumes "wf_setting s" "config_validate_name n"
  shows "map_option ((!) (children s)) (config_setting_get_member s n) = (if is_group s then group_map s n else None)"
  using lookup_member_map(1) [OF assms(1), of n] assms(2)
  by (simp add: lookup_member_def config_setting_get_member_def is_group_def)

lemma wf_member:
  assumes "wf_setting s" "is_group s" "group_map s n = Some e"
  shows "wf_setting e"
proof -
  have "e \<in> set (children s)" using map_of_SomeD [OF assms(3) [unfolded group_map_def]] by auto
  then show ?thesis using wf_children(1) [OF assms(1)] assms(2) by simp
qed

lemma lookup_name_step:
  assumes "wf_setting s" "config_validate_name n" "path_rest p"
  shows "map_option (deref s) (lookup_from s [] (n @ p)) =
    (if is_group s then Option.bind (group_map s n) (\<lambda>e. map_option (deref e) (lookup_from e [] p)) else None)"
proof (cases "config_setting_get_member s n")
  case None
  then have "(if is_group s then group_map s n else None) = None"
    using member_of_group [OF assms(1,2)] by simp
  then show ?thesis using None by (simp add: lookup_from_name [OF assms(2,3)] split: if_splits)
next
  case (Some i)
  then have "is_group s" "group_map s n = Some (children s ! i)"
    using member_of_group [OF assms(1,2)] by (auto split: if_splits)
  then show ?thesis
    using Some lookup_from_taken [of "children s ! i" "[i]" p]
    by (simp add: lookup_from_name [OF assms(2,3)] option.map_comp comp_def)
qed

text \<open>
  C30. A path of names finds what walking from group to group finds. Joined with any of the
  three path tokens, valid names lead from a setting to the member of the member and so on,
  and the lookup fails as soon as a setting on the way is not a group or lacks the name.
\<close>

theorem lookup_walks:
  assumes "wf_setting s" "\<forall>n \<in> set ns. config_validate_name n" "is_path_token c"
  shows "map_option (deref s) (config_setting_lookup s (join_path c ns)) = walk s ns"
  unfolding config_setting_lookup_def using assms(1,2)
proof (induction ns arbitrary: s)
  case (Cons n ns)
  have n: "config_validate_name n" using Cons.prems by simp
  have "lookup_from e [] (if ns = [] then [] else c # join_path c ns) = lookup_from e [] (join_path c ns)" for e
    using assms(3) by (simp add: lookup_from_token)
  moreover have "join_path c (n # ns) = n @ (if ns = [] then [] else c # join_path c ns)" by (cases ns) simp_all
  moreover have "path_rest (if ns = [] then [] else c # join_path c ns)" using assms(3) by (simp add: path_rest_def)
  ultimately have "map_option (deref s) (lookup_from s [] (join_path c (n # ns))) = (if is_group s
      then Option.bind (group_map s n) (\<lambda>e. map_option (deref e) (lookup_from e [] (join_path c ns))) else None)"
    using lookup_name_step [OF Cons.prems(1) n] by simp
  also have "\<dots> = walk s (n # ns)"
    using Cons.IH [OF wf_member [OF Cons.prems(1)]] Cons.prems(2) by (auto split: option.split)
  finally show ?case .
qed simp

theorem lookup_walks_witness:
  "map_option (deref demo_group) (config_setting_lookup demo_group (join_path CHR ''.'' [''debug'']))
     = Some (new_setting ''debug'' CONFIG_TYPE_BOOL)"
proof -
  have "walk demo_group [''debug''] = Some (new_setting ''debug'' CONFIG_TYPE_BOOL)"
    using demo_group_ok(2) by (simp add: group_map_def children_def demo_group_def new_setting_def)
  moreover have "\<forall>n \<in> set [''debug'']. config_validate_name n" "is_path_token CHR ''.''" by code_simp+
  ultimately show ?thesis
    using lookup_walks [OF demo_group_ok(1), of "[''debug'']" "CHR ''.''"] by (simp del: walk.simps join_path.simps)
qed



section \<open>Typed lookups of a name\<close>

lemma config_lookup_name:
  assumes "wf_setting (root c)" "is_group (root c)" "config_validate_name n"
  shows "config_lookup c n = group_map (root c) n"
proof -
  have "map_option (deref (root c)) (lookup_from (root c) [] (n @ []))
      = Option.bind (group_map (root c) n) (\<lambda>e. map_option (deref e) (lookup_from e [] []))"
    using lookup_name_step [OF assms(1,3), of "[]"] assms(2) by (simp add: path_rest_def)
  then show ?thesis by (simp add: config_lookup_def config_setting_lookup_def)
qed

section \<open>Every pointer is into the tree\<close>

fun valid_path :: "config_setting \<Rightarrow> nat list \<Rightarrow> bool" where
  "valid_path s [] = True"
| "valid_path s (i # is) = (i < length (children s) \<and> valid_path (children s ! i) is)"

lemma get_elem_range: "config_setting_get_elem s k = Some i \<Longrightarrow> i < length (children s)"
  by (auto simp: config_setting_get_elem_def children_def split: option.splits if_splits)

lemma get_member_range: "config_setting_get_member s n = Some i \<Longrightarrow> i < length (children s)"
  using search_from_range
  by (fastforce simp: config_setting_get_member_def config_list_search_def children_def
      split: option.splits if_splits)

lemma lookup_in_tree:
  "config_setting_lookup s path = Some is \<Longrightarrow> valid_path s is"
  unfolding config_setting_lookup_def
proof (induction "length path" arbitrary: s path "is" rule: less_induct)
  case less
  define p where "p = dropWhile is_path_token path"
  define p1 where "p1 = (if hd p = CHR ''['' then tl p else p)"
  define found where "found = (if hd p = CHR ''['' then config_setting_get_elem s (nat (atoi p1 mod 2 ^ 32))
     else config_setting_get_member s p)"
  let ?q = "dropWhile (\<lambda>c. \<not> is_path_token c) p1"
  note r = less.prems [unfolded lookup_from_unfold [OF p_def p1_def found_def]]
  show ?case
  proof (cases "p = [] \<or> found = None")
    case True
    then show ?thesis using r by (auto split: if_splits)
  next
    case False
    then obtain i where i: "found = Some i" by auto
    then obtain js where js: "is = i # js" "lookup_from (children s ! i) [] ?q = Some js"
      using r False lookup_from_taken [of "children s ! i" "[i]" ?q] by auto
    have "length ?q < length path" using False p_def p1_def by (intro path_step_decreases) auto
    then have "valid_path (children s ! i) js" using less.hyps js(2) by blast
    moreover have "i < length (children s)"
      using i get_elem_range get_member_range by (auto simp: found_def split: if_splits)
    ultimately show ?thesis using js(1) by simp
  qed
qed

text \<open>
  C32. Whatever the path, a lookup that succeeds returns a setting of the tree: no position
  on the way is outside the list it indexes, for names, numbers in brackets of any size or
  sign, and malformed paths alike.
\<close>

theorem lookup_stays_in_tree:
  "config_setting_lookup s path = Some is \<Longrightarrow> valid_path s is"
  by (rule lookup_in_tree)

theorem lookup_stays_in_tree_witness:
  "config_setting_lookup demo_group ''debug'' = Some [0] \<and> valid_path demo_group [0]"
proof -
  have "config_setting_get_member demo_group ''debug'' = Some 0"
    by (simp add: config_setting_get_member_def demo_group_def config_setting_type_def config_list_search_def
        new_setting_def name_compare_zero)
  moreover have "config_validate_name ''debug''" by code_simp
  ultimately have r: "config_setting_lookup demo_group ''debug'' = Some [0]"
    using lookup_from_name [of "''debug''" "[]" demo_group "[]"]
    by (simp add: config_setting_lookup_def path_rest_def)
  from lookup_stays_in_tree [OF r] r show ?thesis by simp
qed

end
