(* ===== verification/Parser.thy ===== *)
theory Parser
  imports Grammar_Tables Scanner Config_Lookup
begin

text \<open>
  The parser of configuration files: the LALR(1) automaton \<^verbatim>\<open>libconfig_yyparse\<close> that
  bison has generated into \<^verbatim>\<open>grammar.c\<close>, with the actions of the grammar, which
  build the settings tree.
\<close>

section \<open>Parse context\<close>

text \<open>
  The pointers \<^verbatim>\<open>parent\<close> and \<^verbatim>\<open>setting\<close> are chains of positions from the root
  of the configuration, or null.
\<close>

record parse_context =
  pc_parent :: "nat list option"
  pc_setting :: "nat list option"
  pc_string :: strbuf

definition parsectx_init :: parse_context where
  "parsectx_init = \<lparr>pc_parent = None, pc_setting = None, pc_string = strbuf_zero\<rparr>"

text \<open>A change of the setting a pointer names.\<close>

fun update_at :: "nat list \<Rightarrow> (config_setting \<Rightarrow> config_setting) \<Rightarrow> config_setting \<Rightarrow> config_setting" where
  "update_at [] f s = f s"
| "update_at (i # is) f s = put_child i (update_at is f (children s ! i)) s"

definition update_setting :: "nat list \<Rightarrow> (config_setting \<Rightarrow> config_setting) \<Rightarrow> config \<Rightarrow> config" where
  "update_setting p f config = config\<lparr>root := update_at p f (root config)\<rparr>"

definition set_at :: "nat list \<Rightarrow> config_setting \<Rightarrow> config \<Rightarrow> config" where
  "set_at p s config = update_setting p (\<lambda>_. s) config"

definition parent_type :: "parse_context \<Rightarrow> config \<Rightarrow> int option" where
  "parent_type ctx config = map_option (\<lambda>p. config_setting_type (deref (root config) p)) (pc_parent ctx)"

definition IN_ARRAY :: "parse_context \<Rightarrow> config \<Rightarrow> bool" where
  "IN_ARRAY ctx config \<longleftrightarrow> parent_type ctx config = Some CONFIG_TYPE_ARRAY"

definition IN_LIST :: "parse_context \<Rightarrow> config \<Rightarrow> bool" where
  "IN_LIST ctx config \<longleftrightarrow> parent_type ctx config = Some CONFIG_TYPE_LIST"

definition capture_parse_pos :: "yyguts \<Rightarrow> config_setting \<Rightarrow> config_setting" where
  "capture_parse_pos yyg s =
     (case s of Setting n f v h _ _ \<Rightarrow>
        Setting n f v h (nat (yyget_lineno yyg mod 2 ^ 32)) (scanctx_current_filename (yy_extra yyg)))"

definition yyerror :: "yyguts \<Rightarrow> string \<Rightarrow> config \<Rightarrow> config" where
  "yyerror yyg s config =
     (if error_text config \<noteq> None then config
      else config\<lparr>error_line := yyget_lineno yyg, error_text := Some s\<rparr>)"

definition err_array_elem_type :: string where
  "err_array_elem_type = ''mismatched element type in array''"

definition err_duplicate_setting :: string where
  "err_duplicate_setting = ''duplicate setting name''"

section \<open>Actions\<close>

text \<open>An action goes on, aborts the parser, or is undefined.\<close>

datatype act_result = Act_Ok parse_context config | Act_Abort config | Act_Undefined

text \<open>\<^verbatim>\<open>config_setting_add\<close> through the pointer \<^verbatim>\<open>parent\<close>; the result names the new child.\<close>

definition add_to_parent ::
    "parse_context \<Rightarrow> string option \<Rightarrow> int \<Rightarrow> config \<Rightarrow> (nat list \<times> config) c_result" where
  "add_to_parent ctx name type config =
     (case pc_parent ctx of
        None \<Rightarrow> Null
      | Some p \<Rightarrow>
          (case config_setting_add (deref (root config) p) name type of
             Ptr s \<Rightarrow> Ptr (p @ [length (children s) - 1], set_at p s config)
           | Null \<Rightarrow> Null
           | Undefined \<Rightarrow> Undefined))"

definition act_name :: "yyguts \<Rightarrow> string \<Rightarrow> parse_context \<Rightarrow> config \<Rightarrow> act_result" where
  "act_name yyg name ctx config =
     (case add_to_parent ctx (Some name) CONFIG_TYPE_NONE config of
        Ptr (q, config1) \<Rightarrow> Act_Ok (ctx\<lparr>pc_setting := Some q\<rparr>) (update_setting q (capture_parse_pos yyg) config1)
      | Null \<Rightarrow> Act_Abort (yyerror yyg err_duplicate_setting config)
      | Undefined \<Rightarrow> Act_Undefined)"

text \<open>
  The start of an array, list or group. Outside a list the setting that was named becomes the
  aggregate: its type is overwritten and its value, which is still zero, is kept.
\<close>

definition act_open :: "yyguts \<Rightarrow> int \<Rightarrow> parse_context \<Rightarrow> config \<Rightarrow> act_result" where
  "act_open yyg type ctx config =
     (if IN_LIST ctx config
      then (case add_to_parent ctx None type config of
              Ptr (q, config1) \<Rightarrow> Act_Ok (ctx\<lparr>pc_parent := Some q\<rparr>) (update_setting q (capture_parse_pos yyg) config1)
            | _ \<Rightarrow> Act_Undefined)
      else (case pc_setting ctx of
              None \<Rightarrow> Act_Undefined
            | Some q \<Rightarrow>
                if s_value (deref (root config) q) = V_None
                then Act_Ok (ctx\<lparr>pc_parent := Some q, pc_setting := None\<rparr>) (update_setting q (set_value (zero_value type)) config)
                else Act_Undefined))"

definition act_close :: "parse_context \<Rightarrow> config \<Rightarrow> act_result" where
  "act_close ctx config =
     Act_Ok (ctx\<lparr>pc_parent := (case pc_parent ctx of None \<Rightarrow> None
        | Some p \<Rightarrow> if p = [] then None else Some (butlast p))\<rparr>) config"

definition act_string :: "string \<Rightarrow> parse_context \<Rightarrow> config \<Rightarrow> act_result" where
  "act_string s ctx config =
     (case strbuf_append (pc_string ctx) s of
        Ptr b \<Rightarrow> Act_Ok (ctx\<lparr>pc_string := b\<rparr>) config
      | _ \<Rightarrow> Act_Undefined)"

text \<open>
  The actions of the values have one shape. In an array or a list a new element is made and,
  for integers, given its format; elsewhere the setting that was named gets the value, and the
  results of the calls are not looked at.
\<close>

definition or_same :: "'a option \<Rightarrow> 'a \<Rightarrow> 'a" where
  "or_same r s = (case r of None \<Rightarrow> s | Some s' \<Rightarrow> s')"

definition act_value ::
    "yyguts \<Rightarrow> (config_setting \<Rightarrow> (config_setting \<times> nat) c_result) \<Rightarrow> (config_setting \<Rightarrow> config_setting c_result)
     \<Rightarrow> int option \<Rightarrow> parse_context \<Rightarrow> config \<Rightarrow> act_result" where
  "act_value yyg elem_setter setter format ctx config =
     (let fmt = (\<lambda>e. case format of None \<Rightarrow> e | Some f \<Rightarrow> or_same (config_setting_set_format e f) e)
      in if IN_ARRAY ctx config \<or> IN_LIST ctx config
         then (case pc_parent ctx of
                 None \<Rightarrow> Act_Undefined
               | Some p \<Rightarrow>
                   (case elem_setter (deref (root config) p) of
                      Ptr (v, k) \<Rightarrow>
                        Act_Ok ctx (set_at p (put_child k (capture_parse_pos yyg (fmt (children v ! k))) v) config)
                    | Null \<Rightarrow> Act_Abort (yyerror yyg err_array_elem_type config)
                    | Undefined \<Rightarrow> Act_Undefined))
         else (case pc_setting ctx of
                 None \<Rightarrow> Act_Undefined
               | Some q \<Rightarrow>
                   (case setter (deref (root config) q) of
                      Ptr s \<Rightarrow> Act_Ok ctx (set_at q (fmt s) config)
                    | Null \<Rightarrow> Act_Ok ctx (set_at q (fmt (deref (root config) q)) config)
                    | Undefined \<Rightarrow> Act_Undefined)))"

definition act_bool :: "yyguts \<Rightarrow> int \<Rightarrow> parse_context \<Rightarrow> config \<Rightarrow> act_result" where
  "act_bool yyg v ctx config =
     act_value yyg (\<lambda>a. config_setting_set_bool_elem a (- 1) v) (\<lambda>s. ptr_option (config_setting_set_bool s v))
       None ctx config"

definition act_int :: "yyguts \<Rightarrow> int \<Rightarrow> int \<Rightarrow> parse_context \<Rightarrow> config \<Rightarrow> act_result" where
  "act_int yyg v format ctx config =
     act_value yyg (\<lambda>a. config_setting_set_int_elem config a (- 1) v) (\<lambda>s. ptr_option (config_setting_set_int config s v))
       (Some format) ctx config"

definition act_int64 :: "yyguts \<Rightarrow> int \<Rightarrow> int \<Rightarrow> parse_context \<Rightarrow> config \<Rightarrow> act_result" where
  "act_int64 yyg v format ctx config =
     act_value yyg (\<lambda>a. config_setting_set_int64_elem config a (- 1) v)
       (\<lambda>s. ptr_option (config_setting_set_int64 config s v)) (Some format) ctx config"

definition act_float :: "yyguts \<Rightarrow> dbl \<Rightarrow> parse_context \<Rightarrow> config \<Rightarrow> act_result" where
  "act_float yyg d ctx config =
     act_value yyg (\<lambda>a. config_setting_set_float_elem config a (- 1) d) (\<lambda>s. config_setting_set_float config s d)
       None ctx config"

definition act_take_string :: "yyguts \<Rightarrow> parse_context \<Rightarrow> config \<Rightarrow> act_result" where
  "act_take_string yyg ctx config =
     (let (s, b) = strbuf_release (pc_string ctx)
      in act_value yyg (\<lambda>a. config_setting_set_string_elem a (- 1) s) (\<lambda>e. ptr_option (config_setting_set_string e s))
           None (ctx\<lparr>pc_string := b\<rparr>) config)"

text \<open>
  The switch over the rules; \<open>top\<close> is \<^verbatim>\<open>yyvsp[0]\<close>. Reading a member of the union that
  was not written is undefined.
\<close>

definition yy_rule_action :: "yyguts \<Rightarrow> nat \<Rightarrow> yystype \<Rightarrow> parse_context \<Rightarrow> config \<Rightarrow> act_result" where
  "yy_rule_action yyg rule v ctx config =
     (if rule = 11 then (case v of Y_String s \<Rightarrow> act_name yyg s ctx config | _ \<Rightarrow> Act_Undefined)
      else if rule = 13 then act_open yyg CONFIG_TYPE_ARRAY ctx config
      else if rule = 15 then act_open yyg CONFIG_TYPE_LIST ctx config
      else if rule = 38 then act_open yyg CONFIG_TYPE_GROUP ctx config
      else if rule = 14 \<or> rule = 16 \<or> rule = 39 then act_close ctx config
      else if rule = 21 \<or> rule = 22 then (case v of Y_String s \<Rightarrow> act_string s ctx config | _ \<Rightarrow> Act_Undefined)
      else if rule = 23 then (case v of Y_Int i \<Rightarrow> act_bool yyg i ctx config | _ \<Rightarrow> Act_Undefined)
      else if rule = 24 then (case v of Y_Int i \<Rightarrow> act_int yyg i CONFIG_FORMAT_DEFAULT ctx config | _ \<Rightarrow> Act_Undefined)
      else if rule = 25 then (case v of Y_Int64 i \<Rightarrow> act_int64 yyg i CONFIG_FORMAT_DEFAULT ctx config | _ \<Rightarrow> Act_Undefined)
      else if rule = 26 then (case v of Y_Int i \<Rightarrow> act_int yyg i CONFIG_FORMAT_HEX ctx config | _ \<Rightarrow> Act_Undefined)
      else if rule = 27 then (case v of Y_Int64 i \<Rightarrow> act_int64 yyg i CONFIG_FORMAT_HEX ctx config | _ \<Rightarrow> Act_Undefined)
      else if rule = 28 then (case v of Y_Float d \<Rightarrow> act_float yyg d ctx config | _ \<Rightarrow> Act_Undefined)
      else if rule = 29 then act_take_string yyg ctx config
      else Act_Ok ctx config)"

section \<open>The automaton\<close>

text \<open>
  The stacks have their top first. \<open>ps_char\<close> is \<open>None\<close> for \<^verbatim>\<open>YYEMPTY\<close>.
\<close>

record yyparse_state =
  ps_yyss :: "nat list"
  ps_yyvs :: "yystype list"
  ps_stacksize :: nat
  ps_char :: "nat option"
  ps_lval :: yystype
  ps_errstatus :: nat
  ps_scanner :: yyguts
  ps_ctx :: parse_context
  ps_config :: config

datatype parse_step = Parse_Goes_On yyparse_state | Parse_Returns int yyparse_state
  | Parse_Fatal string | Parse_Undefined | Parse_Range

definition parse_exhausted :: "yyparse_state \<Rightarrow> parse_step" where
  "parse_exhausted st =
     Parse_Returns 2 (st\<lparr>ps_config := yyerror (ps_scanner st) ''memory exhausted'' (ps_config st)\<rparr>)"

text \<open>The label \<^verbatim>\<open>yynewstate\<close>: push a state, make room, and accept in the final state.\<close>

definition yynewstate :: "nat \<Rightarrow> yyparse_state \<Rightarrow> parse_step" where
  "yynewstate s st =
     (let st1 = st\<lparr>ps_yyss := s # ps_yyss st\<rparr>;
          n = length (ps_yyss st1);
          accept = (\<lambda>st. if s = YYFINAL then Parse_Returns 0 st else Parse_Goes_On st)
      in if ps_stacksize st1 \<le> n
         then (if YYMAXDEPTH \<le> ps_stacksize st1 then parse_exhausted st1
               else
                 (let st2 = st1\<lparr>ps_stacksize := min YYMAXDEPTH (2 * ps_stacksize st1)\<rparr>
                  in if ps_stacksize st2 \<le> n then Parse_Returns 1 st2 else accept st2))
         else accept st1)"

text \<open>The label \<^verbatim>\<open>yyreduce\<close>. A rule that does not exist would read outside the tables.\<close>

definition yygoto :: "nat \<Rightarrow> nat \<Rightarrow> int" where
  "yygoto lhs s =
     (let i = yypgoto ! lhs + int s
      in if 0 \<le> i \<and> i \<le> int YYLAST \<and> yycheck ! nat i = int s then int (yytable ! nat i) else yydefgoto ! lhs)"

definition yyreduce :: "nat \<Rightarrow> yyparse_state \<Rightarrow> parse_step" where
  "yyreduce rule st =
     (let len = yyr2 ! rule;
          yyval = (if len = 0 then Y_None else ps_yyvs st ! (len - 1))
      in if yyr1 ! rule < YYNTOKENS \<or> length (ps_yyss st) \<le> len \<or> length (ps_yyvs st) \<le> len then Parse_Undefined
         else
           (case yy_rule_action (ps_scanner st) rule (hd (ps_yyvs st)) (ps_ctx st) (ps_config st) of
              Act_Undefined \<Rightarrow> Parse_Undefined
            | Act_Abort config \<Rightarrow> Parse_Returns 1 (st\<lparr>ps_config := config\<rparr>)
            | Act_Ok ctx config \<Rightarrow>
                (let ss = drop len (ps_yyss st);
                     g = yygoto (yyr1 ! rule - YYNTOKENS) (hd ss)
                 in if g < 0 then Parse_Undefined
                    else yynewstate (nat g) (st\<lparr>ps_yyss := ss, ps_yyvs := yyval # drop len (ps_yyvs st),
                           ps_ctx := ctx, ps_config := config\<rparr>))))"

text \<open>
  The labels \<^verbatim>\<open>yyerrlab\<close> and \<^verbatim>\<open>yyerrlab1\<close>: report the error, then pop states until
  one can shift the error token.
\<close>

definition shift_error :: "nat \<Rightarrow> nat option" where
  "shift_error s =
     (let n = yypact ! s; i = n + int YYTERROR
      in if n \<noteq> YYPACT_NINF \<and> 0 \<le> i \<and> i \<le> int YYLAST \<and> yycheck ! nat i = int YYTERROR \<and> 0 < yytable ! nat i
         then Some (yytable ! nat i) else None)"

fun yyerrlab1 :: "nat list \<Rightarrow> yystype list \<Rightarrow> yyparse_state \<Rightarrow> parse_step" where
  "yyerrlab1 (s # ss) (v # vs) st =
     (case shift_error s of
        Some t \<Rightarrow> yynewstate t (st\<lparr>ps_yyss := s # ss, ps_yyvs := ps_lval st # v # vs\<rparr>)
      | None \<Rightarrow> if ss = [] then Parse_Returns 1 st else yyerrlab1 ss vs st)"
| "yyerrlab1 _ _ st = Parse_Undefined"

definition yyerrlab :: "yyparse_state \<Rightarrow> parse_step" where
  "yyerrlab st =
     (let st1 = (if ps_errstatus st = 0
                 then st\<lparr>ps_config := yyerror (ps_scanner st) ''syntax error'' (ps_config st)\<rparr> else st)
      in if ps_errstatus st = 3 \<and> ps_char st1 = Some YYEOF then Parse_Returns 1 st1
         else
           (let st2 = (if ps_errstatus st = 3 then st1\<lparr>ps_char := None\<rparr> else st1)
            in yyerrlab1 (ps_yyss st2) (ps_yyvs st2) (st2\<lparr>ps_errstatus := 3\<rparr>)))"

definition yydefault :: "yyparse_state \<Rightarrow> parse_step" where
  "yydefault st = (let r = yydefact ! hd (ps_yyss st) in if r = 0 then yyerrlab st else yyreduce r st)"

text \<open>The decision with a lookahead token.\<close>

definition yyshift :: "nat \<Rightarrow> yyparse_state \<Rightarrow> parse_step" where
  "yyshift t st =
     (let i = yypact ! hd (ps_yyss st) + int (YYTRANSLATE t)
      in if i < 0 \<or> int YYLAST < i \<or> yycheck ! nat i \<noteq> int (YYTRANSLATE t) then yydefault st
         else if yytable ! nat i = 0 then yyreduce 0 st
         else yynewstate (yytable ! nat i)
                (st\<lparr>ps_char := None, ps_errstatus := ps_errstatus st - 1, ps_yyvs := ps_lval st # ps_yyvs st\<rparr>))"

text \<open>
  The label \<^verbatim>\<open>yybackup\<close>: a state that needs no lookahead reduces; otherwise a token is
  read, if there is none yet. The outcome \<open>None\<close> is a scanner that does not return.
\<close>

definition yybackup :: "file_system \<Rightarrow> yyparse_state \<Rightarrow> parse_step option" where
  "yybackup fs st =
     (if yypact ! hd (ps_yyss st) = YYPACT_NINF then Some (yydefault st)
      else
        (case ps_char st of
           Some t \<Rightarrow> Some (yyshift t st)
         | None \<Rightarrow>
             (case yylex fs (ps_config st) (ps_scanner st) of
                None \<Rightarrow> None
              | Some (Token t v, config, yyg) \<Rightarrow>
                  Some (yyshift t (st\<lparr>ps_char := Some t, ps_lval := (case v of None \<Rightarrow> ps_lval st | Some x \<Rightarrow> x),
                                      ps_config := config, ps_scanner := yyg\<rparr>))
              | Some (Lex_Fatal msg, config, yyg) \<Rightarrow> Some (Parse_Fatal msg)
              | Some (Lex_Undefined, config, yyg) \<Rightarrow> Some Parse_Undefined
              | Some (Lex_Range, config, yyg) \<Rightarrow> Some Parse_Range)))"

partial_function (option) yyparse_loop :: "file_system \<Rightarrow> yyparse_state \<Rightarrow> parse_step option" where
  "yyparse_loop fs st =
     (case yybackup fs st of
        None \<Rightarrow> None
      | Some (Parse_Goes_On st1) \<Rightarrow> yyparse_loop fs st1
      | Some r \<Rightarrow> Some r)"

declare yyparse_loop.simps [code]

definition yyparse_start :: "yyguts \<Rightarrow> parse_context \<Rightarrow> config \<Rightarrow> yyparse_state" where
  "yyparse_start yyg ctx config =
     \<lparr>ps_yyss = [0], ps_yyvs = [Y_None], ps_stacksize = YYINITDEPTH, ps_char = None, ps_lval = Y_None,
      ps_errstatus = 0, ps_scanner = yyg, ps_ctx = ctx, ps_config = config\<rparr>"

definition yyparse :: "file_system \<Rightarrow> yyguts \<Rightarrow> parse_context \<Rightarrow> config \<Rightarrow> parse_step option" where
  "yyparse fs yyg ctx config = yyparse_loop fs (yyparse_start yyg ctx config)"

end
