(* ===== verification/Config_Reader.thy ===== *)
theory Config_Reader
  imports Parser
begin

text \<open>
  Reading a configuration in \<^verbatim>\<open>libconfig.c\<close>: from a stream, from a string and from a
  file.
\<close>

text \<open>
  What a read ends with: success or not with the configuration, what was echoed to the output
  and the trace of the include streams; the end of the process with a message of flex;
  undefined behaviour; or a floating point number outside the model.
\<close>

datatype read_result = Read_Done bool config string "stream_event list" | Read_Exit string | Read_Undefined | Read_Range

text \<open>The hooks that destroying a configuration hands to the destructor.\<close>

definition config_destroy :: "config \<Rightarrow> nat list" where
  "config_destroy config = config_setting_destroy (root config)"

text \<open>What the scanner reads: a stream or a string.\<close>

datatype input_source = Stream file_node | Text string

definition source_buffer :: "input_source \<Rightarrow> yy_buffer_state" where
  "source_buffer src = (case src of Stream node \<Rightarrow> yy_create_buffer node | Text str \<Rightarrow> yy_scan_string str)"

text \<open>The configuration is made anew; only these fields survive.\<close>

definition config_reinit :: "config \<Rightarrow> config" where
  "config_reinit config =
     config_init\<lparr>include_dir := include_dir config, tab_width := tab_width config, options := options config\<rparr>"

fun unwind_includes :: "nat \<Rightarrow> 'b scan_context \<Rightarrow> 'b scan_context" where
  "unwind_includes 0 ctx = ctx"
| "unwind_includes (Suc n) ctx =
     (case scanctx_pop_include ctx of (None, c) \<Rightarrow> c | (Some b, c) \<Rightarrow> unwind_includes n c)"

definition config_read_end :: "int \<Rightarrow> config \<Rightarrow> yyguts \<Rightarrow> read_result" where
  "config_read_end r config yyg =
     (let ctx = yy_extra yyg;
          config1 = (if r \<noteq> 0 then config\<lparr>error_file := scanctx_current_filename ctx, error_type := CONFIG_ERR_PARSE\<rparr>
                     else config);
          ctx1 = (if r \<noteq> 0 then unwind_includes (sc_depth ctx) ctx else ctx);
          (names, ctx2) = scanctx_cleanup ctx1
      in Read_Done (r = 0) (config1\<lparr>filenames := names\<rparr>) (yy_out yyg) (sc_log ctx2))"

text \<open>\<^verbatim>\<open>__config_read\<close>.\<close>

definition config_read_p ::
    "file_system \<Rightarrow> config \<Rightarrow> input_source \<Rightarrow> string option \<Rightarrow> read_result option" where
  "config_read_p fs config src filename =
     (case scanctx_init filename of
        Ptr ctx \<Rightarrow>
          (let config1 = update_setting [] (\<lambda>s. case s of Setting n f v h l _ \<Rightarrow>
                 Setting n f v h l (scanctx_current_filename ctx)) (config_reinit config);
               parse_ctx = parsectx_init\<lparr>pc_parent := Some [], pc_setting := Some []\<rparr>
           in case yyparse fs (yylex_init_extra ctx (source_buffer src)) parse_ctx config1 of
                None \<Rightarrow> None
              | Some (Parse_Returns r st) \<Rightarrow> Some (config_read_end r (ps_config st) (ps_scanner st))
              | Some (Parse_Fatal msg) \<Rightarrow> Some (Read_Exit msg)
              | Some Parse_Range \<Rightarrow> Some Read_Range
              | Some _ \<Rightarrow> Some Read_Undefined)
      | _ \<Rightarrow> Some Read_Undefined)"

definition config_read :: "file_system \<Rightarrow> config \<Rightarrow> file_node \<Rightarrow> read_result option" where
  "config_read fs config stream = config_read_p fs config (Stream stream) None"

definition config_read_string :: "file_system \<Rightarrow> config \<Rightarrow> string \<Rightarrow> read_result option" where
  "config_read_string fs config str = config_read_p fs config (Text str) None"

definition io_error :: string where
  "io_error = ''file I/O error''"

text \<open>A directory is refused before anything is read.\<close>

definition config_read_file :: "file_system \<Rightarrow> config \<Rightarrow> string \<Rightarrow> read_result option" where
  "config_read_file fs config filename =
     (case fs filename of
        Some (Regular text) \<Rightarrow> config_read_p fs config (Stream (Regular text)) (Some filename)
      | _ \<Rightarrow> Some (Read_Done False (config\<lparr>error_text := Some io_error, error_type := CONFIG_ERR_FILE_IO\<rparr>) [] []))"

end
