(* ===== verification/Config_File.thy ===== *)
theory Config_File
  imports SNTP_Tools Config_Reader
begin

text \<open>
  The configuration file of the two programs: \<^verbatim>\<open>setup_config_file\<close> of
  \<^verbatim>\<open>reusedlib.c\<close> and the lookups the programs make in what it returns.
\<close>

section \<open>Opening the file\<close>

text \<open>
  Settings as loaded, an exit of the program with a status, or behaviour that is undefined or
  outside the model. The outcome \<open>None\<close> of the functions below is a call that does not return.
\<close>

datatype 'a load_result = Loaded 'a | Load_Exit int | Load_Undefined

text \<open>A null pointer is printed as \<^verbatim>\<open>(null)\<close>.\<close>

definition fmt_s :: "string option \<Rightarrow> string" where
  "fmt_s s = (case s of None \<Rightarrow> ''(null)'' | Some t \<Rightarrow> t)"

definition setup_config_file :: "file_system \<Rightarrow> string \<Rightarrow> world \<Rightarrow> (config load_result \<times> world) option" where
  "setup_config_file fs config_file w =
     (case config_read_file fs config_init config_file of
        None \<Rightarrow> None
      | Some (Read_Done ok cfg echoed _) \<Rightarrow>
          (let w1 = (if echoed = [] then w else printf echoed w)
           in if \<not> ok
              then Some (Load_Exit 1, eprintf (''error reading config file('' @ fmt_s (error_file cfg) @ '':''
                     @ fmt_d (error_line cfg) @ '' - '' @ fmt_s (error_text cfg) @ '')'' @ NL) w1)
              else Some (Loaded cfg, w1))
      | Some (Read_Exit msg) \<Rightarrow> Some (Load_Exit 2, eprintf (msg @ NL) w)
      | Some _ \<Rightarrow> Some (Load_Undefined, w))"

section \<open>Lookups in the returned structure\<close>

text \<open>
  \<^verbatim>\<open>setup_config_file\<close> returns its local variable by value, and every setting keeps the
  address of that variable in its field \<^verbatim>\<open>config\<close>. The integer lookup reads the options
  through it when the setting is a float, which is an access to an object that is gone.
\<close>

definition returned_lookup_int :: "config \<Rightarrow> string \<Rightarrow> int got" where
  "returned_lookup_int cfg path =
     (case config_lookup cfg path of
        None \<Rightarrow> Not_Got
      | Some s \<Rightarrow> if config_setting_type s = CONFIG_TYPE_FLOAT then Got_Undefined
                    else config_setting_get_int_p cfg s)"

text \<open>
  A lookup that succeeds overwrites the variable; a string setting without a string would
  leave a null pointer in it.
\<close>

fun got_into :: "('a \<Rightarrow> 's \<Rightarrow> 's) \<Rightarrow> 'a got \<Rightarrow> 's load_result \<Rightarrow> 's load_result" where
  "got_into upd (Got x) (Loaded s) = Loaded (upd x s)"
| "got_into upd Not_Got (Loaded s) = Loaded s"
| "got_into upd Got_Undefined (Loaded s) = Load_Undefined"
| "got_into upd g r = r"

fun got_text :: "string option got \<Rightarrow> string got" where
  "got_text (Got (Some s)) = Got s"
| "got_text (Got None) = Got_Undefined"
| "got_text Not_Got = Not_Got"
| "got_text Got_Undefined = Got_Undefined"

end
