(* ===== verification/Getopt.thy ===== *)
theory Getopt
  imports SNTP_Tools C_Text
begin

text \<open>
  \<^verbatim>\<open>getopt\<close> of the GNU C library, which \<^verbatim>\<open>parse_command_line\<close> of the client
  calls: the permuting scan with the variables the library keeps between calls, so that the
  client's loop, which tests \<^verbatim>\<open>optind\<close> itself, can be followed call by call.
\<close>

section \<open>State\<close>

record getopt_state =
  g_argv :: "string list"
  optind :: nat
  nextchar :: string
  first_nonopt :: nat
  last_nonopt :: nat
  optarg :: string
  optopt :: char

definition getopt_init :: "string list \<Rightarrow> getopt_state" where
  "getopt_init argv = \<lparr>g_argv = argv, optind = 1, nextchar = [], first_nonopt = 1, last_nonopt = 1,
     optarg = [], optopt = CHR ''?''\<rparr>"

definition nonoption :: "string \<Rightarrow> bool" where
  "nonoption s \<longleftrightarrow> s = [] \<or> hd s \<noteq> CHR ''-'' \<or> tl s = []"

text \<open>Swap the operands that were skipped with the options that follow them.\<close>

definition exchange :: "getopt_state \<Rightarrow> getopt_state" where
  "exchange g =
     (let f = first_nonopt g; l = last_nonopt g; i = optind g; a = g_argv g
      in g\<lparr>g_argv := take f a @ take (i - l) (drop l a) @ take (l - f) (drop f a) @ drop i a,
           first_nonopt := f + (i - l), last_nonopt := i\<rparr>)"

text \<open>What an option string says of a letter: unknown, a flag, or one with an argument.\<close>

fun opt_spec :: "string \<Rightarrow> char \<Rightarrow> bool option" where
  "opt_spec [] c = None"
| "opt_spec (x # xs) c = (if x = c then Some (xs \<noteq> [] \<and> hd xs = CHR '':'') else opt_spec xs c)"

section \<open>One call\<close>

text \<open>
  The search for the next argument that holds options; \<open>True\<close> is the result
  \<^verbatim>\<open>-1\<close>.
\<close>

definition getopt_next :: "getopt_state \<Rightarrow> bool \<times> getopt_state" where
  "getopt_next g0 =
     (let argc = length (g_argv g0);
          g1 = g0\<lparr>last_nonopt := min (last_nonopt g0) (optind g0), first_nonopt := min (first_nonopt g0) (optind g0)\<rparr>;
          g2 = (if first_nonopt g1 \<noteq> last_nonopt g1 \<and> last_nonopt g1 \<noteq> optind g1 then exchange g1
                else if last_nonopt g1 \<noteq> optind g1 then g1\<lparr>first_nonopt := optind g1\<rparr> else g1);
          i = optind g2 + length (takeWhile nonoption (drop (optind g2) (g_argv g2)));
          g3 = g2\<lparr>optind := i, last_nonopt := i\<rparr>;
          g4 = (if optind g3 < argc \<and> g_argv g3 ! optind g3 = ''--''
                then (let h = g3\<lparr>optind := Suc (optind g3)\<rparr>;
                          h1 = (if first_nonopt h \<noteq> last_nonopt h \<and> last_nonopt h \<noteq> optind h then exchange h
                                else if first_nonopt h = last_nonopt h then h\<lparr>first_nonopt := optind h\<rparr> else h)
                      in h1\<lparr>last_nonopt := argc, optind := argc\<rparr>)
                else g3)
      in if argc \<le> optind g4
         then (True, if first_nonopt g4 \<noteq> last_nonopt g4 then g4\<lparr>optind := first_nonopt g4\<rparr> else g4)
         else (False, g4\<lparr>nextchar := tl (g_argv g4 ! optind g4)\<rparr>))"

text \<open>The option letter at the front of \<^verbatim>\<open>nextchar\<close>, and its argument.\<close>

definition getopt_letter :: "string \<Rightarrow> getopt_state \<Rightarrow> world \<Rightarrow> char \<times> getopt_state \<times> world" where
  "getopt_letter optstring g w =
     (let c = hd (nextchar g);
          rest = tl (nextchar g);
          g1 = g\<lparr>nextchar := rest, optind := (if rest = [] then Suc (optind g) else optind g)\<rparr>;
          quoted = '' -- '' @ [CHR 0x27, c, CHR 0x27] @ NL
      in case (if c = CHR '':'' \<or> c = CHR '';'' then None else opt_spec optstring c) of
           None \<Rightarrow> (CHR ''?'', g1\<lparr>optopt := c\<rparr>, eprintf (hd (g_argv g) @ '': invalid option'' @ quoted) w)
         | Some False \<Rightarrow> (c, g1, w)
         | Some True \<Rightarrow>
             if rest \<noteq> [] then (c, g1\<lparr>optarg := rest, optind := Suc (optind g1), nextchar := []\<rparr>, w)
             else if length (g_argv g1) \<le> optind g1
             then (CHR ''?'', g1\<lparr>optopt := c, nextchar := []\<rparr>,
                   eprintf (hd (g_argv g) @ '': option requires an argument'' @ quoted) w)
             else (c, g1\<lparr>optarg := g_argv g1 ! optind g1, optind := Suc (optind g1), nextchar := []\<rparr>, w))"

definition getopt :: "string \<Rightarrow> getopt_state \<Rightarrow> world \<Rightarrow> char option \<times> getopt_state \<times> world" where
  "getopt optstring g w =
     (if nextchar g = [] then
        (case getopt_next g of
           (True, g1) \<Rightarrow> (None, g1, w)
         | (False, g1) \<Rightarrow> (case getopt_letter optstring g1 w of (c, g2, w1) \<Rightarrow> (Some c, g2, w1)))
      else (case getopt_letter optstring g w of (c, g2, w1) \<Rightarrow> (Some c, g2, w1)))"

end
