(* ===== verification/Client_Settings.thy ===== *)
theory Client_Settings
  imports Client_Modes Config_File Getopt
begin

text \<open>
  Where the settings of the client come from: the defaults, the configuration file, and the
  command line. Fields the source leaves without a value are taken from an argument, the
  contents of the stack.
\<close>

section \<open>Defaults\<close>

definition client_defaults :: "client_settings \<Rightarrow> client_settings" where
  "client_defaults stack = stack\<lparr>server_port := 123, debug := 0, recv_uni_timeout := 10,
     max_unicast_retries := 2, poll_wait := 15, timed_repeat_updates_enabled := 0,
     timed_repeat_updates_limit := 4, manycast_address := ''224.0.1.1'', manycast_wait_time := 2\<rparr>"

definition CONFIG_FILE :: string where
  "CONFIG_FILE = ''client_config.cfg''"

section \<open>The configuration file\<close>

definition client_config :: "config \<Rightarrow> client_settings \<Rightarrow> client_settings load_result" where
  "client_config cfg c_set =
     got_into (\<lambda>v c. c\<lparr>poll_wait := v\<rparr>) (returned_lookup_int cfg ''poll_wait'')
       (got_into (\<lambda>v c. c\<lparr>max_unicast_retries := v\<rparr>) (returned_lookup_int cfg ''max_unicast_retries'')
         (got_into (\<lambda>v c. c\<lparr>recv_uni_timeout := v\<rparr>) (returned_lookup_int cfg ''recv_uni_timeout'')
           (got_into (\<lambda>v c. c\<lparr>server_port := v\<rparr>) (returned_lookup_int cfg ''server_port'')
             (got_into (\<lambda>v c. c\<lparr>manycast_wait_time := v\<rparr>) (returned_lookup_int cfg ''manycast_wait_time'')
               (got_into (\<lambda>v c. c\<lparr>manycast_address := v\<rparr>) (got_text (config_lookup_string cfg ''manycast_address''))
                 (Loaded c_set))))))"

definition parse_config_file ::
    "file_system \<Rightarrow> client_settings \<Rightarrow> world \<Rightarrow> (client_settings load_result \<times> world) option" where
  "parse_config_file fs c_set w =
     (case setup_config_file fs CONFIG_FILE w of
        None \<Rightarrow> None
      | Some (Loaded cfg, w1) \<Rightarrow> Some (client_config cfg c_set, w1)
      | Some (Load_Exit n, w1) \<Rightarrow> Some (Load_Exit n, w1)
      | Some (Load_Undefined, w1) \<Rightarrow> Some (Load_Undefined, w1))"

section \<open>The command line\<close>

datatype cl_result = CL_Done client_settings | CL_Exit int | CL_Abort

record cl_vars =
  cl_set :: client_settings
  uni_set :: bool
  many_set :: bool

definition cl_optstring :: string where
  "cl_optstring = ''u:mp:dr:''"

text \<open>
  The body of the \<^verbatim>\<open>switch\<close>; the case \<^verbatim>\<open>'?'\<close> runs on into
  \<^verbatim>\<open>abort\<close>.
\<close>

definition cl_switch :: "char \<Rightarrow> getopt_state \<Rightarrow> cl_vars \<Rightarrow> world \<Rightarrow> (cl_result + cl_vars) \<times> world" where
  "cl_switch c g v w =
     (if c = CHR ''u'' then (Inr (v\<lparr>cl_set := (cl_set v)\<lparr>server_host := Lit (optarg g)\<rparr>, uni_set := True\<rparr>), w)
      else if c = CHR ''m'' then (Inr (v\<lparr>cl_set := (cl_set v)\<lparr>manycast_enabled := 1\<rparr>, many_set := True\<rparr>), w)
      else if c = CHR ''p'' then (Inr (v\<lparr>cl_set := (cl_set v)\<lparr>server_port := atoi (optarg g)\<rparr>\<rparr>), w)
      else if c = CHR ''d'' then (Inr (v\<lparr>cl_set := (cl_set v)\<lparr>debug := 1\<rparr>\<rparr>), w)
      else if c = CHR ''r''
      then (Inr (v\<lparr>cl_set := (cl_set v)\<lparr>timed_repeat_updates_enabled := 1,
              timed_repeat_updates_limit := atoi (optarg g)\<rparr>\<rparr>), w)
      else if c = CHR ''?'' \<and> optopt g = CHR ''r''
      then (Inl (CL_Exit 1), eprintf (''number of repeats not given for option '' @ [CHR 0x27] @ ''-r''
              @ [CHR 0x27] @ NL) w)
      else (Inl CL_Abort, w))"

fun cl_loop :: "nat \<Rightarrow> getopt_state \<Rightarrow> cl_vars \<Rightarrow> world \<Rightarrow> (cl_result \<times> world) option" where
  "cl_loop 0 g v w = None"
| "cl_loop (Suc fuel) g v w =
     (if optind g < length (g_argv g)
      then
        (case getopt cl_optstring g w of
           (None, g1, w1) \<Rightarrow> cl_loop fuel g1 v w1
         | (Some c, g1, w1) \<Rightarrow>
             (case cl_switch c g1 v w1 of
                (Inl r, w2) \<Rightarrow> Some (r, w2)
              | (Inr v1, w2) \<Rightarrow> cl_loop fuel g1 v1 w2))
      else if uni_set v \<and> many_set v
      then Some (CL_Exit 1, eprintf (hd (g_argv g) @ '': unicast address given as well as enabling ''
             @ ''manycast, only one or the other can be chosen'' @ NL) w)
      else Some (CL_Done (cl_set v), w))"

definition parse_command_line ::
    "nat \<Rightarrow> string list \<Rightarrow> client_settings \<Rightarrow> world \<Rightarrow> (cl_result \<times> world) option" where
  "parse_command_line fuel argv c_set w =
     cl_loop fuel (getopt_init argv) \<lparr>cl_set = c_set, uni_set = False, many_set = False\<rparr> w"

section \<open>Together\<close>

text \<open>\<^verbatim>\<open>access\<close> tests that the file exists; the outcome \<open>None\<close> is a loop that does not end.\<close>

datatype settings_result = Settings client_settings | Settings_Exit int | Settings_Abort | Settings_Undefined

definition get_client_settings ::
    "nat \<Rightarrow> file_system \<Rightarrow> string list \<Rightarrow> client_settings \<Rightarrow> world \<Rightarrow> (settings_result \<times> world) option" where
  "get_client_settings fuel fs argv stack w =
     (let c0 = client_defaults stack
      in case (if fs CONFIG_FILE \<noteq> None then parse_config_file fs c0 w
               else Some (Loaded c0, print_debug (debug c0) (''no config file found for '' @ [CHR 0x27]
                      @ CONFIG_FILE @ [CHR 0x27]) w)) of
           None \<Rightarrow> None
         | Some (Load_Exit n, w1) \<Rightarrow> Some (Settings_Exit n, w1)
         | Some (Load_Undefined, w1) \<Rightarrow> Some (Settings_Undefined, w1)
         | Some (Loaded c1, w1) \<Rightarrow>
             (case parse_command_line fuel argv c1 w1 of
                None \<Rightarrow> None
              | Some (CL_Done c, w2) \<Rightarrow> Some (Settings c, w2)
              | Some (CL_Exit n, w2) \<Rightarrow> Some (Settings_Exit n, w2)
              | Some (CL_Abort, w2) \<Rightarrow> Some (Settings_Abort, w2)))"

end
