(* ===== verification/Client_Command_Line.thy ===== *)
theory Client_Command_Line
  imports Client_Settings
begin

text \<open>
  What the client makes of a command line: every sequence of its options is understood, later
  ones override earlier ones, the command line overrides the configuration file and the file
  the defaults; and what happens when there is an operand.
\<close>

section \<open>Command lines\<close>

datatype cl_option = Opt_Host string | Opt_Manycast | Opt_Port string | Opt_Debug | Opt_Repeat string

fun cl_args :: "cl_option \<Rightarrow> string list" where
  "cl_args (Opt_Host h) = [''-u'', h]"
| "cl_args Opt_Manycast = [''-m'']"
| "cl_args (Opt_Port p) = [''-p'', p]"
| "cl_args Opt_Debug = [''-d'']"
| "cl_args (Opt_Repeat n) = [''-r'', n]"

definition cl_render :: "cl_option list \<Rightarrow> string list" where
  "cl_render opts = concat (map cl_args opts)"

text \<open>What an option means.\<close>

fun cl_apply :: "cl_option \<Rightarrow> client_settings \<Rightarrow> client_settings" where
  "cl_apply (Opt_Host h) c = c\<lparr>server_host := Lit h\<rparr>"
| "cl_apply Opt_Manycast c = c\<lparr>manycast_enabled := 1\<rparr>"
| "cl_apply (Opt_Port p) c = c\<lparr>server_port := atoi p\<rparr>"
| "cl_apply Opt_Debug c = c\<lparr>debug := 1\<rparr>"
| "cl_apply (Opt_Repeat n) c = c\<lparr>timed_repeat_updates_enabled := 1, timed_repeat_updates_limit := atoi n\<rparr>"

definition is_host :: "cl_option \<Rightarrow> bool" where
  "is_host opt = (case opt of Opt_Host h \<Rightarrow> True | _ \<Rightarrow> False)"

definition cl_step :: "cl_option \<Rightarrow> cl_vars \<Rightarrow> cl_vars" where
  "cl_step opt v = \<lparr>cl_set = cl_apply opt (cl_set v), uni_set = uni_set v \<or> is_host opt, many_set = many_set v \<or> opt = Opt_Manycast\<rparr>"

lemma cl_steps:
  "fold cl_step opts v = \<lparr>cl_set = fold cl_apply opts (cl_set v), uni_set = uni_set v \<or> list_ex is_host opts,
     many_set = many_set v \<or> Opt_Manycast \<in> set opts\<rparr>"
  by (induction opts arbitrary: v) (auto simp: cl_step_def)

section \<open>The library keeps its place\<close>

text \<open>Between two options no operand has been skipped.\<close>

definition at_option :: "getopt_state \<Rightarrow> bool" where
  "at_option g \<longleftrightarrow> nextchar g = [] \<and> first_nonopt g = last_nonopt g \<and> last_nonopt g \<le> optind g"

lemma getopt_next_option:
  assumes g: "at_option g" and a: "drop (optind g) (g_argv g) = (CHR ''-'' # c # cs) # rest" "c \<noteq> CHR ''-''"
  shows "getopt_next g = (False, g\<lparr>first_nonopt := optind g, last_nonopt := optind g, nextchar := c # cs\<rparr>)"
proof -
  have lt: "optind g < length (g_argv g)" using a(1) by (metis drop_all leI list.distinct(1))
  have nth: "g_argv g ! optind g = CHR ''-'' # c # cs" using a(1) lt by (metis hd_drop_conv_nth list.sel(1))
  have n: "\<not> nonoption (CHR ''-'' # c # cs)" by (simp add: nonoption_def)
  show ?thesis
    using g lt nth n a by (auto simp: getopt_next_def at_option_def Let_def)
qed

lemma getopt_option:
  assumes g: "at_option g" and a: "drop (optind g) (g_argv g) = cl_args opt @ rest"
  obtains c g' where "getopt cl_optstring g w = (Some c, g', w)" "cl_switch c g' v w = (Inr (cl_step opt v), w)"
    "at_option g'" "g_argv g' = g_argv g" "drop (optind g') (g_argv g') = rest"
proof -
  have more: "optind g + length (cl_args opt) \<le> length (g_argv g)"
    using arg_cong [OF a, of length] by (cases opt) simp_all
  have rest: "drop (optind g + length (cl_args opt)) (g_argv g) = rest"
    using arg_cong [OF a, of "drop (length (cl_args opt))"] by (simp add: add.commute)
  have second: "g_argv g ! Suc (optind g) = x" if "cl_args opt = [y, x]" for x y
    using arg_cong [OF a, of "\<lambda>l. l ! 1"] that more by (simp add: nth_drop)
  define letter where "letter = hd (tl (hd (cl_args opt)))"
  have "cl_args opt @ rest = (CHR ''-'' # letter # []) # (tl (cl_args opt) @ rest)" "letter \<noteq> CHR ''-''"
    by (cases opt; simp add: letter_def)+
  note nx = getopt_next_option [OF g, of letter "[]" "tl (cl_args opt) @ rest", unfolded a, OF this]
  define g1 where "g1 = g\<lparr>first_nonopt := optind g, last_nonopt := optind g, nextchar := [letter]\<rparr>"
  have go: "getopt cl_optstring g w = (case getopt_letter cl_optstring g1 w of (c, g2, w1) \<Rightarrow> (Some c, g2, w1))"
    using g nx by (simp add: getopt_def at_option_def g1_def)
  have "\<exists>c g'. getopt cl_optstring g w = (Some c, g', w) \<and> cl_switch c g' v w = (Inr (cl_step opt v), w) \<and> at_option g'
      \<and> g_argv g' = g_argv g \<and> drop (optind g') (g_argv g') = rest"
    using more rest second unfolding go
    by (cases opt) (auto simp: getopt_letter_def g1_def letter_def Let_def cl_optstring_def cl_switch_def cl_step_def is_host_def
        at_option_def)
  then show ?thesis using that by blast
qed

lemma cl_loop_options:
  assumes "at_option g" "drop (optind g) (g_argv g) = cl_render opts @ rest"
  obtains g' where "cl_loop (length opts + n) g v w = cl_loop n g' (fold cl_step opts v) w"
    "at_option g'" "g_argv g' = g_argv g" "drop (optind g') (g_argv g') = rest"
  using assms
proof (induction opts arbitrary: g v thesis)
  case Nil
  then show ?case by (simp add: cl_render_def)
next
  case (Cons opt opts)
  have a: "drop (optind g) (g_argv g) = cl_args opt @ (cl_render opts @ rest)" using Cons.prems(3) by (simp add: cl_render_def)
  obtain c g1 where g1: "getopt cl_optstring g w = (Some c, g1, w)" "cl_switch c g1 v w = (Inr (cl_step opt v), w)"
      "at_option g1" "g_argv g1 = g_argv g" "drop (optind g1) (g_argv g1) = cl_render opts @ rest"
    using getopt_option [OF Cons.prems(2) a] by blast
  obtain g' where g': "cl_loop (length opts + n) g1 (cl_step opt v) w = cl_loop n g' (fold cl_step opts (cl_step opt v)) w"
      "at_option g'" "g_argv g' = g_argv g1" "drop (optind g') (g_argv g') = rest"
    using Cons.IH [OF _ g1(3,5)] by blast
  have "cl_args opt \<noteq> []" by (cases opt) simp_all
  then have "optind g < length (g_argv g)" using a by (metis append_is_Nil_conv drop_all leI)
  then have "cl_loop (length (opt # opts) + n) g v w = cl_loop n g' (fold cl_step (opt # opts) v) w"
    using g1(1,2) g'(1) by simp
  then show ?case using Cons.prems(1) g' g1(4) by simp
qed

lemma at_option_init: "at_option (getopt_init argv)"
  by (simp add: at_option_def getopt_init_def)

lemma parse_command_line_options:
  assumes "length opts < fuel"
  shows "parse_command_line fuel (prog # cl_render opts) c w =
    (if list_ex is_host opts \<and> Opt_Manycast \<in> set opts
     then Some (CL_Exit 1, eprintf (prog @ '': unicast address given as well as enabling ''
            @ ''manycast, only one or the other can be chosen'' @ NL) w)
     else Some (CL_Done (fold cl_apply opts c), w))"
proof -
  obtain k where k: "fuel = length opts + Suc k" using assms less_iff_Suc_add [of "length opts" fuel] by auto
  let ?v = "\<lparr>cl_set = c, uni_set = False, many_set = False\<rparr>"
  have "drop (optind (getopt_init (prog # cl_render opts))) (g_argv (getopt_init (prog # cl_render opts))) = cl_render opts @ []"
    by (simp add: getopt_init_def)
  then obtain g' where g': "cl_loop (length opts + Suc k) (getopt_init (prog # cl_render opts)) ?v w = cl_loop (Suc k) g' (fold cl_step opts ?v) w"
      "g_argv g' = prog # cl_render opts" "drop (optind g') (g_argv g') = []"
    using cl_loop_options [OF at_option_init, of "prog # cl_render opts" opts "[]" "Suc k" ?v w] by (auto simp: getopt_init_def)
  then have "\<not> optind g' < length (g_argv g')" by simp
  then show ?thesis using g'(1,2) k by (simp add: parse_command_line_def cl_steps)
qed

section \<open>Precedence\<close>

text \<open>What options say of a field, if anything; the last one counts.\<close>

definition last_of :: "(cl_option \<Rightarrow> 'a option) \<Rightarrow> cl_option list \<Rightarrow> 'a option" where
  "last_of f opts = (case List.map_filter f opts of [] \<Rightarrow> None | x # xs \<Rightarrow> Some (last (x # xs)))"

definition or_else :: "'a option \<Rightarrow> 'a \<Rightarrow> 'a" where
  "or_else x d = (case x of None \<Rightarrow> d | Some y \<Rightarrow> y)"

lemma last_of_simps [simp]:
  "last_of f [] = None"
  "or_else (last_of f (opt # opts)) d = or_else (last_of f opts) (or_else (f opt) d)"
  by (simp_all add: last_of_def or_else_def List.map_filter_simps split: option.split list.split)

fun port_opt :: "cl_option \<Rightarrow> int option" where
  "port_opt (Opt_Port p) = Some (atoi p)" | "port_opt _ = None"

fun host_opt :: "cl_option \<Rightarrow> cstr option" where
  "host_opt (Opt_Host h) = Some (Lit h)" | "host_opt _ = None"

fun repeat_opt :: "cl_option \<Rightarrow> int option" where
  "repeat_opt (Opt_Repeat n) = Some (atoi n)" | "repeat_opt _ = None"

definition is_repeat :: "cl_option \<Rightarrow> bool" where
  "is_repeat opt = (case opt of Opt_Repeat n \<Rightarrow> True | _ \<Rightarrow> False)"

lemma cl_apply_fields:
  "fold cl_apply opts c = c\<lparr>server_host := or_else (last_of host_opt opts) (server_host c),
     server_port := or_else (last_of port_opt opts) (server_port c),
     debug := (if Opt_Debug \<in> set opts then 1 else debug c),
     timed_repeat_updates_enabled := (if list_ex is_repeat opts then 1 else timed_repeat_updates_enabled c),
     timed_repeat_updates_limit := or_else (last_of repeat_opt opts) (timed_repeat_updates_limit c),
     manycast_enabled := (if Opt_Manycast \<in> set opts then 1 else manycast_enabled c)\<rparr>"
proof (induction opts arbitrary: c)
  case Nil
  then show ?case by (simp add: or_else_def)
next
  case (Cons opt opts)
  then show ?case by (cases opt) (simp_all add: or_else_def [of None] or_else_def [of "Some _"] is_repeat_def)
qed

text \<open>The value of an option of the configuration file, where there is a file and it has the option.\<close>

fun got_value :: "'a \<Rightarrow> 'a got \<Rightarrow> 'a" where
  "got_value d (Got v) = v"
| "got_value d _ = d"

definition file_int :: "config option \<Rightarrow> string \<Rightarrow> int \<Rightarrow> int" where
  "file_int ocfg path d = (case ocfg of None \<Rightarrow> d | Some cfg \<Rightarrow> got_value d (returned_lookup_int cfg path))"

definition file_text :: "config option \<Rightarrow> string \<Rightarrow> string \<Rightarrow> string" where
  "file_text ocfg path d = (case ocfg of None \<Rightarrow> d | Some cfg \<Rightarrow> got_value d (got_text (config_lookup_string cfg path)))"

definition client_ints :: "string list" where
  "client_ints = [''manycast_wait_time'', ''server_port'', ''recv_uni_timeout'', ''max_unicast_retries'', ''poll_wait'']"

text \<open>No option is a float, and no string is a null pointer.\<close>

definition options_readable :: "config \<Rightarrow> bool" where
  "options_readable cfg \<longleftrightarrow> list_all (\<lambda>path. returned_lookup_int cfg path \<noteq> Got_Undefined) client_ints
     \<and> got_text (config_lookup_string cfg ''manycast_address'') \<noteq> Got_Undefined"

lemma got_into_loaded:
  "g \<noteq> Got_Undefined \<Longrightarrow> upd (fld s) s = s \<Longrightarrow>
   got_into upd g (Loaded s) = Loaded (upd (got_value (fld s) g) s)"
  by (cases g) simp_all

lemmas client_fields_loaded =
  got_into_loaded [where upd = "\<lambda>v c. c\<lparr>poll_wait := v\<rparr>" and fld = poll_wait]
  got_into_loaded [where upd = "\<lambda>v c. c\<lparr>max_unicast_retries := v\<rparr>" and fld = max_unicast_retries]
  got_into_loaded [where upd = "\<lambda>v c. c\<lparr>recv_uni_timeout := v\<rparr>" and fld = recv_uni_timeout]
  got_into_loaded [where upd = "\<lambda>v c. c\<lparr>server_port := v\<rparr>" and fld = server_port]
  got_into_loaded [where upd = "\<lambda>v c. c\<lparr>manycast_wait_time := v\<rparr>" and fld = manycast_wait_time]
  got_into_loaded [where upd = "\<lambda>v c. c\<lparr>manycast_address := v\<rparr>" and fld = manycast_address]

definition settings_from :: "config option \<Rightarrow> client_settings \<Rightarrow> client_settings" where
  "settings_from ocfg stack = (client_defaults stack)\<lparr>
     server_port := file_int ocfg ''server_port'' 123, recv_uni_timeout := file_int ocfg ''recv_uni_timeout'' 10,
     max_unicast_retries := file_int ocfg ''max_unicast_retries'' 2, poll_wait := file_int ocfg ''poll_wait'' 15,
     manycast_address := file_text ocfg ''manycast_address'' ''224.0.1.1'',
     manycast_wait_time := file_int ocfg ''manycast_wait_time'' 2\<rparr>"

lemma client_config_fields:
  assumes "options_readable cfg"
  shows "client_config cfg (client_defaults stack) = Loaded (settings_from (Some cfg) stack)"
  using assms
  by (simp add: client_config_def options_readable_def client_ints_def client_fields_loaded settings_from_def file_int_def
      file_text_def client_defaults_def)

text \<open>The configuration the client finds: none, or what the file holds.\<close>

definition found_config :: "file_system \<Rightarrow> world \<Rightarrow> config option \<Rightarrow> world \<Rightarrow> bool" where
  "found_config fs w ocfg w1 =
     (case ocfg of None \<Rightarrow> fs CONFIG_FILE = None \<and> w1 = w
      | Some cfg \<Rightarrow> fs CONFIG_FILE \<noteq> None \<and> setup_config_file fs CONFIG_FILE w = Some (Loaded cfg, w1) \<and> options_readable cfg)"

text \<open>
  C36. The settings of the client: the command line comes before the configuration file and
  the file before the defaults, field by field. Any sequence of the options is understood, the
  last one for a field counts, and one round of the loop per option is enough. A host together
  with manycast ends the program. The host and the switch for manycast have no default: where
  no option sets them they are what the stack held.
\<close>

theorem settings_precedence:
  assumes "found_config fs w ocfg w1" "length opts < fuel"
  shows "\<exists>w2. get_client_settings fuel fs (prog # cl_render opts) stack w =
    (if list_ex is_host opts \<and> Opt_Manycast \<in> set opts then Some (Settings_Exit 1, w2)
     else Some (Settings \<lparr>
       server_host = or_else (last_of host_opt opts) (server_host stack),
       server_port = or_else (last_of port_opt opts) (file_int ocfg ''server_port'' 123),
       debug = (if Opt_Debug \<in> set opts then 1 else 0),
       recv_uni_timeout = file_int ocfg ''recv_uni_timeout'' 10,
       max_unicast_retries = file_int ocfg ''max_unicast_retries'' 2,
       poll_wait = file_int ocfg ''poll_wait'' 15,
       timed_repeat_updates_enabled = (if list_ex is_repeat opts then 1 else 0),
       timed_repeat_updates_limit = or_else (last_of repeat_opt opts) 4,
       manycast_enabled = (if Opt_Manycast \<in> set opts then 1 else manycast_enabled stack),
       manycast_wait_time = file_int ocfg ''manycast_wait_time'' 2,
       manycast_address = file_text ocfg ''manycast_address'' ''224.0.1.1''\<rparr>, w1))"
proof -
  have "(if fs CONFIG_FILE \<noteq> None then parse_config_file fs (client_defaults stack) w
      else Some (Loaded (client_defaults stack), print_debug (debug (client_defaults stack)) (''no config file found for '' @ [CHR 0x27]
             @ CONFIG_FILE @ [CHR 0x27]) w)) = Some (Loaded (settings_from ocfg stack), w1)"
    using assms(1) client_config_fields
    by (auto simp: found_config_def parse_config_file_def print_debug_def settings_from_def file_int_def file_text_def client_defaults_def
        split: option.splits)
  then have g: "get_client_settings fuel fs (prog # cl_render opts) stack w =
      (case parse_command_line fuel (prog # cl_render opts) (settings_from ocfg stack) w1 of
         None \<Rightarrow> None | Some (CL_Done c, w2) \<Rightarrow> Some (Settings c, w2) | Some (CL_Exit n, w2) \<Rightarrow> Some (Settings_Exit n, w2)
       | Some (CL_Abort, w2) \<Rightarrow> Some (Settings_Abort, w2))"
    by (simp only: get_client_settings_def Let_def option.case prod.case load_result.case)
  show ?thesis
    unfolding g parse_command_line_options [OF assms(2)] cl_apply_fields
    by (auto simp: settings_from_def client_defaults_def intro!: client_settings.equality)
qed

theorem settings_precedence_witness:
  "\<forall>stack w. \<exists>c w2. get_client_settings 4 (\<lambda>p. None) [''sntpclient'', ''-p'', ''7'', ''-d'', ''-p'', ''123''] stack w = Some (Settings c, w2)
     \<and> server_port c = 123 \<and> debug c = 1 \<and> poll_wait c = 15"
proof (intro allI)
  fix stack w
  have r: "cl_render [Opt_Port ''7'', Opt_Debug, Opt_Port ''123''] = [''-p'', ''7'', ''-d'', ''-p'', ''123'']" by (simp add: cl_render_def)
  have "atoi ''123'' = 123" by code_simp
  moreover have "found_config (\<lambda>p. None) w None w" by (simp add: found_config_def)
  note settings_precedence [OF this, of "[Opt_Port ''7'', Opt_Debug, Opt_Port ''123'']" 4 "''sntpclient''" stack]
  ultimately show "\<exists>c w2. get_client_settings 4 (\<lambda>p. None) [''sntpclient'', ''-p'', ''7'', ''-d'', ''-p'', ''123''] stack w
      = Some (Settings c, w2) \<and> server_port c = 123 \<and> debug c = 1 \<and> poll_wait c = 15"
    by (auto simp: r is_host_def file_int_def last_of_def or_else_def List.map_filter_simps)
qed

section \<open>Operands\<close>

text \<open>The rest of the command line are operands; the library will put its index back to the first.\<close>

definition stuck :: "getopt_state \<Rightarrow> bool" where
  "stuck g \<longleftrightarrow> nextchar g = [] \<and> optind g < length (g_argv g) \<and> list_all nonoption (drop (optind g) (g_argv g))
     \<and> min (first_nonopt g) (optind g) = min (last_nonopt g) (optind g)"

lemma getopt_stuck: "stuck g \<Longrightarrow> \<exists>g'. getopt optstring g w = (None, g', w) \<and> stuck g'"
proof -
  assume g: "stuck g"
  let ?i = "optind g" and ?n = "length (g_argv g)" and ?m = "min (first_nonopt g) (optind g)"
  have i: "?i < ?n" "nextchar g = []" "min (last_nonopt g) ?i = ?m" using g by (simp_all add: stuck_def)
  have tw: "takeWhile nonoption (drop ?i (g_argv g)) = drop ?i (g_argv g)"
    using g unfolding takeWhile_eq_all_conv by (simp add: stuck_def list_all_iff)
  have all: "?i + length (takeWhile nonoption (drop ?i (g_argv g))) = ?n" unfolding tw using i(1) by simp
  have "getopt_next g = (True, g\<lparr>first_nonopt := ?i, last_nonopt := ?n, optind := ?i\<rparr>)"
  proof (cases "?m = ?i")
    case True
    then show ?thesis using i all by (simp add: getopt_next_def Let_def)
  next
    case False
    then show ?thesis using i all by (simp add: getopt_next_def Let_def)
  qed
  then have "getopt optstring g w = (None, g\<lparr>first_nonopt := ?i, last_nonopt := ?n, optind := ?i\<rparr>, w)"
    using i(2) by (simp add: getopt_def)
  moreover have "stuck (g\<lparr>first_nonopt := ?i, last_nonopt := ?n, optind := ?i\<rparr>)" using g i(1) by (simp add: stuck_def)
  ultimately show ?thesis by blast
qed

lemma stuck_loop: "stuck g \<Longrightarrow> cl_loop fuel g v w = None"
proof (induction fuel arbitrary: g)
  case (Suc fuel)
  obtain g' where "getopt cl_optstring g w = (None, g', w)" "stuck g'" using getopt_stuck [OF Suc.prems] by blast
  then show ?case using Suc by (simp add: stuck_def)
qed simp

lemma cl_loop_less: "cl_loop n g v w = None \<Longrightarrow> m \<le> n \<Longrightarrow> cl_loop m g v w = None"
proof (induction n arbitrary: m g v w)
  case (Suc n)
  then show ?case by (cases m) (auto split: if_splits option.splits sum.splits prod.splits)
qed simp

text \<open>
  C37. A command line with an operand, such as a host without \<^verbatim>\<open>-u\<close>, hangs the client:
  however long the loop runs it does not end, because \<^verbatim>\<open>getopt\<close> leaves its index at
  the first operand and the loop waits for the index to pass the last argument.
\<close>

theorem operands_hang:
  assumes "operands \<noteq> []" "list_all nonoption operands"
  shows "parse_command_line fuel (prog # cl_render opts @ operands) c w = None"
proof -
  let ?argv = "prog # cl_render opts @ operands" and ?v = "\<lparr>cl_set = c, uni_set = False, many_set = False\<rparr>"
  have "drop (optind (getopt_init ?argv)) (g_argv (getopt_init ?argv)) = cl_render opts @ operands" by (simp add: getopt_init_def)
  then obtain g' where g': "cl_loop (length opts + fuel) (getopt_init ?argv) ?v w = cl_loop fuel g' (fold cl_step opts ?v) w"
      "at_option g'" "drop (optind g') (g_argv g') = operands"
    using cl_loop_options [OF at_option_init, of ?argv opts operands fuel ?v w] by blast
  then have "stuck g'" using assms by (auto simp: stuck_def at_option_def not_le [symmetric])
  then have "cl_loop (length opts + fuel) (getopt_init ?argv) ?v w = None" using g'(1) stuck_loop by simp
  then show ?thesis unfolding parse_command_line_def by (rule cl_loop_less) simp
qed

theorem operands_hang_witness:
  "\<forall>stack w. parse_command_line 1000 [''sntpclient'', ''-d'', ''ntp.example.org''] stack w = None"
  using operands_hang [of "[''ntp.example.org'']" 1000 "''sntpclient''" "[Opt_Debug]"] by (simp add: nonoption_def cl_render_def)

end
