(* ===== verification/Server_Settings.thy ===== *)
theory Server_Settings
  imports SNTP_Server Config_File
begin

text \<open>
  Where the settings of the server come from: the defaults of \<^verbatim>\<open>sntpserver.h\<close> and the
  configuration file; and the start of the server with them.
\<close>

section \<open>Defaults and configuration file\<close>

definition SERVER_CONFIG_FILE :: string where
  "SERVER_CONFIG_FILE = ''server_config.cfg''"

definition server_defaults :: server_settings where
  "server_defaults = \<lparr>srv_server_port = 6001, srv_debug = 0, srv_manycast_enabled = 0,
     srv_manycast_address = ''224.0.1.1''\<rparr>"

text \<open>The address is looked up only when manycast is enabled by then.\<close>

definition server_config :: "config \<Rightarrow> server_settings \<Rightarrow> server_settings load_result" where
  "server_config cfg s_set =
     (let s1 = got_into (\<lambda>v s. s\<lparr>srv_manycast_enabled := v\<rparr>) (config_lookup_bool cfg ''manycast_enabled'')
                 (Loaded s_set);
          s2 = (case s1 of
                  Loaded s \<Rightarrow>
                    if srv_manycast_enabled s \<noteq> 0
                    then got_into (\<lambda>v s. s\<lparr>srv_manycast_address := v\<rparr>)
                           (got_text (config_lookup_string cfg ''manycast_address'')) s1
                    else s1
                | _ \<Rightarrow> s1);
          s3 = got_into (\<lambda>v s. s\<lparr>srv_server_port := v\<rparr>) (returned_lookup_int cfg ''server_port'') s2
      in got_into (\<lambda>v s. s\<lparr>srv_debug := v\<rparr>) (config_lookup_bool cfg ''debug'') s3)"

definition parse_server_config_file ::
    "file_system \<Rightarrow> server_settings \<Rightarrow> world \<Rightarrow> (server_settings load_result \<times> world) option" where
  "parse_server_config_file fs s_set w =
     (case setup_config_file fs SERVER_CONFIG_FILE w of
        None \<Rightarrow> None
      | Some (Loaded cfg, w1) \<Rightarrow> Some (server_config cfg s_set, w1)
      | Some (Load_Exit n, w1) \<Rightarrow> Some (Load_Exit n, w1)
      | Some (Load_Undefined, w1) \<Rightarrow> Some (Load_Undefined, w1))"

text \<open>\<^verbatim>\<open>access\<close> with mode 0 tests that the path exists.\<close>

definition get_server_settings ::
    "file_system \<Rightarrow> world \<Rightarrow> (server_settings load_result \<times> world) option" where
  "get_server_settings fs w =
     (if fs SERVER_CONFIG_FILE \<noteq> None then parse_server_config_file fs server_defaults w
      else Some (Loaded server_defaults, print_debug (srv_debug server_defaults) (''no config file found for ''
              @ [CHR 0x27] @ SERVER_CONFIG_FILE @ [CHR 0x27]) w))"

section \<open>The start of the program\<close>

definition server_main_start ::
    "file_system \<Rightarrow> os_env \<Rightarrow> (string \<Rightarrow> in_addr) \<Rightarrow> world
     \<Rightarrow> ((int + loop_state) load_result \<times> world) option" where
  "server_main_start fs env inet_addr w =
     (case get_server_settings fs w of
        None \<Rightarrow> None
      | Some (Loaded s_set, w1) \<Rightarrow> (let (r, w2) = server_start env inet_addr s_set w1 in Some (Loaded r, w2))
      | Some (Load_Exit n, w1) \<Rightarrow> Some (Load_Exit n, w1)
      | Some (Load_Undefined, w1) \<Rightarrow> Some (Load_Undefined, w1))"

end
