(* ===== verification/Server_Liveness.thy ===== *)
theory Server_Liveness
  imports SNTP_Server
begin

text \<open>
  The server goes on: as long as clients keep to packets of 48 bytes it never leaves its loop,
  and requests that keep coming keep being answered.
\<close>

section \<open>The pace of the loop\<close>

text \<open>An iteration makes at most four calls of the operating system that the model counts.\<close>

lemma server_iteration_ticks: "tick (snd (server_iteration env s w)) \<le> tick w + 4"
  by (auto simp: server_iteration_def recieve_SNTP_packet_def Let_def case_prod_unfold
      gettimeofday_def inet_ntoa_def env_simps create_reply_simps
      split: recv_result.splits if_splits)

lemma server_iteration_listening:
  assumes "\<forall>k bs a. recv env k = Datagram bs a \<longrightarrow> length bs \<le> 48"
  shows "fst (server_iteration env s w) = Listening"
  using assms server_iteration_undefined [of env s w]
  by (cases "fst (server_iteration env s w)") fastforce+

lemma server_step_listening:
  assumes "\<forall>k bs a. recv env k = Datagram bs a \<longrightarrow> length bs \<le> 48"
  obtains w' where "server_step env s (Listening, w) (Listening, w')" "snd (server_iteration env s w) = w'"
  using server_iteration_listening [OF assms, of s w] server_step.iteration [of env s w]
  by (metis prod.collapse)

lemma reachable_steps: "(server_step env s)\<^sup>*\<^sup>* st st' \<Longrightarrow> server_reachable env ia s st \<Longrightarrow> server_reachable env ia s st'"
  by (induction rule: rtranclp_induct) (auto intro: server_reachable.step)

section \<open>Reaching the next request\<close>

lemma reaches_window:
  assumes small: "\<forall>k bs a. recv env k = Datagram bs a \<longrightarrow> length bs \<le> 48" and "tick w \<le> j"
  shows "\<exists>w'. (server_step env s)\<^sup>*\<^sup>* (Listening, w) (Listening, w') \<and> tick w' \<in> {j..j + 3}
    \<and> length (sends (trace w)) \<le> length (sends (trace w'))"
  using assms(2)
proof (induction "j - tick w" arbitrary: w rule: less_induct)
  case less
  show ?case
  proof (cases "tick w = j")
    case False
    obtain w1 where w1: "server_step env s (Listening, w) (Listening, w1)" "snd (server_iteration env s w) = w1"
      by (rule server_step_listening [OF small])
    have t: "tick w < tick w1" "tick w1 \<le> tick w + 4"
      using w1(2) server_iteration_tick(1) [of w env s] server_iteration_ticks [of env s w] by auto
    have l: "length (sends (trace w)) \<le> length (sends (trace w1))"
      using server_iteration_sends [of env s w] w1(2) by simp
    show ?thesis
    proof (cases "tick w1 \<le> j")
      case True
      then obtain w' where "(server_step env s)\<^sup>*\<^sup>* (Listening, w1) (Listening, w')" "tick w' \<in> {j..j + 3}"
          "length (sends (trace w1)) \<le> length (sends (trace w'))"
        using less.hyps [of w1] t(1) less.prems False by fastforce
      then show ?thesis using w1(1) l by (meson converse_rtranclp_into_rtranclp order_trans)
    next
      case f: False
      then have "tick w1 \<in> {j..j + 3}" using t False less.prems by auto
      then show ?thesis using w1(1) l by blast
    qed
  qed (use less.prems in auto)
qed

text \<open>
  C4. Requests that keep coming keep being answered. Suppose no datagram is longer than a
  packet, and again and again a valid request is waiting to be received, for at least the
  duration of one iteration, and can be answered. Then from every state the server listens in
  it can go on, and after finitely many iterations it listens again and has sent any number of
  replies asked for.
\<close>

theorem server_keeps_answering:
  assumes "server_reachable env ia s (Listening, w)"
    and "\<forall>k bs a. recv env k = Datagram bs a \<longrightarrow> length bs \<le> 48"
    and "\<forall>k. \<exists>j \<ge> k. \<forall>i \<in> {j..j + 3}. served env i \<noteq> None"
  shows "\<exists>w'. (server_step env s)\<^sup>*\<^sup>* (Listening, w) (Listening, w') \<and> server_reachable env ia s (Listening, w')
    \<and> n \<le> length (sends (trace w'))"
proof -
  have "\<exists>w'. (server_step env s)\<^sup>*\<^sup>* (Listening, w) (Listening, w') \<and> n \<le> length (sends (trace w'))"
  proof (induction n)
    case (Suc n)
    then obtain w1 where w1: "(server_step env s)\<^sup>*\<^sup>* (Listening, w) (Listening, w1)" "n \<le> length (sends (trace w1))" by blast
    obtain j where j: "tick w1 \<le> j" "\<forall>i \<in> {j..j + 3}. served env i \<noteq> None" using assms(3) by blast
    obtain w2 where w2: "(server_step env s)\<^sup>*\<^sup>* (Listening, w1) (Listening, w2)" "tick w2 \<in> {j..j + 3}"
        "length (sends (trace w1)) \<le> length (sends (trace w2))"
      using reaches_window [OF assms(2) j(1)] by blast
    obtain w3 where w3: "server_step env s (Listening, w2) (Listening, w3)" "snd (server_iteration env s w2) = w3"
      by (rule server_step_listening [OF assms(2)])
    have "length (sends (trace w3)) = Suc (length (sends (trace w2)))"
      using server_iteration_sends [of env s w2] w3(2) j(2) w2(2) by (auto split: option.splits)
    then show ?case using w1 w2(1,3) w3(1)
      by (intro exI [of _ w3]) (auto intro: rtranclp.rtrancl_into_rtrancl rtranclp_trans)
  qed auto
  then obtain w' where w': "(server_step env s)\<^sup>*\<^sup>* (Listening, w) (Listening, w')" "n \<le> length (sends (trace w'))" by blast
  have "server_reachable env ia s (Listening, w')"
    using w'(1) assms(1) by (rule reachable_steps)
  then show ?thesis using w' by blast
qed

theorem server_keeps_answering_witness:
  "\<exists>w. server_reachable demo_env (\<lambda>_. INADDR_ANY) demo_settings (Listening, w) \<and> 1000 \<le> length (sends (trace w))"
proof -
  obtain w where "server_reachable demo_env (\<lambda>_. INADDR_ANY) demo_settings (Listening, w)"
    using demo_reachable by blast
  moreover have "\<forall>k bs a. recv demo_env k = Datagram bs a \<longrightarrow> length bs \<le> 48"
    by (simp add: demo_env_def sizeof_ntp_packet_def)
  moreover have "\<forall>k. \<exists>j \<ge> k. \<forall>i \<in> {j..j + 3}. served demo_env i \<noteq> None" by (auto simp: demo_served)
  ultimately show ?thesis using server_keeps_answering by blast
qed

end
