(* ===== verification/Scanner_Rows.thy ===== *)
theory Scanner_Rows
  imports Scanner_Tables
begin

text \<open>
  The compressed tables of the scanner decoded: the row of a state lists its successors for
  the 49 classes of characters. The rows show that no lookup leaves a table, that the chain of
  default states is short, and which transitions the automaton has.
\<close>

section \<open>Sizes and ranges of the tables\<close>

lemma yy_lengths:
  "length yy_accept = 103" "length yy_ec = 256" "length yy_meta = 49" "length yy_base = 113" "length yy_def = 113"
  "length yy_nxt = 253" "length yy_chk = 253" "length yy_rule_can_match_eol = 43"
  by (simp_all add: yy_accept_def yy_ec_def yy_meta_def yy_base_def yy_def_def yy_nxt_def yy_chk_def
      yy_rule_can_match_eol_def)

lemma yy_ranges:
  "list_all (\<lambda>b. b \<le> 204) yy_base" "list_all (\<lambda>c. c \<le> 48) yy_ec" "list_all (\<lambda>m. m \<le> 4) yy_meta"
  "list_all (\<lambda>t. t \<le> 102) yy_nxt" "list_all (\<lambda>t. 1 \<le> t) (tl yy_nxt)" "yy_chk ! 0 = 0"
  "list_all (\<lambda>k. k = 102) (drop 204 yy_chk)" "list_all (\<lambda>a. a \<le> 43) yy_accept"
  "list_all (\<lambda>c. 1 \<le> c) (tl yy_ec)"
  by (simp_all add: yy_accept_def yy_ec_def yy_meta_def yy_base_def yy_def_def yy_nxt_def yy_chk_def)

text \<open>The default of a default state is the jam state, whose row is complete.\<close>

lemma yy_defaults:
  "list_all (\<lambda>d. d = 102 \<or> d = 1 \<or> (103 \<le> d \<and> d \<le> 112)) (take 101 (tl yy_def))"
  "yy_def ! 1 = 102" "list_all (\<lambda>d. d = 102) (drop 103 yy_def)" "yy_base ! 102 = 204" "yy_def ! 102 = 0"
  by (simp_all add: yy_def_def yy_base_def)

section \<open>Rows\<close>

definition yy_direct :: "nat \<Rightarrow> (nat \<times> nat) list" where
  "yy_direct s = zip (take 49 (drop (yy_base ! s) yy_chk)) (take 49 (drop (yy_base ! s) yy_nxt))"

fun yy_row :: "nat \<Rightarrow> nat \<Rightarrow> nat list" where
  "yy_row 0 s = map snd (yy_direct s)"
| "yy_row (Suc f) s =
     (let d = yy_def ! s
      in map2 (\<lambda>(k, n) e. if k = s then n else e) (yy_direct s)
           (if 103 \<le> d then map (\<lambda>m. yy_row f d ! m) yy_meta else yy_row f d))"

lemma yy_base_le: "s < 113 \<Longrightarrow> yy_base ! s \<le> 204"
  using yy_ranges(1) by (simp add: list_all_length yy_lengths)

lemma length_yy_direct: "s < 113 \<Longrightarrow> length (yy_direct s) = 49"
  using yy_base_le [of s] by (simp add: yy_direct_def yy_lengths)

lemma yy_direct_nth: "s < 113 \<Longrightarrow> c < 49 \<Longrightarrow> yy_direct s ! c = (yy_chk ! (yy_base ! s + c), yy_nxt ! (yy_base ! s + c))"
  using yy_base_le [of s] by (simp add: yy_direct_def yy_lengths)

lemma yy_resolve_direct:
  assumes "s < 113" "c < 49"
  shows "yy_resolve fuel s c =
    (if fst (yy_direct s ! c) = s then Some (snd (yy_direct s ! c))
     else case fuel of 0 \<Rightarrow> None
       | Suc f \<Rightarrow> yy_resolve f (yy_def ! s) (if 103 \<le> yy_def ! s then yy_meta ! c else c))"
  using yy_base_le [OF assms(1)] assms
  by (subst yy_resolve.simps) (simp add: yy_direct_nth yy_lengths Let_def split: nat.split)

lemma yy_jam_row: "c < 49 \<Longrightarrow> fst (yy_direct 102 ! c) = 102"
proof -
  assume c: "c < 49"
  have "list_all (\<lambda>k. k = 102) (drop 204 yy_chk)" by (rule yy_ranges)
  then have "yy_chk ! (204 + c) = 102" using c by (simp add: list_all_length yy_lengths)
  then show ?thesis using c yy_defaults(4) by (simp add: yy_direct_nth)
qed

lemma yy_meta_le: "c < 49 \<Longrightarrow> yy_meta ! c \<le> 4"
  using yy_ranges(3) by (simp add: list_all_length yy_lengths)

lemma yy_meta_positive: "1 \<le> c \<Longrightarrow> c < 49 \<Longrightarrow> 1 \<le> yy_meta ! c"
proof -
  assume c: "1 \<le> c" "c < 49"
  have "list_all (\<lambda>m. 1 \<le> m) (tl yy_meta)" by (simp add: yy_meta_def)
  moreover have "tl yy_meta ! (c - 1) = yy_meta ! c" "c - 1 < length (tl yy_meta)" using c by (simp_all add: nth_tl yy_lengths)
  ultimately show ?thesis unfolding list_all_length by metis
qed

text \<open>Only the entry for the end-of-buffer character leads to the state behind the buffer.\<close>

lemma yy_eob_entry: "i < 253 \<Longrightarrow> yy_nxt ! i = 9 \<Longrightarrow> i = 204"
proof -
  assume i: "i < 253" "yy_nxt ! i = 9"
  have "list_all (\<lambda>t. t \<noteq> 9) (take 204 yy_nxt)" "list_all (\<lambda>t. t \<noteq> 9) (drop 205 yy_nxt)" by (simp_all add: yy_nxt_def)
  then have n: "j < 204 \<Longrightarrow> yy_nxt ! j \<noteq> 9" "k < 48 \<Longrightarrow> yy_nxt ! (205 + k) \<noteq> 9" for j k
    by (simp_all add: list_all_length yy_lengths)
  have "\<not> i < 204" using n(1) i by blast
  moreover have "\<not> 205 \<le> i" using n(2) [of "i - 205"] i by (auto simp: less_diff_conv2)
  ultimately show ?thesis by linarith
qed

lemma yy_eob_owner: "yy_chk ! 204 = 102"
  by (simp add: yy_chk_def)

lemma yy_def_range: "1 \<le> s \<Longrightarrow> s \<le> 101 \<Longrightarrow> yy_def ! s = 102 \<or> yy_def ! s = 1 \<or> (103 \<le> yy_def ! s \<and> yy_def ! s \<le> 112)"
proof -
  assume s: "1 \<le> s" "s \<le> 101"
  then have "(tl yy_def) ! (s - 1) = yy_def ! s" by (simp add: nth_tl yy_lengths)
  moreover have "s - 1 < length (take 101 (tl yy_def))" using s by (simp add: yy_lengths)
  ultimately show ?thesis using yy_defaults(1) s unfolding list_all_length by (metis nth_take length_take min_less_iff_conj)
qed

lemma yy_def_template: "103 \<le> d \<Longrightarrow> d \<le> 112 \<Longrightarrow> yy_def ! d = 102"
proof -
  assume d: "103 \<le> d" "d \<le> 112"
  then have "d - 103 < length (drop 103 yy_def)" "drop 103 yy_def ! (d - 103) = yy_def ! d" by (simp_all add: yy_lengths)
  then show ?thesis using yy_defaults(3) unfolding list_all_length by metis
qed

text \<open>Two fallbacks are enough: the fuel of a transition.\<close>

lemma yy_trans_row:
  assumes "1 \<le> s" "s \<le> 101" "c < 49"
  shows "yy_trans s c = Some (yy_row yy_fallbacks s ! c)"
proof -
  let ?d = "yy_def ! s"
  have row0: "yy_resolve f 102 e = Some (yy_row 0 102 ! e)" if "e < 49" for e f
    using that yy_jam_row [OF that] by (simp add: yy_resolve_direct length_yy_direct)
  have row1: "yy_resolve 1 d e = Some (yy_row 1 d ! e)" if "e < 49" "d < 113" "yy_def ! d = 102" for d e
    using that row0 [of e 0] by (simp add: yy_resolve_direct [of d] length_yy_direct case_prod_beta)
  have d: "?d = 102 \<or> (?d < 113 \<and> yy_def ! ?d = 102)" "103 \<le> ?d \<or> ?d = 102 \<or> ?d = 1"
    using yy_def_range [OF assms(1,2)] yy_defaults(2) yy_def_template [of ?d] by auto
  have m: "yy_meta ! c < 49" using yy_meta_le [OF assms(3)] by simp
  have rest: "yy_resolve 1 ?d e = Some (yy_row 1 ?d ! e)" if "e < 49" for e
  proof (cases "?d = 102")
    case True
    have "yy_resolve 1 102 e = Some (yy_row 0 102 ! e)" by (rule row0 [OF that])
    moreover have "yy_row 1 102 ! e = yy_row 0 102 ! e"
      using that yy_jam_row [OF that] by (simp add: Let_def case_prod_beta yy_defaults(5) length_yy_direct)
    ultimately show ?thesis using True by simp
  next
    case False
    then show ?thesis using row1 that d(1) by simp
  qed
  have len: "length (yy_row 1 ?d) = 49"
    using d(1) yy_defaults(5) by (auto simp: length_yy_direct yy_lengths Let_def)
  show ?thesis
    unfolding yy_trans_def yy_fallbacks_def
    using assms rest [OF m] rest [OF assms(3)] len length_yy_direct [of s]
    by (simp add: yy_resolve_direct [of s] numeral_2_eq_2 Let_def yy_lengths case_prod_beta)
qed

section \<open>Range of a transition\<close>

text \<open>A transition ends in an entry that belongs to the state it was found in.\<close>

lemma yy_resolve_entry:
  assumes "yy_resolve f s c = Some t" "1 \<le> c" "c < 49"
  shows "\<exists>s' c'. 1 \<le> c' \<and> s' < 113 \<and> yy_chk ! (yy_base ! s' + c') = s' \<and> t = yy_nxt ! (yy_base ! s' + c')
    \<and> yy_base ! s' + c' < 253"
  using assms
proof (induction f s c rule: yy_resolve.induct)
  case (1 fuel s c)
  have m: "1 \<le> yy_meta ! c" "yy_meta ! c < 49"
    using 1(3,4) yy_meta_positive [of c] yy_meta_le [of c] by simp_all
  have b: "s < 113" "yy_base ! s + c < 253"
    using 1(2) by (subst (asm) yy_resolve.simps; simp add: yy_lengths split: if_splits)+
  show ?case
  proof (cases "yy_chk ! (yy_base ! s + c) = s")
    case True
    then have "t = yy_nxt ! (yy_base ! s + c)" using 1(2) b by (subst (asm) yy_resolve.simps) (simp add: yy_lengths)
    then show ?thesis using True b 1(3) by blast
  next
    case False
    then obtain f where f: "fuel = Suc f"
        "yy_resolve f (yy_def ! s) (if 103 \<le> yy_def ! s then yy_meta ! c else c) = Some t"
      using 1(2) b by (subst (asm) yy_resolve.simps) (auto simp: yy_lengths Let_def split: nat.splits if_splits)
    have "1 \<le> (if 103 \<le> yy_def ! s then yy_meta ! c else c)" "(if 103 \<le> yy_def ! s then yy_meta ! c else c) < 49"
      using m 1(3,4) by simp_all
    then show ?thesis using 1(1) [OF _ False f(1) refl] b f(2) 1(4) by (simp add: yy_lengths)
  qed
qed

lemma yy_trans_range:
  assumes "1 \<le> s" "s \<le> 101" "1 \<le> c" "c < 49"
  shows "\<exists>t. yy_trans s c = Some t \<and> 1 \<le> t \<and> t \<le> 102 \<and> t \<noteq> 9"
proof -
  obtain t where t: "yy_trans s c = Some t" using yy_trans_row [of s c] assms by blast
  obtain s' c' where e: "1 \<le> c'" "s' < 113" "yy_chk ! (yy_base ! s' + c') = s'" "t = yy_nxt ! (yy_base ! s' + c')"
      "yy_base ! s' + c' < 253"
    using yy_resolve_entry [of yy_fallbacks s c t] t assms unfolding yy_trans_def by blast
  define i where "i = yy_base ! s' + c'"
  have i: "i < 253" "1 \<le> i" "yy_chk ! i = s'" "t = yy_nxt ! i" using e by (simp_all add: i_def)
  have "tl yy_nxt ! (i - 1) = yy_nxt ! i" "i - 1 < length (tl yy_nxt)" using i by (simp_all add: nth_tl yy_lengths)
  then have "1 \<le> t" using yy_ranges(5) i(4) unfolding list_all_length by metis
  moreover have "t \<le> 102" using yy_ranges(4) i by (simp add: list_all_length yy_lengths)
  moreover have "t \<noteq> 9"
  proof
    assume "t = 9"
    then have "i = 204" using yy_eob_entry [of i] i by simp
    then have "s' = 102" using i(3) yy_eob_owner by simp
    then show False using e(1) \<open>i = 204\<close> yy_defaults(4) by (simp add: i_def)
  qed
  ultimately show ?thesis using t by blast
qed

text \<open>The end of the buffer is the only state with the action for it.\<close>

lemma yy_accept_rule: "s \<le> 102 \<Longrightarrow> s \<noteq> 9 \<Longrightarrow> yy_accept ! s \<le> 42"
proof -
  assume s: "s \<le> 102" "s \<noteq> 9"
  have "list_all (\<lambda>a. a \<le> 42) (take 9 yy_accept)" "list_all (\<lambda>a. a \<le> 42) (drop 10 yy_accept)" by (simp_all add: yy_accept_def)
  then have n: "j < 9 \<Longrightarrow> yy_accept ! j \<le> 42" "k < 93 \<Longrightarrow> yy_accept ! (10 + k) \<le> 42" for j k
    by (simp_all add: list_all_length yy_lengths)
  show ?thesis using n(1) [of s] n(2) [of "s - 10"] s by (cases "s < 9") (auto simp: less_diff_conv2)
qed

lemma yy_accept_start: "1 \<le> s \<Longrightarrow> s \<le> 8 \<Longrightarrow> yy_accept ! s = 0"
proof -
  assume s: "1 \<le> s" "s \<le> 8"
  have "list_all (\<lambda>a. a = 0) (take 9 yy_accept)" by (simp add: yy_accept_def)
  then show ?thesis using s by (simp add: list_all_length yy_lengths)
qed

section \<open>Start states\<close>

lemmas row_eval = yy_fallbacks_def numeral_2_eq_2 Let_def yy_direct_def yy_tables

text \<open>In every start condition any character leads to an accepting state.\<close>

definition yy_first_ok :: "nat \<Rightarrow> bool" where
  "yy_first_ok t \<longleftrightarrow> t \<noteq> 102 \<and> yy_accept ! t \<noteq> 0 \<and> yy_accept ! t \<noteq> 40"

lemma yy_first_rows:
  "list_all yy_first_ok (tl (yy_row yy_fallbacks 1))" "list_all yy_first_ok (tl (yy_row yy_fallbacks 2))"
  "list_all yy_first_ok (tl (yy_row yy_fallbacks 3))" "list_all yy_first_ok (tl (yy_row yy_fallbacks 4))"
  "list_all yy_first_ok (tl (yy_row yy_fallbacks 5))" "list_all yy_first_ok (tl (yy_row yy_fallbacks 6))"
  "list_all yy_first_ok (tl (yy_row yy_fallbacks 7))" "list_all yy_first_ok (tl (yy_row yy_fallbacks 8))"
  by (simp_all add: row_eval yy_first_ok_def)

lemma length_yy_row: "s < 113 \<Longrightarrow> yy_def ! s < 113 \<Longrightarrow> yy_def ! (yy_def ! s) < 113 \<Longrightarrow> length (yy_row yy_fallbacks s) = 49"
  by (simp add: yy_fallbacks_def numeral_2_eq_2 Let_def length_yy_direct yy_lengths)

lemma yy_first_trans:
  assumes "1 \<le> s" "s \<le> 8" "1 \<le> c" "c < 49"
  shows "\<exists>t. yy_trans s c = Some t \<and> yy_first_ok t"
proof -
  have "s \<in> {1, 2, 3, 4, 5, 6, 7, 8}" using assms(1,2) by auto
  then have all: "list_all yy_first_ok (tl (yy_row yy_fallbacks s))" using yy_first_rows by auto
  have "yy_def ! s < 113 \<and> yy_def ! (yy_def ! s) < 113"
    using yy_def_range [of s] yy_def_template [of "yy_def ! s"] yy_defaults(2,5) assms by auto
  then have "length (yy_row yy_fallbacks s) = 49" using assms by (intro length_yy_row) simp_all
  then have "c - 1 < length (tl (yy_row yy_fallbacks s))" "tl (yy_row yy_fallbacks s) ! (c - 1) = yy_row yy_fallbacks s ! c"
    using assms by (simp_all add: nth_tl)
  then have "yy_first_ok (yy_row yy_fallbacks s ! c)" using all unfolding list_all_length by metis
  then show ?thesis using yy_trans_row [of s c] assms by simp
qed

end
