(* ===== verification/Scanner_Runs.thy ===== *)
theory Scanner_Runs
  imports Scanner Scanner_Rows
begin

text \<open>
  What the scanner does with one piece of text: a run of the automaton over the text of a token
  that stops at the next character, blanks that are skipped, and the parts of a string.
\<close>

section \<open>Checks of a row\<close>

text \<open>
  A property of the successors a state has for the classes of a list and for the others.
\<close>

definition class_mask :: "nat list \<Rightarrow> bool list" where
  "class_mask cs = map (\<lambda>c. c \<in> set cs) [0..<49]"

lemma class_range:
  "[0..<49] = [0, 1, 2, 3, 4, 5, 6, 7, 8, 9, 10, 11, 12, 13, 14, 15, 16, 17, 18, 19, 20, 21, 22, 23, 24, 25, 26, 27, 28,
     29, 30, 31, 32, 33, 34, 35, 36, 37, 38, 39, 40, 41, 42, 43, 44, 45, 46, 47, 48]"
  by (simp add: upt_conv_Cons [of 0] upt_conv_Cons [of "Suc 0"] upt_rec_numeral flip: numeral_2_eq_2)

definition row_mask :: "(bool \<Rightarrow> nat \<Rightarrow> bool) \<Rightarrow> nat list \<Rightarrow> nat \<Rightarrow> bool" where
  "row_mask P cs s \<longleftrightarrow> list_all2 P (class_mask cs) (yy_row yy_fallbacks s)"

lemma row_mask_trans:
  assumes "row_mask P cs s" "1 \<le> s" "s \<le> 101" "c < 49"
  shows "\<exists>t. yy_trans s c = Some t \<and> P (c \<in> set cs) t"
  using assms list_all2_nthD [of P "class_mask cs" "yy_row yy_fallbacks s" c] yy_trans_row [of s c]
  by (simp add: row_mask_def class_mask_def)

definition goes :: "nat \<Rightarrow> nat list \<Rightarrow> nat \<Rightarrow> bool" where
  "goes s cs t \<longleftrightarrow> row_mask (\<lambda>m u. m \<longrightarrow> u = t) cs s"

definition stays :: "nat list \<Rightarrow> nat list \<Rightarrow> nat \<Rightarrow> bool" where
  "stays S cs s \<longleftrightarrow> row_mask (\<lambda>m u. m \<longrightarrow> u \<in> set S) cs s"

definition only_on :: "nat list \<Rightarrow> nat \<Rightarrow> bool" where
  "only_on cs s \<longleftrightarrow> row_mask (\<lambda>m u. m \<or> u = YY_JAM) (0 # cs) s"

lemmas row_checks = goes_def stays_def only_on_def row_mask_def row_eval YY_JAM_def

lemma yy_class_less: "yy_class c < 49"
proof -
  have "of_char c < (256 :: nat)" by simp
  then have "yy_ec ! of_char c \<le> 48" using yy_ranges(2) by (simp add: list_all_length yy_lengths)
  then show ?thesis by (simp add: yy_class_def)
qed

text \<open>A property of all characters but NUL and their classes.\<close>

definition classes_all :: "(nat \<Rightarrow> nat \<Rightarrow> bool) \<Rightarrow> bool" where
  "classes_all P \<longleftrightarrow> list_all2 P [1..<256] (tl yy_ec)"

lemma classes_all_char:
  assumes "classes_all P" "c \<noteq> NUL"
  shows "P (of_char c) (yy_class c)"
proof -
  define n where "n = (of_char c :: nat)"
  have "char_of (0 :: nat) = NUL" by (simp add: NUL_def char_of_def)
  then have "n \<noteq> 0" using assms(2) char_of_char [of c] unfolding n_def by metis
  moreover have "n < 256" unfolding n_def by (rule nat_of_char_less_256)
  ultimately have "P ([1..<256] ! (n - 1)) (tl yy_ec ! (n - 1))" and n: "1 \<le> n" "n < 256"
    using list_all2_nthD [of P "[1..<256]" "tl yy_ec" "n - 1"] assms(1) by (simp_all add: classes_all_def)
  moreover have "[1..<256] ! (n - 1) = n" "tl yy_ec ! (n - 1) = yy_ec ! n" using n by (simp_all add: nth_tl yy_lengths)
  ultimately show ?thesis using assms(2) by (simp add: yy_class_def n_def)
qed

section \<open>Runs\<close>

fun run :: "nat \<Rightarrow> string \<Rightarrow> nat option" where
  "run s [] = Some s"
| "run s (c # cs) = (case yy_trans s (yy_class c) of None \<Rightarrow> None | Some t \<Rightarrow> if t = YY_JAM then None else run t cs)"

lemma run_append: "run s (a @ b) = Option.bind (run s a) (\<lambda>t. run t b)"
  by (induction a arbitrary: s) (auto split: option.split)

definition stops :: "nat \<Rightarrow> string \<Rightarrow> bool" where
  "stops s cs \<longleftrightarrow> cs = [] \<or> yy_trans s (yy_class (hd cs)) = Some YY_JAM"

lemma match_run:
  "run s w = Some t \<Longrightarrow> yy_accept ! t \<noteq> 0 \<Longrightarrow> stops t rest \<Longrightarrow>
   yy_match s (w @ rest) n l = Some (Some (t, n + length w))"
proof (induction w arbitrary: s n l)
  case Nil
  then show ?case by (cases rest) (auto simp: stops_def Let_def)
next
  case (Cons c w)
  then obtain u where u: "yy_trans s (yy_class c) = Some u" "u \<noteq> YY_JAM" "run u w = Some t"
    by (auto split: option.splits if_splits)
  then show ?case using Cons.IH [OF u(3) Cons.prems(2,3)] by (simp add: Let_def)
qed

lemma goes_run:
  "goes s cs t \<Longrightarrow> 1 \<le> s \<Longrightarrow> s \<le> 101 \<Longrightarrow> t \<noteq> YY_JAM \<Longrightarrow> yy_class c \<in> set cs \<Longrightarrow> run s (c # w) = run t w"
  using row_mask_trans [of _ cs s "yy_class c"] yy_class_less by (fastforce simp: goes_def)

lemma stays_run:
  assumes "list_all (stays S cs) S" "list_all (\<lambda>s. 1 \<le> s \<and> s \<le> 101) S"
  shows "s \<in> set S \<Longrightarrow> \<forall>c \<in> set w. yy_class c \<in> set cs \<Longrightarrow> \<exists>t \<in> set S. run s w = Some t"
proof (induction w arbitrary: s)
  case (Cons c w)
  have s: "stays S cs s" "1 \<le> s" "s \<le> 101" using assms Cons.prems(1) by (auto simp: list_all_iff)
  obtain t where t: "yy_trans s (yy_class c) = Some t" "t \<in> set S"
    using row_mask_trans [OF s(1) [unfolded stays_def] s(2,3) yy_class_less] Cons.prems(2) by auto
  moreover have "t \<noteq> YY_JAM" using t(2) assms(2) by (auto simp: list_all_iff YY_JAM_def)
  ultimately show ?case using Cons by simp
qed auto

lemma only_on_stops:
  assumes "only_on cs s" "1 \<le> s" "s \<le> 101" "rest \<noteq> [] \<Longrightarrow> yy_class (hd rest) \<notin> set cs"
  shows "stops s rest"
proof (cases rest)
  case (Cons c r)
  have "yy_class c \<noteq> 0"
  proof (cases "c = NUL")
    case False
    have "classes_all (\<lambda>n k. k \<noteq> 0)"
      using yy_ranges(9) by (simp add: classes_all_def list_all2_conv_all_nth list_all_length yy_lengths Suc_le_eq)
    then show ?thesis using classes_all_char False by auto
  qed (simp add: yy_class_def)
  then show ?thesis
    using row_mask_trans [OF assms(1) [unfolded only_on_def] assms(2,3) yy_class_less [of c]] assms(4) Cons
    by (auto simp: stops_def)
qed (simp add: stops_def)

section \<open>Rounds of the scanner\<close>

text \<open>
  The scanner reads from a buffer that is not in an include file: its start condition, the
  string it is collecting, and the characters that are left.
\<close>

definition reads :: "nat \<Rightarrow> string \<Rightarrow> string \<Rightarrow> yyguts \<Rightarrow> bool" where
  "reads st str input g \<longleftrightarrow> yy_start g = st \<and> yy_input (yy_buffer g) = input \<and> yy_readable (yy_buffer g)
     \<and> scanctx_ok (yy_extra g) \<and> sc_depth (yy_extra g) = 0 \<and> sc_log (yy_extra g) = []
     \<and> sb_text (sc_string (yy_extra g)) = str \<and> yy_out g = []"

lemma scan_token:
  assumes g: "reads st str (w @ rest) g" "w \<noteq> []"
    and r: "run st w = Some t" "run (st + 1) w = Some t" "yy_accept ! t = act" "act \<noteq> 0" "act \<noteq> 40" "stops t rest"
  shows "\<exists>g'. reads st str rest g' \<and> (\<forall>config. yy_scan fs config g = yy_action fs act w config g')"
proof -
  define g' where "g' = snd (yy_consume act (length w) g)"
  have "yy_match (yy_start g + (if yy_at_bol (yy_buffer g) then 1 else 0)) (w @ rest) 0 None = Some (Some (t, length w))"
    using match_run [OF r(1), of rest 0 None] match_run [OF r(2), of rest 0 None] r g(1) by (simp add: reads_def)
  then have "yy_scan fs config g = yy_action fs act w config g'" for config
    using g r by (simp add: yy_scan_def reads_def g'_def yy_consume_def Let_def)
  moreover have "reads st str rest g'" using g r by (simp add: reads_def g'_def yy_consume_def Let_def)
  ultimately show ?thesis by blast
qed

section \<open>Tokens that are fed to the parser\<close>

inductive feeds :: "file_system \<Rightarrow> yyguts \<Rightarrow> (nat \<times> yystype option) list \<Rightarrow> yyguts \<Rightarrow> bool" for fs where
  feeds_done: "feeds fs g [] g"
| feeds_skip: "(\<And>config. yy_scan fs config g = Lex_Goes_On config g1) \<Longrightarrow> feeds fs g1 ts g' \<Longrightarrow> feeds fs g ts g'"
| feeds_token: "(\<And>config. yy_scan fs config g = Lex_Returns (Token t v) config g1) \<Longrightarrow> feeds fs g1 ts g' \<Longrightarrow>
    feeds fs g ((t, v) # ts) g'"

lemma feeds_trans: "feeds fs g ts g1 \<Longrightarrow> feeds fs g1 us g2 \<Longrightarrow> feeds fs g (ts @ us) g2"
  by (induction rule: feeds.induct) (auto intro: feeds.intros)

lemma feeds_yylex: "feeds fs g ((t, v) # ts) g' \<Longrightarrow> \<exists>g1. (\<forall>config. yylex fs config g = Some (Token t v, config, g1)) \<and> feeds fs g1 ts g'"
proof (induction g "(t, v) # ts" g' rule: feeds.induct)
  case (feeds_skip g g1 g')
  then show ?case by (subst yylex.simps) auto
next
  case (feeds_token g g1 g')
  then show ?case by (subst yylex.simps) auto
qed

text \<open>A text that gives a list of tokens and leaves the rest, in the initial start condition.\<close>

definition text_tokens :: "file_system \<Rightarrow> string \<Rightarrow> (nat \<times> yystype option) list \<Rightarrow> string \<Rightarrow> bool" where
  "text_tokens fs input ts rest \<longleftrightarrow> (\<forall>g. reads 1 [] input g \<longrightarrow> (\<exists>g'. reads 1 [] rest g' \<and> feeds fs g ts g'))"

lemma text_tokens_refl: "text_tokens fs input [] input"
  unfolding text_tokens_def using feeds_done by blast

lemma text_tokens_trans: "text_tokens fs a ts b \<Longrightarrow> text_tokens fs b us c \<Longrightarrow> text_tokens fs a (ts @ us) c"
  unfolding text_tokens_def using feeds_trans by blast

lemma text_token:
  assumes "w \<noteq> []" "run 1 w = Some t" "run 2 w = Some t" "yy_accept ! t = act" "act \<noteq> 0" "act \<noteq> 40" "stops t rest"
    "\<And>config g. yy_action fs act w config g = yy_token tok v config g"
  shows "text_tokens fs (w @ rest) [(tok, v)] rest"
  unfolding text_tokens_def
proof (intro allI impI)
  fix g
  assume g: "reads 1 [] (w @ rest) g"
  obtain g' where g': "reads 1 [] rest g'" "\<forall>config. yy_scan fs config g = yy_action fs act w config g'"
    using scan_token [OF g assms(1,2) _ assms(4-7), of fs] assms(3) by (auto simp: numeral_2_eq_2)
  then have "feeds fs g [(tok, v)] g'"
    using assms(8) by (intro feeds_token [OF _ feeds_done]) (simp add: yy_token_def)
  then show "\<exists>g'. reads 1 [] rest g' \<and> feeds fs g [(tok, v)] g'" using g'(1) by blast
qed

lemma text_skip:
  assumes "w \<noteq> []" "run 1 w = Some t1" "run 2 w = Some t2" "yy_accept ! t1 \<in> {21, 22}" "yy_accept ! t2 = yy_accept ! t1"
    "stops t1 rest" "stops t2 rest"
  shows "text_tokens fs (w @ rest) [] rest"
  unfolding text_tokens_def
proof (intro allI impI)
  fix g
  assume g: "reads 1 [] (w @ rest) g"
  define g' where "g' = snd (yy_consume (yy_accept ! t1) (length w) g)"
  have "yy_match (yy_start g + (if yy_at_bol (yy_buffer g) then 1 else 0)) (w @ rest) 0 None
      = Some (Some (if yy_at_bol (yy_buffer g) then t2 else t1, length w))"
    using match_run [OF assms(2), of rest 0 None] match_run [OF assms(3), of rest 0 None] assms(4-7) g by (auto simp: reads_def numeral_2_eq_2)
  then have "yy_scan fs config g = Lex_Goes_On config g'" for config
    using g assms by (auto simp: yy_scan_def reads_def g'_def yy_action_def Let_def split: prod.split)
  then have "feeds fs g [] g'" by (intro feeds_skip [OF _ feeds_done])
  moreover have "reads 1 [] rest g'" using g assms by (auto simp: reads_def g'_def yy_consume_def Let_def)
  ultimately show "\<exists>g'. reads 1 [] rest g' \<and> feeds fs g [] g'" by blast
qed

end
