(* ===== verification/Scanner_Pieces.thy ===== *)
theory Scanner_Pieces
  imports Scanner_Runs
begin

text \<open>
  The tokens of a configuration file one by one: which texts are read as which tokens, and what
  may follow them.
\<close>

declare run.simps(2) [simp del]

section \<open>Characters that end a token\<close>

definition delimiters :: "nat list" where
  "delimiters = [2, 3, 9, 12, 18, 19, 20, 35, 48]"

definition delimited :: "string \<Rightarrow> bool" where
  "delimited rest \<longleftrightarrow> rest \<noteq> [] \<longrightarrow> yy_class (hd rest) \<in> set delimiters"

lemma yy_class_values:
  "yy_class CHR '' '' = 2" "yy_class CHR 0x09 = 2" "yy_class CHR 0x0A = 3" "yy_class CHR 0x22 = 6" "yy_class CHR ''('' = 8"
  "yy_class CHR '')'' = 9" "yy_class CHR '','' = 12" "yy_class CHR ''-'' = 13" "yy_class CHR '':'' = 18" "yy_class CHR '';'' = 19"
  "yy_class CHR ''='' = 20" "yy_class CHR ''['' = 33" "yy_class CHR 0x5C = 34" "yy_class CHR '']'' = 35" "yy_class CHR ''{'' = 47"
  "yy_class CHR ''}'' = 48" "yy_class CHR ''0'' = 16" "yy_class CHR ''x'' = 32" "yy_class CHR ''L'' = 27"
  "yy_class CHR ''t'' = 45" "yy_class CHR ''r'' = 44" "yy_class CHR ''u'' = 46" "yy_class CHR ''e'' = 39"
  "yy_class CHR ''f'' = 40" "yy_class CHR ''a'' = 22" "yy_class CHR ''l'' = 42" "yy_class CHR ''s'' = 29" "yy_class CHR ''n'' = 43"
  by code_simp+

lemma delimited_simps [simp]:
  "delimited []" "delimited (CHR '' '' # r)" "delimited (CHR 0x0A # r)" "delimited (CHR '')'' # r)" "delimited (CHR '','' # r)"
  "delimited (CHR '';'' # r)" "delimited (CHR '']'' # r)"
  by (simp_all add: delimited_def delimiters_def yy_class_values)

lemma delimited_stops:
  assumes "delimited rest" "only_on cs s" "1 \<le> s" "s \<le> 101" "list_all (\<lambda>d. d \<notin> set cs) delimiters"
  shows "stops s rest"
  using only_on_stops [OF assms(2-4)] assms(1,5) by (auto simp: delimited_def list_all_iff)

section \<open>Punctuation\<close>

lemma punctuation_rows:
  "goes 1 [47] 31" "goes 1 [48] 32" "goes 1 [33] 29" "goes 1 [35] 30" "goes 1 [8] 16" "goes 1 [9] 17" "goes 1 [12] 20"
  "goes 1 [19] 26" "goes 1 [18, 20] 25" "goes 1 [3] 12"
  "goes 2 [47] 31" "goes 2 [48] 32" "goes 2 [33] 29" "goes 2 [35] 30" "goes 2 [8] 16" "goes 2 [9] 17" "goes 2 [12] 20"
  "goes 2 [19] 26" "goes 2 [18, 20] 25" "goes 2 [3] 12"
  "list_all (only_on []) [12, 16, 17, 20, 25, 26, 29, 30, 31, 32]"
  by (simp_all add: row_checks class_mask_def class_range)

lemma accepting:
  "yy_accept ! 31 = 25" "yy_accept ! 32 = 26" "yy_accept ! 29 = 35" "yy_accept ! 30 = 36" "yy_accept ! 16 = 37" "yy_accept ! 17 = 38"
  "yy_accept ! 20 = 24" "yy_accept ! 26 = 39" "yy_accept ! 25 = 23" "yy_accept ! 12 = 21" "yy_accept ! 11 = 22" "yy_accept ! 44 = 22"
  "yy_accept ! 33 = 22" "yy_accept ! 60 = 22" "yy_accept ! 91 = 27" "yy_accept ! 95 = 28"
  by code_simp+

lemma text_punctuation:
  assumes "goes 1 cs t" "goes 2 cs t" "yy_class c \<in> set cs" "only_on [] t" "1 \<le> t" "t \<le> 101" "yy_accept ! t = act" "act \<noteq> 0" "act \<noteq> 40"
    "\<And>config g. yy_action fs act [c] config g = yy_token tok None config g"
  shows "text_tokens fs (c # rest) [(tok, None)] rest"
proof -
  have "run 1 [c] = Some t" "run 2 [c] = Some t"
    using goes_run [OF assms(1), of c "[]"] goes_run [OF assms(2), of c "[]"] assms(3,5,6) by (auto simp: YY_JAM_def)
  moreover have "stops t rest" using only_on_stops [OF assms(4-6)] by simp
  ultimately show ?thesis using text_token [of "[c]" t act rest fs tok None] assms(7-10) by simp
qed

lemma text_marks:
  "text_tokens fs (CHR ''{'' # rest) [(TOK_GROUP_START, None)] rest"
  "text_tokens fs (CHR ''}'' # rest) [(TOK_GROUP_END, None)] rest"
  "text_tokens fs (CHR ''['' # rest) [(TOK_ARRAY_START, None)] rest"
  "text_tokens fs (CHR '']'' # rest) [(TOK_ARRAY_END, None)] rest"
  "text_tokens fs (CHR ''('' # rest) [(TOK_LIST_START, None)] rest"
  "text_tokens fs (CHR '')'' # rest) [(TOK_LIST_END, None)] rest"
  "text_tokens fs (CHR '','' # rest) [(TOK_COMMA, None)] rest"
  "text_tokens fs (CHR '';'' # rest) [(TOK_SEMICOLON, None)] rest"
  "text_tokens fs (CHR '':'' # rest) [(TOK_EQUALS, None)] rest"
  "text_tokens fs (CHR ''='' # rest) [(TOK_EQUALS, None)] rest"
proof -
  note row = punctuation_rows(21) [simplified]
  show "text_tokens fs (CHR ''{'' # rest) [(TOK_GROUP_START, None)] rest"
    by (rule text_punctuation [OF punctuation_rows(1) punctuation_rows(11) _ _ _ _ accepting(1)]) (simp_all add: row yy_class_values yy_action_def)
  show "text_tokens fs (CHR ''}'' # rest) [(TOK_GROUP_END, None)] rest"
    by (rule text_punctuation [OF punctuation_rows(2) punctuation_rows(12) _ _ _ _ accepting(2)]) (simp_all add: row yy_class_values yy_action_def)
  show "text_tokens fs (CHR ''['' # rest) [(TOK_ARRAY_START, None)] rest"
    by (rule text_punctuation [OF punctuation_rows(3) punctuation_rows(13) _ _ _ _ accepting(3)]) (simp_all add: row yy_class_values yy_action_def)
  show "text_tokens fs (CHR '']'' # rest) [(TOK_ARRAY_END, None)] rest"
    by (rule text_punctuation [OF punctuation_rows(4) punctuation_rows(14) _ _ _ _ accepting(4)]) (simp_all add: row yy_class_values yy_action_def)
  show "text_tokens fs (CHR ''('' # rest) [(TOK_LIST_START, None)] rest"
    by (rule text_punctuation [OF punctuation_rows(5) punctuation_rows(15) _ _ _ _ accepting(5)]) (simp_all add: row yy_class_values yy_action_def)
  show "text_tokens fs (CHR '')'' # rest) [(TOK_LIST_END, None)] rest"
    by (rule text_punctuation [OF punctuation_rows(6) punctuation_rows(16) _ _ _ _ accepting(6)]) (simp_all add: row yy_class_values yy_action_def)
  show "text_tokens fs (CHR '','' # rest) [(TOK_COMMA, None)] rest"
    by (rule text_punctuation [OF punctuation_rows(7) punctuation_rows(17) _ _ _ _ accepting(7)]) (simp_all add: row yy_class_values yy_action_def)
  show "text_tokens fs (CHR '';'' # rest) [(TOK_SEMICOLON, None)] rest"
    by (rule text_punctuation [OF punctuation_rows(8) punctuation_rows(18) _ _ _ _ accepting(8)]) (simp_all add: row yy_class_values yy_action_def)
  show "text_tokens fs (CHR '':'' # rest) [(TOK_EQUALS, None)] rest"
    by (rule text_punctuation [OF punctuation_rows(9) punctuation_rows(19) _ _ _ _ accepting(9)]) (simp_all add: row yy_class_values yy_action_def)
  show "text_tokens fs (CHR ''='' # rest) [(TOK_EQUALS, None)] rest"
    by (rule text_punctuation [OF punctuation_rows(9) punctuation_rows(19) _ _ _ _ accepting(9)]) (simp_all add: row yy_class_values yy_action_def)
qed

section \<open>Blanks\<close>

lemma blank_rows:
  "goes 1 [2] 11" "list_all (stays [11, 44] [2]) [11, 44]" "list_all (only_on [2]) [11, 44]"
  "goes 2 [2] 33" "list_all (stays [33, 60] [2]) [33, 60]" "list_all (only_on [2, 21]) [33, 60]"
  by (simp_all add: row_checks class_mask_def class_range)

lemma text_newline: "text_tokens fs (CHR 0x0A # rest) [] rest"
proof -
  have "run 1 [CHR 0x0A] = Some 12" "run 2 [CHR 0x0A] = Some 12"
    using goes_run [OF punctuation_rows(10), of "CHR 0x0A" "[]"] goes_run [OF punctuation_rows(20), of "CHR 0x0A" "[]"]
    by (simp_all add: yy_class_values YY_JAM_def)
  moreover have "stops 12 rest" using only_on_stops [of "[]" 12 rest] punctuation_rows(21) by simp
  ultimately show ?thesis using text_skip [of "[CHR 0x0A]" 12 12 rest fs] by (simp add: accepting)
qed

definition solid :: "string \<Rightarrow> bool" where
  "solid rest \<longleftrightarrow> rest \<noteq> [] \<longrightarrow> yy_class (hd rest) \<notin> {2, 21}"

lemma text_blanks:
  assumes "\<forall>c \<in> set w. yy_class c = 2" "solid rest"
  shows "text_tokens fs (w @ rest) [] rest"
proof (cases w)
  case Nil
  then show ?thesis by (simp add: text_tokens_refl)
next
  case (Cons c v)
  have v: "\<forall>c \<in> set v. yy_class c \<in> set [2]" and c: "yy_class c \<in> set [2]" using assms(1) Cons by auto
  obtain t1 where t1: "run 11 v = Some t1" "t1 \<in> {11, 44}"
    using stays_run [OF blank_rows(2) _ _ v, of 11] by auto
  obtain t2 where t2: "run 33 v = Some t2" "t2 \<in> {33, 60}"
    using stays_run [OF blank_rows(5) _ _ v, of 33] by auto
  have "run 1 w = Some t1" "run 2 w = Some t2"
    using goes_run [OF blank_rows(1) _ _ _ c, of v] goes_run [OF blank_rows(4) _ _ _ c, of v] t1(1) t2(1) Cons
    by (simp_all add: YY_JAM_def)
  moreover have "stops t1 rest" "stops t2 rest"
    using only_on_stops [of "[2]" t1 rest] only_on_stops [of "[2, 21]" t2 rest] blank_rows(3,6) t1(2) t2(2) assms(2)
    by (auto simp: solid_def)
  moreover have "yy_accept ! t1 = 22" "yy_accept ! t2 = 22" using t1(2) t2(2) by (auto simp: accepting)
  ultimately show ?thesis using text_skip [of w t1 t2 rest fs] Cons by simp
qed

section \<open>Names and booleans\<close>

definition name_classes :: "nat list" where
  "name_classes = [10, 13, 16, 17, 22, 23, 24, 25, 26, 27, 28, 29, 30, 31, 32, 36, 37, 38, 39, 40, 41, 42, 43, 44, 45, 46]"

definition name_starts :: "nat list" where
  "name_starts = [10, 22, 23, 24, 25, 26, 27, 28, 29, 30, 31, 32, 37, 38, 39, 40, 41, 42, 43, 44, 45, 46]"

definition name_states :: "nat list" where
  "name_states = [18, 47, 28, 59, 84, 91, 27, 58, 83, 90, 95]"

lemma name_masks:
  "class_mask name_classes =
    [False, False, False, False, False, False, False, False, False, False, True, False, False, True, False, False, True,
     True, False, False, False, False, True, True, True, True, True, True, True, True, True, True, True, False, False,
     False, True, True, True, True, True, True, True, True, True, True, True, False, False]"
  "class_mask (0 # name_classes) =
    [True, False, False, False, False, False, False, False, False, False, True, False, False, True, False, False, True,
     True, False, False, False, False, True, True, True, True, True, True, True, True, True, True, True, False, False,
     False, True, True, True, True, True, True, True, True, True, True, True, False, False]"
  "class_mask name_starts =
    [False, False, False, False, False, False, False, False, False, False, True, False, False, False, False, False, False,
     False, False, False, False, False, True, True, True, True, True, True, True, True, True, True, True, False, False,
     False, False, True, True, True, True, True, True, True, True, True, True, False, False]"
  by (simp_all add: class_mask_def name_classes_def name_starts_def class_range)

lemma name_rows:
  "list_all (stays name_states name_classes) name_states"
  "list_all (only_on name_classes) name_states"
  "stays name_states name_starts 1" "stays name_states name_starts 2"
  "list_all (\<lambda>s. yy_accept ! s = (if s = 91 then 27 else if s = 95 then 28 else 29)) name_states"
  by (simp_all add: row_checks name_masks name_states_def yy_accept_def)

lemma name_delimiters: "list_all (\<lambda>d. d \<notin> set name_classes) delimiters"
  by (simp add: delimiters_def name_classes_def)

lemma boolean_rows:
  "goes 1 [45] 28" "goes 28 [44] 59" "goes 59 [46] 84" "goes 84 [39] 91"
  "goes 1 [40] 27" "goes 27 [22] 58" "goes 58 [42] 83" "goes 83 [29] 90" "goes 90 [39] 95"
  "goes 2 [45] 28" "goes 2 [40] 27"
  by (simp_all add: row_checks class_mask_def class_range)

lemma goes_class: "goes s cs t \<Longrightarrow> 1 \<le> s \<Longrightarrow> s \<le> 101 \<Longrightarrow> t \<noteq> YY_JAM \<Longrightarrow> yy_class c = k \<Longrightarrow> k \<in> set cs \<Longrightarrow> run s (c # w) = run t w"
  by (rule goes_run) simp_all

lemma run_true: "run 1 (''true'' @ w) = run 91 w" "run 2 (''true'' @ w) = run 91 w"
proof -
  have "run 28 (''rue'' @ w) = run 59 (''ue'' @ w)" by (simp add: goes_class [OF boolean_rows(2) _ _ _ yy_class_values(21)] YY_JAM_def)
  also have "\<dots> = run 84 (''e'' @ w)" by (simp add: goes_class [OF boolean_rows(3) _ _ _ yy_class_values(22)] YY_JAM_def)
  also have "\<dots> = run 91 w" by (simp add: goes_class [OF boolean_rows(4) _ _ _ yy_class_values(23)] YY_JAM_def)
  finally have r: "run 28 (''rue'' @ w) = run 91 w" .
  show "run 1 (''true'' @ w) = run 91 w"
    using r by (simp add: goes_class [OF boolean_rows(1) _ _ _ yy_class_values(20)] YY_JAM_def del: One_nat_def)
  show "run 2 (''true'' @ w) = run 91 w"
    using r by (simp add: goes_class [OF boolean_rows(10) _ _ _ yy_class_values(20)] YY_JAM_def)
qed

lemma run_false: "run 1 (''false'' @ w) = run 95 w" "run 2 (''false'' @ w) = run 95 w"
proof -
  have "run 27 (''alse'' @ w) = run 58 (''lse'' @ w)" by (simp add: goes_class [OF boolean_rows(6) _ _ _ yy_class_values(25)] YY_JAM_def)
  also have "\<dots> = run 83 (''se'' @ w)" by (simp add: goes_class [OF boolean_rows(7) _ _ _ yy_class_values(26)] YY_JAM_def)
  also have "\<dots> = run 90 (''e'' @ w)" by (simp add: goes_class [OF boolean_rows(8) _ _ _ yy_class_values(27)] YY_JAM_def)
  also have "\<dots> = run 95 w" by (simp add: goes_class [OF boolean_rows(9) _ _ _ yy_class_values(23)] YY_JAM_def)
  finally have r: "run 27 (''alse'' @ w) = run 95 w" .
  show "run 1 (''false'' @ w) = run 95 w"
    using r by (simp add: goes_class [OF boolean_rows(5) _ _ _ yy_class_values(24)] YY_JAM_def del: One_nat_def)
  show "run 2 (''false'' @ w) = run 95 w"
    using r by (simp add: goes_class [OF boolean_rows(11) _ _ _ yy_class_values(24)] YY_JAM_def)
qed

lemma name_state_facts:
  assumes "s \<in> set name_states"
  shows "1 \<le> s" "s \<le> 101" "only_on name_classes s" "yy_accept ! s = (if s = 91 then 27 else if s = 95 then 28 else 29)"
proof -
  show "1 \<le> s" "s \<le> 101" using assms by (auto simp: name_states_def)
  show "only_on name_classes s" "yy_accept ! s = (if s = 91 then 27 else if s = 95 then 28 else 29)"
    using name_rows(2,5) assms unfolding list_all_iff by blast+
qed

lemma name_state_stops: "s \<in> set name_states \<Longrightarrow> delimited rest \<Longrightarrow> stops s rest"
  using delimited_stops [OF _ name_state_facts(3,1,2)] name_delimiters by blast

lemma text_booleans:
  assumes "delimited rest"
  shows "text_tokens fs (''true'' @ rest) [(TOK_BOOLEAN, Some (Y_Int 1))] rest"
    "text_tokens fs (''false'' @ rest) [(TOK_BOOLEAN, Some (Y_Int 0))] rest"
proof -
  have st: "stops 91 rest" "stops 95 rest" using assms by (auto intro!: name_state_stops simp: name_states_def)
  show "text_tokens fs (''true'' @ rest) [(TOK_BOOLEAN, Some (Y_Int 1))] rest"
    by (rule text_token [OF _ _ _ accepting(15)]) (use run_true [of "[]"] st in \<open>simp_all add: yy_action_def\<close>)
  show "text_tokens fs (''false'' @ rest) [(TOK_BOOLEAN, Some (Y_Int 0))] rest"
    by (rule text_token [OF _ _ _ accepting(16)]) (use run_false [of "[]"] st in \<open>simp_all add: yy_action_def\<close>)
qed

text \<open>A name that is not one of the two words, in any mixture of cases.\<close>

definition lower :: "char \<Rightarrow> char" where
  "lower c = (let n = of_char c in if 65 \<le> n \<and> n \<le> (90 :: nat) then char_of (n + 32) else c)"

definition boolean_word :: "string \<Rightarrow> bool" where
  "boolean_word s \<longleftrightarrow> map lower s \<in> {''true'', ''false''}"

definition is_lower_of :: "nat \<Rightarrow> nat \<Rightarrow> bool" where
  "is_lower_of m n \<longleftrightarrow> n = m \<or> n + 32 = m"

lemma letter_classes:
  "classes_all (\<lambda>n k. k \<in> {30, 45} \<longrightarrow> is_lower_of 116 n)" "classes_all (\<lambda>n k. k \<in> {28, 44} \<longrightarrow> is_lower_of 114 n)"
  "classes_all (\<lambda>n k. k \<in> {31, 46} \<longrightarrow> is_lower_of 117 n)" "classes_all (\<lambda>n k. k \<in> {24, 39} \<longrightarrow> is_lower_of 101 n)"
  "classes_all (\<lambda>n k. k \<in> {25, 40} \<longrightarrow> is_lower_of 102 n)" "classes_all (\<lambda>n k. k \<in> {22} \<longrightarrow> is_lower_of 97 n)"
  "classes_all (\<lambda>n k. k \<in> {27, 42} \<longrightarrow> is_lower_of 108 n)" "classes_all (\<lambda>n k. k \<in> {29} \<longrightarrow> is_lower_of 115 n)"
  by (simp_all add: classes_all_def yy_ec_def is_lower_of_def upt_conv_Cons [of "Suc 0"] upt_rec_numeral flip: numeral_2_eq_2)

lemma name_class_chars:
  "classes_all (\<lambda>n k. (65 \<le> n \<and> n \<le> 90 \<or> 97 \<le> n \<and> n \<le> 122 \<or> n = 42) \<longrightarrow> k \<in> set name_starts)"
  "classes_all (\<lambda>n k. (65 \<le> n \<and> n \<le> 90 \<or> 97 \<le> n \<and> n \<le> 122 \<or> n = 42 \<or> 48 \<le> n \<and> n \<le> 57 \<or> n = 95 \<or> n = 45) \<longrightarrow> k \<in> set name_classes)"
  by (simp_all add: classes_all_def yy_ec_def name_starts_def name_classes_def upt_conv_Cons [of "Suc 0"] upt_rec_numeral flip: numeral_2_eq_2)

lemma lower_class:
  assumes "classes_all (\<lambda>n k. k \<in> K \<longrightarrow> is_lower_of m n)" "yy_class c \<in> K" "1 \<notin> K" "97 \<le> m" "m \<le> 122"
  shows "lower c = char_of m"
proof -
  have "c \<noteq> NUL" using assms(2,3) by (auto simp: yy_class_def)
  then have "is_lower_of m (of_char c)" using classes_all_char [OF assms(1)] assms(2) by blast
  then consider "of_char c = m" | "of_char c + 32 = m" by (auto simp: is_lower_of_def)
  then show ?thesis
  proof cases
    case 1
    then have "c = char_of m" by (metis char_of_char)
    then show ?thesis using assms(4,5) 1 by (simp add: lower_def)
  next
    case 2
    then have "65 \<le> (of_char c :: nat)" "(of_char c :: nat) \<le> 90" using assms(4,5) by auto
    then show ?thesis using 2 by (simp add: lower_def)
  qed
qed

lemma letter_codes:
  "char_of (116 :: nat) = CHR ''t''" "char_of (114 :: nat) = CHR ''r''" "char_of (117 :: nat) = CHR ''u''"
  "char_of (101 :: nat) = CHR ''e''" "char_of (102 :: nat) = CHR ''f''" "char_of (97 :: nat) = CHR ''a''"
  "char_of (108 :: nat) = CHR ''l''" "char_of (115 :: nat) = CHR ''s''"
  by code_simp+

lemma lower_letters:
  "yy_class c \<in> {30, 45} \<Longrightarrow> lower c = CHR ''t''" "yy_class c \<in> {28, 44} \<Longrightarrow> lower c = CHR ''r''"
  "yy_class c \<in> {31, 46} \<Longrightarrow> lower c = CHR ''u''" "yy_class c \<in> {24, 39} \<Longrightarrow> lower c = CHR ''e''"
  "yy_class c \<in> {25, 40} \<Longrightarrow> lower c = CHR ''f''" "yy_class c \<in> {22} \<Longrightarrow> lower c = CHR ''a''"
  "yy_class c \<in> {27, 42} \<Longrightarrow> lower c = CHR ''l''" "yy_class c \<in> {29} \<Longrightarrow> lower c = CHR ''s''"
  using lower_class [OF letter_classes(1)] lower_class [OF letter_classes(2)] lower_class [OF letter_classes(3)]
    lower_class [OF letter_classes(4)] lower_class [OF letter_classes(5)] lower_class [OF letter_classes(6)]
    lower_class [OF letter_classes(7)] lower_class [OF letter_classes(8)]
  by (simp_all add: letter_codes)

text \<open>The states on the way to a word, and what has been read there.\<close>

definition word_prefix :: "nat \<Rightarrow> string option" where
  "word_prefix s = map_of [(28, ''t''), (59, ''tr''), (84, ''tru''), (91, ''true''),
     (27, ''f''), (58, ''fa''), (83, ''fal''), (90, ''fals''), (95, ''false'')] s"

definition word_states :: "nat list" where
  "word_states = [28, 59, 84, 91, 27, 58, 83, 90, 95]"

definition enters :: "nat \<Rightarrow> nat list \<Rightarrow> nat \<Rightarrow> bool" where
  "enters s cs t \<longleftrightarrow> row_mask (\<lambda>m u. u \<in> set word_states \<longrightarrow> m \<and> u = t) cs s"

lemma word_rows:
  "enters 28 [28, 44] 59" "enters 59 [31, 46] 84" "enters 84 [24, 39] 91" "enters 27 [22] 58" "enters 58 [27, 42] 83"
  "enters 83 [29] 90" "enters 90 [24, 39] 95" "list_all (\<lambda>s. enters s [] 0) [18, 47, 91, 95]"
  "row_mask (\<lambda>m u. u = 28 \<longrightarrow> m) [30, 45] 1" "row_mask (\<lambda>m u. u = 27 \<longrightarrow> m) [25, 40] 1"
  "row_mask (\<lambda>m u. u \<in> set word_states \<longrightarrow> u = 28 \<or> u = 27) [] 1"
  by (simp_all add: enters_def row_checks class_mask_def class_range word_states_def)

lemma enters_class:
  assumes "enters s cs t" "1 \<le> s" "s \<le> 101" "yy_trans s (yy_class c) = Some u" "u \<in> set word_states"
  shows "yy_class c \<in> set cs \<and> u = t"
  using row_mask_trans [OF assms(1) [unfolded enters_def] assms(2,3) yy_class_less [of c]] assms(4,5) by auto

lemma word_prefix_values:
  "word_prefix 28 = Some ''t''" "word_prefix 59 = Some ''tr''" "word_prefix 84 = Some ''tru''" "word_prefix 91 = Some ''true''"
  "word_prefix 27 = Some ''f''" "word_prefix 58 = Some ''fa''" "word_prefix 83 = Some ''fal''" "word_prefix 90 = Some ''fals''"
  "word_prefix 95 = Some ''false''"
  by (simp_all add: word_prefix_def)

lemma word_prefix_step:
  assumes "s \<in> set name_states" "yy_trans s (yy_class c) = Some u" "word_prefix u = Some p"
  shows "\<exists>q. word_prefix s = Some q \<and> p = q @ [lower c]"
proof -
  have u: "u \<in> set word_states" using assms(3) by (auto simp: word_prefix_def word_states_def split: if_splits)
  have e: "yy_class c \<in> set cs \<and> u = t" if "enters s cs t" for cs t
    using enters_class [OF that name_state_facts(1,2) [OF assms(1)] assms(2) u] .
  have "s \<notin> {18, 47, 91, 95}" using e [of "[]" 0] word_rows(8) by auto
  then consider "s = 28" | "s = 59" | "s = 84" | "s = 27" | "s = 58" | "s = 83" | "s = 90"
    using assms(1) by (auto simp: name_states_def)
  then show ?thesis
  proof cases
    case 1
    then show ?thesis using e [of "[28, 44]" 59] word_rows(1) lower_letters(2) [of c] assms(3) by (simp add: word_prefix_values)
  next
    case 2
    then show ?thesis using e [of "[31, 46]" 84] word_rows(2) lower_letters(3) [of c] assms(3) by (simp add: word_prefix_values)
  next
    case 3
    then show ?thesis using e [of "[24, 39]" 91] word_rows(3) lower_letters(4) [of c] assms(3) by (simp add: word_prefix_values)
  next
    case 4
    then show ?thesis using e [of "[22]" 58] word_rows(4) lower_letters(6) [of c] assms(3) by (simp add: word_prefix_values)
  next
    case 5
    then show ?thesis using e [of "[27, 42]" 83] word_rows(5) lower_letters(7) [of c] assms(3) by (simp add: word_prefix_values)
  next
    case 6
    then show ?thesis using e [of "[29]" 90] word_rows(6) lower_letters(8) [of c] assms(3) by (simp add: word_prefix_values)
  next
    case 7
    then show ?thesis using e [of "[24, 39]" 95] word_rows(7) lower_letters(4) [of c] assms(3) by (simp add: word_prefix_values)
  qed
qed

lemma stays_trans:
  assumes "stays S cs s" "1 \<le> s" "s \<le> 101" "yy_class c \<in> set cs"
  obtains u where "yy_trans s (yy_class c) = Some u" "u \<in> set S"
proof -
  obtain u where "yy_trans s (yy_class c) = Some u" "yy_class c \<in> set cs \<longrightarrow> u \<in> set S"
    using row_mask_trans [OF assms(1) [unfolded stays_def] assms(2,3) yy_class_less [of c]] by blast
  then show ?thesis using that assms(4) by blast
qed

lemma word_prefix_run:
  "s \<in> set name_states \<Longrightarrow> \<forall>c \<in> set w. yy_class c \<in> set name_classes \<Longrightarrow> run s w = Some t \<Longrightarrow> word_prefix t = Some p \<Longrightarrow>
   \<exists>q. word_prefix s = Some q \<and> p = q @ map lower w"
proof (induction w arbitrary: s)
  case (Cons c w)
  have st: "stays name_states name_classes s" using name_rows(1) Cons.prems(1) by (simp add: list_all_iff)
  have c: "yy_class c \<in> set name_classes" using Cons.prems(2) by simp
  obtain u where u: "yy_trans s (yy_class c) = Some u" "u \<in> set name_states"
    by (rule stays_trans [OF st name_state_facts(1,2) [OF Cons.prems(1)] c])
  then have "run u w = Some t" using Cons.prems(3) by (simp add: run.simps split: if_splits)
  then obtain q where "word_prefix u = Some q" "p = q @ map lower w" using Cons u(2) by auto
  then show ?case using word_prefix_step [OF Cons.prems(1) u(1)] by fastforce
qed simp

text \<open>The two initial start conditions differ on blanks only.\<close>

lemma start_rows:
  "list_all2 (\<lambda>m (a, b). m \<or> a = b) (class_mask [2, 21]) (zip (yy_row yy_fallbacks 1) (yy_row yy_fallbacks 2))"
  "list_all2 (\<lambda>m (a, b). m \<or> a = b) (class_mask []) (zip (yy_row yy_fallbacks 5) (yy_row yy_fallbacks 6))"
  by (simp_all add: row_checks class_mask_def class_range)

lemma same_row:
  assumes "list_all2 (\<lambda>m (a, b). m \<or> a = b) (class_mask cs) (zip (yy_row yy_fallbacks s) (yy_row yy_fallbacks t))"
    "yy_class c \<notin> set cs" "1 \<le> s" "s \<le> 101" "1 \<le> t" "t \<le> 101"
  shows "run t (c # w) = run s (c # w)"
proof -
  have "length (zip (yy_row yy_fallbacks s) (yy_row yy_fallbacks t)) = 49"
    using list_all2_lengthD [OF assms(1)] by (simp add: class_mask_def)
  then have "yy_row yy_fallbacks s ! yy_class c = yy_row yy_fallbacks t ! yy_class c"
    using list_all2_nthD2 [OF assms(1), of "yy_class c"] yy_class_less [of c] assms(2) by (auto simp: class_mask_def)
  then show ?thesis using yy_trans_row [OF _ _ yy_class_less] assms(3-6) by (simp add: run.simps)
qed

lemma run_start: "yy_class c \<noteq> 2 \<Longrightarrow> yy_class c \<noteq> 21 \<Longrightarrow> run 2 (c # w) = run 1 (c # w)"
  using same_row [OF start_rows(1), of c w] by simp

lemma run_string_start: "run 6 (c # w) = run 5 (c # w)"
  using same_row [OF start_rows(2), of c w] by simp

lemma valid_name_classes:
  assumes "config_validate_name (c # n)"
  shows "yy_class c \<in> set name_starts" "\<forall>d \<in> set n. yy_class d \<in> set name_classes" "yy_class c \<noteq> 2" "yy_class c \<noteq> 21"
proof -
  have nul: "of_char NUL = (0 :: nat)" "of_char CHR ''*'' = (42 :: nat)" "of_char CHR ''_'' = (95 :: nat)" "of_char CHR ''-'' = (45 :: nat)"
    by code_simp+
  have "65 \<le> (of_char c :: nat) \<and> of_char c \<le> (90 :: nat) \<or> 97 \<le> (of_char c :: nat) \<and> of_char c \<le> (122 :: nat) \<or> of_char c = (42 :: nat)"
    using assms nul by (auto simp: config_validate_name_def is_alpha_def Let_def)
  moreover from this have "c \<noteq> NUL" using nul by auto
  ultimately show c: "yy_class c \<in> set name_starts" using classes_all_char [OF name_class_chars(1), of c] by blast
  show "yy_class c \<noteq> 2" "yy_class c \<noteq> 21" using c by (auto simp: name_starts_def)
  show "\<forall>d \<in> set n. yy_class d \<in> set name_classes"
  proof
    fix d
    assume "d \<in> set n"
    then have "is_alpha d \<or> is_digit d \<or> d \<in> set ''*_-''" using assms by (auto simp: config_validate_name_def list_all_iff)
    then have "65 \<le> (of_char d :: nat) \<and> of_char d \<le> (90 :: nat) \<or> 97 \<le> (of_char d :: nat) \<and> of_char d \<le> (122 :: nat)
        \<or> of_char d = (42 :: nat) \<or> 48 \<le> (of_char d :: nat) \<and> of_char d \<le> (57 :: nat) \<or> of_char d = (95 :: nat) \<or> of_char d = (45 :: nat)"
      using nul by (auto simp: is_alpha_def is_digit_def Let_def)
    moreover from this have "d \<noteq> NUL" using nul by auto
    ultimately show "yy_class d \<in> set name_classes" using classes_all_char [OF name_class_chars(2), of d] by blast
  qed
qed

lemma text_name:
  assumes "config_validate_name n" "\<not> boolean_word n" "delimited rest"
  shows "text_tokens fs (n @ rest) [(TOK_NAME, Some (Y_String n))] rest"
proof -
  obtain c w where n: "n = c # w" using assms(1) by (cases n) (auto simp: config_validate_name_def)
  note cl = valid_name_classes [OF assms(1) [unfolded n]]
  obtain u where u: "yy_trans 1 (yy_class c) = Some u" "u \<in> set name_states"
    by (rule stays_trans [OF name_rows(3) order_refl _ cl(1)]) simp
  obtain t where t: "t \<in> set name_states" "run u w = Some t"
    using stays_run [OF name_rows(1) _ u(2) cl(2)] name_state_facts by (auto simp: list_all_iff)
  have "u \<noteq> YY_JAM" using name_state_facts(2) [OF u(2)] by (simp add: YY_JAM_def)
  then have r: "run 1 n = Some t" using u(1) t(2) n by (simp add: run.simps)
  have "p = map lower n" if wp: "word_prefix t = Some p" for p
  proof -
    obtain q where q: "word_prefix u = Some q" "p = q @ map lower w" using word_prefix_run [OF u(2) cl(2) t(2) wp] by blast
    have w: "u \<in> set word_states" using q(1) by (auto simp: word_prefix_def word_states_def split: if_splits)
    have "u = 28 \<or> u = 27" "u = 28 \<longrightarrow> yy_class c \<in> {30, 45}" "u = 27 \<longrightarrow> yy_class c \<in> {25, 40}"
      using row_mask_trans [OF word_rows(11) _ _ yy_class_less [of c]] row_mask_trans [OF word_rows(9) _ _ yy_class_less [of c]]
        row_mask_trans [OF word_rows(10) _ _ yy_class_less [of c]] u(1) w by auto
    then have "q = [lower c]" using q(1) lower_letters(1,5) [of c] by (auto simp: word_prefix_def)
    then show ?thesis using q(2) n by simp
  qed
  then have "t \<noteq> 91 \<and> t \<noteq> 95" using assms(2) by (auto simp: boolean_word_def word_prefix_def)
  then have a: "yy_accept ! t = 29" using name_state_facts(4) [OF t(1)] by simp
  show ?thesis
  proof (rule text_token [OF _ r _ a])
    show "run 2 n = Some t" using run_start [OF cl(3,4)] r n by simp
    show "stops t rest" using t(1) assms(3) by (rule name_state_stops)
  qed (simp_all add: n yy_action_def)
qed

end
