(* ===== verification/Config_Writer.thy ===== *)
theory Config_Writer
  imports Config_Reader
begin

text \<open>
  Writing a configuration in \<^verbatim>\<open>libconfig.c\<close>. A function that writes to a stream is a
  function to the text it writes.
\<close>

section \<open>Numbers and strings\<close>

definition hex_digit :: "nat \<Rightarrow> char" where
  "hex_digit d = (if d < 10 then char_of (48 + d) else char_of (55 + d))"

fun hex_digits :: "nat \<Rightarrow> string" where
  "hex_digits n = (if n < 16 then [hex_digit n] else hex_digits (n div 16) @ [hex_digit (n mod 16)])"

declare hex_digits.simps [simp del]

text \<open>The conversions \<^verbatim>\<open>%X\<close> and \<^verbatim>\<open>%llX\<close> read the number as unsigned.\<close>

definition fmt_X :: "nat \<Rightarrow> int \<Rightarrow> string" where
  "fmt_X bits i = hex_digits (nat (i mod 2 ^ bits))"

definition write_int :: "int \<Rightarrow> int \<Rightarrow> string" where
  "write_int format i = (if format = CONFIG_FORMAT_HEX then ''0x'' @ fmt_X 32 i else fmt_d i)"

definition write_int64 :: "int \<Rightarrow> int \<Rightarrow> string" where
  "write_int64 format i = (if format = CONFIG_FORMAT_HEX then ''0x'' @ fmt_X 64 i @ ''L'' else fmt_d i @ ''L'')"

text \<open>
  A number without exponent and point gets \<^verbatim>\<open>.0\<close>; behind a point, zeros at the end are
  cut.
\<close>

definition write_float :: "dbl \<Rightarrow> string" where
  "write_float d =
     (let fbuf = fmt_15g d
      in if CHR ''e'' \<in> set fbuf then fbuf
         else if CHR ''.'' \<notin> set fbuf then fbuf @ ''.0''
         else strip_zeros fbuf)"

definition escape_char :: "char \<Rightarrow> string" where
  "escape_char c =
     (if c = CHR 0x22 \<or> c = CHR 0x5C then [CHR 0x5C, c]
      else if c = CHR 0x0A then [CHR 0x5C, CHR ''n'']
      else if c = CHR 0x0D then [CHR 0x5C, CHR ''r'']
      else if c = CHR 0x0C then [CHR 0x5C, CHR ''f'']
      else if c = CHR 0x09 then [CHR 0x5C, CHR ''t'']
      else if 32 \<le> (of_char c :: nat) then [c]
      else [CHR 0x5C, CHR ''x'', hex_digit (of_char c div 16), hex_digit (of_char c mod 16)])"

definition write_string :: "string option \<Rightarrow> string" where
  "write_string s = [CHR 0x22] @ (case s of None \<Rightarrow> [] | Some t \<Rightarrow> concat (map escape_char t)) @ [CHR 0x22]"

section \<open>Values and settings\<close>

definition config_indent :: "nat \<Rightarrow> nat \<Rightarrow> string" where
  "config_indent depth w =
     (if w \<noteq> 0 then replicate (max 1 ((depth - 1) * w)) CHR '' '' else replicate (depth - 1) CHR 0x09)"

definition group_open :: "config \<Rightarrow> nat \<Rightarrow> string" where
  "group_open config depth =
     (if depth > 0
      then (if config_has_option config CONFIG_OPTION_OPEN_BRACE_ON_SEPARATE_LINE
            then NL @ (if depth > 1 then config_indent depth (tab_width config) else [])
            else []) @ ''{'' @ NL
      else [])"

definition group_close :: "config \<Rightarrow> nat \<Rightarrow> string" where
  "group_close config depth =
     (if depth > 1 then config_indent depth (tab_width config) else []) @ (if depth > 0 then ''}'' else [])"

definition setting_head :: "config \<Rightarrow> config_setting \<Rightarrow> nat \<Rightarrow> string" where
  "setting_head config s depth =
     (if depth > 1 then config_indent depth (tab_width config) else [])
     @ (case s_name s of
          None \<Rightarrow> []
        | Some name \<Rightarrow>
            name @ '' ''
            @ (if config_has_option config (if config_setting_type s = CONFIG_TYPE_GROUP
                    then CONFIG_OPTION_COLON_ASSIGNMENT_FOR_GROUPS
                    else CONFIG_OPTION_COLON_ASSIGNMENT_FOR_NON_GROUPS) then '':'' else ''='') @ '' '')"

definition setting_tail :: "config \<Rightarrow> nat \<Rightarrow> string" where
  "setting_tail config depth =
     (if depth > 0
      then (if config_has_option config CONFIG_OPTION_SEMICOLON_SEPARATORS then '';'' else []) @ NL
      else [])"

fun config_write_value :: "config \<Rightarrow> config_value \<Rightarrow> int \<Rightarrow> nat \<Rightarrow> string"
  and config_write_elems :: "config \<Rightarrow> config_setting list \<Rightarrow> nat \<Rightarrow> string"
  and config_write_members :: "config \<Rightarrow> config_setting list \<Rightarrow> nat \<Rightarrow> string"
  and config_write_setting :: "config \<Rightarrow> config_setting \<Rightarrow> nat \<Rightarrow> string" where
  "config_write_value config (V_Bool i) format depth = (if i \<noteq> 0 then ''true'' else ''false'')"
| "config_write_value config (V_Int i) format depth = write_int format i"
| "config_write_value config (V_Int64 i) format depth = write_int64 format i"
| "config_write_value config (V_Float d) format depth = write_float d"
| "config_write_value config (V_String s) format depth = write_string s"
| "config_write_value config (V_List None) format depth = ''( )''"
| "config_write_value config (V_List (Some (Config_List es c))) format depth =
     ''( '' @ config_write_elems config es (depth + 1) @ '')''"
| "config_write_value config (V_Array None) format depth = ''[ ]''"
| "config_write_value config (V_Array (Some (Config_List es c))) format depth =
     ''[ '' @ config_write_elems config es (depth + 1) @ '']''"
| "config_write_value config (V_Group None) format depth = group_open config depth @ group_close config depth"
| "config_write_value config (V_Group (Some (Config_List es c))) format depth =
     group_open config depth @ config_write_members config es (depth + 1) @ group_close config depth"
| "config_write_value config V_None format depth = ''???''"
| "config_write_elems config [] depth = []"
| "config_write_elems config (Setting n f v h l file # es) depth =
     config_write_value config v (config_setting_get_format config (Setting n f v h l file)) depth
     @ (if es \<noteq> [] then '','' else []) @ '' '' @ config_write_elems config es depth"
| "config_write_members config [] depth = []"
| "config_write_members config (e # es) depth =
     config_write_setting config e depth @ config_write_members config es depth"
| "config_write_setting config (Setting n f v h l file) depth =
     setting_head config (Setting n f v h l file) depth
     @ config_write_value config v (config_setting_get_format config (Setting n f v h l file)) depth
     @ setting_tail config depth"

definition config_write :: "config \<Rightarrow> string" where
  "config_write config = config_write_setting config (root config) 0"

text \<open>
  Writing to a file: the configuration with its error fields and the file system after the
  call. \<open>writable\<close> tells whether the path can be opened for writing.
\<close>

definition config_write_file ::
    "(string \<Rightarrow> bool) \<Rightarrow> file_system \<Rightarrow> config \<Rightarrow> string \<Rightarrow> bool \<times> config \<times> file_system" where
  "config_write_file writable fs config filename =
     (if writable filename
      then (True, config\<lparr>error_type := CONFIG_ERR_NONE\<rparr>, fs(filename \<mapsto> Regular (config_write config)))
      else (False, config\<lparr>error_text := Some io_error, error_type := CONFIG_ERR_FILE_IO\<rparr>, fs))"

end
