(* ===== verification/Scanner_Values.thy ===== *)
theory Scanner_Values
  imports Scanner_Pieces Config_Writer
begin

text \<open>
  The numbers and strings a configuration is written with, as the scanner reads them: the text
  is one token, and its value is what was written.
\<close>

section \<open>The values of digits\<close>

lemma strtol10_fmt_d:
  assumes "- (2 ^ 63) \<le> i" "i < 2 ^ 63" "r \<noteq> [] \<Longrightarrow> digit_val (hd r) = None"
  shows "strtol10 (fmt_d i @ r) = i"
proof -
  have v: "digits_value 0 (digits n @ r) = n" for n
    using assms(3) by (cases r) (simp_all add: digits_value_append digits_are_digits digits_value_digits)
  obtain c cs where c: "digits (nat \<bar>i\<bar>) = c # cs" "digit_val c \<noteq> None" using digits_hd by blast
  then have s: "\<not> is_space c" "c \<noteq> CHR ''-''" "c \<noteq> CHR ''+''"
    by (auto simp: is_space_def digit_val_def Let_def split: if_splits)
  show ?thesis
  proof (cases "i < 0")
    case True
    have "\<not> is_space CHR ''-''" by code_simp
    then show ?thesis using True v [of "nat \<bar>i\<bar>"] assms by (simp add: strtol10_def fmt_d_def)
  next
    case False
    then show ?thesis using False s v [of "nat \<bar>i\<bar>"] assms c by (simp add: strtol10_def fmt_d_def)
  qed
qed

lemma atoi_fmt_d: "- (2 ^ 31) \<le> i \<Longrightarrow> i < 2 ^ 31 \<Longrightarrow> atoi (fmt_d i) = i"
  using strtol10_fmt_d [of i "[]"] by (simp add: atoi_def to_int32_id)

lemma atoll_fmt_d_L: "- (2 ^ 63) \<le> i \<Longrightarrow> i < 2 ^ 63 \<Longrightarrow> atoll (fmt_d i @ ''L'') = i"
proof -
  assume "- (2 ^ 63) \<le> i" "i < 2 ^ 63"
  moreover have "digit_val CHR ''L'' = None" by code_simp
  ultimately show ?thesis using strtol10_fmt_d [of i "''L''"] by (simp add: atoll_def)
qed

lemma hex_val_digit: "d < 16 \<Longrightarrow> hex_val (hex_digit d) = Some d"
  by (auto simp: hex_val_def hex_digit_def Let_def)

lemma hex_value_append:
  "(\<forall>c \<in> set xs. hex_val c \<noteq> None) \<Longrightarrow> hex_value acc (xs @ ys) = hex_value (hex_value acc xs) ys"
  by (induction xs arbitrary: acc) (auto split: option.splits)

lemma hex_digits_digits: "\<forall>c \<in> set (hex_digits n). hex_val c \<noteq> None"
proof (induction n rule: hex_digits.induct)
  case (1 n)
  then show ?case by (subst hex_digits.simps) (auto simp: hex_val_digit)
qed

lemma hex_value_digits: "hex_value 0 (hex_digits n) = n"
proof (induction n rule: hex_digits.induct)
  case (1 n)
  then show ?case by (subst hex_digits.simps) (simp add: hex_value_append hex_digits_digits hex_val_digit)
qed

lemma hex_digits_nonempty [simp]: "hex_digits n \<noteq> []"
  by (subst hex_digits.simps) simp

lemma strtoul16_hex:
  assumes "n < 2 ^ 64" "r \<noteq> [] \<Longrightarrow> hex_val (hd r) = None"
  shows "strtoul16 (''0x'' @ hex_digits n @ r) = int n"
proof -
  obtain c cs where c: "hex_digits n = c # cs" by (cases "hex_digits n") auto
  then have "hex_val c \<noteq> None" using hex_digits_digits [of n] by simp
  moreover have "hex_value 0 (hex_digits n @ r) = n"
    using assms(2) by (cases r) (simp_all add: hex_value_append hex_digits_digits hex_value_digits)
  ultimately show ?thesis using assms(1) c by (simp add: strtoul16_def)
qed

lemma signed_mod:
  assumes "- (2 ^ 31) \<le> i" "i < 2 ^ 31" shows "to_int32 (i mod 2 ^ 32) = i"
proof -
  have "(i mod 2 ^ 32 + 2 ^ 31) mod 2 ^ 32 = (i + 2 ^ 31) mod 2 ^ 32" by (simp add: mod_simps)
  then show ?thesis using assms by (simp add: to_int32_def)
qed

lemma signed_mod64:
  assumes "- (2 ^ 63) \<le> i" "i < 2 ^ 63" shows "to_int64 (i mod 2 ^ 64) = i"
proof -
  have "(i mod 2 ^ 64 + 2 ^ 63) mod 2 ^ 64 = (i + 2 ^ 63) mod 2 ^ 64" by (simp add: mod_simps)
  then show ?thesis using assms by (simp add: to_int64_def)
qed

lemma strtoul16_fmt_X:
  "strtoul16 (''0x'' @ fmt_X 32 i) = i mod 2 ^ 32" "strtoul16 (''0x'' @ fmt_X 64 i @ ''L'') = i mod 2 ^ 64"
proof -
  have "nat (i mod 2 ^ 32) < 2 ^ 64" "nat (i mod 2 ^ 64) < 2 ^ 64"
    using pos_mod_bound [of "2 ^ 32" i] pos_mod_bound [of "2 ^ 64" i] by (simp_all add: nat_less_iff)
  moreover have "hex_val CHR ''L'' = None" by code_simp
  ultimately show "strtoul16 (''0x'' @ fmt_X 32 i) = i mod 2 ^ 32" "strtoul16 (''0x'' @ fmt_X 64 i @ ''L'') = i mod 2 ^ 64"
    using strtoul16_hex [of "nat (i mod 2 ^ 32)" "[]"] strtoul16_hex [of "nat (i mod 2 ^ 64)" "''L''"]
    by (simp_all add: fmt_X_def)
qed

section \<open>Numbers\<close>

lemma digit_classes:
  "classes_all (\<lambda>n k. 48 \<le> n \<and> n \<le> 57 \<longrightarrow> k \<in> {16, 17})"
  "classes_all (\<lambda>n k. (48 \<le> n \<and> n \<le> 57 \<or> 65 \<le> n \<and> n \<le> 70 \<or> 97 \<le> n \<and> n \<le> 102) \<longrightarrow> k \<in> {16, 17, 22, 23, 24, 25, 37, 38, 39, 40})"
  by (simp_all add: classes_all_def yy_ec_def upt_conv_Cons [of "Suc 0"] upt_rec_numeral flip: numeral_2_eq_2)

lemma of_char_NUL: "of_char NUL = (0 :: nat)"
  by (simp add: NUL_def)

lemma digit_class: "digit_val c \<noteq> None \<Longrightarrow> yy_class c \<in> {16, 17}"
  using classes_all_char [OF digit_classes(1), of c] of_char_NUL
  by (cases "c = NUL") (auto simp: digit_val_def Let_def split: if_splits)

lemma hex_class: "hex_val c \<noteq> None \<Longrightarrow> yy_class c \<in> {16, 17, 22, 23, 24, 25, 37, 38, 39, 40}"
  using classes_all_char [OF digit_classes(2), of c] of_char_NUL
  by (cases "c = NUL") (auto simp: hex_val_def Let_def split: if_splits)

definition digit_states :: "nat list" where
  "digit_states = [23, 24, 49]"

lemma number_rows:
  "list_all (stays digit_states [16, 17]) digit_states" "stays digit_states [16, 17] 1" "stays digit_states [16, 17] 2"
  "goes 1 [13] 19" "goes 2 [13] 19" "stays digit_states [16, 17] 19"
  "list_all (only_on [14, 16, 17, 24, 39, 27, 32]) digit_states" "list_all (\<lambda>s. goes s [27] 56) digit_states" "only_on [27] 56"
  "goes 1 [16] 23" "goes 2 [16] 23" "goes 23 [32] 57" "goes 57 [16, 17, 22, 23, 24, 25, 37, 38, 39, 40] 82"
  "goes 82 [16, 17, 22, 23, 24, 25, 37, 38, 39, 40] 82" "only_on [16, 17, 22, 23, 24, 25, 37, 38, 39, 40, 27] 82"
  "goes 82 [27] 89" "only_on [27] 89"
  by (simp_all add: row_checks class_mask_def class_range digit_states_def)

lemma number_accepting:
  "list_all (\<lambda>s. yy_accept ! s = 31) digit_states" "yy_accept ! 56 = 32" "yy_accept ! 82 = 33" "yy_accept ! 89 = 34"
  by (simp_all add: digit_states_def yy_accept_def)

lemma digit_state:
  assumes "s \<in> set digit_states"
  shows "1 \<le> s" "s \<le> 101" "stays digit_states [16, 17] s" "only_on [14, 16, 17, 24, 39, 27, 32] s" "goes s [27] 56" "yy_accept ! s = 31"
proof -
  show "1 \<le> s" "s \<le> 101" using assms by (auto simp: digit_states_def)
  show "stays digit_states [16, 17] s" "only_on [14, 16, 17, 24, 39, 27, 32] s" "goes s [27] 56" "yy_accept ! s = 31"
    using number_rows(1,7,8) number_accepting(1) assms unfolding list_all_iff by blast+
qed

lemma run_digits:
  assumes "stays digit_states [16, 17] s" "1 \<le> s" "s \<le> 101" "w \<noteq> []" "\<forall>c \<in> set w. digit_val c \<noteq> None"
  shows "\<exists>t \<in> set digit_states. run s w = Some t"
proof -
  have cl: "\<forall>c \<in> set w. yy_class c \<in> set [16, 17]" using assms(5) digit_class by auto
  obtain c v where c: "w = c # v" using assms(4) by (cases w) auto
  obtain u where u: "yy_trans s (yy_class c) = Some u" "u \<in> set digit_states"
    by (rule stays_trans [OF assms(1-3), of c]) (use cl c in auto)
  moreover have "u \<noteq> YY_JAM" using digit_state(2) [OF u(2)] by (simp add: YY_JAM_def)
  moreover have "\<exists>t \<in> set digit_states. run u v = Some t"
    using stays_run [OF number_rows(1) _ u(2), of v] cl c digit_state(1,2) by (auto simp: list_all_iff)
  ultimately show ?thesis using c by (simp add: run.simps)
qed

lemma run_fmt_d: "\<exists>t \<in> set digit_states. run 1 (fmt_d i) = Some t \<and> run 2 (fmt_d i) = Some t"
proof -
  let ?d = "digits (nat \<bar>i\<bar>)"
  have d: "\<forall>c \<in> set ?d. digit_val c \<noteq> None" by (rule digits_are_digits)
  show ?thesis
  proof (cases "i < 0")
    case True
    obtain t where "t \<in> set digit_states" "run 19 ?d = Some t" using run_digits [OF number_rows(6) _ _ _ d] by auto
    then show ?thesis
      using True goes_class [OF number_rows(4) _ _ _ yy_class_values(8)] goes_class [OF number_rows(5) _ _ _ yy_class_values(8)]
      by (intro bexI [of _ t]) (simp_all add: fmt_d_def YY_JAM_def)
  next
    case False
    obtain t where t: "t \<in> set digit_states" "run 1 ?d = Some t" using run_digits [OF number_rows(2) _ _ _ d] by auto
    obtain c cs where c: "?d = c # cs" "digit_val c \<noteq> None" using digits_hd by blast
    have "yy_class c \<noteq> 2" "yy_class c \<noteq> 21" using digit_class [OF c(2)] by auto
    then have "run 2 ?d = run 1 ?d" using run_start c(1) by simp
    then show ?thesis using t False by (auto simp: fmt_d_def)
  qed
qed

lemma delimited_only_on: "delimited rest \<Longrightarrow> only_on cs s \<Longrightarrow> 1 \<le> s \<Longrightarrow> s \<le> 101 \<Longrightarrow> set cs \<inter> set delimiters = {} \<Longrightarrow> stops s rest"
  by (rule delimited_stops) (auto simp: list_all_iff)

lemma text_decimal:
  assumes "delimited rest" "- (2 ^ 31) \<le> i" "i < 2 ^ 31"
  shows "text_tokens fs (fmt_d i @ rest) [(TOK_INTEGER, Some (Y_Int i))] rest"
proof -
  obtain t where t: "t \<in> set digit_states" "run 1 (fmt_d i) = Some t" "run 2 (fmt_d i) = Some t" using run_fmt_d by blast
  have "stops t rest" using assms(1) digit_state(4,1,2) [OF t(1)] by (rule delimited_only_on) (simp add: delimiters_def)
  then show ?thesis
    using text_token [OF _ t(2,3) digit_state(6) [OF t(1)]] atoi_fmt_d [OF assms(2,3)]
    by (simp add: yy_action_def fmt_d_def)
qed

lemma text_decimal64:
  assumes "delimited rest" "- (2 ^ 63) \<le> i" "i < 2 ^ 63"
  shows "text_tokens fs (fmt_d i @ ''L'' @ rest) [(TOK_INTEGER64, Some (Y_Int64 i))] rest"
proof -
  obtain t where t: "t \<in> set digit_states" "run 1 (fmt_d i) = Some t" "run 2 (fmt_d i) = Some t" using run_fmt_d by blast
  have "run t ''L'' = Some 56" using goes_class [OF digit_state(5,1,2) [OF t(1)] _ yy_class_values(19)] by (simp add: YY_JAM_def)
  then have r: "run 1 (fmt_d i @ ''L'') = Some 56" "run 2 (fmt_d i @ ''L'') = Some 56" using t(2,3) by (simp_all add: run_append)
  have "stops 56 rest" using assms(1) number_rows(9) by (rule delimited_only_on) (simp_all add: delimiters_def)
  then show ?thesis
    using text_token [OF _ r number_accepting(2)] atoll_fmt_d_L [OF assms(2,3)] by (simp add: yy_action_def)
qed

lemma run_hex:
  "run 1 (''0x'' @ fmt_X b i) = Some 82" "run 2 (''0x'' @ fmt_X b i) = Some 82"
proof -
  have stay: "run 82 w = Some 82" if "\<forall>c \<in> set w. hex_val c \<noteq> None" for w
    using that
  proof (induction w)
    case (Cons c w)
    then have "hex_val c \<noteq> None" "run 82 w = Some 82" by simp_all
    then show ?case using goes_run [OF number_rows(14) _ _ _, of c w] hex_class [of c] by (simp add: YY_JAM_def)
  qed simp
  have "run 57 (hex_digits n) = Some 82" for n
  proof -
    obtain c cs where c: "hex_digits n = c # cs" by (cases "hex_digits n") auto
    then have "hex_val c \<noteq> None" "\<forall>c \<in> set cs. hex_val c \<noteq> None" using hex_digits_digits [of n] by simp_all
    then show ?thesis
      using goes_run [OF number_rows(13) _ _ _, of c cs] hex_class [of c] stay [of cs] c by (simp add: YY_JAM_def)
  qed
  then have "run 23 (CHR ''x'' # fmt_X b i) = Some 82"
    using goes_class [OF number_rows(12) _ _ _ yy_class_values(18)] by (simp add: fmt_X_def YY_JAM_def)
  then show "run 1 (''0x'' @ fmt_X b i) = Some 82" "run 2 (''0x'' @ fmt_X b i) = Some 82"
    using goes_class [OF number_rows(10) _ _ _ yy_class_values(17)] goes_class [OF number_rows(11) _ _ _ yy_class_values(17)]
    by (simp_all add: YY_JAM_def)
qed

lemma text_hex:
  assumes "delimited rest" "- (2 ^ 31) \<le> i" "i < 2 ^ 31"
  shows "text_tokens fs (''0x'' @ fmt_X 32 i @ rest) [(TOK_HEX, Some (Y_Int i))] rest"
proof -
  have "stops 82 rest" using assms(1) number_rows(15) by (rule delimited_only_on) (simp_all add: delimiters_def)
  then show ?thesis
    using text_token [OF _ run_hex number_accepting(3), of 32 i rest] strtoul16_fmt_X(1) [of i] signed_mod [OF assms(2,3)]
    by (simp add: yy_action_def)
qed

lemma text_hex64:
  assumes "delimited rest" "- (2 ^ 63) \<le> i" "i < 2 ^ 63"
  shows "text_tokens fs (''0x'' @ fmt_X 64 i @ ''L'' @ rest) [(TOK_HEX64, Some (Y_Int64 i))] rest"
proof -
  have "run 82 ''L'' = Some 89" using goes_class [OF number_rows(16) _ _ _ yy_class_values(19)] by (simp add: YY_JAM_def)
  then have r: "run 1 ((''0x'' @ fmt_X 64 i) @ ''L'') = Some 89" "run 2 ((''0x'' @ fmt_X 64 i) @ ''L'') = Some 89"
    using run_hex [of 64 i] unfolding run_append by simp_all
  have "stops 89 rest" using assms(1) number_rows(17) by (rule delimited_only_on) (simp_all add: delimiters_def)
  then show ?thesis
    using text_token [OF _ r number_accepting(4), of rest] strtoul16_fmt_X(2) [of i] signed_mod64 [OF assms(2,3)]
    by (simp add: yy_action_def)
qed

lemma text_int:
  assumes "delimited rest" "- (2 ^ 31) \<le> i" "i < 2 ^ 31"
  shows "text_tokens fs (write_int format i @ rest)
    [(if format = CONFIG_FORMAT_HEX then TOK_HEX else TOK_INTEGER, Some (Y_Int i))] rest"
  using text_decimal [OF assms] text_hex [OF assms] by (simp add: write_int_def)

lemma text_int64:
  assumes "delimited rest" "- (2 ^ 63) \<le> i" "i < 2 ^ 63"
  shows "text_tokens fs (write_int64 format i @ rest)
    [(if format = CONFIG_FORMAT_HEX then TOK_HEX64 else TOK_INTEGER64, Some (Y_Int64 i))] rest"
  using text_decimal64 [OF assms] text_hex64 [OF assms] by (simp add: write_int64_def)

section \<open>Strings\<close>

text \<open>The text of a string, from inside it: what is read is added to what was read.\<close>

definition string_part :: "file_system \<Rightarrow> string \<Rightarrow> string \<Rightarrow> string \<Rightarrow> bool" where
  "string_part fs input s rest \<longleftrightarrow>
     (\<forall>str g. reads 5 str input g \<longrightarrow> (\<exists>g'. reads 5 (str @ s) rest g' \<and> feeds fs g [] g'))"

lemma string_part_trans: "string_part fs a s b \<Longrightarrow> string_part fs b t c \<Longrightarrow> string_part fs a (s @ t) c"
  unfolding string_part_def using feeds_trans [of fs _ "[]" _ "[]"] by (metis append.assoc append_Nil)

lemma string_part_action:
  assumes "w \<noteq> []" "run 5 w = Some t" "yy_accept ! t = act" "act \<noteq> 0" "act \<noteq> 40" "stops t rest"
    "\<And>config g. yy_action fs act w config g = yy_append s config g" "NUL \<notin> set s"
  shows "string_part fs (w @ rest) s rest"
  unfolding string_part_def
proof (intro allI impI)
  fix str g
  assume g: "reads 5 str (w @ rest) g"
  have "run 6 w = Some t" using assms(1,2) run_string_start by (cases w) auto
  then obtain g' where g': "reads 5 str rest g'" "\<forall>config. yy_scan fs config g = yy_action fs act w config g'"
    using scan_token [OF g assms(1,2) _ assms(3-6), of fs] by auto
  have ok: "scanctx_ok (yy_extra g')" using g'(1) by (simp add: reads_def)
  obtain ctx where ctx: "scanctx_append_string (yy_extra g') s = Ptr ctx" "scanctx_ok ctx"
      "sb_text (sc_string ctx) = sb_text (sc_string (yy_extra g')) @ c_string s" "\<exists>b. ctx = (yy_extra g')\<lparr>sc_string := b\<rparr>"
    using scanctx_append_ok [OF ok] by metis
  then have "yy_scan fs config g = Lex_Goes_On config (g'\<lparr>yy_extra := ctx\<rparr>)" for config
    using g'(2) assms(7) by (simp add: yy_append_def)
  then have "feeds fs g [] (g'\<lparr>yy_extra := ctx\<rparr>)" by (intro feeds_skip [OF _ feeds_done])
  moreover have "reads 5 (str @ s) rest (g'\<lparr>yy_extra := ctx\<rparr>)"
    using g'(1) ctx assms(8) by (auto simp: reads_def c_string_id)
  ultimately show "\<exists>g'. reads 5 (str @ s) rest g' \<and> feeds fs g [] g'" by blast
qed

definition plain_char :: "char \<Rightarrow> bool" where
  "plain_char c \<longleftrightarrow> 32 \<le> (of_char c :: nat) \<and> c \<noteq> CHR 0x22 \<and> c \<noteq> CHR 0x5C"

lemma string_rows:
  "row_mask (\<lambda>m u. \<not> m \<longrightarrow> u = 38) [0, 3, 6, 34] 5" "row_mask (\<lambda>m u. \<not> m \<longrightarrow> u = 64) [0, 3, 6, 34] 38"
  "row_mask (\<lambda>m u. \<not> m \<longrightarrow> u = 64) [0, 3, 6, 34] 64"
  "goes 38 [6, 34] YY_JAM" "goes 64 [6, 34] YY_JAM"
  "goes 5 [34] 40" "goes 40 [6] 65" "goes 40 [34] 67" "goes 40 [40] 68" "goes 40 [43] 69" "goes 40 [44] 70" "goes 40 [45] 71"
  "goes 40 [32] 66" "goes 66 [16, 17, 22, 23, 24, 25, 37, 38, 39, 40] 86" "goes 86 [16, 17, 22, 23, 24, 25, 37, 38, 39, 40] 93"
  "goes 5 [6] 39" "goes 1 [6] 14" "goes 2 [6] 14" "list_all (only_on []) [65, 67, 68, 69, 70, 71, 93, 39, 14]"
  by (simp_all add: row_checks class_mask_def class_range)

lemma string_accepting:
  "yy_accept ! 38 = 6" "yy_accept ! 64 = 6" "yy_accept ! 65 = 12" "yy_accept ! 67 = 11" "yy_accept ! 68 = 10" "yy_accept ! 69 = 7"
  "yy_accept ! 70 = 8" "yy_accept ! 71 = 9" "yy_accept ! 93 = 13" "yy_accept ! 39 = 15" "yy_accept ! 14 = 5"
  by code_simp+

lemma plain_class:
  assumes "plain_char c"
  shows "yy_class c \<notin> set [0, 3, 6, 34]"
proof -
  have "classes_all (\<lambda>n k. 32 \<le> n \<and> n \<noteq> 34 \<and> n \<noteq> 92 \<longrightarrow> k \<notin> {0, 3, 6, 34})"
    by (simp add: classes_all_def yy_ec_def upt_conv_Cons [of "Suc 0"] upt_rec_numeral flip: numeral_2_eq_2)
  moreover have "c \<noteq> NUL" using assms of_char_NUL by (auto simp: plain_char_def)
  moreover have "of_char c \<noteq> (34 :: nat)" "of_char c \<noteq> (92 :: nat)"
  proof -
    have "char_of (34 :: nat) = CHR 0x22" "char_of (92 :: nat) = CHR 0x5C" by code_simp+
    then show "of_char c \<noteq> (34 :: nat)" "of_char c \<noteq> (92 :: nat)"
      using assms char_of_char [of c] unfolding plain_char_def by metis+
  qed
  ultimately show ?thesis using classes_all_char [of _ c] assms by (fastforce simp: plain_char_def)
qed

lemma goes_trans: "goes s cs t \<Longrightarrow> 1 \<le> s \<Longrightarrow> s \<le> 101 \<Longrightarrow> yy_class c \<in> set cs \<Longrightarrow> yy_trans s (yy_class c) = Some t"
  using row_mask_trans [OF _ _ _ yy_class_less] unfolding goes_def by blast

lemma run_plain:
  assumes "\<forall>c \<in> set w. plain_char c" "w \<noteq> []"
  shows "\<exists>t \<in> {38, 64}. run 5 w = Some t"
proof -
  have step: "run s (c # v) = run u v"
    if "row_mask (\<lambda>m u'. \<not> m \<longrightarrow> u' = u) [0, 3, 6, 34] s" "1 \<le> s" "s \<le> 101" "u \<noteq> YY_JAM" "plain_char c" for s u c v
    using row_mask_trans [OF that(1-3) yy_class_less [of c]] plain_class [OF that(5)] that(4) by (auto simp: run.simps)
  have stay: "run 64 v = Some 64" if "\<forall>c \<in> set v. plain_char c" for v
    using that by (induction v) (simp_all add: step [OF string_rows(3)] YY_JAM_def)
  obtain c v where w: "w = c # v" using assms(2) by (cases w) auto
  then have "run 5 w = run 38 v" using assms(1) step [OF string_rows(1)] by (simp add: YY_JAM_def)
  moreover have "run 38 v \<in> {Some 38, Some 64}"
    using assms(1) w step [OF string_rows(2)] stay by (cases v) (simp_all add: YY_JAM_def)
  ultimately show ?thesis by auto
qed

lemma string_plain:
  assumes "\<forall>c \<in> set w. plain_char c" "w \<noteq> []" "rest = CHR 0x22 # r \<or> rest = CHR 0x5C # r"
  shows "string_part fs (w @ rest) w rest"
proof -
  obtain t where t: "t \<in> {38, 64}" "run 5 w = Some t" using run_plain [OF assms(1,2)] by blast
  have "yy_class (hd rest) \<in> set [6, 34]" using assms(3) yy_class_values(4,13) by auto
  then have "yy_trans 38 (yy_class (hd rest)) = Some YY_JAM" "yy_trans 64 (yy_class (hd rest)) = Some YY_JAM"
    using goes_trans [OF string_rows(4)] goes_trans [OF string_rows(5)] by simp_all
  then have "yy_trans t (yy_class (hd rest)) = Some YY_JAM" using t(1) by blast
  then have "stops t rest" by (simp add: stops_def)
  moreover have "yy_accept ! t = 6" using t(1) string_accepting(1,2) by blast
  moreover have "\<not> plain_char NUL" by (simp add: plain_char_def of_char_NUL)
  then have "NUL \<notin> set w" using assms(1) by blast
  ultimately show ?thesis
    using string_part_action [OF assms(2) t(2), of 6 rest fs w] by (simp add: yy_action_def yy_text_action_def)
qed

text \<open>A character the writer escapes.\<close>

lemma string_escape:
  assumes "goes 40 [yy_class d] t" "t \<in> {65, 67, 68, 69, 70, 71}" "yy_accept ! t = act" "act \<noteq> 0" "act \<noteq> 40"
    "\<And>config g. yy_action fs act [CHR 0x5C, d] config g = yy_append [c] config g" "c \<noteq> NUL"
  shows "string_part fs (CHR 0x5C # d # rest) [c] rest"
proof -
  have t: "1 \<le> t" "t \<le> 101" "t \<noteq> YY_JAM" "only_on [] t"
    using assms(2) string_rows(19) by (auto simp: YY_JAM_def)
  have "run 5 [CHR 0x5C, d] = Some t"
    using goes_class [OF string_rows(6) _ _ _ yy_class_values(13)] goes_run [OF assms(1) _ _ t(3), of d "[]"] by (simp add: YY_JAM_def)
  moreover have "stops t rest" using only_on_stops [OF t(4,1,2)] by simp
  ultimately show ?thesis
    using string_part_action [of "[CHR 0x5C, d]" t act rest fs "[c]"] assms(3-7) by simp
qed

lemma NUL_code: "NUL = CHR 0x00" by (rule NUL_def)

lemma high_digit: "of_char (c :: char) div 16 < (16 :: nat)"
  using nat_of_char_less_256 [of c] by (simp add: less_mult_imp_div_less)

lemma hex_escape_digits:
  "hex_escape [CHR 0x5C, CHR ''x'', hex_digit (of_char c div 16), hex_digit (of_char c mod 16)] = [c]"
proof -
  have "hex_value 0 [hex_digit (of_char c div 16), hex_digit (of_char c mod 16)] = of_char c"
    by (simp add: hex_val_digit high_digit)
  then show ?thesis by (simp add: hex_escape_def)
qed

lemma string_hex_escape:
  assumes "c \<noteq> NUL"
  shows "string_part fs ([CHR 0x5C, CHR ''x'', hex_digit (of_char c div 16), hex_digit (of_char c mod 16)] @ rest) [c] rest"
proof -
  let ?a = "hex_digit (of_char c div 16)" and ?b = "hex_digit (of_char c mod 16)"
  have "hex_val ?a \<noteq> None" "hex_val ?b \<noteq> None" by (simp_all add: hex_val_digit high_digit)
  then have ab: "yy_class ?a \<in> set [16, 17, 22, 23, 24, 25, 37, 38, 39, 40]" "yy_class ?b \<in> set [16, 17, 22, 23, 24, 25, 37, 38, 39, 40]"
    using hex_class by auto
  have "run 66 [?a, ?b] = Some 93"
    using goes_run [OF string_rows(14) _ _ _ ab(1)] goes_run [OF string_rows(15) _ _ _ ab(2)] by (simp add: YY_JAM_def)
  then have "run 5 [CHR 0x5C, CHR ''x'', ?a, ?b] = Some 93"
    using goes_class [OF string_rows(6) _ _ _ yy_class_values(13)] goes_class [OF string_rows(13) _ _ _ yy_class_values(18)]
    by (simp add: YY_JAM_def)
  moreover have "stops 93 rest" using only_on_stops [of "[]" 93 rest] string_rows(19) by simp
  ultimately show ?thesis
    using string_part_action [of "[CHR 0x5C, CHR ''x'', ?a, ?b]" 93 13 rest fs "[c]"] assms
    by (simp add: string_accepting hex_escape_digits yy_action_def yy_text_action_def)
qed

lemma string_char:
  assumes "c \<noteq> NUL" "\<not> plain_char c"
  shows "string_part fs (escape_char c @ rest) [c] rest"
proof -
  have e: "goes 40 [yy_class CHR 0x22] 65" "goes 40 [yy_class CHR 0x5C] 67" "goes 40 [yy_class CHR ''f''] 68"
    "goes 40 [yy_class CHR ''n''] 69" "goes 40 [yy_class CHR ''r''] 70" "goes 40 [yy_class CHR ''t''] 71"
    using string_rows(7-12) by (simp_all add: yy_class_values)
  consider "c = CHR 0x22" | "c = CHR 0x5C" | "c = CHR 0x0A" | "c = CHR 0x0D" | "c = CHR 0x0C" | "c = CHR 0x09"
    | "c \<notin> {CHR 0x22, CHR 0x5C, CHR 0x0A, CHR 0x0D, CHR 0x0C, CHR 0x09}" by blast
  then show ?thesis
  proof cases
    case 1
    then show ?thesis using string_escape [OF e(1) _ string_accepting(3), of fs c rest]
      by (simp add: escape_char_def yy_action_def yy_text_action_def NUL_code)
  next
    case 2
    then show ?thesis using string_escape [OF e(2) _ string_accepting(4), of fs c rest]
      by (simp add: escape_char_def yy_action_def yy_text_action_def NUL_code)
  next
    case 3
    then show ?thesis using string_escape [OF e(4) _ string_accepting(6), of fs c rest]
      by (simp add: escape_char_def yy_action_def yy_text_action_def NUL_code)
  next
    case 4
    then show ?thesis using string_escape [OF e(5) _ string_accepting(7), of fs c rest]
      by (simp add: escape_char_def yy_action_def yy_text_action_def NUL_code)
  next
    case 5
    then show ?thesis using string_escape [OF e(3) _ string_accepting(5), of fs c rest]
      by (simp add: escape_char_def yy_action_def yy_text_action_def NUL_code)
  next
    case 6
    then show ?thesis using string_escape [OF e(6) _ string_accepting(8), of fs c rest]
      by (simp add: escape_char_def yy_action_def yy_text_action_def NUL_code)
  next
    case 7
    then show ?thesis using string_hex_escape [OF assms(1), of fs rest] assms(2) by (auto simp: escape_char_def plain_char_def)
  qed
qed

lemma escape_plain: "plain_char c \<Longrightarrow> escape_char c = [c]"
  by (auto simp: escape_char_def plain_char_def)

lemma string_body:
  "NUL \<notin> set t \<Longrightarrow> string_part fs (concat (map escape_char t) @ CHR 0x22 # rest) t (CHR 0x22 # rest)"
proof (induction t rule: length_induct)
  case (1 t)
  define w where "w = takeWhile plain_char t"
  define v where "v = dropWhile plain_char t"
  have t: "t = w @ v" by (simp add: w_def v_def)
  have plain: "\<forall>c \<in> set w. plain_char c" by (auto simp: w_def dest: set_takeWhileD)
  then have w: "concat (map escape_char w) = w" by (induction w) (simp_all add: escape_plain)
  have refl: "string_part fs i [] i" for i
    unfolding string_part_def using feeds_done by (metis append_Nil2)
  have v_part: "string_part fs (concat (map escape_char v) @ CHR 0x22 # rest) v (CHR 0x22 # rest)"
  proof (cases v)
    case (Cons c u)
    have c: "\<not> plain_char c" using Cons hd_dropWhile [of plain_char t] by (auto simp: v_def)
    have n: "c \<noteq> NUL" "NUL \<notin> set u" "length u < length t" using "1.prems" t Cons by auto
    show ?thesis
      using string_part_trans [OF string_char [OF n(1) c] "1.IH" [rule_format, OF n(3,2)]] Cons by simp
  qed (simp add: refl)
  show ?case
  proof (cases "w = []")
    case False
    have "\<exists>r. concat (map escape_char v) @ CHR 0x22 # rest = CHR 0x22 # r \<or> concat (map escape_char v) @ CHR 0x22 # rest = CHR 0x5C # r"
    proof (cases v)
      case (Cons c u)
      then have "\<not> plain_char c" using hd_dropWhile [of plain_char t] by (auto simp: v_def)
      then show ?thesis using Cons by (auto simp: escape_char_def plain_char_def)
    qed simp
    then show ?thesis
      using string_part_trans [OF string_plain [OF plain False] v_part] t w by auto
  qed (use v_part t in simp)
qed

lemma reads_start: "reads 1 str input g \<Longrightarrow> reads 5 str input (BEGIN STRING g)" "reads 5 str input g \<Longrightarrow> reads 1 str input (BEGIN INITIAL g)"
  by (simp_all add: reads_def BEGIN_def STRING_def INITIAL_def)

lemma string_open:
  assumes "reads 1 [] (CHR 0x22 # rest) g"
  shows "\<exists>g'. reads 5 [] rest g' \<and> feeds fs g [] g'"
proof -
  have r: "run 1 [CHR 0x22] = Some 14" "run 2 [CHR 0x22] = Some 14"
    using goes_class [OF string_rows(17) _ _ _ yy_class_values(4)] goes_class [OF string_rows(18) _ _ _ yy_class_values(4)]
    by (simp_all add: YY_JAM_def)
  have "stops 14 rest" using only_on_stops [of "[]" 14 rest] string_rows(19) by simp
  then obtain g' where g': "reads 1 [] rest g'" "\<forall>config. yy_scan fs config g = yy_action fs 5 [CHR 0x22] config g'"
    using scan_token [of 1 "[]" "[CHR 0x22]" rest g 14 5 fs] assms r string_accepting(11) by (auto simp: numeral_2_eq_2)
  then have "feeds fs g [] (BEGIN STRING g')"
    by (intro feeds_skip [OF _ feeds_done]) (simp add: yy_action_def yy_text_action_def)
  then show ?thesis using reads_start(1) [OF g'(1)] by blast
qed

lemma string_close:
  assumes "reads 5 str (CHR 0x22 # rest) g"
  shows "\<exists>g'. reads 1 [] rest g' \<and> feeds fs g [(TOK_STRING, Some (Y_String str))] g'"
proof -
  have r: "run 5 [CHR 0x22] = Some 39"
    using goes_class [OF string_rows(16) _ _ _ yy_class_values(4)] by (simp add: YY_JAM_def)
  have "stops 39 rest" using only_on_stops [of "[]" 39 rest] string_rows(19) by simp
  then obtain g' where g': "reads 5 str rest g'" "\<forall>config. yy_scan fs config g = yy_action fs 15 [CHR 0x22] config g'"
    using scan_token [of 5 str "[CHR 0x22]" rest g 39 15 fs] assms r string_accepting(10) run_string_start by auto
  define ctx where "ctx = (yy_extra g')\<lparr>sc_string := strbuf_zero\<rparr>"
  have t: "scanctx_take_string (yy_extra g') = (str, ctx)"
    using g'(1) by (simp add: scanctx_take_string_def strbuf_release_def reads_def sb_text_def ctx_def)
  have s: "reads 5 [] rest (g'\<lparr>yy_extra := ctx\<rparr>)" using g'(1) by (simp add: ctx_def reads_def scanctx_ok_def)
  then have "feeds fs g [(TOK_STRING, Some (Y_String str))] (BEGIN INITIAL (g'\<lparr>yy_extra := ctx\<rparr>))"
    using g'(2) t by (intro feeds_token [OF _ feeds_done]) (simp add: yy_action_def yy_text_action_def yy_take_string_def)
  then show ?thesis using reads_start(2) [OF s] by blast
qed

lemma text_string:
  assumes "\<And>t. s = Some t \<Longrightarrow> NUL \<notin> set t"
  shows "text_tokens fs (write_string s @ rest) [(TOK_STRING, Some (Y_String (case s of None \<Rightarrow> [] | Some t \<Rightarrow> t)))] rest"
  unfolding text_tokens_def
proof (intro allI impI)
  define t where "t = (case s of None \<Rightarrow> [] | Some t \<Rightarrow> t)"
  have w: "write_string s = CHR 0x22 # concat (map escape_char t) @ [CHR 0x22]"
    by (simp add: write_string_def t_def split: option.split)
  have nul: "NUL \<notin> set t" using assms by (simp add: t_def split: option.split)
  fix g
  assume "reads 1 [] (write_string s @ rest) g"
  then obtain g1 where g1: "reads 5 [] (concat (map escape_char t) @ CHR 0x22 # rest) g1" "feeds fs g [] g1"
    using string_open [of "concat (map escape_char t) @ CHR 0x22 # rest"] w by fastforce
  then obtain g2 where g2: "reads 5 t (CHR 0x22 # rest) g2" "feeds fs g1 [] g2"
    using string_body [OF nul, of fs rest] unfolding string_part_def by fastforce
  obtain g3 where "reads 1 [] rest g3" "feeds fs g2 [(TOK_STRING, Some (Y_String t))] g3" using string_close [OF g2(1)] by blast
  then show "\<exists>g'. reads 1 [] rest g' \<and> feeds fs g [(TOK_STRING, Some (Y_String (case s of None \<Rightarrow> [] | Some t \<Rightarrow> t)))] g'"
    using feeds_trans [OF g1(2) feeds_trans [OF g2(2)]] by (auto simp: t_def)
qed

end
