(* ===== verification/Config_Content.thy ===== *)
theory Config_Content
  imports Scanner_Values
begin

text \<open>
  What a configuration says, without the way it is stored: values, arrays, lists and groups of
  named members. Hooks, line numbers, file names and the room of child lists are not part of it,
  and an integer only tells whether it is shown in hexadecimal.
\<close>

section \<open>Contents\<close>

datatype content =
  C_None | C_Bool bool | C_Int int bool | C_Int64 int bool | C_Float dbl | C_String string
| C_Array "content list" | C_List "content list" | C_Group "(string \<times> content) list"

text \<open>The content of a value with its effective format; \<open>d\<close> is the default format.\<close>

fun value_content :: "int \<Rightarrow> config_value \<Rightarrow> int \<Rightarrow> content"
  and element_contents :: "int \<Rightarrow> config_setting list \<Rightarrow> content list"
  and member_contents :: "int \<Rightarrow> config_setting list \<Rightarrow> (string \<times> content) list"
  and setting_content :: "int \<Rightarrow> config_setting \<Rightarrow> content" where
  "value_content d V_None f = C_None"
| "value_content d (V_Bool i) f = C_Bool (i \<noteq> 0)"
| "value_content d (V_Int i) f = C_Int i (f = CONFIG_FORMAT_HEX)"
| "value_content d (V_Int64 i) f = C_Int64 i (f = CONFIG_FORMAT_HEX)"
| "value_content d (V_Float x) f = C_Float x"
| "value_content d (V_String s) f = C_String (case s of None \<Rightarrow> [] | Some t \<Rightarrow> t)"
| "value_content d (V_Array None) f = C_Array []"
| "value_content d (V_Array (Some (Config_List es c))) f = C_Array (element_contents d es)"
| "value_content d (V_List None) f = C_List []"
| "value_content d (V_List (Some (Config_List es c))) f = C_List (element_contents d es)"
| "value_content d (V_Group None) f = C_Group []"
| "value_content d (V_Group (Some (Config_List es c))) f = C_Group (member_contents d es)"
| "element_contents d [] = []"
| "element_contents d (e # es) = setting_content d e # element_contents d es"
| "member_contents d [] = []"
| "member_contents d (e # es) =
     (case s_name e of None \<Rightarrow> [] | Some n \<Rightarrow> n, setting_content d e) # member_contents d es"
| "setting_content d (Setting n f v h l file) = value_content d v (if f \<noteq> 0 then f else d)"

definition config_content :: "config \<Rightarrow> content" where
  "config_content config = setting_content (default_format config) (root config)"

lemma element_contents_map: "element_contents d es = map (setting_content d) es"
  by (induction es) simp_all

definition member_name :: "config_setting \<Rightarrow> string" where
  "member_name e = (case s_name e of None \<Rightarrow> [] | Some n \<Rightarrow> n)"

lemma member_contents_map: "member_contents d es = map (\<lambda>e. (member_name e, setting_content d e)) es"
  by (induction es) (simp_all add: member_name_def)

definition list_elements :: "config_list option \<Rightarrow> config_setting list" where
  "list_elements l = (case l of None \<Rightarrow> [] | Some l \<Rightarrow> elements l)"

lemma value_content_lists:
  "value_content d (V_Array l) f = C_Array (map (setting_content d) (list_elements l))"
  "value_content d (V_List l) f = C_List (map (setting_content d) (list_elements l))"
  "value_content d (V_Group l) f = C_Group (map (\<lambda>e. (member_name e, setting_content d e)) (list_elements l))"
  by (cases l; cases "the l"; simp add: list_elements_def element_contents_map member_contents_map)+

section \<open>Contents that can be written and read\<close>

fun content_type :: "content \<Rightarrow> int" where
  "content_type C_None = CONFIG_TYPE_NONE"
| "content_type (C_Bool b) = CONFIG_TYPE_BOOL"
| "content_type (C_Int i h) = CONFIG_TYPE_INT"
| "content_type (C_Int64 i h) = CONFIG_TYPE_INT64"
| "content_type (C_Float x) = CONFIG_TYPE_FLOAT"
| "content_type (C_String s) = CONFIG_TYPE_STRING"
| "content_type (C_Array cs) = CONFIG_TYPE_ARRAY"
| "content_type (C_List cs) = CONFIG_TYPE_LIST"
| "content_type (C_Group ms) = CONFIG_TYPE_GROUP"

lemma content_type_value: "content_type (value_content d v f) = value_type v"
  by (cases v) (simp_all add: value_content_lists)

definition scalar_content :: "content \<Rightarrow> bool" where
  "scalar_content c \<longleftrightarrow> content_type c \<in> {CONFIG_TYPE_BOOL, CONFIG_TYPE_INT, CONFIG_TYPE_INT64, CONFIG_TYPE_STRING}"

text \<open>
  Integers are in the range of their type, strings have no NUL, an array has scalars of one
  type, and the members of a group have different valid names that are not words for booleans.
  Floating point numbers are left out: fifteen digits do not determine them.
\<close>

fun plain :: "content \<Rightarrow> bool" where
  "plain C_None \<longleftrightarrow> False"
| "plain (C_Bool b) \<longleftrightarrow> True"
| "plain (C_Int i h) \<longleftrightarrow> - (2 ^ 31) \<le> i \<and> i < 2 ^ 31"
| "plain (C_Int64 i h) \<longleftrightarrow> - (2 ^ 63) \<le> i \<and> i < 2 ^ 63"
| "plain (C_Float x) \<longleftrightarrow> False"
| "plain (C_String s) \<longleftrightarrow> NUL \<notin> set s"
| "plain (C_Array cs) \<longleftrightarrow> list_all plain cs \<and> list_all scalar_content cs \<and> list_all (\<lambda>c. content_type c = content_type (hd cs)) cs"
| "plain (C_List cs) \<longleftrightarrow> list_all plain cs"
| "plain (C_Group ms) \<longleftrightarrow> list_all (\<lambda>(n, c). config_validate_name n \<and> \<not> boolean_word n \<and> plain c) ms \<and> distinct (map fst ms)"

text \<open>How deep the content is nested.\<close>

fun depth_of :: "content \<Rightarrow> nat" where
  "depth_of (C_Array cs) = 1"
| "depth_of (C_List cs) = 1 + foldr max (map depth_of cs) 0"
| "depth_of (C_Group ms) = 1 + foldr max (map (\<lambda>(n, c). depth_of c) ms) 0"
| "depth_of _ = 0"

lemma foldr_max_ge: "x \<in> set xs \<Longrightarrow> x \<le> foldr max xs (0 :: nat)"
  by (induction xs) auto

section \<open>Tokens\<close>

text \<open>
  The tokens a content is written with. \<open>semi\<close> tells whether settings end with a semicolon.
\<close>

type_synonym token = "nat \<times> yystype option"

fun content_tokens :: "bool \<Rightarrow> content \<Rightarrow> token list"
  and element_tokens :: "bool \<Rightarrow> content list \<Rightarrow> token list"
  and member_tokens :: "bool \<Rightarrow> (string \<times> content) list \<Rightarrow> token list" where
  "content_tokens semi C_None = []"
| "content_tokens semi (C_Bool b) = [(TOK_BOOLEAN, Some (Y_Int (if b then 1 else 0)))]"
| "content_tokens semi (C_Int i h) = [(if h then TOK_HEX else TOK_INTEGER, Some (Y_Int i))]"
| "content_tokens semi (C_Int64 i h) = [(if h then TOK_HEX64 else TOK_INTEGER64, Some (Y_Int64 i))]"
| "content_tokens semi (C_Float x) = []"
| "content_tokens semi (C_String s) = [(TOK_STRING, Some (Y_String s))]"
| "content_tokens semi (C_Array cs) = [(TOK_ARRAY_START, None)] @ element_tokens semi cs @ [(TOK_ARRAY_END, None)]"
| "content_tokens semi (C_List cs) = [(TOK_LIST_START, None)] @ element_tokens semi cs @ [(TOK_LIST_END, None)]"
| "content_tokens semi (C_Group ms) = [(TOK_GROUP_START, None)] @ member_tokens semi ms @ [(TOK_GROUP_END, None)]"
| "element_tokens semi [] = []"
| "element_tokens semi (c # cs) = content_tokens semi c @ (if cs \<noteq> [] then [(TOK_COMMA, None)] else []) @ element_tokens semi cs"
| "member_tokens semi [] = []"
| "member_tokens semi ((n, c) # ms) =
     [(TOK_NAME, Some (Y_String n)), (TOK_EQUALS, None)] @ content_tokens semi c
     @ (if semi then [(TOK_SEMICOLON, None)] else []) @ member_tokens semi ms"

end
