(* ===== verification/Write_Tokens.thy ===== *)
theory Write_Tokens
  imports Config_Content
begin

text \<open>
  The text the writer produces is read by the scanner as the tokens of its content, whatever the
  options of the configuration.
\<close>

definition semicolons :: "config \<Rightarrow> bool" where
  "semicolons config \<longleftrightarrow> config_has_option config CONFIG_OPTION_SEMICOLON_SEPARATORS"

section \<open>Layout\<close>

lemma indent_blank: "\<forall>c \<in> set (config_indent depth w). yy_class c = 2"
  by (auto simp: config_indent_def yy_class_values)

lemma text_indent: "solid rest \<Longrightarrow> text_tokens fs ((if b then config_indent depth w else []) @ rest) [] rest"
  using text_blanks [OF indent_blank] text_tokens_refl by simp

lemma text_space: "solid rest \<Longrightarrow> text_tokens fs (CHR '' '' # rest) [] rest"
  using text_blanks [of "'' ''" rest fs] by (simp add: yy_class_values)

lemma solid_simps [simp]:
  "solid (CHR ''{'' # r)" "solid (CHR ''}'' # r)" "solid (CHR ''['' # r)" "solid (CHR '']'' # r)" "solid (CHR ''('' # r)"
  "solid (CHR '')'' # r)" "solid (CHR '':'' # r)" "solid (CHR ''='' # r)" "solid (CHR 0x0A # r)" "solid (CHR 0x22 # r)"
  "solid (CHR ''t'' # r)" "solid (CHR ''f'' # r)" "solid (CHR ''-'' # r)" "solid (CHR ''0'' # r)" "solid []"
  by (simp_all add: solid_def yy_class_values)

lemma NL_char: "NL = [CHR 0x0A]"
  by (simp add: NL_def) code_simp

lemma solid_name: "config_validate_name n \<Longrightarrow> solid (n @ r)"
proof (cases n)
  case (Cons c w)
  assume "config_validate_name n"
  then show ?thesis using valid_name_classes(3,4) [of c w] Cons by (simp add: solid_def)
qed (simp add: config_validate_name_def)

lemma solid_digits: "solid (digits n @ r)"
proof -
  obtain c cs where c: "digits n = c # cs" "digit_val c \<noteq> None" using digits_hd by blast
  then show ?thesis using digit_class [OF c(2)] by (auto simp: solid_def)
qed

lemma solid_value:
  assumes "plain (value_content d v f)" "0 < depth"
  shows "solid (config_write_value config v f depth @ rest)"
proof (cases v)
  case (V_Group l)
  then show ?thesis using assms(2) by (cases l; cases "the l"; simp add: group_open_def NL_char)
next
  case (V_Array l)
  then show ?thesis by (cases l; cases "the l"; simp)
next
  case (V_List l)
  then show ?thesis by (cases l; cases "the l"; simp)
qed (use assms solid_digits in \<open>simp_all add: write_int_def write_int64_def fmt_d_def write_string_def\<close>)

text \<open>Two texts in a row.\<close>

lemma text_append:
  "text_tokens fs (a @ b @ rest) ts (b @ rest) \<Longrightarrow> text_tokens fs (b @ rest) us rest \<Longrightarrow> text_tokens fs (a @ b @ rest) (ts @ us) rest"
  by (rule text_tokens_trans)

lemma text_skip_first: "text_tokens fs a [] b \<Longrightarrow> text_tokens fs b ts c \<Longrightarrow> text_tokens fs a ts c"
  using text_tokens_trans [of fs a "[]" b ts c] by simp

section \<open>Settings\<close>

lemma text_group_open:
  assumes "0 < depth"
  shows "text_tokens fs (group_open config depth @ rest) [(TOK_GROUP_START, None)] rest"
proof -
  have brace: "text_tokens fs (CHR ''{'' # CHR 0x0A # rest) [(TOK_GROUP_START, None)] rest"
    using text_tokens_trans [OF text_marks(1) text_newline] by simp
  show ?thesis
  proof (cases "config_has_option config CONFIG_OPTION_OPEN_BRACE_ON_SEPARATE_LINE")
    case True
    have "text_tokens fs ((if depth > 1 then config_indent depth (tab_width config) else []) @ CHR ''{'' # CHR 0x0A # rest)
        [(TOK_GROUP_START, None)] rest"
      using text_skip_first [OF text_indent brace] by simp
    then show ?thesis
      using text_skip_first [OF text_newline] assms True by (simp add: group_open_def NL_char)
  qed (use brace assms in \<open>simp add: group_open_def NL_char\<close>)
qed

lemma text_group_close:
  assumes "0 < depth"
  shows "text_tokens fs (group_close config depth @ rest) [(TOK_GROUP_END, None)] rest"
proof -
  have "text_tokens fs ((if depth > 1 then config_indent depth (tab_width config) else []) @ CHR ''}'' # rest) [(TOK_GROUP_END, None)] rest"
    by (rule text_skip_first [OF text_indent text_marks(2)]) simp
  then show ?thesis using assms by (simp add: group_close_def split: if_splits)
qed

lemma text_setting_head:
  assumes "s_name s = Some n" "config_validate_name n" "\<not> boolean_word n" "solid rest"
  shows "text_tokens fs (setting_head config s depth @ rest) [(TOK_NAME, Some (Y_String n)), (TOK_EQUALS, None)] rest"
proof -
  let ?mark = "if config_has_option config (if config_setting_type s = CONFIG_TYPE_GROUP
                    then CONFIG_OPTION_COLON_ASSIGNMENT_FOR_GROUPS
                    else CONFIG_OPTION_COLON_ASSIGNMENT_FOR_NON_GROUPS) then '':'' else ''=''"
  have m: "text_tokens fs (?mark @ CHR '' '' # rest) [(TOK_EQUALS, None)] rest"
    using text_tokens_trans [OF text_marks(9) text_space [OF assms(4)]] text_tokens_trans [OF text_marks(10) text_space [OF assms(4)]]
    by simp
  have "text_tokens fs (CHR '' '' # ?mark @ CHR '' '' # rest) [(TOK_EQUALS, None)] rest"
    by (rule text_skip_first [OF text_space m]) simp
  then have "text_tokens fs (n @ CHR '' '' # ?mark @ CHR '' '' # rest) [(TOK_NAME, Some (Y_String n)), (TOK_EQUALS, None)] rest"
    using text_tokens_trans [OF text_name [OF assms(2,3)], of "CHR '' '' # ?mark @ CHR '' '' # rest"] by simp
  then show ?thesis
    using text_skip_first [OF text_indent [OF solid_name [OF assms(2)]]] assms(1) by (simp add: setting_head_def)
qed

lemma text_setting_tail:
  assumes "0 < depth"
  shows "text_tokens fs (setting_tail config depth @ rest) (if semicolons config then [(TOK_SEMICOLON, None)] else []) rest"
  using text_tokens_trans [OF text_marks(8) text_newline] text_newline assms by (simp add: setting_tail_def semicolons_def NL_char)

lemma delimited_tail: "0 < depth \<Longrightarrow> delimited (setting_tail config depth @ rest)"
  by (simp add: setting_tail_def NL_char)

definition writable_member :: "string \<times> content \<Rightarrow> bool" where
  "writable_member m \<longleftrightarrow> config_validate_name (fst m) \<and> \<not> boolean_word (fst m) \<and> plain (snd m)"

lemma plain_group: "plain (C_Group ms) \<longleftrightarrow> list_all writable_member ms \<and> distinct (map fst ms)"
  by (auto simp: list_all_iff writable_member_def)

lemma member_name_valid: "config_validate_name (member_name s) \<Longrightarrow> s_name s = Some (member_name s)"
  by (cases "s_name s") (simp_all add: member_name_def config_validate_name_def)

section \<open>Values\<close>

abbreviation writes :: "file_system \<Rightarrow> string \<Rightarrow> token list \<Rightarrow> string \<Rightarrow> bool" where
  "writes fs w ts rest \<equiv> text_tokens fs (w @ rest) ts rest"

lemma text_vector:
  assumes "\<And>r. text_tokens fs (a # r) [s] r" "\<And>r. text_tokens fs (b # r) [e] r"
    and "text_tokens fs (w @ b # rest) ts (b # rest)" "solid (w @ b # rest)"
  shows "text_tokens fs (a # CHR '' '' # w @ b # rest) ([s] @ ts @ [e]) rest"
  by (rule text_tokens_trans [OF assms(1) text_skip_first [OF text_space [OF assms(4)] text_tokens_trans [OF assms(3,2)]]])

lemma solid_elems:
  assumes "list_all plain (element_contents (default_format config) es)" "0 < depth" "solid rest"
  shows "solid (config_write_elems config es depth @ rest)"
proof (cases es)
  case (Cons e es')
  obtain n f v h l x where "e = Setting n f v h l x" by (cases e)
  then show ?thesis
    using assms Cons solid_value [of "default_format config" v "if f \<noteq> 0 then f else default_format config" depth config]
    by (cases "f = 0") (simp_all add: config_setting_get_format_def)
qed (use assms in simp)

lemma text_values:
  "plain (value_content (default_format config) v f) \<Longrightarrow> 0 < depth \<Longrightarrow> delimited rest \<Longrightarrow>
     writes fs (config_write_value config v f depth) (content_tokens (semicolons config) (value_content (default_format config) v f)) rest"
  "list_all plain (element_contents (default_format config) es) \<Longrightarrow> 0 < depth \<Longrightarrow> solid rest \<Longrightarrow>
     writes fs (config_write_elems config es depth) (element_tokens (semicolons config) (element_contents (default_format config) es)) rest"
  "list_all writable_member (member_contents (default_format config) es) \<Longrightarrow> 0 < depth \<Longrightarrow>
     writes fs (config_write_members config es depth) (member_tokens (semicolons config) (member_contents (default_format config) es)) rest"
  "writable_member (member_name s, setting_content (default_format config) s) \<Longrightarrow> 0 < depth \<Longrightarrow>
     writes fs (config_write_setting config s depth)
       (member_tokens (semicolons config) [(member_name s, setting_content (default_format config) s)]) rest"
proof (induction config v f depth and config es depth and config es depth and config s depth arbitrary: rest and rest and rest and rest
    rule: config_write_value_config_write_elems_config_write_members_config_write_setting.induct)
  case (1 config i format depth)
  then show ?case using text_booleans [of rest fs] by simp
next
  case (2 config i format depth)
  then show ?case using text_int [of rest i fs format] by simp
next
  case (3 config i format depth)
  then show ?case using text_int64 [of rest i fs format] by simp
next
  case (5 config s format depth)
  then show ?case using text_string [of s fs rest] by (auto split: option.splits)
next
  case (6 config format depth)
  then show ?case
    using text_tokens_trans [OF text_marks(5) text_skip_first [OF text_space text_marks(6)]] by simp
next
  case (7 config es c format depth)
  have "writes fs (config_write_elems config es (depth + 1)) (element_tokens (semicolons config) (element_contents (default_format config) es)) (CHR '')'' # rest)"
    using "7.IH" "7.prems" by simp
  moreover have "solid (config_write_elems config es (depth + 1) @ CHR '')'' # rest)"
    using "7.prems" by (intro solid_elems) simp_all
  ultimately show ?case using text_vector [OF text_marks(5,6)] by simp
next
  case (8 config format depth)
  then show ?case
    using text_tokens_trans [OF text_marks(3) text_skip_first [OF text_space text_marks(4)]] by simp
next
  case (9 config es c format depth)
  have "writes fs (config_write_elems config es (depth + 1)) (element_tokens (semicolons config) (element_contents (default_format config) es)) (CHR '']'' # rest)"
    using "9.IH" "9.prems" by simp
  moreover have "solid (config_write_elems config es (depth + 1) @ CHR '']'' # rest)"
    using "9.prems" by (intro solid_elems) simp_all
  ultimately show ?case using text_vector [OF text_marks(3,4)] by simp
next
  case (10 config format depth)
  then show ?case using text_tokens_trans [OF text_group_open text_group_close] by simp
next
  case (11 config es c format depth)
  have "writes fs (config_write_members config es (depth + 1)) (member_tokens (semicolons config) (member_contents (default_format config) es))
      (group_close config depth @ rest)"
    using "11.IH" "11.prems"(1) by (simp add: plain_group del: plain.simps)
  then show ?case
    using text_tokens_trans [OF text_group_open [OF "11.prems"(2)] text_tokens_trans [OF _ text_group_close [OF "11.prems"(2)]]] by simp
next
  case (14 config n f v h l x es depth)
  let ?d = "default_format config" and ?f = "config_setting_get_format config (Setting n f v h l x)"
  let ?v = "value_content ?d v ?f" and ?w = "config_write_value config v ?f depth"
  have f: "?f = (if f \<noteq> 0 then f else ?d)" by (simp add: config_setting_get_format_def)
  have p: "plain ?v" "list_all plain (element_contents ?d es)" using "14.prems"(1) f by simp_all
  have "writes fs (config_write_elems config es depth) (element_tokens (semicolons config) (element_contents ?d es)) rest"
    using "14.IH"(2) p(2) "14.prems"(2,3) by blast
  then have es: "text_tokens fs (CHR '' '' # config_write_elems config es depth @ rest) (element_tokens (semicolons config) (element_contents ?d es)) rest"
    by (rule text_skip_first [OF text_space [OF solid_elems [OF p(2) "14.prems"(2,3)]]])
  have v: "writes fs ?w (content_tokens (semicolons config) ?v) r" if "delimited r" for r
    using "14.IH"(1) p(1) "14.prems"(2) that by blast
  show ?case
  proof (cases es)
    case Nil
    then show ?thesis using text_tokens_trans [OF v es] f by simp
  next
    case (Cons e es')
    then show ?thesis using text_tokens_trans [OF v text_tokens_trans [OF text_marks(7) es]] f by simp
  qed
next
  case (16 config e es depth)
  have "writes fs (config_write_setting config e depth)
       (member_tokens (semicolons config) [(member_name e, setting_content (default_format config) e)]) (config_write_members config es depth @ rest)"
    using "16.IH"(1) "16.prems" by (simp add: member_name_def)
  moreover have "writes fs (config_write_members config es depth) (member_tokens (semicolons config) (member_contents (default_format config) es)) rest"
    using "16.IH"(2) "16.prems" by simp
  ultimately show ?case using text_tokens_trans by (fastforce simp: member_name_def)
next
  case (17 config n f v h l x depth)
  let ?s = "Setting n f v h l x"
  let ?d = "default_format config" and ?f = "config_setting_get_format config ?s"
  have f: "?f = (if f \<noteq> 0 then f else ?d)" by (simp add: config_setting_get_format_def)
  have w: "config_validate_name (member_name ?s)" "\<not> boolean_word (member_name ?s)" "plain (value_content ?d v ?f)"
    using "17.prems"(1) f by (simp_all add: writable_member_def)
  have v: "writes fs (config_write_value config v ?f depth) (content_tokens (semicolons config) (value_content ?d v ?f)) (setting_tail config depth @ rest)"
    using "17.IH" w(3) "17.prems"(2) delimited_tail [OF "17.prems"(2)] by blast
  note t = text_tokens_trans [OF v text_setting_tail [OF "17.prems"(2)]]
  show ?case
    using text_tokens_trans [OF text_setting_head [OF member_name_valid [OF w(1)] w(1,2) solid_value [OF w(3) "17.prems"(2)]] t] f by simp
qed (simp_all add: text_tokens_refl)

section \<open>The configuration\<close>

lemma text_config:
  assumes "s_name (root config) = None" "config_content config = C_Group ms" "plain (C_Group ms)"
  shows "text_tokens fs (config_write config) (member_tokens (semicolons config) ms) []"
proof -
  obtain n f v h l x where r: "root config = Setting n f v h l x" by (cases "root config")
  let ?f = "if f \<noteq> 0 then f else default_format config"
  have c: "value_content (default_format config) v ?f = C_Group ms" using assms(2) r by (simp add: config_content_def)
  then obtain g where v: "v = V_Group g" by (cases v) (simp_all add: value_content_lists)
  have n: "n = None" using assms(1) r by simp
  show ?thesis
  proof (cases g)
    case None
    then show ?thesis
      using c v r n
      by (simp add: config_write_def setting_head_def setting_tail_def group_open_def group_close_def text_tokens_refl)
  next
    case (Some l)
    obtain es cap where "l = Config_List es cap" by (cases l)
    then show ?thesis
      using c v r n Some text_values(3) [of config es 1 fs "[]"] assms(3)
      by (simp add: config_write_def setting_head_def setting_tail_def group_open_def group_close_def plain_group del: plain.simps)
  qed
qed

end
