(* ===== verification/Parser_Stack.thy ===== *)
theory Parser_Stack
  imports Parser
begin

text \<open>
  The stacks the automaton of the parser can have: which state may lie on which, what every
  reduction does to them, and a rank of the states that every reduction makes smaller. All of
  it is checked against the tables.
\<close>

section \<open>Neighbours on the stack\<close>

definition yy_preds :: "nat list list" where
  "yy_preds =
    [[], [0, 3, 27, 38], [0], [0], [0, 27], [1], [2], [3, 38], [5], [8, 25, 26, 40, 42], [8, 25, 26, 40, 42],
     [8, 25, 26, 40, 42], [8, 25, 26, 40, 42], [8, 25, 26, 40, 42], [8, 25, 26, 40, 42], [8, 25, 26, 40, 42],
     [8, 26, 42], [8, 26, 42], [8, 26, 42], [8, 26, 42], [8, 26, 42], [8], [8, 25, 26, 40, 42], [8, 26, 42],
     [8, 26, 42], [16], [17], [18], [21], [21], [21], [22], [25], [25], [25], [26], [26], [26], [27], [27],
     [33], [34], [36], [37], [39], [40], [42]]"

fun stack_ok :: "nat list \<Rightarrow> bool" where
  "stack_ok [] = False"
| "stack_ok [s] = (s = 0)"
| "stack_ok (s # t # ss) = (s < 47 \<and> t \<in> set (yy_preds ! s) \<and> stack_ok (t # ss))"

text \<open>The states a reduction can pop, top first, and the one below them.\<close>

fun back_paths :: "nat \<Rightarrow> nat \<Rightarrow> nat list list" where
  "back_paths 0 s = [[s]]"
| "back_paths (Suc k) s = map ((#) s) (concat (map (back_paths k) (yy_preds ! s)))"

lemma stack_back:
  assumes "stack_ok ss" "k < length ss"
  shows "take (Suc k) ss \<in> set (back_paths k (hd ss))"
  using assms
proof (induction k arbitrary: ss)
  case 0
  then show ?case by (cases ss) simp_all
next
  case (Suc k)
  then obtain s t ts where ss: "ss = s # t # ts" by (cases ss rule: stack_ok.cases) auto
  then have "take (Suc k) (t # ts) \<in> set (back_paths k t)" using Suc.IH [of "t # ts"] Suc.prems by simp
  then show ?case using Suc.prems(1) ss by auto
qed

lemma yy_preds_range: "list_all (list_all (\<lambda>s. s < 47)) yy_preds" "length yy_preds = 47"
  by (simp_all add: yy_preds_def)

lemma stack_range: "stack_ok (s # ss) \<Longrightarrow> s < 47"
  by (cases ss) auto

lemma stack_drop: "stack_ok ss \<Longrightarrow> n < length ss \<Longrightarrow> stack_ok (drop n ss)"
proof (induction n arbitrary: ss)
  case (Suc n)
  then obtain s t ts where "ss = s # t # ts" by (cases ss rule: stack_ok.cases) auto
  then show ?case using Suc by simp
qed simp

section \<open>What surrounds a state\<close>

text \<open>The aggregate a state opens, and the stack of the aggregates that are open, the innermost first.\<close>

definition opens :: "nat \<Rightarrow> int option" where
  "opens s = (if s = 0 \<or> s = 27 then Some CONFIG_TYPE_GROUP else if s = 25 then Some CONFIG_TYPE_ARRAY
     else if s = 26 then Some CONFIG_TYPE_LIST else None)"

definition kinds :: "nat list \<Rightarrow> int list" where
  "kinds ss = List.map_filter opens ss"

text \<open>The states in which the kind of the innermost aggregate is known.\<close>

definition yy_inside :: "int option list" where
  "yy_inside =
     (let g = Some CONFIG_TYPE_GROUP; a = Some CONFIG_TYPE_ARRAY; l = Some CONFIG_TYPE_LIST; x = None
      in [g, g, g, g, g, g, x, g, g, x, x, x, x, x, x, x, x, x, x, x, x, g, x, x, x, a, l, g, g, g, g, x, a, a, a,
          l, l, l, g, g, a, a, l, l, g, a, l])"

text \<open>A setting has been named and has no value yet.\<close>

definition value_state :: "nat \<Rightarrow> bool" where
  "value_state s \<longleftrightarrow> 9 \<le> s \<and> s \<le> 18 \<or> s = 22 \<or> s = 31"

fun pending :: "nat list \<Rightarrow> bool" where
  "pending [] = False"
| "pending (s # ss) = (if value_state s then pending ss else s = 5 \<or> s = 8)"

text \<open>No setting is waiting for its value when such a state is on top.\<close>

definition idle_state :: "nat \<Rightarrow> bool" where
  "idle_state s \<longleftrightarrow> \<not> value_state s \<and> s \<noteq> 5 \<and> s \<noteq> 8"

lemma idle_not_pending [simp]: "idle_state s \<Longrightarrow> \<not> pending (s # ss)"
  by (simp add: idle_state_def)

definition yy_rank :: "nat list" where
  "yy_rank =
    [1, 1, 0, 1, 2, 0, 1, 2, 0, 6, 6, 6, 6, 6, 6, 7, 2, 2, 2, 5, 5, 4, 6, 5, 5, 1, 1, 1, 4, 4, 3, 7, 2, 1, 0, 2,
     1, 0, 1, 0, 0, 6, 0, 6, 6, 2, 2]"

section \<open>Reductions\<close>

text \<open>The symbols whose value an action reads.\<close>

definition value_of_symbol :: "nat \<Rightarrow> yystype \<Rightarrow> bool" where
  "value_of_symbol y v \<longleftrightarrow> (y \<in> {3, 4, 5} \<longrightarrow> (\<exists>i. v = Y_Int i)) \<and> (y \<in> {6, 7} \<longrightarrow> (\<exists>i. v = Y_Int64 i))
     \<and> (y = 8 \<longrightarrow> (\<exists>d. v = Y_Float d)) \<and> (y \<in> {9, 10} \<longrightarrow> (\<exists>s. v = Y_String s))"

definition rule_symbol :: "nat \<Rightarrow> nat option" where
  "rule_symbol r = map_of [(11, 10), (21, 9), (22, 9), (23, 3), (24, 4), (25, 6), (26, 5), (27, 7), (28, 8)] r"

text \<open>How a reduction by a rule changes the stack, by the kind of its action.\<close>

definition rule_effect :: "nat \<Rightarrow> nat \<Rightarrow> nat list \<Rightarrow> nat \<Rightarrow> nat \<Rightarrow> bool" where
  "rule_effect s r popped t g =
     (if r = 11 then s = 1 \<and> popped = [] \<and> g = 5
      else if r = 13 then s = 16 \<and> popped = [] \<and> g = 25
      else if r = 15 then s = 17 \<and> popped = [] \<and> g = 26
      else if r = 38 then s = 18 \<and> popped = [] \<and> g = 27
      else if r = 21 \<or> r = 22 then list_all value_state popped \<and> popped \<noteq> [] \<and> g = 22
      else opens g = None \<and> idle_state g
         \<and> (if 23 \<le> r \<and> r \<le> 29 then popped = [s] \<and> value_state s \<and> t \<in> {8, 25, 26, 40, 42}
            else idle_state s \<and> length (kinds popped) = (if r = 14 \<or> r = 16 \<or> r = 39 then 1 else 0)))"

definition reduction_ok :: "nat \<Rightarrow> nat \<Rightarrow> nat list \<Rightarrow> bool" where
  "reduction_ok s r path =
     (let t = last path; g = nat (yygoto (yyr1 ! r - YYNTOKENS) t)
      in YYNTOKENS \<le> yyr1 ! r \<and> 0 \<le> yygoto (yyr1 ! r - YYNTOKENS) t \<and> g < 47 \<and> g \<noteq> 6 \<and> 11 \<le> yystos ! g
       \<and> t \<in> set (yy_preds ! g) \<and> yy_rank ! g < yy_rank ! s \<and> rule_effect s r (butlast path) t g)"

text \<open>The stack below a state is at least so deep.\<close>

fun deep :: "nat \<Rightarrow> nat \<Rightarrow> bool" where
  "deep 0 s = True"
| "deep (Suc k) s = (s \<noteq> 0 \<and> list_all (deep k) (yy_preds ! s))"

lemma stack_deep: "stack_ok ss \<Longrightarrow> deep k (hd ss) \<Longrightarrow> k < length ss"
proof (induction k arbitrary: ss)
  case 0
  then show ?case by (cases ss) auto
next
  case (Suc k)
  then obtain s t ts where ss: "ss = s # t # ts" by (cases ss rule: stack_ok.cases) auto
  then have "deep k t" using Suc.prems by (auto simp: list_all_iff)
  then show ?case using Suc.IH [of "t # ts"] Suc.prems(1) ss by simp
qed

definition reductions_ok :: "nat \<Rightarrow> bool" where
  "reductions_ok s \<longleftrightarrow> (let r = yydefact ! s in r = 0 \<or> deep (yyr2 ! r) s
     \<and> (case rule_symbol r of None \<Rightarrow> True | Some y \<Rightarrow> yystos ! s = y)
     \<and> list_all (reduction_ok s r) (back_paths (yyr2 ! r) s))"

lemma reductions_1: "list_all reductions_ok [0, 1, 2, 3, 4, 5, 7, 8, 9, 10, 11]" by code_simp
lemma reductions_2: "list_all reductions_ok [12, 13, 14, 15, 16, 17, 18]" by code_simp
lemma reductions_3: "list_all reductions_ok [19, 20, 21, 22, 23, 24, 25, 26, 27]" by code_simp
lemma reductions_4: "list_all reductions_ok [28, 29, 30, 31, 32, 33, 34, 35, 36, 37]" by code_simp
lemma reductions_5: "list_all reductions_ok [38, 39, 40, 41, 42, 43, 44, 45, 46]" by code_simp

lemma states_listed: "s < 47 \<Longrightarrow> s \<noteq> 6 \<Longrightarrow> s \<in> set ([0, 1, 2, 3, 4, 5, 7, 8, 9, 10, 11] @ [12, 13, 14, 15, 16, 17, 18]
    @ [19, 20, 21, 22, 23, 24, 25, 26, 27] @ [28, 29, 30, 31, 32, 33, 34, 35, 36, 37] @ [38, 39, 40, 41, 42, 43, 44, 45, 46 :: nat])"
  by simp presburger

lemma all_reductions_ok: "s < 47 \<Longrightarrow> s \<noteq> 6 \<Longrightarrow> reductions_ok s"
  using states_listed [of s] reductions_1 reductions_2 reductions_3 reductions_4 reductions_5
  unfolding set_append list_all_iff by blast

lemma reduce_stack:
  assumes "stack_ok ss" "hd ss \<noteq> 6" "yydefact ! hd ss = r" "r \<noteq> 0"
  shows "yyr2 ! r < length ss" "reduction_ok (hd ss) r (take (Suc (yyr2 ! r)) ss)"
    "case rule_symbol r of None \<Rightarrow> True | Some y \<Rightarrow> yystos ! hd ss = y"
proof -
  have "hd ss < 47" using assms(1) stack_range by (cases ss) auto
  then have r: "deep (yyr2 ! r) (hd ss)" "list_all (reduction_ok (hd ss) r) (back_paths (yyr2 ! r) (hd ss))"
      "case rule_symbol r of None \<Rightarrow> True | Some y \<Rightarrow> yystos ! hd ss = y"
    using all_reductions_ok [of "hd ss"] assms(2-4) by (simp_all add: reductions_ok_def Let_def)
  show "yyr2 ! r < length ss" using assms(1) r(1) by (rule stack_deep)
  then show "reduction_ok (hd ss) r (take (Suc (yyr2 ! r)) ss)"
    using stack_back [OF assms(1)] r(2) by (simp add: list_all_iff)
  show "case rule_symbol r of None \<Rightarrow> True | Some y \<Rightarrow> yystos ! hd ss = y" by (rule r(3))
qed

section \<open>Shifts\<close>

lemma list_all_upt: "list_all P [0..<n] \<Longrightarrow> i < n \<Longrightarrow> P i"
  by (simp add: list_all_iff)

definition shift_ok :: "nat \<Rightarrow> nat \<Rightarrow> bool" where
  "shift_ok s y =
     (let i = yypact ! s + int y
      in i < 0 \<or> int YYLAST < i \<or> yycheck ! nat i \<noteq> int y
       \<or> (let n = yytable ! nat i
          in n \<noteq> 0 \<and> n < 47 \<and> s \<in> set (yy_preds ! n) \<and> yystos ! n = y \<and> opens n = None
           \<and> (value_state n \<or> n = 8 \<and> s = 5 \<or> idle_state n \<and> idle_state s)
           \<and> (n = YYFINAL \<longleftrightarrow> y = 0)))"

lemma shifts_1: "list_all (\<lambda>s. list_all (shift_ok s) [0..<23]) [0, 2, 3, 5, 8, 21, 22, 25]" by code_simp
lemma shifts_2: "list_all (\<lambda>s. list_all (shift_ok s) [0..<23]) [26, 27, 33, 34, 36, 37, 38, 39, 40, 42]" by code_simp

lemma shifting_states:
  "list_all (\<lambda>s. yypact ! s = YYPACT_NINF \<or> s \<in> set ([0, 2, 3, 5, 8, 21, 22, 25] @ [26, 27, 33, 34, 36, 37, 38, 39, 40, 42])) [0..<47]"
  by code_simp

lemma shift_stack:
  assumes "stack_ok ss" "yypact ! hd ss \<noteq> YYPACT_NINF" "y < 23"
  shows "shift_ok (hd ss) y"
proof -
  have "hd ss < 47" using assms(1) stack_range by (cases ss) auto
  then have "hd ss \<in> set ([0, 2, 3, 5, 8, 21, 22, 25] @ [26, 27, 33, 34, 36, 37, 38, 39, 40, 42])"
    using list_all_upt [OF shifting_states] assms(2) by blast
  then have "list_all (shift_ok (hd ss)) [0..<23]"
    using shifts_1 shifts_2 unfolding list_all_iff set_append by blast
  then show ?thesis using assms(3) by (rule list_all_upt)
qed

lemma no_error_shift_table: "list_all (\<lambda>s. shift_error s = None) [0..<47]" by code_simp

lemma no_error_shift: "s < 47 \<Longrightarrow> shift_error s = None"
  using no_error_shift_table by (rule list_all_upt)

section \<open>The innermost aggregate\<close>

lemma kinds_Cons: "kinds (s # ss) = (case opens s of None \<Rightarrow> kinds ss | Some k \<Rightarrow> k # kinds ss)"
  by (simp add: kinds_def List.map_filter_simps split: option.split)

lemma kinds_append: "kinds (a @ b) = kinds a @ kinds b"
  by (induction a) (simp_all add: kinds_Cons kinds_def List.map_filter_simps split: option.split)

lemma kinds_nonempty: "stack_ok ss \<Longrightarrow> kinds ss \<noteq> []"
  by (induction ss rule: stack_ok.induct) (simp_all add: kinds_Cons opens_def split: option.split)

lemma inside_table:
  "list_all (\<lambda>s. yy_inside ! s = None \<or> opens s = yy_inside ! s
     \<or> opens s = None \<and> s \<noteq> 0 \<and> list_all (\<lambda>t. yy_inside ! t = yy_inside ! s) (yy_preds ! s)) [0..<47]"
  by code_simp

lemma inside_kind: "stack_ok (s # ss) \<Longrightarrow> yy_inside ! s = Some k \<Longrightarrow> hd (kinds (s # ss)) = k"
proof (induction ss arbitrary: s)
  case Nil
  then have "opens s = Some k" by (simp add: yy_inside_def opens_def Let_def)
  then show ?case by (simp add: kinds_Cons)
next
  case (Cons t ts)
  have t: "t \<in> set (yy_preds ! s)" "stack_ok (t # ts)" using Cons.prems(1) by simp_all
  have "s < 47" using Cons.prems(1) by (rule stack_range)
  then have "opens s = Some k \<or> opens s = None \<and> yy_inside ! t = Some k"
    using list_all_upt [OF inside_table] Cons.prems(2) t(1) unfolding list_all_iff by (metis option.distinct(1))
  then show ?case using Cons.IH [OF t(2)] by (auto simp: kinds_Cons [of s])
qed

lemma pending_prefix: "\<not> list_all value_state a \<Longrightarrow> pending (a @ b) = pending a"
  by (induction a) auto

lemma pending_values: "list_all value_state a \<Longrightarrow> pending (a @ b) = pending b"
  by (induction a) auto

lemma kinds_values: "list_all value_state a \<Longrightarrow> kinds a = []"
  by (induction a) (auto simp: kinds_def List.map_filter_simps opens_def value_state_def)

declare pending.simps(2) [simp del]

end
