(* ===== verification/Parser_Tree.thy ===== *)
theory Parser_Tree
  imports Parser
begin

text \<open>
  Changing one setting of a tree: what it does to the well-formedness of the tree, to the
  types of its arrays and to the number of settings without a value.
\<close>

section \<open>Paths\<close>

lemma deref_append: "deref s (p @ q) = deref (deref s p) q"
  by (induction s p rule: deref.induct) simp_all

lemma valid_path_append: "valid_path s (p @ q) \<longleftrightarrow> valid_path s p \<and> valid_path (deref s p) q"
  by (induction p arbitrary: s) simp_all

lemma children_aggregate: "i < length (children s) \<Longrightarrow> is_aggregate s"
  by (cases "s_value s") (auto simp: children_def is_aggregate_def config_setting_type_def)

fun path_types :: "config_setting \<Rightarrow> nat list \<Rightarrow> int list" where
  "path_types s [] = [config_setting_type s]"
| "path_types s (i # is) = config_setting_type s # path_types (children s ! i) is"

lemma path_types_snoc: "path_types s (p @ [j]) = path_types s p @ [config_setting_type (deref s (p @ [j]))]"
  by (induction p arbitrary: s) simp_all

lemma path_types_nonempty [simp]: "path_types s p \<noteq> []"
  by (cases p) simp_all

lemma last_path_types: "last (path_types s p) = config_setting_type (deref s p)"
  by (induction p arbitrary: s) simp_all

lemma length_path_types [simp]: "length (path_types s p) = Suc (length p)"
  by (induction p arbitrary: s) simp_all

section \<open>A changed setting\<close>

lemma s_name_put_child [simp]: "s_name (put_child i e s) = s_name s"
  by (simp add: put_child_def split: option.split)

lemma s_name_update: "p \<noteq> [] \<Longrightarrow> s_name (update_at p f s) = s_name s"
  by (cases p) simp_all

lemma update_effects:
  assumes "valid_path s p"
  shows "valid_path (update_at p f s) p" "deref (update_at p f s) p = f (deref s p)"
    "path_types (update_at p f s) p = butlast (path_types s p) @ [config_setting_type (f (deref s p))]"
  using assms
proof (induction p arbitrary: s)
  case (Cons i p)
  {
    case 1
    then show ?case using Cons children_aggregate [of i s] by (simp add: put_child_effects)
  next
    case 2
    then show ?case using Cons children_aggregate [of i s] by (simp add: put_child_effects)
  next
    case 3
    then show ?case using Cons children_aggregate [of i s] by (simp add: put_child_effects)
  }
qed simp_all

lemma update_at_append: "update_at (p @ q) f s = update_at p (update_at q f) s"
  by (induction p arbitrary: s) simp_all

lemma update_at_const: "update_at p f s = update_at p (\<lambda>_. f (deref s p)) s"
  by (induction p arbitrary: s) simp_all

lemma wf_update:
  "wf_setting s \<Longrightarrow> valid_path s p \<Longrightarrow> wf_setting (f (deref s p)) \<Longrightarrow> s_name (f (deref s p)) = s_name (deref s p) \<Longrightarrow>
   wf_setting (update_at p f s)"
proof (induction p arbitrary: s)
  case (Cons i p)
  then have i: "i < length (children s)" "valid_path (children s ! i) p" and a: "is_aggregate s"
    using children_aggregate by auto
  then have "wf_setting (children s ! i)" using wf_children(1) [OF Cons.prems(1)] by simp
  then have "wf_setting (update_at p f (children s ! i))" using Cons i by simp
  moreover have "s_name (update_at p f (children s ! i)) = s_name (children s ! i)"
    using Cons.prems(4) s_name_update [of p] by (cases "p = []") simp_all
  ultimately show ?case using wf_put_child [OF Cons.prems(1) a i(1)] by simp
qed simp

lemma wf_deref: "wf_setting s \<Longrightarrow> valid_path s p \<Longrightarrow> wf_setting (deref s p)"
proof (induction p arbitrary: s)
  case (Cons i p)
  then show ?case using wf_children(1) [of s] children_aggregate [of i s] by simp
qed simp

section \<open>Arrays hold scalars of one type\<close>

definition scalar_type :: "int \<Rightarrow> bool" where
  "scalar_type t \<longleftrightarrow> t \<in> {CONFIG_TYPE_INT, CONFIG_TYPE_INT64, CONFIG_TYPE_FLOAT, CONFIG_TYPE_STRING, CONFIG_TYPE_BOOL}"

definition array_ok :: "config_setting \<Rightarrow> bool" where
  "array_ok s \<longleftrightarrow> (config_setting_type s = CONFIG_TYPE_ARRAY \<longrightarrow>
     (\<exists>t. scalar_type t \<and> (\<forall>x \<in> set (children s). config_setting_type x = t)))"

text \<open>A property of every setting of a tree.\<close>

fun every :: "(config_setting \<Rightarrow> bool) \<Rightarrow> config_setting \<Rightarrow> bool" and every_value :: "(config_setting \<Rightarrow> bool) \<Rightarrow> config_value \<Rightarrow> bool"
  and every_list :: "(config_setting \<Rightarrow> bool) \<Rightarrow> config_list \<Rightarrow> bool" where
  "every P (Setting n f v h l file) = (P (Setting n f v h l file) \<and> every_value P v)"
| "every_value P (V_Group (Some l)) = every_list P l"
| "every_value P (V_Array (Some l)) = every_list P l"
| "every_value P (V_List (Some l)) = every_list P l"
| "every_value P _ = True"
| "every_list P (Config_List es c) = (\<forall>e \<in> set es. every P e)"

lemma every_iff: "every P s \<longleftrightarrow> P s \<and> (\<forall>e \<in> set (children s). every P e)"
proof -
  have l: "every_list P l \<longleftrightarrow> (\<forall>e \<in> set (elements l). every P e)" for l by (cases l) simp
  have "every_value P v \<longleftrightarrow> (case value_list v of None \<Rightarrow> True | Some l \<Rightarrow> \<forall>e \<in> set (elements l). every P e)" for v
    by (cases "(P, v)" rule: every_value.cases) (simp_all add: l)
  then show ?thesis by (cases s) (auto simp: children_def split: option.split)
qed

lemma every_deref: "every P s \<Longrightarrow> valid_path s p \<Longrightarrow> every P (deref s p)"
proof (induction p arbitrary: s)
  case (Cons i p)
  then show ?case using every_iff [of P s] by simp
qed simp

text \<open>
  A property that looks at the type and the hook of a setting and, if it is an array, at the
  types of its elements, outlasts a change below.
\<close>

definition profiled :: "(config_setting \<Rightarrow> bool) \<Rightarrow> bool" where
  "profiled P \<longleftrightarrow> (\<forall>a b. P a \<and> config_setting_type a = config_setting_type b \<and> s_hook a = s_hook b
     \<and> (config_setting_type a = CONFIG_TYPE_ARRAY \<longrightarrow>
          (\<forall>x \<in> set (children b). config_setting_type x \<in> config_setting_type ` set (children a))) \<longrightarrow> P b)"

lemma s_hook_set_value [simp]: "s_hook (set_value v s) = s_hook s"
  by (cases s) simp

lemma s_hook_put_child [simp]: "s_hook (put_child i e s) = s_hook s"
  by (cases s) (simp add: put_child_def split: option.split)

lemma every_update:
  assumes P: "profiled P"
  shows "every P s \<Longrightarrow> valid_path s p \<Longrightarrow> every P (f (deref s p)) \<Longrightarrow>
   config_setting_type (f (deref s p)) = config_setting_type (deref s p)
     \<or> p \<noteq> [] \<and> config_setting_type (deref s (butlast p)) \<noteq> CONFIG_TYPE_ARRAY \<Longrightarrow>
   every P (update_at p f s)"
proof (induction p arbitrary: s)
  case (Cons i p)
  then have i: "i < length (children s)" "valid_path (children s ! i) p" and a: "is_aggregate s"
    using children_aggregate by auto
  let ?e = "update_at p f (children s ! i)"
  have s: "P s" "every P (children s ! i)" using Cons.prems(1) i(1) every_iff [of P s] by simp_all
  then have e: "every P ?e" using Cons i(2) by (cases "p = []") simp_all
  have "config_setting_type ?e = config_setting_type (children s ! i) \<or> config_setting_type s \<noteq> CONFIG_TYPE_ARRAY"
    using Cons.prems(2,4) children_aggregate by (cases p) (auto simp: put_child_effects)
  moreover have "x = ?e \<or> x \<in> set (children s)" if "x \<in> set ((children s)[i := ?e])" for x
    using that set_update_subset_insert [of "children s" i ?e] by blast
  ultimately have "config_setting_type s = CONFIG_TYPE_ARRAY \<longrightarrow>
      (\<forall>x \<in> set ((children s)[i := ?e]). config_setting_type x \<in> config_setting_type ` set (children s))"
    using i(1) by (metis imageI nth_mem)
  then have "P (put_child i ?e s)"
    using P s(1) unfolding profiled_def
    by (metis put_child_effects(1,2) [OF i(1) a] s_hook_put_child)
  moreover have "\<forall>x \<in> set (children (put_child i ?e s)). every P x"
    using e Cons.prems(1) every_iff [of P s] set_update_subset_insert [of "children s" i ?e]
    unfolding put_child_effects(1) [OF i(1) a] by blast
  ultimately show ?case using every_iff [of P "put_child i ?e s"] by simp
qed simp

text \<open>What the parser builds: arrays are homogeneous and nothing hangs on a setting.\<close>

definition tidy :: "config_setting \<Rightarrow> bool" where
  "tidy = every (\<lambda>s. array_ok s \<and> s_hook s = 0)"

lemma profiled_array_ok: "profiled array_ok"
  unfolding profiled_def array_ok_def by (metis imageE)

lemma profiled_tidy: "profiled (\<lambda>s. array_ok s \<and> s_hook s = 0)"
  using profiled_array_ok unfolding profiled_def by metis

lemma tidy_iff: "tidy s \<longleftrightarrow> array_ok s \<and> s_hook s = 0 \<and> (\<forall>e \<in> set (children s). tidy e)"
  unfolding tidy_def by (subst every_iff) auto

lemma tidy_deref: "tidy s \<Longrightarrow> valid_path s p \<Longrightarrow> tidy (deref s p)"
  unfolding tidy_def by (rule every_deref)

lemmas tidy_update = every_update [OF profiled_tidy, folded tidy_def]

section \<open>Settings without a value\<close>

fun nones :: "config_setting \<Rightarrow> nat" and nones_value :: "config_value \<Rightarrow> nat" and nones_list :: "config_list \<Rightarrow> nat" where
  "nones (Setting n f v h l file) = nones_value v"
| "nones_value V_None = 1"
| "nones_value (V_Group (Some l)) = nones_list l"
| "nones_value (V_Array (Some l)) = nones_list l"
| "nones_value (V_List (Some l)) = nones_list l"
| "nones_value _ = 0"
| "nones_list (Config_List es c) = sum_list (map nones es)"

lemma nones_iff: "nones s = (if s_value s = V_None then 1 else sum_list (map nones (children s)))"
proof -
  have l: "nones_list l = sum_list (map nones (elements l))" for l by (cases l) simp
  have "nones_value v = (if v = V_None then 1 else case value_list v of None \<Rightarrow> 0 | Some l \<Rightarrow> sum_list (map nones (elements l)))" for v
    by (cases v rule: nones_value.cases) (simp_all add: l)
  then show ?thesis by (cases s) (simp add: children_def split: option.split)
qed

lemma nones_update:
  "valid_path s p \<Longrightarrow> nones (update_at p f s) + nones (deref s p) = nones s + nones (f (deref s p))"
proof (induction p arbitrary: s)
  case (Cons i p)
  then have i: "i < length (children s)" "valid_path (children s ! i) p" and a: "is_aggregate s"
    using children_aggregate by auto
  let ?e = "update_at p f (children s ! i)"
  have v: "s_value s \<noteq> V_None" "s_value (put_child i ?e s) \<noteq> V_None"
    using a put_child_effects(2) [OF i(1) a, of ?e] by (auto simp: is_aggregate_def config_setting_type_def config_types)
  have "nones (put_child i ?e s) + nones (children s ! i) = nones s + nones ?e"
    using v i(1) nones_iff [of s] nones_iff [of "put_child i ?e s"]
      sum_list_update [of i "map nones (children s)" "nones ?e"] member_le_sum_list [of "nones (children s ! i)" "map nones (children s)"]
    by (simp add: put_child_effects [OF i(1) a] map_update)
  then show ?case using Cons.IH [OF i(2)] by simp
qed simp

end
