(* ===== verification/Parser_Actions.thy ===== *)
theory Parser_Actions
  imports Parser_Tree
begin

text \<open>
  The actions of the grammar keep the settings tree in order: each one works on the innermost
  aggregate that is open, or on the setting that has just been named.
\<close>

section \<open>Settings with the same value\<close>

lemma capture_parse_pos_fields [simp]:
  "s_value (capture_parse_pos yyg s) = s_value s" "s_name (capture_parse_pos yyg s) = s_name s"
  "s_hook (capture_parse_pos yyg s) = s_hook s"
  by (simp_all add: capture_parse_pos_def split: config_setting.split)

lemma set_format_fields:
  "config_setting_set_format s f = Some s' \<Longrightarrow> s_value s' = s_value s \<and> s_name s' = s_name s \<and> s_hook s' = s_hook s"
  by (auto simp: config_setting_set_format_def split: if_splits config_setting.splits)

definition formatted :: "int option \<Rightarrow> config_setting \<Rightarrow> config_setting" where
  "formatted format e = (case format of None \<Rightarrow> e | Some f \<Rightarrow> or_same (config_setting_set_format e f) e)"

lemma formatted_fields [simp]:
  "s_value (formatted format e) = s_value e" "s_name (formatted format e) = s_name e" "s_hook (formatted format e) = s_hook e"
  using set_format_fields by (auto simp: formatted_def or_same_def split: option.split)

lemma same_value:
  assumes "s_value a = s_value b"
  shows "config_setting_type a = config_setting_type b" "children a = children b" "wf_setting a = wf_setting b"
    "s_hook a = s_hook b \<Longrightarrow> tidy a = tidy b" "nones a = nones b"
  using assms
  by (simp_all add: config_setting_type_def children_def wf_setting_iff tidy_iff [of a] tidy_iff [of b]
      array_ok_def nones_iff [of a] nones_iff [of b])

lemma scalar_setting:
  assumes "scalar_type (value_type v)"
  shows "wf_setting (set_value v s)" "s_hook s = 0 \<Longrightarrow> tidy (set_value v s)" "nones (set_value v s) = 0"
    "config_setting_type (set_value v s) = value_type v"
  using assms
  by (cases v; simp add: wf_setting_iff tidy_iff [of "set_value _ _"] array_ok_def nones_iff config_setting_type_def children_def
      scalar_type_def config_types)+

section \<open>A new last child\<close>

definition grown :: "config_setting \<Rightarrow> config_setting \<Rightarrow> config_setting \<Rightarrow> bool" where
  "grown x y e \<longleftrightarrow> is_aggregate x \<and> wf_setting y \<and> config_setting_type y = config_setting_type x \<and> s_name y = s_name x
     \<and> s_hook y = s_hook x \<and> children y = children x @ [e]"

lemma create_name: "config_setting_create s nm t = Ptr s' \<Longrightarrow> s_name s' = s_name s \<and> s_hook s' = s_hook s"
  by (auto simp: config_setting_create_def Let_def split: if_splits c_result.splits)

lemma grown_put:
  assumes "grown x y e" "wf_setting e'" "s_name e' = s_name e"
  shows "grown x (put_child (length (children x)) e' y) e'"
proof -
  have i: "length (children x) < length (children y)" and a: "is_aggregate y"
    using assms(1) by (auto simp: grown_def is_aggregate_def)
  have "wf_setting (put_child (length (children x)) e' y)"
    using assms by (intro wf_put_child a i) (auto simp: grown_def)
  then show ?thesis using assms(1) by (simp add: grown_def put_child_effects [OF i a])
qed

lemma grown_tree:
  assumes r: "wf_setting r" "tidy r" "valid_path r p" and g: "grown (deref r p) y e" "tidy e"
    and ty: "config_setting_type (deref r p) = CONFIG_TYPE_ARRAY \<Longrightarrow>
      scalar_type (config_setting_type e) \<and> (\<forall>x \<in> set (children (deref r p)). config_setting_type x = config_setting_type e)"
  defines "r' \<equiv> update_at p (\<lambda>_. y) r" and "q \<equiv> p @ [length (children (deref r p))]"
  shows "wf_setting r'" "tidy r'" "nones r' = nones r + nones e" "valid_path r' q" "deref r' q = e"
    "path_types r' p = path_types r p" "valid_path r' p"
proof -
  let ?x = "deref r p"
  note u = update_effects [OF r(3), of "\<lambda>_. y"]
  show "wf_setting r'" using wf_update [OF r(1,3), of "\<lambda>_. y"] g by (simp add: r'_def grown_def)
  have "(\<forall>x \<in> set (children ?x). tidy x) \<and> s_hook ?x = 0"
    using tidy_deref [OF r(2,3)] tidy_iff [of ?x] by blast
  moreover have "array_ok y" using ty g by (auto simp: array_ok_def grown_def)
  ultimately have "tidy y" using g tidy_iff [of y] by (auto simp: grown_def)
  then show "tidy r'" using tidy_update [OF r(2,3), of "\<lambda>_. y"] g by (simp add: r'_def grown_def)
  have "is_aggregate y" using g by (simp add: grown_def is_aggregate_def)
  then have v: "s_value ?x \<noteq> V_None" "s_value y \<noteq> V_None"
    using g by (auto simp: grown_def is_aggregate_def config_setting_type_def config_types)
  then have "nones y = nones ?x + nones e" using g nones_iff [of y] nones_iff [of ?x] by (simp add: grown_def)
  then show "nones r' = nones r + nones e" using nones_update [OF r(3), of "\<lambda>_. y"] by (simp add: r'_def)
  show "valid_path r' q" "deref r' q = e" using u g by (simp_all add: r'_def q_def valid_path_append deref_append grown_def)
  show "valid_path r' p" using u by (simp add: r'_def)
  have "path_types r p = butlast (path_types r p) @ [config_setting_type ?x]"
    by (simp flip: last_path_types)
  then show "path_types r' p = path_types r p" using u(3) g by (simp add: r'_def grown_def)
qed

section \<open>The context\<close>

text \<open>
  \<open>ks\<close> are the types of the aggregates that are open, from the root to the innermost one;
  \<open>b\<close> tells whether a setting has been named and has no value yet.
\<close>

definition ctx_ok :: "int list \<Rightarrow> bool \<Rightarrow> parse_context \<Rightarrow> config \<Rightarrow> bool" where
  "ctx_ok ks b ctx config \<longleftrightarrow> wf_setting (root config) \<and> tidy (root config) \<and> nones (root config) = of_bool b
     \<and> strbuf_ok (pc_string ctx)
     \<and> (\<exists>p. pc_parent ctx = Some p \<and> valid_path (root config) p \<and> path_types (root config) p = ks
         \<and> (b \<longrightarrow> (\<exists>j. pc_setting ctx = Some (p @ [j]) \<and> valid_path (root config) (p @ [j])
                \<and> s_value (deref (root config) (p @ [j])) = V_None)))"

text \<open>What an action ends with; an aborted one leaves the tree alone and a message.\<close>

definition act_ok :: "int list \<Rightarrow> bool \<Rightarrow> config \<Rightarrow> act_result \<Rightarrow> bool" where
  "act_ok ks b config r =
     (case r of Act_Ok ctx c \<Rightarrow> ctx_ok ks b ctx c \<and> error_text c = error_text config
      | Act_Abort c \<Rightarrow> root c = root config \<and> error_text c \<noteq> None | Act_Undefined \<Rightarrow> False)"

lemma yyerror_fields [simp]: "root (yyerror yyg m config) = root config" "error_text (yyerror yyg m config) \<noteq> None"
  by (simp_all add: yyerror_def)

lemma config_update_fields [simp]:
  "root (update_setting p f config) = update_at p f (root config)" "error_text (update_setting p f config) = error_text config"
  "root (set_at p s config) = update_at p (\<lambda>_. s) (root config)" "error_text (set_at p s config) = error_text config"
  by (simp_all add: update_setting_def set_at_def)

section \<open>Names and aggregates\<close>

text \<open>Adding a child through the pointer to the innermost aggregate.\<close>

lemma add_grown:
  assumes "wf_setting s" "is_aggregate s" "config_setting_add s name t = Ptr s'" "type_ok t"
    and "is_group s \<Longrightarrow> name \<noteq> None"
  shows "\<exists>e. grown s s' e \<and> s_value e = zero_value t \<and> s_hook e = 0"
proof (cases "is_group s")
  case True
  then obtain n where n: "name = Some n" using assms(5) by blast
  then have v: "config_validate_name n" using assms(3) True
    by (auto simp: config_setting_add_def is_group_def config_types split: if_splits)
  then obtain e where "wf_setting s'" "is_group s'" "children s' = children s @ [e]" "e = new_setting n t"
    using add_member [OF assms(1) True v assms(4)] assms(3) n by (auto split: if_splits)
  moreover have "s_name s' = s_name s \<and> s_hook s' = s_hook s"
    using assms(3) create_name by (auto simp: config_setting_add_def Let_def split: if_splits option.splits)
  ultimately show ?thesis
    using assms(2) True by (auto simp: grown_def new_setting_def is_group_def)
next
  case False
  then have "config_setting_add s name t = config_setting_create s None t"
    using assms(2,4) by (auto simp: config_setting_add_def is_group_def is_aggregate_def type_ok_def)
  then show ?thesis
    using create_ok [OF assms(1,2), of None t] create_name [of s None t s'] False assms(2,3) by (auto simp: grown_def)
qed

lemma add_defined:
  assumes "wf_setting s" "is_aggregate s" "type_ok t" "is_group s \<Longrightarrow> name \<noteq> None"
  shows "config_setting_add s name t \<noteq> Undefined" "\<not> is_group s \<Longrightarrow> config_setting_add s name t \<noteq> Null"
proof -
  have list: "config_setting_add s name t = config_setting_create s None t" if "\<not> is_group s"
    using assms(2,3) that by (auto simp: config_setting_add_def is_group_def is_aggregate_def type_ok_def)
  then show "config_setting_add s name t \<noteq> Null" if "\<not> is_group s"
    using create_ok [OF assms(1,2), of None t] that by auto
  show "config_setting_add s name t \<noteq> Undefined"
  proof (cases "is_group s")
    case True
    then obtain n where n: "name = Some n" using assms(4) by blast
    show ?thesis
    proof (cases "config_validate_name n")
      case valid: True
      then show ?thesis using add_member [OF assms(1) True valid assms(3)] n by (auto split: if_splits)
    qed (use n True in \<open>auto simp: config_setting_add_def is_group_def config_types\<close>)
  qed (use list create_ok [OF assms(1,2), of None t] in auto)
qed

lemma ctx_parent:
  assumes "ctx_ok ks b ctx config"
  obtains p where "pc_parent ctx = Some p" "valid_path (root config) p" "path_types (root config) p = ks"
    "config_setting_type (deref (root config) p) = last ks" "wf_setting (deref (root config) p)"
  using assms wf_deref last_path_types by (auto simp: ctx_ok_def)

text \<open>Noting the position of a setting changes nothing the invariant looks at.\<close>

lemma capture_tree:
  fixes yyg :: yyguts
  assumes "wf_setting r" "tidy r" "valid_path r q"
  defines "r' \<equiv> update_at q (capture_parse_pos yyg) r"
  shows "wf_setting r'" "tidy r'" "nones r' = nones r" "valid_path r' q" "path_types r' q = path_types r q"
    "s_value (deref r' q) = s_value (deref r q)"
proof -
  have c: "s_value (capture_parse_pos yyg (deref r q)) = s_value (deref r q)" by simp
  show "wf_setting r'" using wf_update [OF assms(1,3), of "capture_parse_pos yyg"] wf_deref [OF assms(1,3)] same_value(3) [OF c]
    by (simp add: r'_def)
  show "tidy r'"
    using tidy_update [OF assms(2,3), of "capture_parse_pos yyg"] tidy_deref [OF assms(2,3)] same_value(1,4) [OF c]
    by (simp add: r'_def)
  show "nones r' = nones r"
    using nones_update [OF assms(3), of "capture_parse_pos yyg"] same_value(5) [OF c] by (simp add: r'_def)
  show "valid_path r' q" "s_value (deref r' q) = s_value (deref r q)"
    using update_effects(1,2) [OF assms(3), of "capture_parse_pos yyg"] by (simp_all add: r'_def)
  show "path_types r' q = path_types r q"
    using update_effects(3) [OF assms(3), of "capture_parse_pos yyg"] same_value(1) [OF c] last_path_types [of r q]
    unfolding r'_def by (metis append_butlast_last_id path_types_nonempty)
qed

lemma act_name_ok:
  assumes ctx: "ctx_ok ks False ctx config" "last ks = CONFIG_TYPE_GROUP"
  shows "act_ok ks True config (act_name yyg name ctx config)"
proof -
  obtain p where p: "pc_parent ctx = Some p" "valid_path (root config) p" "path_types (root config) p = ks"
      "config_setting_type (deref (root config) p) = last ks" "wf_setting (deref (root config) p)"
    using ctx(1) by (rule ctx_parent)
  let ?x = "deref (root config) p"
  have g: "is_group ?x" "is_aggregate ?x" using p(4) ctx(2) by (simp_all add: is_group_def is_aggregate_def)
  have none: "type_ok CONFIG_TYPE_NONE" by (simp add: type_ok_def config_types)
  show ?thesis
  proof (cases "config_setting_add ?x (Some name) CONFIG_TYPE_NONE")
    case (Ptr s)
    then obtain e where e: "grown ?x s e" "s_value e = V_None" "s_hook e = 0"
      using add_grown [OF p(5) g(2) Ptr none] by (auto simp: zero_value_def config_types)
    let ?q = "p @ [length (children ?x)]"
    let ?r = "update_at p (\<lambda>_. s) (root config)"
    have r: "wf_setting (root config)" "tidy (root config)" "nones (root config) = 0" "strbuf_ok (pc_string ctx)"
      using ctx(1) by (simp_all add: ctx_ok_def)
    have "tidy e" using e(2,3) by (simp add: tidy_iff [of e] array_ok_def children_def config_setting_type_def config_types)
    note t = grown_tree [OF r(1,2) p(2) e(1) this, unfolded p(4) ctx(2)]
    have "CONFIG_TYPE_GROUP \<noteq> CONFIG_TYPE_ARRAY" by (simp add: config_types)
    note t = t [OF notE [OF this]]
    note c = capture_tree [OF t(1,2,4), of yyg]
    have "path_types (update_at ?q (capture_parse_pos yyg) ?r) p = ks" using c(5) t(6) p(3) by (simp add: path_types_snoc)
    moreover have "valid_path (update_at ?q (capture_parse_pos yyg) ?r) p" using c(4) by (simp add: valid_path_append)
    moreover have "nones ?r = 1" using t(3) r(3) e(2) nones_iff [of e] by simp
    ultimately show ?thesis
      using p(1) Ptr e r(4) c t(5) by (simp add: act_ok_def act_name_def add_to_parent_def ctx_ok_def grown_def)
  next
    case Null
    then show ?thesis using p(1) by (simp add: act_ok_def act_name_def add_to_parent_def)
  next
    case Undefined
    then show ?thesis using add_defined(1) [OF p(5) g(2) none] by simp
  qed
qed

text \<open>The types of aggregates.\<close>

definition aggregate_type :: "int \<Rightarrow> bool" where
  "aggregate_type t \<longleftrightarrow> t \<in> {CONFIG_TYPE_GROUP, CONFIG_TYPE_ARRAY, CONFIG_TYPE_LIST}"

lemma empty_aggregate:
  assumes "aggregate_type t" "s_value s = zero_value t"
  shows "config_setting_type s = t" "children s = []" "wf_setting s" "s_hook s = 0 \<Longrightarrow> tidy s" "nones s = 0"
proof -
  show t: "config_setting_type s = t" and c: "children s = []" and "wf_setting s"
    using assms by (auto simp: aggregate_type_def zero_value_def config_setting_type_def config_types children_def wf_setting_iff)
  have "array_ok s" using c by (auto simp: array_ok_def scalar_type_def)
  then show "tidy s" if "s_hook s = 0" using c that tidy_iff [of s] by simp
  show "nones s = 0" using assms c nones_iff [of s] by (auto simp: aggregate_type_def zero_value_def config_types)
qed

text \<open>The named setting gets a value.\<close>

lemma fill_tree:
  assumes r: "wf_setting r" "tidy r" "valid_path r (p @ [j])" "s_value (deref r (p @ [j])) = V_None" "nones r = 1"
    and p: "config_setting_type (deref r p) \<noteq> CONFIG_TYPE_ARRAY"
    and s: "wf_setting s" "tidy s" "nones s = 0" "s_name s = s_name (deref r (p @ [j]))"
  defines "r' \<equiv> update_at (p @ [j]) (\<lambda>_. s) r"
  shows "wf_setting r'" "tidy r'" "nones r' = 0" "valid_path r' (p @ [j])"
    "path_types r' (p @ [j]) = path_types r p @ [config_setting_type s]" "path_types r' p = path_types r p"
proof -
  show "wf_setting r'" using wf_update [OF r(1,3), of "\<lambda>_. s"] s by (simp add: r'_def)
  show "tidy r'" using tidy_update [OF r(2,3), of "\<lambda>_. s"] s p by (simp add: r'_def)
  show "nones r' = 0" using nones_update [OF r(3), of "\<lambda>_. s"] nones_iff [of "deref r (p @ [j])"] r(4,5) s(3) by (simp add: r'_def)
  show "valid_path r' (p @ [j])" using update_effects(1) [OF r(3)] by (simp add: r'_def)
  show t: "path_types r' (p @ [j]) = path_types r p @ [config_setting_type s]"
    using update_effects(3) [OF r(3), of "\<lambda>_. s"] by (simp add: r'_def path_types_snoc)
  show "path_types r' p = path_types r p" using t by (simp add: path_types_snoc)
qed

lemma act_open_ok:
  assumes ctx: "ctx_ok ks b ctx config" and b: "b \<longleftrightarrow> last ks \<noteq> CONFIG_TYPE_LIST" "last ks \<noteq> CONFIG_TYPE_ARRAY"
    and t: "aggregate_type t"
  shows "act_ok (ks @ [t]) False config (act_open yyg t ctx config)"
proof -
  obtain p where p: "pc_parent ctx = Some p" "valid_path (root config) p" "path_types (root config) p = ks"
      "config_setting_type (deref (root config) p) = last ks" "wf_setting (deref (root config) p)"
    using ctx(1) by (rule ctx_parent)
  let ?x = "deref (root config) p"
  have r: "wf_setting (root config)" "tidy (root config)" "nones (root config) = of_bool b" "strbuf_ok (pc_string ctx)"
    using ctx(1) by (simp_all add: ctx_ok_def)
  have in_list: "IN_LIST ctx config \<longleftrightarrow> \<not> b" using p(1,4) b by (simp add: IN_LIST_def parent_type_def)
  show ?thesis
  proof (cases b)
    case True
    then obtain j where j: "pc_setting ctx = Some (p @ [j])" "valid_path (root config) (p @ [j])"
        "s_value (deref (root config) (p @ [j])) = V_None" using ctx p(1) by (auto simp: ctx_ok_def)
    let ?s = "set_value (zero_value t) (deref (root config) (p @ [j]))"
    have "s_hook ?s = 0" using tidy_deref [OF r(2) j(2)] tidy_iff [of "deref (root config) (p @ [j])"] by simp
    then have e: "config_setting_type ?s = t" "children ?s = []" "wf_setting ?s" "tidy ?s" "nones ?s = 0"
      using empty_aggregate [OF t, of ?s] by simp_all
    have "update_at (p @ [j]) (set_value (zero_value t)) (root config) = update_at (p @ [j]) (\<lambda>_. ?s) (root config)"
      by (rule update_at_const)
    then show ?thesis
      using fill_tree [OF r(1,2) j(2,3) _ _ e(3-5)] True in_list j r p b(2) e(1)
      by (simp add: act_ok_def act_open_def ctx_ok_def)
  next
    case False
    then have agg: "is_aggregate ?x" "\<not> is_group ?x" using b p(4) by (simp_all add: is_aggregate_def is_group_def config_types)
    have ty: "type_ok t" using t by (auto simp: type_ok_def aggregate_type_def config_types)
    obtain s where s: "config_setting_add ?x None t = Ptr s"
      using add_defined [OF p(5) agg(1) ty, of None] agg(2) by (cases "config_setting_add ?x None t") auto
    then obtain e where e: "grown ?x s e" "s_value e = zero_value t" "s_hook e = 0"
      using add_grown [OF p(5) agg(1) s ty] agg(2) by auto
    have z: "config_setting_type e = t" "children e = []" "wf_setting e" "tidy e" "nones e = 0"
      using empty_aggregate [OF t e(2)] e(3) by simp_all
    note g = grown_tree [OF r(1,2) p(2) e(1) z(4), unfolded p(4), OF notE [OF b(2)]]
    note c = capture_tree [OF g(1,2,4), of yyg]
    show ?thesis
      using False in_list s e(1) p(1,3) g c z r by (simp add: act_ok_def act_open_def add_to_parent_def ctx_ok_def grown_def path_types_snoc)
  qed
qed

lemma act_close_ok:
  assumes "ctx_ok ks False ctx config" "2 \<le> length ks"
  shows "act_ok (butlast ks) False config (act_close ctx config)"
proof -
  obtain p where p: "pc_parent ctx = Some p" "valid_path (root config) p" "path_types (root config) p = ks"
    using assms(1) by (auto simp: ctx_ok_def)
  then have "p \<noteq> []" using assms(2) by auto
  then obtain q j where q: "p = q @ [j]" by (cases p rule: rev_cases) auto
  then show ?thesis
    using assms(1) p(1,2) p(3) [symmetric]
    by (auto simp: act_ok_def act_close_def ctx_ok_def valid_path_append path_types_snoc)
qed

lemma act_string_ok:
  assumes "ctx_ok ks b ctx config"
  shows "act_ok ks b config (act_string s ctx config)"
proof -
  have "strbuf_ok (pc_string ctx)" using assms by (simp add: ctx_ok_def)
  then obtain buf where "strbuf_append (pc_string ctx) s = Ptr buf" "strbuf_ok buf" by (rule strbuf_append_ok)
  then show ?thesis using assms by (simp add: act_ok_def act_string_def ctx_ok_def)
qed

section \<open>Values\<close>

text \<open>A setter of a scalar type fills a setting of that type, or of none.\<close>

definition fills :: "int \<Rightarrow> (config_setting \<Rightarrow> config_setting c_result) \<Rightarrow> bool" where
  "fills t setter \<longleftrightarrow> scalar_type t
     \<and> (\<forall>e. config_setting_type e \<in> {CONFIG_TYPE_NONE, t} \<longrightarrow> (\<exists>v. setter e = Ptr (set_value v e) \<and> value_type v = t))"

lemma setters_fill:
  "fills CONFIG_TYPE_INT (\<lambda>e. ptr_option (config_setting_set_int c e i))"
  "fills CONFIG_TYPE_INT64 (\<lambda>e. ptr_option (config_setting_set_int64 c e i))"
  "fills CONFIG_TYPE_FLOAT (\<lambda>e. config_setting_set_float c e d)"
  "fills CONFIG_TYPE_BOOL (\<lambda>e. ptr_option (config_setting_set_bool e i))"
  "fills CONFIG_TYPE_STRING (\<lambda>e. ptr_option (config_setting_set_string e str))"
  by (auto simp: fills_def scalar_type_def config_setting_set_int_def config_setting_set_int64_def config_setting_set_float_def
      config_setting_set_bool_def config_setting_set_string_def config_setting_type_def config_types Let_def split: config_value.splits)

lemma set_elem_new:
  assumes vec: "wf_setting vec" "config_setting_type vec \<in> {CONFIG_TYPE_ARRAY, CONFIG_TYPE_LIST}"
    and f: "fills t setter" and check: "config_vector_checktype vec t"
  shows "\<exists>v' w. setter (Setting None 0 (zero_value t) 0 0 None) = Ptr (set_value w (Setting None 0 (zero_value t) 0 0 None))
    \<and> value_type w = t \<and> set_elem setter t vec (- 1) = Ptr (v', length (children vec))
    \<and> grown vec v' (set_value w (Setting None 0 (zero_value t) 0 0 None))"
proof -
  let ?e = "Setting None 0 (zero_value t) 0 0 None"
  have t: "scalar_type t" using f by (simp add: fills_def)
  then have et: "config_setting_type ?e = t"
    by (auto simp: scalar_type_def config_setting_type_def zero_value_def config_types)
  obtain w where w: "setter ?e = Ptr (set_value w ?e)" "value_type w = t" using f et unfolding fills_def by blast
  note sc = scalar_setting [of w ?e, unfolded w(2), OF t]
  have agg: "is_aggregate vec" "\<not> is_group vec" using vec(2) by (auto simp: is_aggregate_def is_group_def config_types)
  obtain v where v: "config_setting_create vec None t = Ptr v" "grown vec v ?e"
    using create_ok [OF vec(1) agg(1), of None t] create_name agg by (auto simp: grown_def)
  then have c: "children v = children vec @ [?e]" by (simp add: grown_def)
  have "set_elem setter t vec (- 1) = Ptr (put_child (length (children vec)) (set_value w ?e) v, length (children vec))"
    using check vec(2) v(1) c w(1) by (auto simp: set_elem_def)
  moreover have "grown vec (put_child (length (children vec)) (set_value w ?e) v) (set_value w ?e)"
    using grown_put [OF v(2) sc(1)] by simp
  ultimately show ?thesis using w by blast
qed

lemma set_elem_append:
  assumes vec: "wf_setting vec" "config_setting_type vec \<in> {CONFIG_TYPE_ARRAY, CONFIG_TYPE_LIST}" "tidy vec"
    and f: "fills t setter"
  shows "set_elem setter t vec (- 1) = Null \<or>
    (\<exists>v' e. set_elem setter t vec (- 1) = Ptr (v', length (children vec)) \<and> grown vec v' e \<and> config_setting_type e = t
      \<and> nones e = 0 \<and> tidy e
      \<and> (config_setting_type vec = CONFIG_TYPE_ARRAY \<longrightarrow> (\<forall>x \<in> set (children vec). config_setting_type x = t)))"
proof (cases "config_vector_checktype vec t")
  case True
  let ?e = "Setting None 0 (zero_value t) 0 0 None"
  have t: "scalar_type t" using f by (simp add: fills_def)
  obtain v' w where w: "value_type w = t" "set_elem setter t vec (- 1) = Ptr (v', length (children vec))"
      "grown vec v' (set_value w ?e)" using set_elem_new [OF vec(1,2) f True] by blast
  note sc = scalar_setting [of w ?e, unfolded w(1), OF t]
  have "\<forall>x \<in> set (children vec). config_setting_type x = t" if "config_setting_type vec = CONFIG_TYPE_ARRAY"
  proof -
    have "\<not> scalar_type CONFIG_TYPE_NONE" by (simp add: scalar_type_def config_types)
    then have "one_type vec" using tidy_iff [of vec] vec(3) unfolding one_type_def array_ok_def by metis
    then show ?thesis using True that by (rule checktype_one_type)
  qed
  moreover have "tidy (set_value w ?e)" using sc(2) by simp
  ultimately show ?thesis using sc w by blast
qed (use vec(2) in \<open>auto simp: set_elem_def\<close>)

lemma act_value_ok:
  assumes ctx: "ctx_ok ks b ctx config" and f: "fills t setter"
    and b: "b \<longleftrightarrow> last ks \<noteq> CONFIG_TYPE_ARRAY \<and> last ks \<noteq> CONFIG_TYPE_LIST"
  shows "act_ok ks False config (act_value yyg (\<lambda>a. set_elem setter t a (- 1)) setter format ctx config)"
proof -
  obtain p where p: "pc_parent ctx = Some p" "valid_path (root config) p" "path_types (root config) p = ks"
      "config_setting_type (deref (root config) p) = last ks" "wf_setting (deref (root config) p)"
    using ctx(1) by (rule ctx_parent)
  let ?x = "deref (root config) p"
  have r: "wf_setting (root config)" "tidy (root config)" "nones (root config) = of_bool b" "strbuf_ok (pc_string ctx)"
    using ctx(1) by (simp_all add: ctx_ok_def)
  have vec: "IN_ARRAY ctx config \<or> IN_LIST ctx config \<longleftrightarrow> \<not> b" using p(1,4) b
    by (auto simp: IN_LIST_def IN_ARRAY_def parent_type_def)
  note av = act_value_def [of yyg _ setter format, folded formatted_def]
  show ?thesis
  proof (cases b)
    case True
    then obtain j where j: "pc_setting ctx = Some (p @ [j])" "valid_path (root config) (p @ [j])"
        "s_value (deref (root config) (p @ [j])) = V_None" using ctx p(1) by (auto simp: ctx_ok_def)
    let ?e = "deref (root config) (p @ [j])"
    have "config_setting_type ?e = CONFIG_TYPE_NONE" using j(3) by (simp add: config_setting_type_def)
    then obtain v where v: "setter ?e = Ptr (set_value v ?e)" "value_type v = t" using f unfolding fills_def by blast
    have "scalar_type t" using f by (simp add: fills_def)
    moreover have "s_hook ?e = 0" using tidy_deref [OF r(2) j(2)] tidy_iff by blast
    ultimately have sc: "wf_setting (set_value v ?e)" "tidy (set_value v ?e)" "nones (set_value v ?e) = 0"
        "config_setting_type (set_value v ?e) = t"
      using scalar_setting [of v ?e] v(2) by simp_all
    note fm = same_value [of "formatted format (set_value v ?e)" "set_value v ?e", simplified]
    show ?thesis
      using fill_tree [OF r(1,2) j(2,3), of "formatted format (set_value v ?e)"] True vec j(1,2) v(1) sc fm p b r
      by (simp add: av act_ok_def ctx_ok_def valid_path_append)
  next
    case False
    have ty: "config_setting_type ?x \<in> {CONFIG_TYPE_ARRAY, CONFIG_TYPE_LIST}" using False b p(4) by auto
    show ?thesis
    proof (cases "set_elem setter t ?x (- 1) = Null")
      case True
      then show ?thesis using False vec p(1) by (simp add: av act_ok_def)
    next
      case ok: False
      then obtain v' e where e: "set_elem setter t ?x (- 1) = Ptr (v', length (children ?x))" "grown ?x v' e"
          "config_setting_type e = t" "nones e = 0" "tidy e"
          "config_setting_type ?x = CONFIG_TYPE_ARRAY \<longrightarrow> (\<forall>x \<in> set (children ?x). config_setting_type x = t)"
        using set_elem_append [OF p(5) ty tidy_deref [OF r(2) p(2)] f] by blast
      let ?e = "capture_parse_pos yyg (formatted format e)"
      note fm = same_value [of ?e e, simplified]
      have "wf_setting e" using e(2) wf_children(1) [of v'] by (simp add: grown_def is_aggregate_def)
      then have g: "grown ?x (put_child (length (children ?x)) ?e v') ?e" using grown_put [OF e(2)] fm by simp
      have c: "children v' ! length (children ?x) = e" using e(2) by (simp add: grown_def)
      have "scalar_type t" using f by (simp add: fills_def)
      then show ?thesis
        using grown_tree [OF r(1,2) p(2) g] fm e False vec p r c by (simp add: av act_ok_def ctx_ok_def)
    qed
  qed
qed

end
