(* ===== verification/Scanner_Total.thy ===== *)
theory Scanner_Total
  imports Scanner Scanner_Rows
begin

text \<open>
  The scanner returns. Every round of its loop consumes input, enters an include file or leaves
  one; the nesting of include files is bounded, so the rounds come to an end whatever the
  files contain, also when they include each other.
\<close>

section \<open>Matching\<close>

lemma yy_class_range: "1 \<le> yy_class c \<and> yy_class c < 49"
proof (cases "c = NUL")
  case False
  define n where "n = (of_char c :: nat)"
  have "char_of (0 :: nat) = NUL" by (simp add: NUL_def char_of_def)
  then have "n \<noteq> 0" using False char_of_char [of c] unfolding n_def by metis
  moreover have "n < 256" unfolding n_def by (rule nat_of_char_less_256)
  ultimately have n: "n < 256" "n \<noteq> 0" by simp_all
  then have "tl yy_ec ! (n - 1) = yy_ec ! n" "n - 1 < length (tl yy_ec)" by (simp_all add: nth_tl yy_lengths)
  then have "1 \<le> yy_ec ! n" using yy_ranges(9) unfolding list_all_length by metis
  moreover have "yy_ec ! n \<le> 48" using yy_ranges(2) n by (simp add: list_all_length yy_lengths)
  ultimately show ?thesis using False by (simp add: yy_class_def n_def)
qed (simp add: yy_class_def)

definition good_state :: "nat \<Rightarrow> bool" where
  "good_state s \<longleftrightarrow> 1 \<le> s \<and> s \<le> 101 \<and> s \<noteq> 9"

definition acc_ok :: "nat \<Rightarrow> nat \<Rightarrow> (nat \<times> nat) option \<Rightarrow> bool" where
  "acc_ok lo hi l \<longleftrightarrow> (\<exists>s n. l = Some (s, n) \<and> good_state s \<and> yy_accept ! s \<noteq> 0 \<and> lo \<le> n \<and> n \<le> hi)"

lemma yy_trans_good: "good_state s \<Longrightarrow> \<exists>t. yy_trans s (yy_class c) = Some t \<and> (t = YY_JAM \<or> good_state t)"
  using yy_trans_range [of s "yy_class c"] yy_class_range [of c] by (auto simp: good_state_def YY_JAM_def)

text \<open>A run gives back what it was started with, or an accepting state it has met.\<close>

lemma yy_match_cases:
  "good_state s \<Longrightarrow> \<exists>l'. yy_match s cs n l = Some l' \<and> (l' = l \<and> yy_accept ! s = 0 \<or> acc_ok n (n + length cs) l')"
proof (induction cs arbitrary: s n l)
  case Nil
  then show ?case by (auto simp: acc_ok_def)
next
  case (Cons c cs)
  define l1 where "l1 = (if yy_accept ! s \<noteq> 0 then Some (s, n) else l)"
  have l1: "l1 = l \<and> yy_accept ! s = 0 \<or> acc_ok n (n + length (c # cs)) l1"
    using Cons.prems by (auto simp: l1_def acc_ok_def)
  obtain t where t: "yy_trans s (yy_class c) = Some t" "t = YY_JAM \<or> good_state t" using yy_trans_good [OF Cons.prems] by blast
  show ?case
  proof (cases "t = YY_JAM")
    case True
    then have "yy_match s (c # cs) n l = Some l1" using t by (simp add: l1_def)
    then show ?thesis using l1 by auto
  next
    case False
    then obtain l' where l': "yy_match t cs (Suc n) l1 = Some l'"
        "l' = l1 \<and> yy_accept ! t = 0 \<or> acc_ok (Suc n) (Suc n + length cs) l'"
      using Cons.IH t(2) by blast
    have "yy_match s (c # cs) n l = Some l'" using False t l'(1) by (simp add: l1_def)
    moreover have "acc_ok (Suc n) (Suc n + length cs) l' \<Longrightarrow> acc_ok n (n + length (c # cs)) l'" by (auto simp: acc_ok_def)
    ultimately show ?thesis using l' l1 by auto
  qed
qed

lemma yy_match_at_once:
  assumes "good_state s" "yy_match s cs n l = Some (Some (t, n))" "\<forall>u. l \<noteq> Some (u, n)"
  shows "t = s"
proof (cases cs)
  case Nil
  then show ?thesis using assms(2,3) by (auto split: if_splits)
next
  case (Cons c cs')
  define l1 where "l1 = (if yy_accept ! s \<noteq> 0 then Some (s, n) else l)"
  obtain u where u: "yy_trans s (yy_class c) = Some u" "u = YY_JAM \<or> good_state u" using yy_trans_good [OF assms(1)] by blast
  have "l1 = Some (t, n)"
  proof (cases "u = YY_JAM")
    case True
    then show ?thesis using assms(2) u Cons by (simp add: l1_def)
  next
    case False
    then have "yy_match u cs' (Suc n) l1 = Some (Some (t, n))" using assms(2) u Cons by (simp add: l1_def)
    then show ?thesis using yy_match_cases [of u cs' "Suc n" l1] False u(2) by (auto simp: acc_ok_def)
  qed
  then show ?thesis using assms(3) by (auto simp: l1_def split: if_splits)
qed

text \<open>From a start state, at least one character is matched, and two by the comment rule.\<close>

lemma yy_match_start:
  assumes "1 \<le> s" "s \<le> 8" "cs \<noteq> []"
  obtains t n where "yy_match s cs 0 None = Some (Some (t, n))" "good_state t" "yy_accept ! t \<noteq> 0" "1 \<le> n"
    "n \<le> length cs" "n \<noteq> 1 \<or> yy_accept ! t \<noteq> 40"
proof -
  obtain c cs' where cs: "cs = c # cs'" using assms(3) by (cases cs) auto
  obtain u where u: "yy_trans s (yy_class c) = Some u" "yy_first_ok u"
    using yy_first_trans [OF assms(1,2)] yy_class_range [of c] by blast
  have s: "good_state s" "yy_accept ! s = 0" using assms(1,2) yy_accept_start by (auto simp: good_state_def)
  have g: "u \<noteq> YY_JAM" "good_state u"
    using u yy_trans_good [OF s(1), of c] by (auto simp: yy_first_ok_def YY_JAM_def)
  then have m: "yy_match s cs 0 None = yy_match u cs' 1 None" using cs u(1) s(2) by simp
  obtain t n where t: "yy_match u cs' 1 None = Some (Some (t, n))" "good_state t" "yy_accept ! t \<noteq> 0" "1 \<le> n"
      "n \<le> 1 + length cs'"
    using yy_match_cases [OF g(2), of cs' 1 None] u(2) by (auto simp: acc_ok_def yy_first_ok_def)
  show ?thesis
  proof (rule that [of t n])
    show "n \<noteq> 1 \<or> yy_accept ! t \<noteq> 40"
      using yy_match_at_once [OF g(2)] t(1) u(2) by (auto simp: yy_first_ok_def)
  qed (use t m cs in auto)
qed

section \<open>What is left to read\<close>

text \<open>The buffer at a depth: the interrupted ones, then the current one.\<close>

definition buffer_load :: "yyguts \<Rightarrow> nat list" where
  "buffer_load yyg =
     map (\<lambda>i. case sc_buffers (yy_extra yyg) ! i of None \<Rightarrow> 0 | Some b \<Rightarrow> Suc (length (yy_input b))) [0..<sc_depth (yy_extra yyg)]
     @ Suc (length (yy_input (yy_buffer yyg))) # replicate (MAX_INCLUDE_DEPTH - sc_depth (yy_extra yyg)) 0"

text \<open>Lexicographic order: consuming and leaving a file both make it smaller, and so does entering one.\<close>

definition load_less :: "(nat list \<times> nat list) set" where
  "load_less = lexn less_than (Suc MAX_INCLUDE_DEPTH)"

lemma wf_load_less: "wf load_less"
  unfolding load_less_def by (rule wf_lexn) (rule wf_less_than)

lemma trans_load_less: "trans load_less"
  unfolding load_less_def by (rule lexn_transI) (rule trans_less_than)

lemma load_lessI:
  "x < y \<Longrightarrow> length (ps @ x # xs) = Suc MAX_INCLUDE_DEPTH \<Longrightarrow> length (ps @ y # ys) = Suc MAX_INCLUDE_DEPTH
   \<Longrightarrow> (ps @ x # xs, ps @ y # ys) \<in> load_less"
  unfolding load_less_def lexn_conv by (simp, blast)

definition yy_ok :: "yyguts \<Rightarrow> bool" where
  "yy_ok yyg \<longleftrightarrow> yy_start yyg \<in> {1, 3, 5, 7} \<and> scanctx_ok (yy_extra yyg)"

lemma length_buffer_load: "yy_ok yyg \<Longrightarrow> length (buffer_load yyg) = Suc MAX_INCLUDE_DEPTH"
  by (auto simp: buffer_load_def yy_ok_def scanctx_ok_def)

lemma load_consume:
  assumes "yy_ok yyg" "yy_extra yyg' = yy_extra yyg" "length (yy_input (yy_buffer yyg')) < length (yy_input (yy_buffer yyg))"
  shows "(buffer_load yyg', buffer_load yyg) \<in> load_less"
  using assms unfolding buffer_load_def assms(2)
  by (intro load_lessI) (auto simp: yy_ok_def scanctx_ok_def)

lemma load_same_depth:
  assumes "sc_depth (yy_extra yyg') = sc_depth (yy_extra yyg)" "sc_buffers (yy_extra yyg') = sc_buffers (yy_extra yyg)"
    "yy_buffer yyg' = yy_buffer yyg"
  shows "buffer_load yyg' = buffer_load yyg"
  using assms by (simp add: buffer_load_def)

lemma push_buffers:
  "scanctx_push_include fs dir ctx b = Pushed node ctx' \<Longrightarrow>
     sc_buffers ctx' = (sc_buffers ctx)[sc_depth ctx := Some b] \<and> sc_depth ctx' = Suc (sc_depth ctx)"
  by (auto simp: scanctx_push_include_def scanctx_take_string_def strbuf_release_def scanctx_add_filename_def Let_def
      split: if_splits option.splits c_result.splits prod.splits)

lemma load_push:
  assumes "yy_ok yyg" "scanctx_push_include fs dir (yy_extra yyg) b = Pushed node ctx'" "yy_extra yyg' = ctx'"
    "length (yy_input b) < length (yy_input (yy_buffer yyg))"
  shows "(buffer_load yyg', buffer_load yyg) \<in> load_less"
proof -
  let ?d = "sc_depth (yy_extra yyg)"
  have p: "sc_buffers ctx' = (sc_buffers (yy_extra yyg))[?d := Some b]" "sc_depth ctx' = Suc ?d"
    using push_buffers [OF assms(2)] by auto
  have "scanctx_ok (yy_extra yyg)" using assms(1) by (simp add: yy_ok_def)
  then have d: "?d < MAX_INCLUDE_DEPTH" "length (sc_buffers (yy_extra yyg)) = MAX_INCLUDE_DEPTH"
    using scanctx_push_ok [of "yy_extra yyg" fs dir b] assms(2) by (auto simp: scanctx_ok_def)
  define f where "f i = (case sc_buffers (yy_extra yyg) ! i of None \<Rightarrow> 0 | Some b \<Rightarrow> Suc (length (yy_input b)))" for i
  have "buffer_load yyg' = map f [0..<?d] @ Suc (length (yy_input b)) # Suc (length (yy_input (yy_buffer yyg')))
      # replicate (MAX_INCLUDE_DEPTH - Suc ?d) 0"
    using assms(3) p d by (simp add: buffer_load_def f_def nth_list_update)
  moreover have "buffer_load yyg = map f [0..<?d] @ Suc (length (yy_input (yy_buffer yyg))) # replicate (MAX_INCLUDE_DEPTH - ?d) 0"
    by (simp add: buffer_load_def f_def)
  ultimately show ?thesis using assms(4) d by (simp only:) (intro load_lessI; simp)
qed

lemma load_pop:
  assumes "yy_ok yyg" "scanctx_pop_include (yy_extra yyg) = (Some b, ctx')" "yy_extra yyg' = ctx'" "yy_buffer yyg' = b"
    "yy_input (yy_buffer yyg) = []"
  shows "(buffer_load yyg', buffer_load yyg) \<in> load_less"
proof -
  obtain d where d: "sc_depth (yy_extra yyg) = Suc d" "sc_depth ctx' = d" "sc_buffers ctx' = sc_buffers (yy_extra yyg)"
      "sc_buffers (yy_extra yyg) ! d = Some b"
    using assms(2) by (cases "sc_depth (yy_extra yyg)") (auto simp: scanctx_pop_include_def Let_def)
  have le: "Suc d \<le> MAX_INCLUDE_DEPTH" using assms(1) d(1) by (simp add: yy_ok_def scanctx_ok_def)
  define f where "f i = (case sc_buffers (yy_extra yyg) ! i of None \<Rightarrow> 0 | Some b \<Rightarrow> Suc (length (yy_input b)))" for i
  have r: "replicate (MAX_INCLUDE_DEPTH - d) (0 :: nat) = 0 # replicate (MAX_INCLUDE_DEPTH - Suc d) 0"
    using le by (simp add: Suc_diff_le flip: replicate_Suc)
  have "buffer_load yyg' = (map f [0..<d] @ [f d]) @ 0 # replicate (MAX_INCLUDE_DEPTH - Suc d) 0"
    using assms(3,4) d r by (simp add: buffer_load_def f_def)
  moreover have "buffer_load yyg = (map f [0..<d] @ [f d]) @ 1 # replicate (MAX_INCLUDE_DEPTH - Suc d) 0"
    using assms(5) d by (simp add: buffer_load_def f_def)
  ultimately show ?thesis using le by (simp only:) (intro load_lessI; simp)
qed

section \<open>A round of the loop\<close>

text \<open>Every token is returned with the member of the union that the grammar reads.\<close>

definition token_ok :: "nat \<Rightarrow> yystype option \<Rightarrow> bool" where
  "token_ok t v \<longleftrightarrow>
     t \<in> {TOK_BOOLEAN, TOK_INTEGER, TOK_HEX} \<and> (\<exists>i. v = Some (Y_Int i))
   \<or> t \<in> {TOK_INTEGER64, TOK_HEX64} \<and> (\<exists>i. v = Some (Y_Int64 i))
   \<or> t = TOK_FLOAT \<and> (\<exists>d. v = Some (Y_Float d))
   \<or> t \<in> {TOK_STRING, TOK_NAME} \<and> (\<exists>s. v = Some (Y_String s))
   \<or> t \<in> {YYEOF, TOK_EQUALS, TOK_ARRAY_START, TOK_ARRAY_END, TOK_LIST_START, TOK_LIST_END, TOK_COMMA,
        TOK_GROUP_START, TOK_GROUP_END, TOK_SEMICOLON, TOK_GARBAGE, TOK_ERROR} \<and> v = None"

definition lex_ok :: "lex_result \<Rightarrow> bool" where
  "lex_ok r = (case r of Token t v \<Rightarrow> token_ok t v | Lex_Fatal m \<Rightarrow> m = ''input in flex scanner failed''
     | Lex_Undefined \<Rightarrow> False | Lex_Range \<Rightarrow> True)"

text \<open>The scanner changes the error fields of the configuration at most.\<close>

definition same_tree :: "config \<Rightarrow> config \<Rightarrow> bool" where
  "same_tree c c' \<longleftrightarrow> root c' = root c \<and> options c' = options c \<and> tab_width c' = tab_width c
     \<and> default_format c' = default_format c \<and> include_dir c' = include_dir c \<and> filenames c' = filenames c"

lemma same_tree_refl [simp]: "same_tree c c"
  by (simp add: same_tree_def)

lemma same_tree_trans: "same_tree a b \<Longrightarrow> same_tree b c \<Longrightarrow> same_tree a c"
  by (simp add: same_tree_def)

definition scan_ok :: "config \<Rightarrow> yyguts \<Rightarrow> lex_step \<Rightarrow> bool" where
  "scan_ok config yyg st =
     (case st of
        Lex_Goes_On c g \<Rightarrow> same_tree config c \<and> yy_ok g \<and> (buffer_load g, buffer_load yyg) \<in> load_less
      | Lex_Returns r c g \<Rightarrow> lex_ok r \<and> same_tree config c \<and> yy_ok g
          \<and> (\<forall>t v. r = Token t v \<and> t \<noteq> YYEOF \<longrightarrow> (buffer_load g, buffer_load yyg) \<in> load_less))"

text \<open>\<open>g\<close> is what is left after the text of a token is consumed.\<close>

definition consumed :: "yyguts \<Rightarrow> yyguts \<Rightarrow> bool" where
  "consumed yyg g \<longleftrightarrow> yy_ok yyg \<and> yy_extra g = yy_extra yyg \<and> yy_start g = yy_start yyg
     \<and> length (yy_input (yy_buffer g)) < length (yy_input (yy_buffer yyg))"

lemma consumed_ok: "consumed yyg g \<Longrightarrow> yy_ok g \<and> (buffer_load g, buffer_load yyg) \<in> load_less"
  using load_consume by (auto simp: consumed_def yy_ok_def)

lemma yy_ok_BEGIN: "yy_ok g \<Longrightarrow> n \<le> 3 \<Longrightarrow> yy_ok (BEGIN n g) \<and> buffer_load (BEGIN n g) = buffer_load g"
  by (auto simp: yy_ok_def BEGIN_def buffer_load_def le_Suc_eq numeral_eq_Suc)

lemma yy_token_ok: "consumed yyg g \<Longrightarrow> token_ok t v \<Longrightarrow> scan_ok config yyg (yy_token t v config g)"
  using consumed_ok by (simp add: yy_token_def scan_ok_def lex_ok_def)

lemma yy_goes_on_ok: "consumed yyg g \<Longrightarrow> n \<le> 3 \<Longrightarrow> scan_ok config yyg (Lex_Goes_On config (BEGIN n g))"
    "consumed yyg g \<Longrightarrow> scan_ok config yyg (Lex_Goes_On config g)"
    "consumed yyg g \<Longrightarrow> scan_ok config yyg (Lex_Goes_On config (g\<lparr>yy_out := o'\<rparr>))"
  using consumed_ok yy_ok_BEGIN
  by (auto simp: scan_ok_def yy_ok_def buffer_load_def)

lemma yy_append_ok:
  assumes "consumed yyg g"
  shows "scan_ok config yyg (yy_append text config g)"
proof -
  have "scanctx_ok (yy_extra g)" using assms by (simp add: consumed_def yy_ok_def)
  then obtain ctx where ctx: "scanctx_append_string (yy_extra g) text = Ptr ctx" "scanctx_ok ctx"
      "\<exists>b. ctx = (yy_extra g)\<lparr>sc_string := b\<rparr>" by (rule scanctx_append_ok)
  moreover have "buffer_load (g\<lparr>yy_extra := ctx\<rparr>) = buffer_load g" using ctx(3) by (auto intro!: load_same_depth)
  ultimately show ?thesis
    using consumed_ok [OF assms] by (simp add: yy_append_def scan_ok_def yy_ok_def)
qed

lemma yy_take_ok:
  assumes "consumed yyg g"
  shows "scan_ok config yyg (yy_take_string config g)"
proof -
  let ?g = "g\<lparr>yy_extra := (yy_extra g)\<lparr>sc_string := strbuf_zero\<rparr>\<rparr>"
  have "scanctx_ok (yy_extra g)" using assms by (simp add: consumed_def yy_ok_def)
  then have "yy_ok ?g" "buffer_load ?g = buffer_load g" "yy_take_string config g =
      Lex_Returns (Token TOK_STRING (Some (Y_String (sb_text (sc_string (yy_extra g)))))) config (BEGIN INITIAL ?g)"
    using scanctx_take_ok [of "yy_extra g"] consumed_ok [OF assms]
    by (auto simp: yy_ok_def yy_take_string_def intro!: load_same_depth)
  then show ?thesis
    using consumed_ok [OF assms] yy_ok_BEGIN [of ?g INITIAL] by (simp add: scan_ok_def lex_ok_def token_ok_def INITIAL_def)
qed

lemma yy_include_ok:
  assumes "consumed yyg g"
  shows "scan_ok config yyg (yy_include fs config g)"
proof -
  have ok: "yy_ok yyg" "scanctx_ok (yy_extra g)" "yy_extra g = yy_extra yyg" "yy_start g = yy_start yyg"
    using assms by (simp_all add: consumed_def yy_ok_def)
  note p = scanctx_push_ok [OF ok(2), of fs "include_dir config" "yy_buffer g"]
  show ?thesis
  proof (cases "scanctx_push_include fs (include_dir config) (yy_extra g) (yy_buffer g)")
    case (Pushed node ctx)
    let ?g = "yy_switch_to_buffer (yy_create_buffer node) (g\<lparr>yy_extra := ctx\<rparr>)"
    have "(buffer_load ?g, buffer_load yyg) \<in> load_less"
      using load_push [OF ok(1), of fs "include_dir config" "yy_buffer g" node ctx ?g] Pushed ok(3) assms
      by (simp add: yy_switch_to_buffer_def consumed_def)
    moreover have "yy_ok ?g" using p Pushed ok(1,4) by (simp add: yy_ok_def yy_switch_to_buffer_def)
    ultimately show ?thesis
      using Pushed yy_ok_BEGIN [of ?g INITIAL] by (simp add: yy_include_def scan_ok_def INITIAL_def)
  next
    case (Push_Error e ctx)
    have "yy_ok (g\<lparr>yy_extra := ctx\<rparr>)" using p Push_Error ok(1,4) by (simp add: yy_ok_def)
    moreover have "sc_buffers ctx = sc_buffers (yy_extra g)" "sc_depth ctx = sc_depth (yy_extra g)"
      using Push_Error by (auto simp: scanctx_push_include_def scanctx_take_string_def strbuf_release_def Let_def
        split: if_splits option.splits c_result.splits prod.splits)
    then have "buffer_load (g\<lparr>yy_extra := ctx\<rparr>) = buffer_load g" by (intro load_same_depth) simp_all
    ultimately show ?thesis
      using Push_Error consumed_ok [OF assms]
      by (auto simp: yy_include_def scan_ok_def lex_ok_def token_ok_def same_tree_def)
  next
    case Push_Undefined
    then show ?thesis using p by simp
  qed
qed

lemma yy_float_ok: "consumed yyg g \<Longrightarrow> scan_ok config yyg (yy_float text config g)"
  using consumed_ok by (auto simp: yy_float_def scan_ok_def lex_ok_def token_ok_def split: option.split)

lemma yy_action_ok:
  assumes "consumed yyg g" "1 \<le> act" "act \<le> 42"
  shows "scan_ok config yyg (yy_action fs act text config g)"
proof (cases "act \<le> 20")
  case True
  then have "yy_action fs act text config g = yy_text_action fs act text config g" using assms(2) by (simp add: yy_action_def)
  then show ?thesis
    using yy_append_ok [OF assms(1)] yy_take_ok [OF assms(1)] yy_include_ok [OF assms(1)] yy_goes_on_ok [OF assms(1)]
    by (simp add: yy_text_action_def INITIAL_def COMMENT_def STRING_def INCLUDE_def)
next
  case False
  have "21 \<le> act \<and> act < 43" using False assms(3) by simp
  then have "act \<in> set [21..<43]" by (simp only: set_upt atLeastLessThan_iff)
  moreover have "[21..<43] = [21, 22, 23, 24, 25, 26, 27, 28, 29, 30, 31, 32, 33, 34, 35, 36, 37, 38, 39, 40, 41, 42 :: nat]"
    by (simp add: upt_rec_numeral)
  ultimately have "act \<in> set [21, 22, 23, 24, 25, 26, 27, 28, 29, 30, 31, 32, 33, 34, 35, 36, 37, 38, 39, 40, 41, 42]"
    by argo
  then show ?thesis
    using yy_goes_on_ok(2,3) [OF assms(1)] yy_float_ok [OF assms(1)] yy_token_ok [OF assms(1)]
    by (auto simp: yy_action_def token_ok_def)
qed

lemma yy_consume_ok:
  assumes "yy_ok yyg" "1 \<le> n" "n \<le> length (yy_input (yy_buffer yyg))" "n \<noteq> 1 \<or> act \<noteq> 40"
  shows "consumed yyg (snd (yy_consume act n yyg))"
  using assms by (cases "n = 1") (auto simp: consumed_def yy_consume_def Let_def)

lemma yy_eof_ok:
  assumes "yy_ok yyg" "yy_input (yy_buffer yyg) = []"
  shows "scan_ok config yyg (yy_eof config yyg)"
proof (cases "yy_readable (yy_buffer yyg)")
  case True
  obtain b ctx where p: "scanctx_pop_include (yy_extra yyg) = (b, ctx)" by fastforce
  have ok: "scanctx_ok ctx" using scanctx_pop_ok(1) [OF _ p] assms(1) by (simp add: yy_ok_def)
  show ?thesis
  proof (cases b)
    case None
    then show ?thesis using True p ok assms(1) by (simp add: yy_eof_def scan_ok_def lex_ok_def token_ok_def yy_ok_def)
  next
    case (Some buf)
    let ?g = "yy_switch_to_buffer buf (yyg\<lparr>yy_extra := ctx\<rparr>)"
    have "(buffer_load ?g, buffer_load yyg) \<in> load_less"
      using load_pop [OF assms(1), of buf ctx ?g] p Some assms(2) by (simp add: yy_switch_to_buffer_def)
    then show ?thesis
      using True p ok Some assms(1) by (simp add: yy_eof_def scan_ok_def yy_ok_def yy_switch_to_buffer_def)
  qed
next
  case False
  then show ?thesis using assms(1) by (simp add: yy_eof_def scan_ok_def lex_ok_def)
qed

lemma yy_scan_ok:
  assumes "yy_ok yyg"
  shows "scan_ok config yyg (yy_scan fs config yyg)"
proof (cases "yy_input (yy_buffer yyg) = []")
  case True
  then show ?thesis using yy_eof_ok assms by (simp add: yy_scan_def)
next
  case False
  define s where "s = yy_start yyg + (if yy_at_bol (yy_buffer yyg) then 1 else 0)"
  have s: "1 \<le> s" "s \<le> 8" using assms by (auto simp: s_def yy_ok_def)
  obtain t n where t: "yy_match s (yy_input (yy_buffer yyg)) 0 None = Some (Some (t, n))" "good_state t" "yy_accept ! t \<noteq> 0"
      "1 \<le> n" "n \<le> length (yy_input (yy_buffer yyg))" "n \<noteq> 1 \<or> yy_accept ! t \<noteq> 40"
    using s False by (rule yy_match_start)
  have act: "1 \<le> yy_accept ! t" "yy_accept ! t \<le> 42" using t(2,3) yy_accept_rule [of t] by (auto simp: good_state_def)
  obtain yytext g where g: "yy_consume (yy_accept ! t) n yyg = (yytext, g)" by fastforce
  then have "consumed yyg g" using yy_consume_ok [OF assms t(4-6)] by simp
  then have "scan_ok config yyg (yy_action fs (yy_accept ! t) yytext config g)" using act by (rule yy_action_ok)
  moreover have "yy_scan fs config yyg = yy_action fs (yy_accept ! t) yytext config g"
    using False t(1) g by (simp add: yy_scan_def s_def [symmetric])
  ultimately show ?thesis by simp
qed

section \<open>The scanner returns\<close>

lemma yylex_returns_ok:
  assumes "yy_ok yyg"
  shows "\<exists>r c g. yylex fs config yyg = Some (r, c, g) \<and> scan_ok config yyg (Lex_Returns r c g)"
  using wf_load_less assms
proof (induction "buffer_load yyg" arbitrary: yyg config rule: wf_induct_rule)
  case less
  note step = yy_scan_ok [OF less.prems, of config fs]
  show ?case
  proof (cases "yy_scan fs config yyg")
    case (Lex_Returns r c g)
    then show ?thesis using step by (subst yylex.simps) simp
  next
    case (Lex_Goes_On c g)
    then have g: "(buffer_load g, buffer_load yyg) \<in> load_less" "yy_ok g" "same_tree config c"
      using step by (simp_all add: scan_ok_def)
    obtain r c' g' where r: "yylex fs c g = Some (r, c', g')" "scan_ok c g (Lex_Returns r c' g')"
      using less.hyps [OF g(1,2)] by blast
    have "yylex fs config yyg = Some (r, c', g')" using Lex_Goes_On r(1) by (subst yylex.simps) simp
    moreover have "scan_ok config yyg (Lex_Returns r c' g')"
      using r(2) g(1,3) same_tree_trans trans_load_less by (auto simp: scan_ok_def dest: transD)
    ultimately show ?thesis by blast
  qed
qed

text \<open>
  C38. The scanner returns from every call, for every file system, also when include files
  include each other. It never leaves a table or a buffer, and never meets a state without an
  action. It returns a token with a value of the type the grammar expects, the end of the
  input, or a float that the model cannot represent; the only fatal error is a stream that
  cannot be read.
\<close>

theorem scanner_returns:
  assumes "yy_ok yyg"
  shows "\<exists>r c g. yylex fs config yyg = Some (r, c, g) \<and> yy_ok g \<and> root c = root config
    \<and> (case r of Token t v \<Rightarrow> token_ok t v | Lex_Fatal m \<Rightarrow> m = ''input in flex scanner failed''
         | Lex_Undefined \<Rightarrow> False | Lex_Range \<Rightarrow> True)"
  using yylex_returns_ok [OF assms, of fs config] by (auto simp: scan_ok_def lex_ok_def same_tree_def)

theorem scanner_returns_witness:
  "\<exists>r c g. yylex (\<lambda>p. Some (Regular ''@include'')) config_init (yylex_init_extra scanctx_zero (yy_scan_string ''a = 1;''))
     = Some (r, c, g) \<and> yy_ok g \<and> root c = root config_init"
proof -
  have "yy_ok (yylex_init_extra scanctx_zero (yy_scan_string ''a = 1;''))" by (simp add: yy_ok_def yylex_init_extra_def)
  from scanner_returns [OF this] show ?thesis by blast
qed

end
