(* ===== verification/Parser_Total.thy ===== *)
theory Parser_Total
  imports Parser_Stack Parser_Actions Scanner_Total
begin

text \<open>
  The parser returns, for every input: it never leaves its tables and stacks, and the tree it
  builds is well formed.
\<close>

section \<open>Reductions\<close>

lemma open_states: "t \<in> {8, 26, 42} \<Longrightarrow> stack_ok (t # ss) \<Longrightarrow>
    (pending (t # ss) \<longleftrightarrow> t = 8) \<and> hd (kinds (t # ss)) = (if t = 8 then CONFIG_TYPE_GROUP else CONFIG_TYPE_LIST)"
  using inside_kind [of t ss CONFIG_TYPE_GROUP] inside_kind [of t ss CONFIG_TYPE_LIST]
  by (auto simp: yy_inside_def value_state_def pending.simps Let_def)

lemma element_states: "t \<in> {8, 25, 26, 40, 42} \<Longrightarrow> stack_ok (t # ss) \<Longrightarrow>
    (pending (t # ss) \<longleftrightarrow> t = 8) \<and> (pending (t # ss) \<longleftrightarrow> hd (kinds (t # ss)) \<noteq> CONFIG_TYPE_ARRAY \<and> hd (kinds (t # ss)) \<noteq> CONFIG_TYPE_LIST)"
  using inside_kind [of t ss CONFIG_TYPE_GROUP] inside_kind [of t ss CONFIG_TYPE_ARRAY] inside_kind [of t ss CONFIG_TYPE_LIST]
  by (auto simp: yy_inside_def value_state_def pending.simps Let_def config_types)

lemmas value_actions = act_bool_def act_int_def act_int64_def act_float_def
  config_setting_set_int_elem_def config_setting_set_int64_elem_def config_setting_set_float_elem_def
  config_setting_set_bool_elem_def

lemma act_take_string_ok:
  assumes "ctx_ok ks b ctx config" "b \<longleftrightarrow> last ks \<noteq> CONFIG_TYPE_ARRAY \<and> last ks \<noteq> CONFIG_TYPE_LIST"
  shows "act_ok ks False config (act_take_string yyg ctx config)"
proof -
  have "ctx_ok ks b (ctx\<lparr>pc_string := strbuf_zero\<rparr>) config" using assms(1) by (simp add: ctx_ok_def)
  then show ?thesis
    using act_value_ok [OF _ setters_fill(5) assms(2)]
    by (simp add: act_take_string_def strbuf_release_def config_setting_set_string_elem_def)
qed

lemma value_action_ok:
  assumes "ctx_ok ks b ctx config" "b \<longleftrightarrow> last ks \<noteq> CONFIG_TYPE_ARRAY \<and> last ks \<noteq> CONFIG_TYPE_LIST"
    and r: "23 \<le> r" "r \<le> 29" and v: "case rule_symbol r of None \<Rightarrow> True | Some y \<Rightarrow> value_of_symbol y v"
  shows "act_ok ks False config (yy_rule_action yyg r v ctx config)"
proof -
  have "r \<in> {23, 24, 25, 26, 27, 28, 29}" using r by auto
  then show ?thesis
    using act_take_string_ok [OF assms(1,2)] act_value_ok [OF assms(1) setters_fill(1) assms(2)]
      act_value_ok [OF assms(1) setters_fill(2) assms(2)] act_value_ok [OF assms(1) setters_fill(3) assms(2)]
      act_value_ok [OF assms(1) setters_fill(4) assms(2)] v
    by (auto simp: yy_rule_action_def value_actions rule_symbol_def value_of_symbol_def)
qed

text \<open>A reduction: the stack is split into what is popped and the rest.\<close>

lemma rule_action_ok:
  assumes ss: "ss = popped @ t # rest" "stack_ok ss" "stack_ok (t # rest)" and e: "rule_effect (hd ss) r popped t g"
    and ctx: "ctx_ok (rev (kinds ss)) (pending ss) ctx config"
    and v: "case rule_symbol r of None \<Rightarrow> True | Some y \<Rightarrow> value_of_symbol y v"
  shows "act_ok (rev (kinds (g # t # rest))) (pending (g # t # rest)) config (yy_rule_action yyg r v ctx config)"
proof -
  consider (named) "r = 11" | (open_it) "r \<in> {13, 15, 38}" | (chars) "r \<in> {21, 22}" | (scalar) "23 \<le> r" "r \<le> 29"
    | (close_it) "r \<in> {14, 16, 39}" | (other) "r \<notin> {11, 13, 14, 15, 16, 21, 22, 38, 39}" "\<not> (23 \<le> r \<and> r \<le> 29)"
    by blast
  then show ?thesis
  proof cases
    case named
    then have s: "ss = 1 # rest" "t = 1" "g = 5" using e ss by (auto simp: rule_effect_def)
    then have "hd (kinds ss) = CONFIG_TYPE_GROUP" using inside_kind [of 1 rest] ss(2) by (simp add: yy_inside_def Let_def)
    moreover obtain n where "v = Y_String n" using v named by (auto simp: rule_symbol_def value_of_symbol_def)
    ultimately show ?thesis
      using act_name_ok [of "rev (kinds ss)" ctx config yyg n] ctx s named kinds_nonempty [OF ss(2)]
      by (simp add: last_rev value_state_def pending.simps yy_rule_action_def kinds_Cons [of 5] opens_def)
  next
    case open_it
    then have s: "popped = []" "t \<in> {16, 17, 18}" "ss = t # rest" using e ss by (auto simp: rule_effect_def split: if_splits)
    define k where "k = (if r = 13 then CONFIG_TYPE_ARRAY else if r = 15 then CONFIG_TYPE_LIST else CONFIG_TYPE_GROUP)"
    have a: "yy_rule_action yyg r v ctx config = act_open yyg k ctx config" "aggregate_type k"
      using open_it by (auto simp: k_def yy_rule_action_def aggregate_type_def)
    have g: "opens g = Some k" "idle_state g"
      using open_it e by (auto simp: rule_effect_def k_def opens_def idle_state_def value_state_def)
    obtain u us where u: "rest = u # us" "u \<in> {8, 26, 42}" "stack_ok (u # us)"
      using ss(2) s(2,3) by (cases rest) (auto simp: yy_preds_def)
    have ss': "kinds ss = kinds rest" "pending ss = pending rest" using s(2,3) by (auto simp: kinds_Cons opens_def value_state_def pending.simps)
    then have "last (rev (kinds ss)) = hd (kinds (u # us))" "pending ss = pending (u # us)"
      using kinds_nonempty [OF u(3)] u(1) by (simp_all only: last_rev)
    then have "pending ss \<longleftrightarrow> last (rev (kinds ss)) \<noteq> CONFIG_TYPE_LIST" "last (rev (kinds ss)) \<noteq> CONFIG_TYPE_ARRAY"
      using open_states [OF u(2,3)] by (auto simp: config_types split: if_splits)
    then have "act_ok (rev (kinds ss) @ [k]) False config (act_open yyg k ctx config)" using a(2) by (rule act_open_ok [OF ctx])
    then show ?thesis using a(1) g(1) s(3) idle_not_pending [OF g(2)] by (simp only: kinds_Cons [of g] option.case rev.simps)
  next
    case chars
    then have s: "list_all value_state popped" "g = 22" using e by (auto simp: rule_effect_def)
    have "\<exists>n. v = Y_String n" using v chars by (auto simp: rule_symbol_def value_of_symbol_def)
    then show ?thesis
      using act_string_ok ctx chars ss(1) s kinds_values [OF s(1)] pending_values [OF s(1)]
      by (auto simp: yy_rule_action_def kinds_append kinds_Cons [of 22] opens_def value_state_def pending.simps)
  next
    case scalar
    then have s: "popped = [hd ss]" "value_state (hd ss)" "t \<in> {8, 25, 26, 40, 42}" "opens g = None" "idle_state g"
      using e by (auto simp: rule_effect_def split: if_splits)
    have pv: "list_all value_state popped" using s(2) by (subst s(1)) simp
    then have "kinds ss = kinds (t # rest)" "pending ss = pending (t # rest)"
      using ss(1) kinds_values [OF pv] by (simp_all only: kinds_append pending_values append_Nil)
    then have "last (rev (kinds ss)) = hd (kinds (t # rest))" "pending ss = pending (t # rest)"
      using kinds_nonempty [OF ss(3)] by (simp_all only: last_rev)
    then have "pending ss \<longleftrightarrow> last (rev (kinds ss)) \<noteq> CONFIG_TYPE_ARRAY \<and> last (rev (kinds ss)) \<noteq> CONFIG_TYPE_LIST"
      using element_states [OF s(3) ss(3)] by metis
    then have "act_ok (rev (kinds ss)) False config (yy_rule_action yyg r v ctx config)"
      using scalar v by (rule value_action_ok [OF ctx])
    then show ?thesis using \<open>kinds ss = kinds (t # rest)\<close> s(4) idle_not_pending [OF s(5)] by (simp add: kinds_Cons [of g])
  next
    case close_it
    then have s: "length (kinds popped) = 1" "opens g = None" "idle_state g" "idle_state (hd ss)"
      using e by (auto simp: rule_effect_def)
    obtain k where k: "kinds popped = [k]" using s(1) by (auto simp: length_Suc_conv)
    have "\<not> pending ss" using s(4) by (cases ss) simp_all
    moreover have "2 \<le> length (kinds ss)" using k ss(1) kinds_nonempty [OF ss(3)] by (cases "kinds (t # rest)") (simp_all add: kinds_append)
    ultimately show ?thesis
      using act_close_ok [of "rev (kinds ss)"] ctx close_it k ss(1) s
      by (auto simp: yy_rule_action_def kinds_append kinds_Cons [of g])
  next
    case other
    then have s: "kinds popped = []" "opens g = None" "idle_state g" "idle_state (hd ss)"
      using e by (auto simp: rule_effect_def)
    have "\<not> pending ss" using s(4) by (cases ss) simp_all
    moreover have "yy_rule_action yyg r v ctx config = Act_Ok ctx config" using other by (auto simp: yy_rule_action_def)
    ultimately show ?thesis using ctx ss(1) s by (simp add: act_ok_def kinds_append kinds_Cons [of g])
  qed
qed

section \<open>The invariant of the loop\<close>

definition char_ok :: "nat \<Rightarrow> yystype \<Rightarrow> bool" where
  "char_ok t v \<longleftrightarrow> YYTRANSLATE t < YYNTOKENS \<and> value_of_symbol (YYTRANSLATE t) v \<and> (YYTRANSLATE t = 0 \<longleftrightarrow> t = YYEOF)"

definition parse_ok :: "yyparse_state \<Rightarrow> bool" where
  "parse_ok st \<longleftrightarrow> stack_ok (ps_yyss st) \<and> hd (ps_yyss st) \<noteq> YYFINAL
     \<and> list_all2 (\<lambda>s v. value_of_symbol (yystos ! s) v) (ps_yyss st) (ps_yyvs st)
     \<and> length (ps_yyss st) < ps_stacksize st \<and> ps_stacksize st \<le> YYMAXDEPTH \<and> ps_errstatus st = 0
     \<and> ctx_ok (rev (kinds (ps_yyss st))) (pending (ps_yyss st)) (ps_ctx st) (ps_config st)
     \<and> yy_ok (ps_scanner st) \<and> (case ps_char st of None \<Rightarrow> True | Some t \<Rightarrow> char_ok t (ps_lval st))"

text \<open>What the parser ends with: success without a setting that has no value, or an error with a message.\<close>

definition end_ok :: "int \<Rightarrow> yyparse_state \<Rightarrow> bool" where
  "end_ok r st \<longleftrightarrow> wf_setting (root (ps_config st)) \<and> tidy (root (ps_config st)) \<and> yy_ok (ps_scanner st)
     \<and> (if r = 0 then nones (root (ps_config st)) = 0 else r \<in> {1, 2} \<and> error_text (ps_config st) \<noteq> None)"

text \<open>
  The order in which the rounds decrease: the end of the input is read, input is consumed, the
  lookahead is shifted, or a reduction leads to a state of smaller rank.
\<close>

definition parse_measure :: "yyparse_state \<Rightarrow> nat \<times> nat list \<times> nat \<times> nat" where
  "parse_measure st = (if ps_char st = Some YYEOF then 0 else 1, buffer_load (ps_scanner st),
     if ps_char st = None then 0 else 1, yy_rank ! hd (ps_yyss st))"

definition parse_less :: "(yyparse_state \<times> yyparse_state) set" where
  "parse_less = inv_image (less_than <*lex*> load_less <*lex*> less_than <*lex*> less_than) parse_measure"

lemma wf_parse_less: "wf parse_less"
  unfolding parse_less_def using wf_load_less by (intro wf_inv_image wf_lex_prod wf_less_than)

lemma trans_parse_less: "trans parse_less"
  unfolding parse_less_def using trans_load_less by (intro trans_inv_image trans_lex_prod trans_less_than)

definition step_ok :: "yyparse_state \<Rightarrow> parse_step \<Rightarrow> bool" where
  "step_ok st r =
     (case r of Parse_Goes_On st1 \<Rightarrow> parse_ok st1 \<and> (st1, st) \<in> parse_less
      | Parse_Returns n st1 \<Rightarrow> end_ok n st1
      | Parse_Fatal m \<Rightarrow> m = ''input in flex scanner failed''
      | Parse_Undefined \<Rightarrow> False | Parse_Range \<Rightarrow> True)"

lemma yynewstate_cases:
  assumes "length (ps_yyss st) < ps_stacksize st" "ps_stacksize st \<le> YYMAXDEPTH"
  obtains (exhausted) "yynewstate s st = parse_exhausted (st\<lparr>ps_yyss := s # ps_yyss st\<rparr>)"
    | (pushed) n where "Suc (length (ps_yyss st)) < n" "n \<le> YYMAXDEPTH"
        "yynewstate s st = (if s = YYFINAL then Parse_Returns 0 (st\<lparr>ps_yyss := s # ps_yyss st, ps_stacksize := n\<rparr>)
           else Parse_Goes_On (st\<lparr>ps_yyss := s # ps_yyss st, ps_stacksize := n\<rparr>))"
proof (cases "Suc (length (ps_yyss st)) < ps_stacksize st")
  case True
  then show ?thesis using pushed [of "ps_stacksize st"] assms by (simp add: yynewstate_def)
next
  case False
  define m where "m = min YYMAXDEPTH (2 * ps_stacksize st)"
  show ?thesis
  proof (cases "YYMAXDEPTH \<le> ps_stacksize st")
    case True
    then show ?thesis using exhausted False by (simp add: yynewstate_def)
  next
    case small: False
    then have "Suc (length (ps_yyss st)) < m" "m \<le> YYMAXDEPTH" using assms False by (auto simp: m_def)
    then show ?thesis using pushed [of m] False small by (simp add: yynewstate_def Let_def flip: m_def)
  qed
qed

text \<open>Pushing a state that fits on the stack.\<close>

lemma yynewstate_ok:
  assumes st: "length (ps_yyss st) < ps_stacksize st" "ps_stacksize st \<le> YYMAXDEPTH" "ps_errstatus st = 0" "yy_ok (ps_scanner st)"
    and s: "stack_ok (s # ps_yyss st)" "list_all2 (\<lambda>s v. value_of_symbol (yystos ! s) v) (s # ps_yyss st) (ps_yyvs st)"
    and ctx: "ctx_ok (rev (kinds (s # ps_yyss st))) (pending (s # ps_yyss st)) (ps_ctx st) (ps_config st)"
    and c: "case ps_char st of None \<Rightarrow> True | Some t \<Rightarrow> char_ok t (ps_lval st)"
    and less: "s \<noteq> YYFINAL \<Longrightarrow> (st\<lparr>ps_yyss := s # ps_yyss st\<rparr>, st0) \<in> parse_less"
  shows "step_ok st0 (yynewstate s st)"
  using st(1,2)
proof (cases rule: yynewstate_cases [where s = s])
  case exhausted
  then show ?thesis using ctx st(4) by (simp add: step_ok_def end_ok_def parse_exhausted_def ctx_ok_def)
next
  case (pushed n)
  have "(st\<lparr>ps_yyss := s # ps_yyss st, ps_stacksize := n\<rparr>, st0) \<in> parse_less" if "s \<noteq> YYFINAL"
    using less [OF that] by (simp add: parse_less_def parse_measure_def)
  moreover have "\<not> pending (YYFINAL # ps_yyss st)" by (simp add: pending.simps value_state_def YYFINAL_def)
  ultimately show ?thesis
    using pushed st s ctx c
    by (cases "s = YYFINAL") (simp_all add: step_ok_def parse_ok_def end_ok_def split: option.splits, simp_all add: ctx_ok_def)
qed

section \<open>Errors\<close>

lemma stack_states: "stack_ok ss \<Longrightarrow> s \<in> set ss \<Longrightarrow> s < 47"
  by (induction ss rule: stack_ok.induct) auto

lemma yyerrlab1_returns:
  "length ss = length vs \<Longrightarrow> ss \<noteq> [] \<Longrightarrow> \<forall>s \<in> set ss. s < 47 \<Longrightarrow> yyerrlab1 ss vs st = Parse_Returns 1 st"
  by (induction ss vs st rule: yyerrlab1.induct) (auto simp: no_error_shift)

lemma yyerrlab_ok:
  assumes "parse_ok st"
  shows "step_ok st0 (yyerrlab st)"
proof -
  have "ps_yyss st \<noteq> []" "length (ps_yyss st) = length (ps_yyvs st)" "\<forall>s \<in> set (ps_yyss st). s < 47"
    using assms stack_states by (auto simp: parse_ok_def dest: list_all2_lengthD)
  then show ?thesis
    using assms by (auto simp: yyerrlab_def yyerrlab1_returns parse_ok_def step_ok_def end_ok_def ctx_ok_def)
qed

section \<open>Shifts and reductions\<close>

lemma yyreduce_ok:
  assumes st: "parse_ok st" and r: "yydefact ! hd (ps_yyss st) = r" "r \<noteq> 0"
  shows "step_ok st (yyreduce r st)"
proof -
  define ss where "ss = ps_yyss st"
  define len where "len = yyr2 ! r"
  have p: "stack_ok ss" "hd ss \<noteq> 6" "list_all2 (\<lambda>s v. value_of_symbol (yystos ! s) v) ss (ps_yyvs st)"
      "ctx_ok (rev (kinds ss)) (pending ss) (ps_ctx st) (ps_config st)"
    using st by (simp_all add: parse_ok_def ss_def YYFINAL_def)
  note red = reduce_stack [OF p(1,2) r(1) [folded ss_def] r(2), folded len_def]
  have len: "length ss = length (ps_yyvs st)" using p(3) by (rule list_all2_lengthD)
  define t where "t = hd (drop len ss)"
  define rest where "rest = tl (drop len ss)"
  have tr: "drop len ss = t # rest" using red(1) by (simp add: t_def rest_def)
  then have split: "ss = take len ss @ t # rest" by (metis append_take_drop_id)
  have take: "take (Suc len) ss = take len ss @ [t]" using red(1) t_def by (simp add: take_Suc_conv_app_nth hd_drop_conv_nth)
  define g where "g = nat (yygoto (yyr1 ! r - YYNTOKENS) t)"
  have g: "YYNTOKENS \<le> yyr1 ! r" "0 \<le> yygoto (yyr1 ! r - YYNTOKENS) t" "g < 47" "g \<noteq> 6" "11 \<le> yystos ! g"
      "t \<in> set (yy_preds ! g)" "yy_rank ! g < yy_rank ! hd ss" "rule_effect (hd ss) r (take len ss) t g"
    using red(2) by (simp_all add: reduction_ok_def take g_def Let_def)
  have stack: "stack_ok (t # rest)" using stack_drop [OF p(1) red(1)] tr by simp
  have v: "value_of_symbol (yystos ! hd ss) (hd (ps_yyvs st))" using p(1,3) by (cases ss; cases "ps_yyvs st") auto
  then have "case rule_symbol r of None \<Rightarrow> True | Some y \<Rightarrow> value_of_symbol y (hd (ps_yyvs st))"
    using red(3) by (auto split: option.splits)
  note act = rule_action_ok [OF split p(1) stack g(8) p(4) this, of "ps_scanner st"]
  define yyval where "yyval = (if len = 0 then Y_None else ps_yyvs st ! (len - 1))"
  have unfold: "yyreduce r st = (case yy_rule_action (ps_scanner st) r (hd (ps_yyvs st)) (ps_ctx st) (ps_config st) of
      Act_Undefined \<Rightarrow> Parse_Undefined | Act_Abort config \<Rightarrow> Parse_Returns 1 (st\<lparr>ps_config := config\<rparr>)
    | Act_Ok ctx config \<Rightarrow> yynewstate g (st\<lparr>ps_yyss := t # rest, ps_yyvs := yyval # drop len (ps_yyvs st), ps_ctx := ctx,
        ps_config := config\<rparr>))"
    using red(1) len g(1,2)
    unfolding yyreduce_def Let_def ss_def [symmetric] len_def [symmetric] tr yyval_def g_def list.sel
    by (auto split: act_result.split)
  show ?thesis
  proof (cases "yy_rule_action (ps_scanner st) r (hd (ps_yyvs st)) (ps_ctx st) (ps_config st)")
    case (Act_Ok ctx config)
    let ?st = "st\<lparr>ps_yyss := t # rest, ps_yyvs := yyval # drop len (ps_yyvs st), ps_ctx := ctx, ps_config := config\<rparr>"
    have "step_ok st (yynewstate g ?st)"
    proof (rule yynewstate_ok)
      show "length (ps_yyss ?st) < ps_stacksize ?st" "ps_stacksize ?st \<le> YYMAXDEPTH" "ps_errstatus ?st = 0" "yy_ok (ps_scanner ?st)"
        using st tr length_drop [of len ss] by (auto simp: parse_ok_def simp flip: ss_def)
      show "stack_ok (g # ps_yyss ?st)" using g(3,6) stack by simp
      have "list_all2 (\<lambda>s v. value_of_symbol (yystos ! s) v) (t # rest) (drop len (ps_yyvs st))"
        using list_all2_dropI [OF p(3), of len] tr by simp
      then show "list_all2 (\<lambda>s v. value_of_symbol (yystos ! s) v) (g # ps_yyss ?st) (ps_yyvs ?st)"
        using g(5) by (simp add: value_of_symbol_def)
      show "ctx_ok (rev (kinds (g # ps_yyss ?st))) (pending (g # ps_yyss ?st)) (ps_ctx ?st) (ps_config ?st)"
        using act Act_Ok by (simp add: act_ok_def)
      show "case ps_char ?st of None \<Rightarrow> True | Some t \<Rightarrow> char_ok t (ps_lval ?st)"
        using st by (simp add: parse_ok_def split: option.splits)
      show "(?st\<lparr>ps_yyss := g # ps_yyss ?st\<rparr>, st) \<in> parse_less"
        using g(7) by (simp add: parse_less_def parse_measure_def flip: ss_def)
    qed
    then show ?thesis using unfold Act_Ok by simp
  next
    case (Act_Abort config)
    then show ?thesis using unfold act p(4) st by (simp add: act_ok_def step_ok_def end_ok_def ctx_ok_def parse_ok_def)
  next
    case Act_Undefined
    then show ?thesis using act by (simp add: act_ok_def)
  qed
qed

lemma yydefault_ok: "parse_ok st \<Longrightarrow> step_ok st (yydefault st)"
  using yyreduce_ok yyerrlab_ok by (simp add: yydefault_def Let_def)

lemma yyshift_ok:
  assumes st: "parse_ok st" and c: "ps_char st = Some t" and n: "yypact ! hd (ps_yyss st) \<noteq> YYPACT_NINF"
  shows "step_ok st (yyshift t st)"
proof -
  define y where "y = YYTRANSLATE t"
  define i where "i = yypact ! hd (ps_yyss st) + int y"
  define s where "s = yytable ! nat i"
  have ch: "y < 23" "value_of_symbol y (ps_lval st)" "y = 0 \<longleftrightarrow> t = YYEOF"
    using st c by (simp_all add: parse_ok_def char_ok_def y_def YYNTOKENS_def)
  have p: "stack_ok (ps_yyss st)" "list_all2 (\<lambda>s v. value_of_symbol (yystos ! s) v) (ps_yyss st) (ps_yyvs st)"
      "ctx_ok (rev (kinds (ps_yyss st))) (pending (ps_yyss st)) (ps_ctx st) (ps_config st)"
    using st by (simp_all add: parse_ok_def)
  show ?thesis
  proof (cases "i < 0 \<or> int YYLAST < i \<or> yycheck ! nat i \<noteq> int y")
    case True
    then have "yyshift t st = yydefault st" by (auto simp: yyshift_def Let_def i_def y_def)
    then show ?thesis using yydefault_ok [OF st] by simp
  next
    case False
    have s: "s \<noteq> 0" "s < 47" "hd (ps_yyss st) \<in> set (yy_preds ! s)" "yystos ! s = y" "opens s = None"
        "value_state s \<or> s = 8 \<and> hd (ps_yyss st) = 5 \<or> idle_state s \<and> idle_state (hd (ps_yyss st))" "s = YYFINAL \<longleftrightarrow> y = 0"
      using shift_stack [OF p(1) n ch(1)] False by (simp_all add: shift_ok_def Let_def s_def flip: i_def)
    let ?st = "st\<lparr>ps_char := None, ps_errstatus := ps_errstatus st - 1, ps_yyvs := ps_lval st # ps_yyvs st\<rparr>"
    have unfold: "yyshift t st = yynewstate s ?st"
      using False s(1) by (simp add: yyshift_def Let_def s_def flip: y_def i_def)
    obtain h hs where h: "ps_yyss st = h # hs" using p(1) by (cases "ps_yyss st") auto
    have "step_ok st (yynewstate s ?st)"
    proof (rule yynewstate_ok)
      show "length (ps_yyss ?st) < ps_stacksize ?st" "ps_stacksize ?st \<le> YYMAXDEPTH" "ps_errstatus ?st = 0" "yy_ok (ps_scanner ?st)"
        using st by (simp_all add: parse_ok_def)
      show "stack_ok (s # ps_yyss ?st)" using s(2,3) p(1) h by simp
      show "list_all2 (\<lambda>s v. value_of_symbol (yystos ! s) v) (s # ps_yyss ?st) (ps_yyvs ?st)" using p(2) ch(2) s(4) by simp
      have "kinds (s # ps_yyss st) = kinds (ps_yyss st)" using s(5) by (simp add: kinds_Cons)
      moreover have "pending (s # ps_yyss st) = pending (ps_yyss st)"
        using s(6) h by (auto simp: pending.simps(2) [of s] pending.simps(2) [of 5] value_state_def [of 5] value_state_def [of 8]
            idle_state_def [of 5] idle_state_def [of 8])
      ultimately show "ctx_ok (rev (kinds (s # ps_yyss ?st))) (pending (s # ps_yyss ?st)) (ps_ctx ?st) (ps_config ?st)"
        using p(3) by simp
      show "case ps_char ?st of None \<Rightarrow> True | Some t \<Rightarrow> char_ok t (ps_lval ?st)" by simp
      show "(?st\<lparr>ps_yyss := s # ps_yyss ?st\<rparr>, st) \<in> parse_less" if "s \<noteq> YYFINAL"
        using that s(7) ch(3) c by (simp add: parse_less_def parse_measure_def)
    qed
    then show ?thesis using unfold by simp
  qed
qed

section \<open>The parser returns\<close>

lemma translate_tokens:
  "list_all (\<lambda>(t, y). YYTRANSLATE t = y)
    [(YYEOF, 0), (TOK_BOOLEAN, 3), (TOK_INTEGER, 4), (TOK_HEX, 5), (TOK_INTEGER64, 6), (TOK_HEX64, 7), (TOK_FLOAT, 8),
     (TOK_STRING, 9), (TOK_NAME, 10), (TOK_EQUALS, 11), (TOK_ARRAY_START, 13), (TOK_ARRAY_END, 14), (TOK_LIST_START, 15),
     (TOK_LIST_END, 16), (TOK_COMMA, 17), (TOK_GROUP_START, 18), (TOK_GROUP_END, 19), (TOK_SEMICOLON, 20),
     (TOK_GARBAGE, 21), (TOK_ERROR, 22)]"
  by code_simp

lemma token_char_ok:
  assumes "token_ok t v"
  shows "char_ok t (case v of None \<Rightarrow> w | Some x \<Rightarrow> x)"
  using assms translate_tokens
  by (auto simp: token_ok_def char_ok_def value_of_symbol_def YYNTOKENS_def tokens)

lemma yybackup_ok:
  assumes st: "parse_ok st"
  shows "\<exists>r. yybackup fs st = Some r \<and> step_ok st r"
proof (cases "yypact ! hd (ps_yyss st) = YYPACT_NINF")
  case True
  then show ?thesis using yydefault_ok [OF st] by (simp add: yybackup_def)
next
  case n: False
  show ?thesis
  proof (cases "ps_char st")
    case (Some t)
    then show ?thesis using n yyshift_ok [OF st Some n] by (simp add: yybackup_def)
  next
    case None
    have "yy_ok (ps_scanner st)" using st by (simp add: parse_ok_def)
    then obtain r c g where r: "yylex fs (ps_config st) (ps_scanner st) = Some (r, c, g)"
        "scan_ok (ps_config st) (ps_scanner st) (Lex_Returns r c g)"
      using yylex_returns_ok by blast
    show ?thesis
    proof (cases r)
      case (Token t v)
      let ?st = "st\<lparr>ps_char := Some t, ps_lval := (case v of None \<Rightarrow> ps_lval st | Some x \<Rightarrow> x), ps_config := c, ps_scanner := g\<rparr>"
      have ok: "parse_ok ?st" using st r(2) Token token_char_ok
        by (auto simp: parse_ok_def scan_ok_def lex_ok_def same_tree_def ctx_ok_def)
      then have "step_ok ?st (yyshift t ?st)" using n by (intro yyshift_ok) simp_all
      moreover have "(?st, st) \<in> parse_less"
        using r(2) Token None by (auto simp: parse_less_def parse_measure_def scan_ok_def)
      ultimately have "step_ok st (yyshift t ?st)"
        using trans_parse_less by (auto simp: step_ok_def split: parse_step.splits dest: transD)
      then show ?thesis using n None r(1) Token by (simp add: yybackup_def)
    qed (use r n None in \<open>auto simp: yybackup_def scan_ok_def lex_ok_def step_ok_def\<close>)
  qed
qed

lemma yyparse_loop_returns:
  assumes "parse_ok st"
  shows "\<exists>r. yyparse_loop fs st = Some r \<and> (\<forall>st1. r \<noteq> Parse_Goes_On st1) \<and> step_ok st r"
  using wf_parse_less assms
proof (induction st rule: wf_induct_rule)
  case (less st)
  obtain r where r: "yybackup fs st = Some r" "step_ok st r" using yybackup_ok [OF less.prems] by blast
  show ?case
  proof (cases "\<exists>st1. r = Parse_Goes_On st1")
    case True
    then obtain st1 where st1: "r = Parse_Goes_On st1" by blast
    then have g: "(st1, st) \<in> parse_less" "parse_ok st1" using r(2) by (simp_all add: step_ok_def)
    have "yyparse_loop fs st = yyparse_loop fs st1" using r(1) st1 by (subst yyparse_loop.simps) simp
    then show ?thesis using less.IH [OF g] by (auto simp: step_ok_def split: parse_step.splits)
  next
    case False
    then have "yyparse_loop fs st = Some r" using r(1) by (subst yyparse_loop.simps) (cases r; simp)
    then show ?thesis using False r(2) by blast
  qed
qed

lemma yyparse_start_ok:
  assumes "yy_ok yyg" "wf_setting (root config)" "tidy (root config)" "nones (root config) = 0"
    "config_setting_type (root config) = CONFIG_TYPE_GROUP" "pc_parent ctx = Some []" "pc_string ctx = strbuf_zero"
  shows "parse_ok (yyparse_start yyg ctx config)"
  using assms
  by (simp add: parse_ok_def yyparse_start_def ctx_ok_def kinds_Cons opens_def pending.simps value_state_def
      YYFINAL_def YYINITDEPTH_def YYMAXDEPTH_def yystos_def value_of_symbol_def kinds_def List.map_filter_simps)

lemma yyparse_returns:
  assumes "yy_ok yyg" "wf_setting (root config)" "tidy (root config)" "nones (root config) = 0"
    "config_setting_type (root config) = CONFIG_TYPE_GROUP" "pc_parent ctx = Some []" "pc_string ctx = strbuf_zero"
  shows "\<exists>r. yyparse fs yyg ctx config = Some r \<and> (\<forall>st. r \<noteq> Parse_Goes_On st) \<and> step_ok (yyparse_start yyg ctx config) r"
  unfolding yyparse_def by (rule yyparse_loop_returns [OF yyparse_start_ok [OF assms]])

end
