(* ===== verification/Parse_Runs.thy ===== *)
theory Parse_Runs
  imports Scanner_Runs Parser_Total
begin

text \<open>
  Runs of the parser over a list of tokens: what is on the stack, which tokens are still to
  come, and where in the tree the actions work.
\<close>

section \<open>Tokens that are still to come\<close>

type_synonym token = "nat \<times> yystype option"

definition finished :: "yyguts \<Rightarrow> bool" where
  "finished g \<longleftrightarrow> yy_out g = [] \<and> sc_log (yy_extra g) = [] \<and> sc_depth (yy_extra g) = 0"

definition delivers :: "file_system \<Rightarrow> token list \<Rightarrow> yyguts \<Rightarrow> bool" where
  "delivers fs ts g \<longleftrightarrow> (\<exists>g'. feeds fs g ts g' \<and> reads 1 [] [] g')"

text \<open>The token after which the input ends is the end of the input.\<close>

fun lookahead :: "token list \<Rightarrow> nat" where
  "lookahead [] = YYEOF"
| "lookahead (t # ts) = fst t"

definition agrees :: "yystype option \<Rightarrow> yystype \<Rightarrow> bool" where
  "agrees v x \<longleftrightarrow> (\<forall>y. v = Some y \<longrightarrow> x = y)"

definition ahead :: "file_system \<Rightarrow> token list \<Rightarrow> yyparse_state \<Rightarrow> bool" where
  "ahead fs ts st \<longleftrightarrow>
     (case ps_char st of
        None \<Rightarrow> delivers fs ts (ps_scanner st)
      | Some t \<Rightarrow> t = lookahead ts
          \<and> (case ts of [] \<Rightarrow> finished (ps_scanner st) | u # us \<Rightarrow> agrees (snd u) (ps_lval st) \<and> delivers fs us (ps_scanner st)))"

lemma ahead_same:
  "ahead fs ts a \<Longrightarrow> ps_char b = ps_char a \<Longrightarrow> ps_lval b = ps_lval a \<Longrightarrow> ps_scanner b = ps_scanner a \<Longrightarrow> ahead fs ts b"
  unfolding ahead_def by presburger

lemma delivers_token:
  assumes "delivers fs ((t, v) # ts) g"
  shows "\<exists>g1. (\<forall>config. yylex fs config g = Some (Token t v, config, g1)) \<and> delivers fs ts g1"
  using assms feeds_yylex [of fs g t v ts] unfolding delivers_def by blast

lemma yylex_end:
  assumes "feeds fs g ts g'" "ts = []" "reads 1 [] [] g'"
  shows "\<exists>g1. (\<forall>config. yylex fs config g = Some (Token YYEOF None, config, g1)) \<and> finished g1"
  using assms
proof (induction rule: feeds.induct)
  case (feeds_done g)
  define ctx where "ctx = snd (scanctx_pop_include (yy_extra g))"
  have "scanctx_pop_include (yy_extra g) = (None, ctx)"
    using feeds_done.prems by (simp add: reads_def ctx_def scanctx_pop_include_def)
  then have "yy_scan fs config g = Lex_Returns (Token YYEOF None) config (g\<lparr>yy_extra := ctx\<rparr>)" for config
    using feeds_done.prems by (simp add: yy_scan_def yy_eof_def reads_def)
  moreover have "finished (g\<lparr>yy_extra := ctx\<rparr>)"
    using feeds_done.prems by (simp add: finished_def reads_def ctx_def scanctx_pop_include_def)
  ultimately show ?case by (intro exI [of _ "g\<lparr>yy_extra := ctx\<rparr>"]) (simp add: yylex.simps)
next
  case (feeds_skip g g1 ts g')
  then show ?case by (subst yylex.simps) auto
qed simp

text \<open>Reading the lookahead leaves what is still to come.\<close>

definition yyread :: "file_system \<Rightarrow> yyparse_state \<Rightarrow> yyparse_state" where
  "yyread fs st =
     (case ps_char st of Some t \<Rightarrow> st
      | None \<Rightarrow> (case yylex fs (ps_config st) (ps_scanner st) of
          Some (Token t v, config, yyg) \<Rightarrow>
            st\<lparr>ps_char := Some t, ps_lval := (case v of None \<Rightarrow> ps_lval st | Some x \<Rightarrow> x),
               ps_config := config, ps_scanner := yyg\<rparr>
        | _ \<Rightarrow> st))"

lemma yyread_ahead:
  assumes "ahead fs ts st"
  defines "st1 \<equiv> yyread fs st"
  shows "ps_char st1 = Some (lookahead ts)" "ahead fs ts st1"
    "yypact ! hd (ps_yyss st) \<noteq> YYPACT_NINF \<Longrightarrow> yybackup fs st = Some (yyshift (lookahead ts) st1)"
    "\<exists>c l g. st1 = st\<lparr>ps_char := c, ps_lval := l, ps_scanner := g\<rparr>"
proof -
  have goal: "ps_char st1 = Some (lookahead ts) \<and> ahead fs ts st1
    \<and> (yypact ! hd (ps_yyss st) \<noteq> YYPACT_NINF \<longrightarrow> yybackup fs st = Some (yyshift (lookahead ts) st1))
    \<and> (\<exists>c l g. st1 = st\<lparr>ps_char := c, ps_lval := l, ps_scanner := g\<rparr>)"
  proof (cases "ps_char st")
    case (Some t)
    have "st = st\<lparr>ps_char := ps_char st, ps_lval := ps_lval st, ps_scanner := ps_scanner st\<rparr>" by simp
    then have "\<exists>c l g. st = st\<lparr>ps_char := c, ps_lval := l, ps_scanner := g\<rparr>" by blast
    then show ?thesis using Some assms(1) by (simp add: st1_def yyread_def ahead_def yybackup_def)
  next
    case None
    show ?thesis
    proof (cases ts)
      case Nil
      then obtain g' where "feeds fs (ps_scanner st) [] g'" "reads 1 [] [] g'"
        using assms None by (auto simp: ahead_def delivers_def)
      then obtain g where g: "\<forall>config. yylex fs config (ps_scanner st) = Some (Token YYEOF None, config, g)" "finished g"
        using yylex_end by blast
      have "st\<lparr>ps_config := ps_config st\<rparr> = st" by simp
      then have "st1 = st\<lparr>ps_char := Some YYEOF, ps_lval := ps_lval st, ps_scanner := g\<rparr>"
        using None g(1) by (simp add: st1_def yyread_def)
      moreover from this have "\<exists>c l g. st1 = st\<lparr>ps_char := c, ps_lval := l, ps_scanner := g\<rparr>" by blast
      ultimately show ?thesis using None Nil g by (simp add: ahead_def yybackup_def)
    next
      case (Cons u us)
      obtain t v where u: "u = (t, v)" by (cases u)
      then have "delivers fs ((t, v) # us) (ps_scanner st)" using assms None Cons by (simp add: ahead_def)
      then obtain g where g: "\<forall>config. yylex fs config (ps_scanner st) = Some (Token t v, config, g)" "delivers fs us g"
        using delivers_token by blast
      have st1: "st1 = st\<lparr>ps_char := Some t, ps_lval := (case v of None \<Rightarrow> ps_lval st | Some x \<Rightarrow> x), ps_scanner := g\<rparr>"
        using None g(1) by (simp add: st1_def yyread_def)
      then show ?thesis using None Cons u g by (auto simp: ahead_def yybackup_def agrees_def)
    qed
  qed
  show "ps_char st1 = Some (lookahead ts)" "ahead fs ts st1"
    "yypact ! hd (ps_yyss st) \<noteq> YYPACT_NINF \<Longrightarrow> yybackup fs st = Some (yyshift (lookahead ts) st1)"
    "\<exists>c l g. st1 = st\<lparr>ps_char := c, ps_lval := l, ps_scanner := g\<rparr>" using goal by blast+
qed

section \<open>Configurations of the parser\<close>

definition conf ::
    "file_system \<Rightarrow> config \<Rightarrow> nat list \<Rightarrow> yystype option \<Rightarrow> token list \<Rightarrow> nat list \<Rightarrow> nat list option \<Rightarrow> string option
     \<Rightarrow> config_setting \<Rightarrow> yyparse_state \<Rightarrow> bool" where
  "conf fs cfg ss v ts p q str r st \<longleftrightarrow> parse_ok st \<and> ps_yyss st = ss \<and> agrees v (hd (ps_yyvs st)) \<and> ahead fs ts st
     \<and> pc_parent (ps_ctx st) = Some p \<and> pc_setting (ps_ctx st) = q \<and> sb_string (pc_string (ps_ctx st)) = str
     \<and> ps_config st = cfg\<lparr>root := r\<rparr>"

definition reaches :: "file_system \<Rightarrow> (yyparse_state \<Rightarrow> bool) \<Rightarrow> (yyparse_state \<Rightarrow> bool) \<Rightarrow> bool" where
  "reaches fs A B \<longleftrightarrow> (\<forall>st. A st \<longrightarrow> (\<exists>st'. (\<lambda>a b. yybackup fs a = Some (Parse_Goes_On b))\<^sup>*\<^sup>* st st' \<and> B st'))"

lemma reaches_refl: "(\<And>st. A st \<Longrightarrow> B st) \<Longrightarrow> reaches fs A B"
  unfolding reaches_def by blast

lemma reaches_trans: "reaches fs A B \<Longrightarrow> reaches fs B C \<Longrightarrow> reaches fs A C"
  unfolding reaches_def by (meson rtranclp_trans)

lemma reaches_ex: "(\<And>x. reaches fs (A x) B) \<Longrightarrow> reaches fs (\<lambda>st. \<exists>x. A x st) B"
  unfolding reaches_def by blast

lemma reaches_weaken: "reaches fs A B \<Longrightarrow> (\<And>st. A' st \<Longrightarrow> A st) \<Longrightarrow> (\<And>st. B st \<Longrightarrow> B' st) \<Longrightarrow> reaches fs A' B'"
  unfolding reaches_def by blast

lemma reaches_assume: "(\<And>st. A st \<Longrightarrow> H) \<Longrightarrow> (H \<Longrightarrow> reaches fs A B) \<Longrightarrow> reaches fs A B"
  unfolding reaches_def by blast

lemma reaches_step:
  assumes "\<And>st. A st \<Longrightarrow> \<exists>st'. yybackup fs st = Some (Parse_Goes_On st') \<and> B st'"
  shows "reaches fs A B"
  unfolding reaches_def using assms r_into_rtranclp by blast

text \<open>A property that holds of the state that is reached leads to the same end.\<close>

lemma reaches_loop:
  assumes "reaches fs A B" "A st" "\<And>st'. B st' \<Longrightarrow> \<exists>e. yybackup fs st' = Some (Parse_Returns n e) \<and> R e"
  shows "\<exists>e. yyparse_loop fs st = Some (Parse_Returns n e) \<and> R e"
proof -
  obtain st' where st': "(\<lambda>a b. yybackup fs a = Some (Parse_Goes_On b))\<^sup>*\<^sup>* st st'" "B st'"
    using assms(1,2) unfolding reaches_def by blast
  obtain e where e: "yybackup fs st' = Some (Parse_Returns n e)" "R e" using assms(3) [OF st'(2)] by blast
  have "yyparse_loop fs st = yyparse_loop fs st'"
    using st'(1)
  proof (induction rule: rtranclp_induct)
    case (step y z)
    have "yyparse_loop fs y = yyparse_loop fs z" using step(2) by (subst yyparse_loop.simps) simp
    then show ?case using step(3) by simp
  qed simp
  moreover have "yyparse_loop fs st' = Some (Parse_Returns n e)" using e(1) by (subst yyparse_loop.simps) simp
  ultimately show ?thesis using e(2) by auto
qed

section \<open>Shifts\<close>

definition shift_to :: "nat \<Rightarrow> nat \<Rightarrow> nat option" where
  "shift_to s t =
     (let i = yypact ! s + int (YYTRANSLATE t)
      in if yypact ! s = YYPACT_NINF \<or> i < 0 \<or> int YYLAST < i \<or> yycheck ! nat i \<noteq> int (YYTRANSLATE t) then None
         else Some (yytable ! nat i))"

lemma yynewstate_fits:
  assumes "length (ps_yyss st) < ps_stacksize st" "ps_stacksize st \<le> YYMAXDEPTH" "Suc (length (ps_yyss st)) < YYMAXDEPTH"
  shows "\<exists>n. yynewstate s st = (if s = YYFINAL then Parse_Returns 0 (st\<lparr>ps_yyss := s # ps_yyss st, ps_stacksize := n\<rparr>)
    else Parse_Goes_On (st\<lparr>ps_yyss := s # ps_yyss st, ps_stacksize := n\<rparr>))"
proof (cases "Suc (length (ps_yyss st)) < ps_stacksize st")
  case True
  have "st\<lparr>ps_yyss := s # ps_yyss st\<rparr> = st\<lparr>ps_yyss := s # ps_yyss st, ps_stacksize := ps_stacksize st\<rparr>" by simp
  then show ?thesis using True by (intro exI [of _ "ps_stacksize st"]) (simp add: yynewstate_def)
next
  case False
  then have "\<not> YYMAXDEPTH \<le> ps_stacksize st" "\<not> min YYMAXDEPTH (2 * ps_stacksize st) \<le> Suc (length (ps_yyss st))"
    using assms by auto
  then show ?thesis
    using False by (intro exI [of _ "min YYMAXDEPTH (2 * ps_stacksize st)"]) (simp add: yynewstate_def Let_def)
qed

lemma yynewstate_pushes:
  assumes "length (ps_yyss st) < ps_stacksize st" "ps_stacksize st \<le> YYMAXDEPTH" "Suc (length (ps_yyss st)) < YYMAXDEPTH" "s \<noteq> YYFINAL"
  shows "\<exists>n. yynewstate s st = Parse_Goes_On (st\<lparr>ps_yyss := s # ps_yyss st, ps_stacksize := n\<rparr>)"
  using yynewstate_fits [OF assms(1-3), of s] assms(4) by simp

text \<open>A step of the loop keeps the invariant.\<close>

lemma goes_on_ok: "parse_ok st \<Longrightarrow> yybackup fs st = Some (Parse_Goes_On st') \<Longrightarrow> parse_ok st'"
  using yybackup_ok [of st fs] by (auto simp: step_ok_def)

lemma shift_unfold:
  "shift_to s t = Some n \<Longrightarrow> n \<noteq> 0 \<Longrightarrow> ps_yyss st = s # ss \<Longrightarrow>
   yyshift t st = yynewstate n (st\<lparr>ps_char := None, ps_errstatus := ps_errstatus st - 1, ps_yyvs := ps_lval st # ps_yyvs st\<rparr>)"
  by (auto simp: yyshift_def shift_to_def Let_def split: if_splits)

lemma reaches_shift:
  assumes n: "shift_to s t = Some n" "n \<noteq> 0" "n \<noteq> YYFINAL" and d: "length ss + 3 < YYMAXDEPTH"
  shows "reaches fs (conf fs cfg (s # ss) w ((t, v) # ts) p q str r) (conf fs cfg (n # s # ss) v ts p q str r)"
proof (rule reaches_step)
  fix st
  assume st: "conf fs cfg (s # ss) w ((t, v) # ts) p q str r st"
  define st1 where "st1 = yyread fs st"
  have a: "ahead fs ((t, v) # ts) st" "ps_yyss st = s # ss" "parse_ok st" using st by (simp_all add: conf_def)
  note rd = yyread_ahead [OF a(1), folded st1_def]
  obtain c l g where f: "st1 = st\<lparr>ps_char := c, ps_lval := l, ps_scanner := g\<rparr>" using rd(4) by blast
  have lv: "agrees v (ps_lval st1)" "delivers fs ts (ps_scanner st1)" using rd(1,2) by (auto simp: ahead_def)
  let ?st2 = "st1\<lparr>ps_char := None, ps_errstatus := ps_errstatus st1 - 1, ps_yyvs := ps_lval st1 # ps_yyvs st1\<rparr>"
  have "yypact ! s \<noteq> YYPACT_NINF" using n(1) by (auto simp: shift_to_def Let_def split: if_splits)
  then have "yybackup fs st = Some (yynewstate n ?st2)"
    using rd(3) a(2) shift_unfold [OF n(1,2), of st1 ss] f by simp
  moreover have "length (ps_yyss ?st2) < ps_stacksize ?st2" "ps_stacksize ?st2 \<le> YYMAXDEPTH" "Suc (length (ps_yyss ?st2)) < YYMAXDEPTH"
    using a(2,3) d f by (simp_all add: parse_ok_def)
  ultimately obtain m where m: "yybackup fs st = Some (Parse_Goes_On (?st2\<lparr>ps_yyss := n # ps_yyss ?st2, ps_stacksize := m\<rparr>))"
    using yynewstate_pushes [of ?st2 n] n(3) by auto
  then show "\<exists>st'. yybackup fs st = Some (Parse_Goes_On st') \<and> conf fs cfg (n # s # ss) v ts p q str r st'"
    using goes_on_ok [OF a(3) m] st lv f by (simp add: conf_def ahead_def)
qed

section \<open>Reductions\<close>

text \<open>The rule a state reduces by, with a lookahead.\<close>

definition reduces_by :: "nat \<Rightarrow> nat \<Rightarrow> nat option" where
  "reduces_by s t = (if shift_to s t = None \<and> yydefact ! s \<noteq> 0 then Some (yydefact ! s) else None)"

definition reduced :: "nat \<Rightarrow> nat list \<Rightarrow> nat list" where
  "reduced rule ss = (let rest = drop (yyr2 ! rule) ss in nat (yygoto (yyr1 ! rule - YYNTOKENS) (hd rest)) # rest)"

lemma reaches_reduce:
  assumes r: "reduces_by s (lookahead ts) = Some rule" and d: "length ss + 3 < YYMAXDEPTH"
    and act: "\<And>yyg ctx x. ctx_ok (rev (kinds (s # ss))) (pending (s # ss)) ctx (cfg\<lparr>root := r\<rparr>) \<Longrightarrow> pc_parent ctx = Some p \<Longrightarrow>
      pc_setting ctx = q \<Longrightarrow> sb_string (pc_string ctx) = str \<Longrightarrow> agrees v x \<Longrightarrow>
      \<exists>p' q' b r'. yy_rule_action yyg rule x ctx (cfg\<lparr>root := r\<rparr>)
          = Act_Ok (ctx\<lparr>pc_parent := Some p', pc_setting := q', pc_string := b\<rparr>) (cfg\<lparr>root := r'\<rparr>) \<and> Q p' q' (sb_string b) r'"
  shows "reaches fs (conf fs cfg (s # ss) v ts p q str r)
    (\<lambda>st. \<exists>p' q' str' r'. Q p' q' str' r' \<and> conf fs cfg (reduced rule (s # ss)) None ts p' q' str' r' st)"
proof (rule reaches_step)
  fix st
  assume st: "conf fs cfg (s # ss) v ts p q str r st"
  have a: "ahead fs ts st" "ps_yyss st = s # ss" "parse_ok st" using st by (simp_all add: conf_def)
  have rule: "shift_to s (lookahead ts) = None" "yydefact ! s = rule" "rule \<noteq> 0"
    using r by (auto simp: reduces_by_def split: if_splits)
  define st1 where "st1 = (if yypact ! s = YYPACT_NINF then st else yyread fs st)"
  note rd = yyread_ahead [OF a(1)]
  have st1: "yybackup fs st = Some (yyreduce rule st1)" "\<exists>c l g. st1 = st\<lparr>ps_char := c, ps_lval := l, ps_scanner := g\<rparr>" "ahead fs ts st1"
  proof -
    have "st = st\<lparr>ps_char := ps_char st, ps_lval := ps_lval st, ps_scanner := ps_scanner st\<rparr>" by simp
    then show ex: "\<exists>c l g. st1 = st\<lparr>ps_char := c, ps_lval := l, ps_scanner := g\<rparr>" using rd(4) unfolding st1_def by (metis (full_types))
    show "ahead fs ts st1" using rd(2) a(1) by (simp add: st1_def)
    have ss1: "ps_yyss st1 = s # ss" using ex a(2) by auto
    show "yybackup fs st = Some (yyreduce rule st1)"
    proof (cases "yypact ! s = YYPACT_NINF")
      case True
      then show ?thesis using a(2) rule by (simp add: st1_def yybackup_def yydefault_def)
    next
      case False
      then have "yyshift (lookahead ts) st1 = yydefault st1"
        using rule(1) ss1 by (auto simp: yyshift_def shift_to_def Let_def split: if_splits)
      then show ?thesis using rd(3) False a(2) rule(2,3) ss1 by (simp add: st1_def yydefault_def)
    qed
  qed
  then obtain c l g where f: "st1 = st\<lparr>ps_char := c, ps_lval := l, ps_scanner := g\<rparr>" by blast
  have ctx: "ctx_ok (rev (kinds (s # ss))) (pending (s # ss)) (ps_ctx st1) (cfg\<lparr>root := r\<rparr>)" "agrees v (hd (ps_yyvs st1))"
      "ps_config st1 = cfg\<lparr>root := r\<rparr>" "pc_parent (ps_ctx st1) = Some p" "pc_setting (ps_ctx st1) = q" "sb_string (pc_string (ps_ctx st1)) = str"
    using st f by (auto simp: conf_def parse_ok_def)
  obtain p' q' b r' where act': "yy_rule_action (ps_scanner st1) rule (hd (ps_yyvs st1)) (ps_ctx st1) (cfg\<lparr>root := r\<rparr>)
      = Act_Ok ((ps_ctx st1)\<lparr>pc_parent := Some p', pc_setting := q', pc_string := b\<rparr>) (cfg\<lparr>root := r'\<rparr>)" "Q p' q' (sb_string b) r'"
    using act [OF ctx(1,4-6,2)] by blast
  define len where "len = yyr2 ! rule"
  have so: "stack_ok (s # ss)" "s \<noteq> 6" using a by (auto simp: parse_ok_def YYFINAL_def)
  have red: "len < length (s # ss)" "reduction_ok s rule (take (Suc len) (s # ss))"
    using reduce_stack(1,2) [OF so(1) _ _ rule(3)] so(2) rule(2) by (simp_all add: len_def del: take_Suc_Cons)
  have len: "length (ps_yyvs st1) = length (s # ss)" using a(2,3) f by (auto simp: parse_ok_def dest: list_all2_lengthD)
  have take: "take (Suc len) (s # ss) = take len (s # ss) @ [hd (drop len (s # ss))]"
    using red(1) by (simp add: take_Suc_conv_app_nth hd_drop_conv_nth del: take_Suc_Cons)
  define t where "t = hd (drop len (s # ss))"
  define n where "n = nat (yygoto (yyr1 ! rule - YYNTOKENS) t)"
  have g: "YYNTOKENS \<le> yyr1 ! rule" "0 \<le> yygoto (yyr1 ! rule - YYNTOKENS) t" "n \<noteq> 6"
    using red(2) unfolding reduction_ok_def take t_def [symmetric] Let_def n_def by simp_all
  define yyval where "yyval = (if len = 0 then Y_None else ps_yyvs st1 ! (len - 1))"
  let ?st2 = "st1\<lparr>ps_yyss := drop len (s # ss), ps_yyvs := yyval # drop len (ps_yyvs st1),
      ps_ctx := (ps_ctx st1)\<lparr>pc_parent := Some p', pc_setting := q', pc_string := b\<rparr>, ps_config := cfg\<lparr>root := r'\<rparr>\<rparr>"
  have ss1: "ps_yyss st1 = s # ss" using f a(2) by simp
  have "yyreduce rule st1 = yynewstate n ?st2"
    using red(1) len g(1,2) act'(1) ctx(3)
    unfolding yyreduce_def Let_def ss1 len_def [symmetric] yyval_def [symmetric] t_def [symmetric] n_def [symmetric]
    by (auto split: act_result.split)
  moreover have "length (ps_yyss ?st2) < ps_stacksize ?st2" "ps_stacksize ?st2 \<le> YYMAXDEPTH" "Suc (length (ps_yyss ?st2)) < YYMAXDEPTH"
    using a(2,3) d f by (simp_all add: parse_ok_def less_imp_diff_less)
  ultimately obtain m where m: "yybackup fs st = Some (Parse_Goes_On (?st2\<lparr>ps_yyss := n # ps_yyss ?st2, ps_stacksize := m\<rparr>))"
    using yynewstate_pushes [of ?st2 n] g(3) st1(1) by (auto simp: YYFINAL_def)
  have "ahead fs ts (?st2\<lparr>ps_yyss := n # ps_yyss ?st2, ps_stacksize := m\<rparr>)" by (rule ahead_same [OF st1(3)]) simp_all
  then have "conf fs cfg (reduced rule (s # ss)) None ts p' q' (sb_string b) r' (?st2\<lparr>ps_yyss := n # ps_yyss ?st2, ps_stacksize := m\<rparr>)"
    using goes_on_ok [OF a(3) m] by (simp add: conf_def reduced_def agrees_def n_def t_def len_def Let_def)
  then show "\<exists>st'. yybackup fs st = Some (Parse_Goes_On st') \<and>
      (\<exists>p' q' str' r'. Q p' q' str' r' \<and> conf fs cfg (reduced rule (s # ss)) None ts p' q' str' r' st')"
    using m act'(2) by blast
qed

text \<open>Reductions without an action.\<close>

definition quiet :: "nat \<Rightarrow> bool" where
  "quiet rule \<longleftrightarrow> rule \<notin> {11, 13, 14, 15, 16, 38, 39} \<and> \<not> (21 \<le> rule \<and> rule \<le> 29)"

lemma quiet_action: "quiet rule \<Longrightarrow> yy_rule_action yyg rule x ctx config = Act_Ok ctx config"
  by (auto simp: quiet_def yy_rule_action_def)

text \<open>Some of them in a row, on the top of a stack.\<close>

fun quiet_run :: "nat \<Rightarrow> nat \<Rightarrow> nat list \<Rightarrow> nat list option" where
  "quiet_run 0 t ss = Some ss"
| "quiet_run (Suc n) t ss =
     (case ss of [] \<Rightarrow> None
      | s # _ \<Rightarrow> (case reduces_by s t of None \<Rightarrow> None
          | Some rule \<Rightarrow> if quiet rule \<and> yyr2 ! rule < length ss then quiet_run n t (reduced rule ss) else None))"

lemma reaches_quiet:
  assumes "reduces_by s (lookahead ts) = Some rule" "quiet rule" "length ss + 3 < YYMAXDEPTH"
  shows "reaches fs (conf fs cfg (s # ss) v ts p q str r) (conf fs cfg (reduced rule (s # ss)) None ts p q str r)"
proof (rule reaches_weaken [OF reaches_reduce [OF assms(1,3), where Q = "\<lambda>p' q' str' r'. p' = p \<and> q' = q \<and> str' = str \<and> r' = r"]])
  fix yyg x and ctx :: parse_context
  assume c: "pc_parent ctx = Some p" "pc_setting ctx = q" "sb_string (pc_string ctx) = str"
  then have "ctx\<lparr>pc_parent := Some p, pc_setting := q, pc_string := pc_string ctx\<rparr> = ctx" by (cases ctx) simp
  then have "yy_rule_action yyg rule x ctx (cfg\<lparr>root := r\<rparr>) = Act_Ok (ctx\<lparr>pc_parent := Some p, pc_setting := q, pc_string := pc_string ctx\<rparr>) (cfg\<lparr>root := r\<rparr>)"
    using quiet_action [OF assms(2)] by simp
  then show "\<exists>p' q' b r'. yy_rule_action yyg rule x ctx (cfg\<lparr>root := r\<rparr>)
      = Act_Ok (ctx\<lparr>pc_parent := Some p', pc_setting := q', pc_string := b\<rparr>) (cfg\<lparr>root := r'\<rparr>)
      \<and> (p' = p \<and> q' = q \<and> sb_string b = str \<and> r' = r)"
    using c by blast
qed auto

lemma reduced_append: "yyr2 ! rule < length a \<Longrightarrow> reduced rule (a @ b) = reduced rule a @ b"
  by (simp add: reduced_def hd_append Let_def)

lemma length_reduced: "yyr2 ! rule < length a \<Longrightarrow> length (reduced rule a) \<le> Suc (length a)"
  by (simp add: reduced_def Let_def)

lemma reaches_quiets:
  "quiet_run n (lookahead ts) a = Some b \<Longrightarrow> length (a @ ss) + n + 3 < YYMAXDEPTH \<Longrightarrow>
   reaches fs (conf fs cfg (a @ ss) None ts p q str r) (conf fs cfg (b @ ss) None ts p q str r)"
proof (induction n arbitrary: a)
  case (Suc n)
  then obtain s a' rule where a: "a = s # a'" "reduces_by s (lookahead ts) = Some rule" "quiet rule" "yyr2 ! rule < length a"
      "quiet_run n (lookahead ts) (reduced rule a) = Some b"
    by (auto split: list.splits option.splits if_splits)
  have "length (reduced rule a @ ss) + n + 3 < YYMAXDEPTH" using length_reduced [OF a(4)] Suc.prems(2) by simp
  then have "reaches fs (conf fs cfg (reduced rule (a @ ss)) None ts p q str r) (conf fs cfg (b @ ss) None ts p q str r)"
    using Suc.IH [OF a(5)] reduced_append [OF a(4)] by simp
  moreover have "reaches fs (conf fs cfg (a @ ss) None ts p q str r) (conf fs cfg (reduced rule (a @ ss)) None ts p q str r)"
    using reaches_quiet [OF a(2,3), of "a' @ ss"] a(1) Suc.prems(2) by simp
  ultimately show ?case by (rule reaches_trans [rotated])
qed (simp add: reaches_refl)

text \<open>The top value does not matter for what follows a quiet run.\<close>

lemma forget_value: "conf fs cfg ss v ts p q str r st \<Longrightarrow> conf fs cfg ss None ts p q str r st"
  by (simp add: conf_def agrees_def)

end
