(* ===== verification/Parse_Actions.thy ===== *)
theory Parse_Actions
  imports Config_Content Parser_Actions
begin

text \<open>
  What the actions of the grammar add to the tree, in terms of contents: the innermost aggregate
  that is open gets one more child, or the child that was named gets its value.
\<close>

section \<open>Contents of settings\<close>

lemma setting_content_value: "setting_content d s = value_content d (s_value s) (if s_format s \<noteq> 0 then s_format s else d)"
  by (cases s) simp

lemma setting_content_children:
  "config_setting_type s = CONFIG_TYPE_ARRAY \<Longrightarrow> setting_content d s = C_Array (map (setting_content d) (children s))"
  "config_setting_type s = CONFIG_TYPE_LIST \<Longrightarrow> setting_content d s = C_List (map (setting_content d) (children s))"
  "config_setting_type s = CONFIG_TYPE_GROUP \<Longrightarrow>
     setting_content d s = C_Group (map (\<lambda>e. (member_name e, setting_content d e)) (children s))"
  by (cases "s_value s"; simp add: setting_content_value [of d s] config_setting_type_def config_types value_content_lists
      children_def list_elements_def)+

lemma content_type_setting: "content_type (setting_content d s) = config_setting_type s"
  by (simp add: setting_content_value content_type_value config_setting_type_def)

lemma capture_content [simp]: "setting_content d (capture_parse_pos yyg s) = setting_content d s"
  by (cases s) (simp add: capture_parse_pos_def)

section \<open>Changes of the tree\<close>

lemma update_at_twice: "valid_path s p \<Longrightarrow> update_at p f (update_at p g s) = update_at p (\<lambda>x. f (g x)) s"
proof (induction p arbitrary: s)
  case (Cons i p)
  then have i: "i < length (children s)" "valid_path (children s ! i) p" and a: "is_aggregate s"
    using children_aggregate by auto
  obtain n fo v h l x where s: "s = Setting n fo v h l x" by (cases s)
  have "put_child i b (put_child i c s) = put_child i b s" for b c
    using s by (cases v) (simp_all add: put_child_def split: option.splits)
  then show ?case using Cons.IH [OF i(2)] by (simp add: put_child_effects(1) [OF i(1) a] i(1))
qed simp

text \<open>Changing a child of a setting that was replaced.\<close>

lemma update_child:
  "valid_path r p \<Longrightarrow> update_at (p @ [j]) f (update_at p (\<lambda>_. x) r) = update_at p (\<lambda>_. put_child j (f (children x ! j)) x) r"
  by (simp add: update_at_append update_at_twice)

text \<open>
  The aggregate at a path waits for a value: for a new child of an array or a list, or for the
  child of a group that has been named. \<open>es\<close> are the children that are complete.
\<close>

definition awaits :: "nat list \<Rightarrow> nat list option \<Rightarrow> config_setting \<Rightarrow> config_setting list \<Rightarrow> string option \<Rightarrow> bool" where
  "awaits p q x es nm \<longleftrightarrow>
     (if config_setting_type x = CONFIG_TYPE_GROUP
      then \<exists>e. children x = es @ [e] \<and> s_value e = V_None \<and> s_name e = nm \<and> q = Some (p @ [length es])
      else children x = es \<and> nm = None)"

text \<open>The same aggregate with one child more, which has a name and a property.\<close>

definition extended :: "config_setting \<Rightarrow> config_setting list \<Rightarrow> string option \<Rightarrow> (config_setting \<Rightarrow> bool) \<Rightarrow> config_setting \<Rightarrow> bool" where
  "extended x es nm P y \<longleftrightarrow> config_setting_type y = config_setting_type x \<and> s_name y = s_name x
     \<and> (\<exists>e. children y = es @ [e] \<and> s_name e = nm \<and> P e)"

lemma grown_extended: "grown x y e \<Longrightarrow> s_name e = nm \<Longrightarrow> P e \<Longrightarrow> extended x (children x) nm P y"
  by (auto simp: grown_def extended_def)

lemma extended_put:
  assumes "children x = es @ [e]" "s_name e' = s_name e" "P e'"
  shows "extended x es (s_name e) P (put_child (length es) e' x)"
proof -
  have i: "length es < length (children x)" using assms(1) by simp
  show ?thesis using assms put_child_effects [OF i children_aggregate [OF i]] by (simp add: extended_def)
qed

lemma extended_again:
  assumes "extended x es nm P y" "\<And>e. P e \<Longrightarrow> s_name (f e) = s_name e \<and> Q (f e)"
  shows "extended x es nm Q (put_child (length es) (f (children y ! length es)) y)"
proof -
  obtain e where e: "children y = es @ [e]" "s_name e = nm" "P e" using assms(1) by (auto simp: extended_def)
  have i: "length es < length (children y)" using e(1) by simp
  show ?thesis
    using assms e put_child_effects [OF i children_aggregate [OF i]] by (simp add: extended_def)
qed

section \<open>Values\<close>

text \<open>A setter that stores one value.\<close>

definition stores :: "config_value \<Rightarrow> (config_setting \<Rightarrow> config_setting c_result) \<Rightarrow> bool" where
  "stores v setter \<longleftrightarrow> scalar_type (value_type v)
     \<and> (\<forall>e. config_setting_type e \<in> {CONFIG_TYPE_NONE, value_type v} \<longrightarrow> setter e = Ptr (set_value v e))"

lemma setters_store:
  "stores (V_Int i) (\<lambda>e. ptr_option (config_setting_set_int c e i))"
  "stores (V_Int64 i) (\<lambda>e. ptr_option (config_setting_set_int64 c e i))"
  "stores (V_Bool i) (\<lambda>e. ptr_option (config_setting_set_bool e i))"
  "stores (V_String str) (\<lambda>e. ptr_option (config_setting_set_string e str))"
  by (auto simp: stores_def scalar_type_def config_setting_set_int_def config_setting_set_int64_def
      config_setting_set_bool_def config_setting_set_string_def config_setting_type_def config_types split: config_value.splits)

lemma stores_fills: "stores v setter \<Longrightarrow> fills (value_type v) setter"
  by (auto simp: stores_def fills_def)

lemma act_value_extends:
  assumes ctx: "ctx_ok ks b ctx config" "pc_parent ctx = Some p" "awaits p (pc_setting ctx) (deref (root config) p) es nm"
    and x: "config_setting_type (deref (root config) p) \<in> {CONFIG_TYPE_GROUP, CONFIG_TYPE_LIST, CONFIG_TYPE_ARRAY}"
      "config_setting_type (deref (root config) p) = CONFIG_TYPE_ARRAY \<Longrightarrow> \<forall>e \<in> set es. config_setting_type e = value_type v"
    and st: "stores v setter" and c: "\<And>e. setting_content 0 (formatted format (set_value v e)) = c"
  shows "\<exists>y. act_value yyg (\<lambda>a. set_elem setter (value_type v) a (- 1)) setter format ctx config
      = Act_Ok ctx (config\<lparr>root := update_at p (\<lambda>_. y) (root config)\<rparr>)
    \<and> extended (deref (root config) p) es nm (\<lambda>e. setting_content 0 e = c) y"
proof -
  let ?x = "deref (root config) p"
  have r: "valid_path (root config) p" "wf_setting ?x" "tidy (root config)"
    using ctx(1,2) wf_deref by (auto simp: ctx_ok_def)
  note av = act_value_def [of yyg _ setter format, folded formatted_def]
  have vec: "IN_ARRAY ctx config \<or> IN_LIST ctx config \<longleftrightarrow> config_setting_type ?x \<noteq> CONFIG_TYPE_GROUP"
    using ctx(2) x(1) by (auto simp: IN_LIST_def IN_ARRAY_def parent_type_def config_types)
  show ?thesis
  proof (cases "config_setting_type ?x = CONFIG_TYPE_GROUP")
    case True
    then obtain e where e: "children ?x = es @ [e]" "s_value e = V_None" "s_name e = nm" "pc_setting ctx = Some (p @ [length es])"
      using ctx(3) by (auto simp: awaits_def)
    have d: "deref (root config) (p @ [length es]) = e" using e(1) by (simp add: deref_append)
    have "setter e = Ptr (set_value v e)" using st e(2) by (simp add: stores_def config_setting_type_def)
    then have "act_value yyg (\<lambda>a. set_elem setter (value_type v) a (- 1)) setter format ctx config
        = Act_Ok ctx (set_at (p @ [length es]) (formatted format (set_value v e)) config)"
      using True vec e(4) d by (simp add: av)
    moreover have "set_at (p @ [length es]) (formatted format (set_value v e)) config
        = config\<lparr>root := update_at p (\<lambda>_. put_child (length es) (formatted format (set_value v e)) ?x) (root config)\<rparr>"
    proof -
      have "update_at [length es] (\<lambda>_. y) = put_child (length es) y" for y by (simp add: fun_eq_iff)
      then show ?thesis
        using update_at_const [of p "put_child (length es) (formatted format (set_value v e))" "root config"]
        by (simp add: set_at_def update_setting_def update_at_append)
    qed
    moreover have "extended ?x es nm (\<lambda>e. setting_content 0 e = c) (put_child (length es) (formatted format (set_value v e)) ?x)"
      using extended_put [OF e(1), of "formatted format (set_value v e)" "\<lambda>e. setting_content 0 e = c"] c e(3) by simp
    ultimately show ?thesis by metis
  next
    case False
    then have es: "children ?x = es" "nm = None" and ty: "config_setting_type ?x \<in> {CONFIG_TYPE_ARRAY, CONFIG_TYPE_LIST}"
      using ctx(3) x(1) by (auto simp: awaits_def)
    have "config_vector_checktype ?x (value_type v)"
      using x(2) ty es(1) by (auto simp: config_vector_checktype_def children_def split: option.splits list.splits)
    then obtain y w where w: "setter (Setting None 0 (zero_value (value_type v)) 0 0 None) = Ptr (set_value w (Setting None 0 (zero_value (value_type v)) 0 0 None))"
        "set_elem setter (value_type v) ?x (- 1) = Ptr (y, length es)" "grown ?x y (set_value w (Setting None 0 (zero_value (value_type v)) 0 0 None))"
      using set_elem_new [OF r(2) ty stores_fills [OF st]] es(1) by blast
    let ?e = "Setting None 0 (zero_value (value_type v)) 0 0 None"
    have "scalar_type (value_type v)" using st by (simp add: stores_def)
    then have "config_setting_type ?e = value_type v"
      by (auto simp: scalar_type_def config_setting_type_def zero_value_def config_types)
    then have "set_value w ?e = set_value v ?e" using st w(1) by (simp add: stores_def)
    note g = w(3) [unfolded this]
    let ?e' = "capture_parse_pos yyg (formatted format (set_value v ?e))"
    have "act_value yyg (\<lambda>a. set_elem setter (value_type v) a (- 1)) setter format ctx config
        = Act_Ok ctx (set_at p (put_child (length es) ?e' y) config)"
      using False vec ctx(2) w(2) g es(1) by (simp add: av grown_def)
    moreover have "extended ?x es nm (\<lambda>e. setting_content 0 e = c) (put_child (length es) ?e' y)"
    proof -
      have "setting_content 0 ?e' = c" using c [of ?e] by simp
      moreover have "children y = es @ [set_value v ?e]" "config_setting_type y = config_setting_type ?x" "s_name y = s_name ?x"
        using g es(1) by (simp_all add: grown_def)
      ultimately show ?thesis using extended_put [of y es "set_value v ?e" ?e' "\<lambda>e. setting_content 0 e = c"] es(2)
        by (simp add: extended_def)
    qed
    ultimately show ?thesis by (auto simp: set_at_def update_setting_def)
  qed
qed

section \<open>Names and aggregates\<close>

lemma act_name_extends:
  assumes ctx: "ctx_ok ks b ctx config" "pc_parent ctx = Some p"
    and x: "config_setting_type (deref (root config) p) = CONFIG_TYPE_GROUP"
    and n: "config_validate_name n" "Some n \<notin> s_name ` set (children (deref (root config) p))"
  shows "\<exists>y. act_name yyg n ctx config
      = Act_Ok (ctx\<lparr>pc_setting := Some (p @ [length (children (deref (root config) p))])\<rparr>)
          (config\<lparr>root := update_at p (\<lambda>_. y) (root config)\<rparr>)
    \<and> extended (deref (root config) p) (children (deref (root config) p)) (Some n) (\<lambda>e. s_value e = V_None) y"
proof -
  let ?x = "deref (root config) p"
  have r: "valid_path (root config) p" "wf_setting ?x" using ctx wf_deref by (auto simp: ctx_ok_def)
  have g: "is_group ?x" using x by (simp add: is_group_def)
  have none: "type_ok CONFIG_TYPE_NONE" by (simp add: type_ok_def config_types)
  have "group_map ?x n = None"
    using n(2) group_names_image [OF wf_group_names [OF r(2) g], of n]
    by (simp add: group_map_def map_of_eq_None_iff image_image)
  then obtain s where s: "config_setting_add ?x (Some n) CONFIG_TYPE_NONE = Ptr s"
      "children s = children ?x @ [new_setting n CONFIG_TYPE_NONE]"
    using add_member [OF r(2) g n(1) none] by auto
  obtain e where e: "grown ?x s e" "s_value e = zero_value CONFIG_TYPE_NONE"
    using add_grown [OF r(2) is_group_aggregate [OF g] s(1) none] by auto
  have "s_name e = Some n" using e(1) s(2) by (auto simp: grown_def new_setting_def)
  moreover have "s_value e = V_None" using e(2) by (simp add: zero_value_def config_types)
  ultimately have ex: "extended ?x (children ?x) (Some n) (\<lambda>e. s_value e = V_None) s"
    using grown_extended [OF e(1), of "Some n" "\<lambda>e. s_value e = V_None"] by simp
  let ?j = "length (children ?x)"
  have "act_name yyg n ctx config = Act_Ok (ctx\<lparr>pc_setting := Some (p @ [?j])\<rparr>)
      (update_setting (p @ [?j]) (capture_parse_pos yyg) (set_at p s config))"
    using ctx(2) s by (simp add: act_name_def add_to_parent_def)
  moreover have "update_setting (p @ [?j]) (capture_parse_pos yyg) (set_at p s config)
      = config\<lparr>root := update_at p (\<lambda>_. put_child ?j (capture_parse_pos yyg (children s ! ?j)) s) (root config)\<rparr>"
    by (simp add: update_setting_def set_at_def update_child [OF r(1)])
  moreover have "extended ?x (children ?x) (Some n) (\<lambda>e. s_value e = V_None) (put_child ?j (capture_parse_pos yyg (children s ! ?j)) s)"
    using extended_again [OF ex, of "capture_parse_pos yyg" "\<lambda>e. s_value e = V_None"] by simp
  ultimately show ?thesis by metis
qed

lemma act_open_extends:
  assumes ctx: "ctx_ok ks b ctx config" "pc_parent ctx = Some p" "awaits p (pc_setting ctx) (deref (root config) p) es nm"
    and x: "config_setting_type (deref (root config) p) \<in> {CONFIG_TYPE_GROUP, CONFIG_TYPE_LIST}"
    and t: "aggregate_type t"
  shows "\<exists>y q. act_open yyg t ctx config
      = Act_Ok (ctx\<lparr>pc_parent := Some (p @ [length es]), pc_setting := q\<rparr>) (config\<lparr>root := update_at p (\<lambda>_. y) (root config)\<rparr>)
    \<and> extended (deref (root config) p) es nm (\<lambda>e. s_value e = zero_value t) y"
proof -
  let ?x = "deref (root config) p" and ?P = "\<lambda>e. s_value e = zero_value t"
  have r: "valid_path (root config) p" "wf_setting ?x" using ctx wf_deref by (auto simp: ctx_ok_def)
  have lst: "IN_LIST ctx config \<longleftrightarrow> config_setting_type ?x \<noteq> CONFIG_TYPE_GROUP"
    using ctx(2) x by (auto simp: IN_LIST_def parent_type_def config_types)
  show ?thesis
  proof (cases "config_setting_type ?x = CONFIG_TYPE_GROUP")
    case True
    then obtain e where e: "children ?x = es @ [e]" "s_value e = V_None" "s_name e = nm" "pc_setting ctx = Some (p @ [length es])"
      using ctx(3) by (auto simp: awaits_def)
    let ?j = "length es" and ?e = "set_value (zero_value t) e"
    have d: "deref (root config) (p @ [?j]) = e" using e(1) by (simp add: deref_append)
    have "act_open yyg t ctx config
        = Act_Ok (ctx\<lparr>pc_parent := Some (p @ [?j]), pc_setting := None\<rparr>) (update_setting (p @ [?j]) (set_value (zero_value t)) config)"
      using True lst e d by (simp add: act_open_def)
    moreover have "update_setting (p @ [?j]) (set_value (zero_value t)) config
        = config\<lparr>root := update_at p (\<lambda>_. put_child ?j ?e ?x) (root config)\<rparr>"
    proof -
      have "update_at [?j] f = (\<lambda>s. put_child ?j (f (children s ! ?j)) s)" for f by (simp add: fun_eq_iff)
      then show ?thesis
        using update_at_const [of p "\<lambda>s. put_child ?j (set_value (zero_value t) (children s ! ?j)) s" "root config"] e(1)
        by (simp add: update_setting_def update_at_append)
    qed
    moreover have "extended ?x es nm ?P (put_child ?j ?e ?x)" using extended_put [OF e(1), of ?e ?P] e(3) by simp
    ultimately show ?thesis by metis
  next
    case False
    then have es: "children ?x = es" "nm = None" and ty: "config_setting_type ?x = CONFIG_TYPE_LIST"
      using ctx(3) x by (auto simp: awaits_def)
    then have agg: "is_aggregate ?x" "\<not> is_group ?x" by (simp_all add: is_aggregate_def is_group_def config_types)
    have tok: "type_ok t" using t by (auto simp: type_ok_def aggregate_type_def config_types)
    obtain s where s: "config_setting_add ?x None t = Ptr s"
      using add_defined [OF r(2) agg(1) tok, of None] agg(2) by (cases "config_setting_add ?x None t") auto
    then obtain e where e: "grown ?x s e" "s_value e = zero_value t" using add_grown [OF r(2) agg(1) s tok] agg(2) by auto
    have "config_setting_type s = CONFIG_TYPE_LIST" "wf_setting s" "is_aggregate s" "e \<in> set (children s)"
      using e(1) ty by (simp_all add: grown_def is_aggregate_def)
    then have "s_name e = None" using wf_children(2) [of s] by (auto simp: config_types)
    then have ex: "extended ?x es nm ?P s" using grown_extended [OF e(1), of None ?P] e(2) es by simp
    let ?j = "length es"
    have c: "length (children s) - 1 = ?j" using e(1) es(1) by (simp add: grown_def)
    have "act_open yyg t ctx config = Act_Ok (ctx\<lparr>pc_parent := Some (p @ [?j])\<rparr>)
        (update_setting (p @ [?j]) (capture_parse_pos yyg) (set_at p s config))"
      using False lst ctx(2) s c by (simp add: act_open_def add_to_parent_def)
    moreover have "ctx\<lparr>pc_parent := Some (p @ [?j]), pc_setting := pc_setting ctx\<rparr> = ctx\<lparr>pc_parent := Some (p @ [?j])\<rparr>" by simp
    moreover have "update_setting (p @ [?j]) (capture_parse_pos yyg) (set_at p s config)
        = config\<lparr>root := update_at p (\<lambda>_. put_child ?j (capture_parse_pos yyg (children s ! ?j)) s) (root config)\<rparr>"
      by (simp add: update_setting_def set_at_def update_child [OF r(1)])
    moreover have "extended ?x es nm ?P (put_child ?j (capture_parse_pos yyg (children s ! ?j)) s)"
      using extended_again [OF ex, of "capture_parse_pos yyg" ?P] by simp
    ultimately show ?thesis by metis
  qed
qed

end
