(* ===== verification/Parse_Contents.thy ===== *)
theory Parse_Contents
  imports Parse_Runs Parse_Actions
begin

text \<open>
  The parser reads the tokens of a content and adds that content to the tree, by induction on
  the content: values, the elements of arrays and lists, and the members of groups.
\<close>

section \<open>States of the automaton\<close>

text \<open>
  A value is expected on these states: after the equals sign of a setting, and at the first and
  at a later element of an array or a list. \<open>after t\<close> is on top when it has been read.
\<close>

definition after :: "nat \<Rightarrow> nat" where
  "after t = (if t = 8 then 21 else if t = 26 then 35 else if t = 42 then 46 else if t = 25 then 32 else 45)"

definition after_scalar :: "nat \<Rightarrow> nat" where
  "after_scalar t = (if t = 25 then 32 else if t = 40 then 45 else 23)"

text \<open>The kind of aggregate a value goes to.\<close>

definition kind_of :: "nat \<Rightarrow> int" where
  "kind_of t = (if t = 8 then CONFIG_TYPE_GROUP else if t = 26 \<or> t = 42 then CONFIG_TYPE_LIST else CONFIG_TYPE_ARRAY)"

definition follow_tokens :: "nat list" where
  "follow_tokens = [TOK_COMMA, TOK_ARRAY_END, TOK_LIST_END, TOK_SEMICOLON, TOK_NAME, TOK_GROUP_END, YYEOF]"

definition follows :: "token list \<Rightarrow> bool" where
  "follows ts \<longleftrightarrow> lookahead ts \<in> set follow_tokens"

lemma shift_table:
  "list_all (\<lambda>t. list_all (\<lambda>(tok, s). shift_to t tok = Some s)
     [(TOK_BOOLEAN, 9), (TOK_INTEGER, 10), (TOK_HEX, 11), (TOK_INTEGER64, 12), (TOK_HEX64, 13), (TOK_STRING, 15)]) [8, 25, 26, 40, 42]"
  "list_all (\<lambda>t. list_all (\<lambda>(tok, s). shift_to t tok = Some s)
     [(TOK_ARRAY_START, 16), (TOK_LIST_START, 17), (TOK_GROUP_START, 18)]) [8, 26, 42]"
  "shift_to 33 TOK_COMMA = Some 40" "shift_to 36 TOK_COMMA = Some 42" "shift_to 34 TOK_ARRAY_END = Some 41"
  "shift_to 37 TOK_LIST_END = Some 43" "shift_to 39 TOK_GROUP_END = Some 44" "shift_to 21 TOK_SEMICOLON = Some 29"
  "list_all (\<lambda>t. shift_to t TOK_NAME = Some 1) [0, 3, 27, 38]" "shift_to 5 TOK_EQUALS = Some 8" "shift_to 2 YYEOF = Some 6"
  by code_simp+

text \<open>States that reduce whatever comes.\<close>

lemma reduce_always:
  assumes "(s, rule) \<in> set [(9, 23), (10, 24), (11, 26), (12, 25), (13, 27), (15, 21), (16, 13), (17, 15), (18, 38), (23, 17), (41, 14),
      (43, 16), (44, 39), (1, 11), (19, 18), (20, 19), (24, 20), (32, 34), (45, 35), (35, 30), (46, 31), (29, 9), (30, 12), (4, 4), (7, 5)]"
  shows "reduces_by s t = Some rule"
proof -
  have "list_all (\<lambda>(s, rule). yypact ! s = YYPACT_NINF \<and> yydefact ! s = rule \<and> rule \<noteq> 0)
     [(9, 23), (10, 24), (11, 26), (12, 25), (13, 27), (15, 21), (16, 13), (17, 15), (18, 38), (23, 17), (41, 14),
      (43, 16), (44, 39), (1, 11), (19, 18), (20, 19), (24, 20), (32, 34), (45, 35), (35, 30), (46, 31), (29, 9), (30, 12), (4, 4), (7, 5)]"
    by code_simp
  then have "yypact ! s = YYPACT_NINF \<and> yydefact ! s = rule \<and> rule \<noteq> 0" using assms unfolding list_all_iff by fastforce
  then show ?thesis by (simp add: reduces_by_def shift_to_def Let_def)
qed

lemma reduce_before:
  "list_all (\<lambda>t. reduces_by 22 t = Some 29) follow_tokens"
  "list_all (\<lambda>t. t \<noteq> TOK_SEMICOLON \<and> t \<noteq> TOK_COMMA \<longrightarrow> reduces_by 21 t = Some 8) follow_tokens"
  by code_simp+

lemma scalar_gotos:
  "list_all (\<lambda>rule. list_all (\<lambda>t. yyr2 ! rule = 1 \<and> nat (yygoto (yyr1 ! rule - YYNTOKENS) t) = after_scalar t) [8, 25, 26, 40, 42])
     [23, 24, 25, 26, 27, 29]"
  "list_all (\<lambda>t. yyr2 ! 21 = 1 \<and> nat (yygoto (yyr1 ! 21 - YYNTOKENS) t) = 22) [8, 25, 26, 40, 42]"
  "list_all (\<lambda>t. quiet_run 1 0 [23, t] = Some [after t, t]) [8, 26, 42]"
  by code_simp+

lemma reduced_scalar:
  assumes "t \<in> {8, 25, 26, 40, 42}" "rule \<in> {23, 24, 25, 26, 27, 29}"
  shows "reduced rule (s # t # ss) = after_scalar t # t # ss" "reduced 21 (s # t # ss) = 22 # t # ss"
proof -
  have "yyr2 ! rule = 1 \<and> nat (yygoto (yyr1 ! rule - YYNTOKENS) t) = after_scalar t"
    using scalar_gotos(1) assms unfolding list_all_iff by auto
  then show "reduced rule (s # t # ss) = after_scalar t # t # ss" by (simp add: reduced_def)
  have "yyr2 ! 21 = 1 \<and> nat (yygoto (yyr1 ! 21 - YYNTOKENS) t) = 22"
    using scalar_gotos(2) assms unfolding list_all_iff by auto
  then show "reduced 21 (s # t # ss) = 22 # t # ss" by (simp add: reduced_def)
qed

text \<open>The reductions that do not need a lookahead run the same with any.\<close>

lemma after_scalar_run:
  assumes "t \<in> {8, 25, 26, 40, 42}" "length ss + 8 < YYMAXDEPTH"
  shows "reaches fs (conf fs cfg (after_scalar t # t # ss) None ts p q str r) (conf fs cfg (after t # t # ss) None ts p q str r)"
proof (cases "t \<in> {25, 40}")
  case True
  then show ?thesis by (intro reaches_refl) (auto simp: after_scalar_def after_def)
next
  case False
  then have t: "t \<in> {8, 26, 42}" "after_scalar t = 23" using assms(1) by (auto simp: after_scalar_def)
  have "yyr2 ! 17 = 1 \<and> nat (yygoto (yyr1 ! 17 - YYNTOKENS) t) = after t"
    using t(1) by (elim insertE emptyE; hypsubst; code_simp)
  then have "reduced 17 (23 # t # ss) = after t # t # ss" by (simp add: reduced_def)
  then show ?thesis
    using reaches_quiet [OF reduce_always [of 23 17], of "t # ss"] t(2) assms(2) by (simp add: quiet_def)
qed

section \<open>Values\<close>

text \<open>The value is read and has become a child; the stack shows that.\<close>

definition value_read :: "file_system \<Rightarrow> config \<Rightarrow> nat \<Rightarrow> nat list \<Rightarrow> token list \<Rightarrow> nat list \<Rightarrow> config_setting
    \<Rightarrow> config_setting list \<Rightarrow> string option \<Rightarrow> content \<Rightarrow> yyparse_state \<Rightarrow> bool" where
  "value_read fs cfg s ss ts p r es nm c st \<longleftrightarrow>
     (\<exists>y q. extended (deref r p) es nm (\<lambda>e. setting_content 0 e = c) y
        \<and> conf fs cfg (s # ss) None ts p q None (update_at p (\<lambda>_. y) r) st)"

text \<open>Where a value of a content can be read.\<close>

definition place :: "nat \<Rightarrow> config_setting \<Rightarrow> config_setting list \<Rightarrow> int \<Rightarrow> bool" where
  "place t x es ty \<longleftrightarrow> t \<in> {8, 25, 26, 40, 42} \<and> config_setting_type x = kind_of t
     \<and> (t \<in> {25, 40} \<longrightarrow> scalar_type ty \<and> (\<forall>e \<in> set es. config_setting_type e = ty))"

lemma place_type:
  assumes "place t x es ty"
  shows "config_setting_type x \<in> {CONFIG_TYPE_GROUP, CONFIG_TYPE_LIST, CONFIG_TYPE_ARRAY}"
    "config_setting_type x = CONFIG_TYPE_ARRAY \<Longrightarrow> \<forall>e \<in> set es. config_setting_type e = ty"
proof -
  have t: "t \<in> {8, 25, 26, 40, 42}" "config_setting_type x = kind_of t" "t \<in> {25, 40} \<Longrightarrow> \<forall>e \<in> set es. config_setting_type e = ty"
    using assms by (simp_all add: place_def)
  then show "config_setting_type x \<in> {CONFIG_TYPE_GROUP, CONFIG_TYPE_LIST, CONFIG_TYPE_ARRAY}" by (simp add: kind_of_def)
  assume "config_setting_type x = CONFIG_TYPE_ARRAY"
  then have "t \<noteq> 8 \<and> t \<noteq> 26 \<and> t \<noteq> 42" using t(2) by (auto simp: kind_of_def config_types)
  then show "\<forall>e \<in> set es. config_setting_type e = ty" using t(1,3) by blast
qed

lemma read_action:
  assumes t: "place t (deref r p) es (value_type v)" "awaits p q (deref r p) es nm" and d: "length ss + 8 < YYMAXDEPTH"
    and rule: "reduces_by s (lookahead ts) = Some rule" "rule \<in> {23, 24, 25, 26, 27, 29}"
    and act: "\<And>yyg ctx x. sb_string (pc_string ctx) = str \<Longrightarrow> agrees w x \<Longrightarrow> yy_rule_action yyg rule x ctx (cfg\<lparr>root := r\<rparr>)
      = act_value yyg (\<lambda>a. set_elem setter (value_type v) a (- 1)) setter format (ctx\<lparr>pc_string := b ctx\<rparr>) (cfg\<lparr>root := r\<rparr>)"
      "\<And>ctx. sb_string (pc_string ctx) = str \<Longrightarrow> strbuf_ok (pc_string ctx) \<Longrightarrow> sb_string (b ctx) = None \<and> strbuf_ok (b ctx)"
    and st: "stores v setter" and c: "\<And>e. setting_content 0 (formatted format (set_value v e)) = c"
  shows "reaches fs (conf fs cfg (s # t # ss) w ts p q str r) (value_read fs cfg (after t) (t # ss) ts p r es nm c)"
proof -
  let ?Q = "\<lambda>p' q' str' r'. p' = p \<and> str' = None \<and> (\<exists>y. extended (deref r p) es nm (\<lambda>e. setting_content 0 e = c) y
      \<and> r' = update_at p (\<lambda>_. y) r)"
  have "reaches fs (conf fs cfg (s # t # ss) w ts p q str r)
      (\<lambda>st. \<exists>p' q' str' r'. ?Q p' q' str' r' \<and> conf fs cfg (reduced rule (s # t # ss)) None ts p' q' str' r' st)"
  proof (rule reaches_reduce [OF rule(1)])
    show "length (t # ss) + 3 < YYMAXDEPTH" using d by simp
    fix yyg x and ctx :: parse_context
    assume ctx: "ctx_ok (rev (kinds (s # t # ss))) (pending (s # t # ss)) ctx (cfg\<lparr>root := r\<rparr>)" "pc_parent ctx = Some p"
      "pc_setting ctx = q" "sb_string (pc_string ctx) = str" "agrees w x"
    have b: "sb_string (b ctx) = None" "strbuf_ok (b ctx)" using act(2) [OF ctx(4)] ctx(1) by (simp_all add: ctx_ok_def)
    let ?ctx = "ctx\<lparr>pc_string := b ctx\<rparr>"
    have "ctx_ok (rev (kinds (s # t # ss))) (pending (s # t # ss)) ?ctx (cfg\<lparr>root := r\<rparr>)"
      using ctx(1) b(2) by (simp add: ctx_ok_def)
    note ok = this
    have par: "pc_parent ?ctx = Some p" "awaits p (pc_setting ?ctx) (deref (root (cfg\<lparr>root := r\<rparr>)) p) es nm"
      "config_setting_type (deref (root (cfg\<lparr>root := r\<rparr>)) p) \<in> {CONFIG_TYPE_GROUP, CONFIG_TYPE_LIST, CONFIG_TYPE_ARRAY}"
      using ctx(2,3) t(2) place_type(1) [OF t(1)] by simp_all
    have arr: "config_setting_type (deref (root (cfg\<lparr>root := r\<rparr>)) p) = CONFIG_TYPE_ARRAY \<Longrightarrow> \<forall>e \<in> set es. config_setting_type e = value_type v"
      using place_type(2) [OF t(1)] by simp
    obtain y where y: "act_value yyg (\<lambda>a. set_elem setter (value_type v) a (- 1)) setter format ?ctx (cfg\<lparr>root := r\<rparr>)
        = Act_Ok ?ctx (cfg\<lparr>root := update_at p (\<lambda>_. y) r\<rparr>)" "extended (deref r p) es nm (\<lambda>e. setting_content 0 e = c) y"
      using act_value_extends [OF ok par arr st c, of yyg] by auto
    have "?ctx = ctx\<lparr>pc_parent := Some p, pc_setting := q, pc_string := b ctx\<rparr>" using ctx(2,3) by (cases ctx) simp
    then have "yy_rule_action yyg rule x ctx (cfg\<lparr>root := r\<rparr>)
        = Act_Ok (ctx\<lparr>pc_parent := Some p, pc_setting := q, pc_string := b ctx\<rparr>) (cfg\<lparr>root := update_at p (\<lambda>_. y) r\<rparr>)"
      using act(1) [OF ctx(4,5)] y(1) by simp
    then show "\<exists>p' q' b r'. yy_rule_action yyg rule x ctx (cfg\<lparr>root := r\<rparr>)
        = Act_Ok (ctx\<lparr>pc_parent := Some p', pc_setting := q', pc_string := b\<rparr>) (cfg\<lparr>root := r'\<rparr>) \<and> ?Q p' q' (sb_string b) r'"
      using y(2) b(1) by blast
  qed
  moreover have "t \<in> {8, 25, 26, 40, 42}" using t(1) by (simp add: place_def)
  note red = reduced_scalar(1) [OF this rule(2), of s ss] and run = after_scalar_run [OF this d]
  have "reaches fs (\<lambda>st. \<exists>p' q' str' r'. ?Q p' q' str' r' \<and> conf fs cfg (reduced rule (s # t # ss)) None ts p' q' str' r' st)
      (value_read fs cfg (after t) (t # ss) ts p r es nm c)"
  proof (intro reaches_ex)
    fix p' q' str' r'
    show "reaches fs (\<lambda>st. ?Q p' q' str' r' \<and> conf fs cfg (reduced rule (s # t # ss)) None ts p' q' str' r' st)
        (value_read fs cfg (after t) (t # ss) ts p r es nm c)"
    proof (rule reaches_assume [where H = "?Q p' q' str' r'"])
      assume "?Q p' q' str' r'"
      then obtain y where y: "p' = p" "str' = None" "extended (deref r p) es nm (\<lambda>e. setting_content 0 e = c) y" "r' = update_at p (\<lambda>_. y) r"
        by blast
      show "reaches fs (\<lambda>st. ?Q p' q' str' r' \<and> conf fs cfg (reduced rule (s # t # ss)) None ts p' q' str' r' st)
          (value_read fs cfg (after t) (t # ss) ts p r es nm c)"
      proof (rule reaches_weaken [OF run [of fs cfg ts p q' None r']])
        show "value_read fs cfg (after t) (t # ss) ts p r es nm c st" if "conf fs cfg (after t # t # ss) None ts p q' None r' st" for st
          unfolding value_read_def using y that by blast
      qed (use y red in simp)
    qed simp
  qed
  ultimately show ?thesis by (rule reaches_trans)
qed

lemma scalar_formats:
  "setting_content 0 (formatted None (set_value (V_Bool i) e)) = C_Bool (i \<noteq> 0)"
  "setting_content 0 (formatted None (set_value (V_String (Some s)) e)) = C_String s"
  "setting_content 0 (formatted (Some CONFIG_FORMAT_DEFAULT) (set_value (V_Int i) e)) = C_Int i False"
  "setting_content 0 (formatted (Some CONFIG_FORMAT_HEX) (set_value (V_Int i) e)) = C_Int i True"
  "setting_content 0 (formatted (Some CONFIG_FORMAT_DEFAULT) (set_value (V_Int64 i) e)) = C_Int64 i False"
  "setting_content 0 (formatted (Some CONFIG_FORMAT_HEX) (set_value (V_Int64 i) e)) = C_Int64 i True"
  by (cases e; simp add: formatted_def or_same_def config_setting_set_format_def config_setting_type_def config_types
      CONFIG_FORMAT_DEFAULT_def CONFIG_FORMAT_HEX_def)+

lemma shift_scalar:
  assumes "t \<in> {8, 25, 26, 40, 42}" "(tok, s) \<in> set [(TOK_BOOLEAN, 9), (TOK_INTEGER, 10), (TOK_HEX, 11), (TOK_INTEGER64, 12), (TOK_HEX64, 13), (TOK_STRING, 15)]"
    and "length ss + 8 < YYMAXDEPTH"
  shows "reaches fs (conf fs cfg (t # ss) w ((tok, v) # ts) p q str r) (conf fs cfg (s # t # ss) v ts p q str r)"
proof -
  have "shift_to t tok = Some s" using shift_table(1) assms(1,2) unfolding list_all_iff by auto
  moreover have "s \<noteq> 0 \<and> s \<noteq> YYFINAL" using assms(2) by (auto simp: YYFINAL_def)
  ultimately show ?thesis using assms(3) by (intro reaches_shift) simp_all
qed

lemma read_number:
  assumes t: "place t (deref r p) es (value_type v)" "awaits p q (deref r p) es nm" and d: "length ss + 8 < YYMAXDEPTH"
    and tok: "(tok, s) \<in> set [(TOK_BOOLEAN, 9), (TOK_INTEGER, 10), (TOK_HEX, 11), (TOK_INTEGER64, 12), (TOK_HEX64, 13)]"
    and rule: "(s :: nat, rule) \<in> set [(9, 23), (10, 24), (11, 26), (12, 25), (13, 27)]"
    and act: "\<And>yyg ctx. yy_rule_action yyg rule y ctx (cfg\<lparr>root := r\<rparr>)
      = act_value yyg (\<lambda>a. set_elem setter (value_type v) a (- 1)) setter format ctx (cfg\<lparr>root := r\<rparr>)"
    and st: "stores v setter" and c: "\<And>e. setting_content 0 (formatted format (set_value v e)) = c"
  shows "reaches fs (conf fs cfg (t # ss) w ((tok, Some y) # ts) p q None r) (value_read fs cfg (after t) (t # ss) ts p r es nm c)"
proof (rule reaches_trans)
  show "reaches fs (conf fs cfg (t # ss) w ((tok, Some y) # ts) p q None r) (conf fs cfg (s # t # ss) (Some y) ts p q None r)"
    using t(1) tok d by (intro shift_scalar) (auto simp: place_def)
  have "reduces_by s (lookahead ts) = Some rule" using rule by (intro reduce_always) auto
  then show "reaches fs (conf fs cfg (s # t # ss) (Some y) ts p q None r) (value_read fs cfg (after t) (t # ss) ts p r es nm c)"
    using rule act by (intro read_action [OF t d, where b = pc_string, OF _ _ _ _ st c]) (auto simp: agrees_def)
qed

lemma strbuf_zero_string: "sb_string strbuf_zero = None"
  by (simp add: strbuf_zero_def)

lemma read_scalar:
  assumes "scalar_content c" "plain c" "follows ts" "length ss + 8 < YYMAXDEPTH"
    and t: "place t (deref r p) es (content_type c)" "awaits p q (deref r p) es nm"
  shows "reaches fs (conf fs cfg (t # ss) w (content_tokens semi c @ ts) p q None r) (value_read fs cfg (after t) (t # ss) ts p r es nm c)"
proof (cases c)
  case (C_Bool b)
  then show ?thesis
    using read_number [OF _ t(2) assms(4), of t "V_Bool (if b then 1 else 0)" TOK_BOOLEAN 9 23 "Y_Int (if b then 1 else 0)" cfg
        "\<lambda>e. ptr_option (config_setting_set_bool e (if b then 1 else 0))" None c fs w ts]
      t(1) setters_store(3) scalar_formats(1)
    by (simp add: yy_rule_action_def act_bool_def config_setting_set_bool_elem_def)
next
  case (C_Int i h)
  note rn = read_number [OF _ t(2) assms(4), of t "V_Int i"]
  show ?thesis
  proof (cases h)
    case True
    then show ?thesis
      using C_Int t(1) rn [of TOK_HEX 11 26 "Y_Int i" cfg "\<lambda>e. ptr_option (config_setting_set_int (cfg\<lparr>root := r\<rparr>) e i)" "Some CONFIG_FORMAT_HEX" c fs w ts]
        setters_store(1) scalar_formats(4)
      by (simp add: yy_rule_action_def act_int_def config_setting_set_int_elem_def)
  next
    case False
    then show ?thesis
      using C_Int t(1) rn [of TOK_INTEGER 10 24 "Y_Int i" cfg "\<lambda>e. ptr_option (config_setting_set_int (cfg\<lparr>root := r\<rparr>) e i)" "Some CONFIG_FORMAT_DEFAULT" c fs w ts]
        setters_store(1) scalar_formats(3)
      by (simp add: yy_rule_action_def act_int_def config_setting_set_int_elem_def)
  qed
next
  case (C_Int64 i h)
  note rn = read_number [OF _ t(2) assms(4), of t "V_Int64 i"]
  show ?thesis
  proof (cases h)
    case True
    then show ?thesis
      using C_Int64 t(1) rn [of TOK_HEX64 13 27 "Y_Int64 i" cfg "\<lambda>e. ptr_option (config_setting_set_int64 (cfg\<lparr>root := r\<rparr>) e i)" "Some CONFIG_FORMAT_HEX" c fs w ts]
        setters_store(2) scalar_formats(6)
      by (simp add: yy_rule_action_def act_int64_def config_setting_set_int64_elem_def)
  next
    case False
    then show ?thesis
      using C_Int64 t(1) rn [of TOK_INTEGER64 12 25 "Y_Int64 i" cfg "\<lambda>e. ptr_option (config_setting_set_int64 (cfg\<lparr>root := r\<rparr>) e i)" "Some CONFIG_FORMAT_DEFAULT" c fs w ts]
        setters_store(2) scalar_formats(5)
      by (simp add: yy_rule_action_def act_int64_def config_setting_set_int64_elem_def)
  qed
next
  case (C_String s)
  have nul: "NUL \<notin> set s" using assms(2) C_String by simp
  have tt: "t \<in> {8, 25, 26, 40, 42}" using t(1) by (simp add: place_def)
  have shift: "reaches fs (conf fs cfg (t # ss) w (content_tokens semi c @ ts) p q None r)
      (conf fs cfg (15 # t # ss) (Some (Y_String s)) ts p q None r)"
    using shift_scalar [OF tt _ assms(4), of TOK_STRING 15] C_String by simp
  have chars: "reaches fs (conf fs cfg (15 # t # ss) (Some (Y_String s)) ts p q None r) (conf fs cfg (22 # t # ss) None ts p q (Some s) r)"
  proof (rule reaches_weaken [OF reaches_reduce [where rule = 21 and Q = "\<lambda>p' q' str' r'. p' = p \<and> q' = q \<and> str' = Some s \<and> r' = r"]])
    show "reduces_by 15 (lookahead ts) = Some 21" by (rule reduce_always) simp
    show "length (t # ss) + 3 < YYMAXDEPTH" using assms(4) by simp
    fix yyg x and ctx :: parse_context
    assume ctx: "ctx_ok (rev (kinds (15 # t # ss))) (pending (15 # t # ss)) ctx (cfg\<lparr>root := r\<rparr>)" "pc_parent ctx = Some p"
      "pc_setting ctx = q" "sb_string (pc_string ctx) = None" "agrees (Some (Y_String s)) x"
    have "strbuf_ok (pc_string ctx)" using ctx(1) by (simp add: ctx_ok_def)
    then obtain b where b: "strbuf_append (pc_string ctx) s = Ptr b" "sb_text b = sb_text (pc_string ctx) @ c_string s" "sb_string b \<noteq> None"
      by (rule strbuf_append_ok)
    then have "sb_string b = Some s" using ctx(4) c_string_id [OF nul] by (auto simp: sb_text_def)
    moreover have "ctx\<lparr>pc_string := b\<rparr> = ctx\<lparr>pc_parent := Some p, pc_setting := q, pc_string := b\<rparr>" using ctx(2,3) by (cases ctx) simp
    ultimately show "\<exists>p' q' b r'. yy_rule_action yyg 21 x ctx (cfg\<lparr>root := r\<rparr>)
        = Act_Ok (ctx\<lparr>pc_parent := Some p', pc_setting := q', pc_string := b\<rparr>) (cfg\<lparr>root := r'\<rparr>)
        \<and> (p' = p \<and> q' = q \<and> sb_string b = Some s \<and> r' = r)"
      using ctx(5) b(1) by (auto simp: yy_rule_action_def act_string_def agrees_def)
  qed (use reduced_scalar(2) [OF tt, of 23 15 ss] in auto)
  have rule: "reduces_by 22 (lookahead ts) = Some 29"
    using reduce_before(1) assms(3) unfolding follows_def list_all_iff by blast
  have "reaches fs (conf fs cfg (22 # t # ss) None ts p q (Some s) r) (value_read fs cfg (after t) (t # ss) ts p r es nm c)"
    by (rule read_action [where v = "V_String (Some s)" and b = "\<lambda>_. strbuf_zero" and format = None
        and setter = "\<lambda>e. ptr_option (config_setting_set_string e (Some s))", OF _ t(2) assms(4) rule])
      (use t(1) C_String in \<open>simp_all add: yy_rule_action_def act_take_string_def strbuf_release_def
        config_setting_set_string_elem_def strbuf_zero_string setters_store scalar_formats\<close>)
  then show ?thesis by (rule reaches_trans [OF reaches_trans [OF shift chars]])
qed (use assms(1) in \<open>auto simp: scalar_content_def config_types\<close>)

section \<open>Opening and closing\<close>

text \<open>The start token of an aggregate with the states and the rule that follow it, and the same for the end token.\<close>

definition openings :: "(nat \<times> nat \<times> nat \<times> nat \<times> int) list" where
  "openings = [(TOK_ARRAY_START, 16, 13, 25, CONFIG_TYPE_ARRAY), (TOK_LIST_START, 17, 15, 26, CONFIG_TYPE_LIST),
     (TOK_GROUP_START, 18, 38, 27, CONFIG_TYPE_GROUP)]"

definition closings :: "(nat \<times> nat \<times> nat \<times> nat \<times> nat \<times> nat \<times> nat \<times> nat) list" where
  "closings = [(TOK_ARRAY_END, 34, 41, 14, 25, 16, 19, 18), (TOK_LIST_END, 37, 43, 16, 26, 17, 20, 19), (TOK_GROUP_END, 39, 44, 39, 27, 18, 24, 20)]"

lemma open_table:
  "list_all (\<lambda>(tok, s, rule, u, ty). list_all (\<lambda>t. shift_to t tok = Some s) [8, 26, 42] \<and> s \<noteq> 0 \<and> s \<noteq> YYFINAL
     \<and> yyr2 ! rule = 0 \<and> nat (yygoto (yyr1 ! rule - YYNTOKENS) s) = u) openings"
  "list_all (\<lambda>(tok, m, s, rule, u, o', g, rule'). shift_to m tok = Some s \<and> s \<noteq> 0 \<and> s \<noteq> YYFINAL \<and> yyr2 ! rule = 4
     \<and> quiet rule' \<and> yyr2 ! rule' = 1 \<and> rule \<in> {14, 16, 39}
     \<and> list_all (\<lambda>t. nat (yygoto (yyr1 ! rule - YYNTOKENS) t) = g \<and> nat (yygoto (yyr1 ! rule' - YYNTOKENS) t) = after t) [8, 26, 42]) closings"
  by code_simp+

lemma read_open:
  assumes tab: "(tok, s, rule, u, ty) \<in> set openings" and t: "t \<in> {8, 26, 42}" "config_setting_type (deref r p) = kind_of t"
    and aw: "awaits p q (deref r p) es nm" and d: "length ss + 8 < YYMAXDEPTH"
  shows "reaches fs (conf fs cfg (t # ss) w ((tok, None) # ts) p q None r)
    (\<lambda>st. \<exists>y q'. extended (deref r p) es nm (\<lambda>e. s_value e = zero_value ty) y
       \<and> conf fs cfg (u # s # t # ss) None ts (p @ [length es]) q' None (update_at p (\<lambda>_. y) r) st)"
proof (rule reaches_trans)
  have f: "shift_to t tok = Some s" "s \<noteq> 0" "s \<noteq> YYFINAL" "yyr2 ! rule = 0" "nat (yygoto (yyr1 ! rule - YYNTOKENS) s) = u"
    using bspec [OF open_table(1) [unfolded list_all_iff] tab] t(1) by auto
  show "reaches fs (conf fs cfg (t # ss) w ((tok, None) # ts) p q None r) (conf fs cfg (s # t # ss) None ts p q None r)"
    using f(1-3) d by (intro reaches_shift) simp_all
  have sr: "(s, rule, ty) \<in> {(16, 13, CONFIG_TYPE_ARRAY), (17, 15, CONFIG_TYPE_LIST), (18, 38, CONFIG_TYPE_GROUP)}"
    using tab by (auto simp: openings_def)
  have red: "reduced rule (s # t # ss) = u # s # t # ss" using f(4,5) by (simp add: reduced_def)
  let ?Q = "\<lambda>p' q' str' r'. p' = p @ [length es] \<and> str' = None
      \<and> (\<exists>y. extended (deref r p) es nm (\<lambda>e. s_value e = zero_value ty) y \<and> r' = update_at p (\<lambda>_. y) r)"
  show "reaches fs (conf fs cfg (s # t # ss) None ts p q None r)
    (\<lambda>st. \<exists>y q'. extended (deref r p) es nm (\<lambda>e. s_value e = zero_value ty) y
       \<and> conf fs cfg (u # s # t # ss) None ts (p @ [length es]) q' None (update_at p (\<lambda>_. y) r) st)"
  proof (rule reaches_weaken [OF reaches_reduce [where rule = rule and Q = ?Q]])
    show "reduces_by s (lookahead ts) = Some rule" using sr by (intro reduce_always) auto
    show "length (t # ss) + 3 < YYMAXDEPTH" using d by simp
    fix yyg x and ctx :: parse_context
    assume ctx: "ctx_ok (rev (kinds (s # t # ss))) (pending (s # t # ss)) ctx (cfg\<lparr>root := r\<rparr>)" "pc_parent ctx = Some p"
      "pc_setting ctx = q" "sb_string (pc_string ctx) = None"
    have a: "yy_rule_action yyg rule x ctx (cfg\<lparr>root := r\<rparr>) = act_open yyg ty ctx (cfg\<lparr>root := r\<rparr>)" "aggregate_type ty"
      using sr by (auto simp: yy_rule_action_def aggregate_type_def)
    have "config_setting_type (deref r p) \<in> {CONFIG_TYPE_GROUP, CONFIG_TYPE_LIST}" using t by (auto simp: kind_of_def)
    then obtain y q' where y: "act_open yyg ty ctx (cfg\<lparr>root := r\<rparr>)
        = Act_Ok (ctx\<lparr>pc_parent := Some (p @ [length es]), pc_setting := q'\<rparr>) (cfg\<lparr>root := update_at p (\<lambda>_. y) r\<rparr>)"
        "extended (deref r p) es nm (\<lambda>e. s_value e = zero_value ty) y"
      using act_open_extends [OF ctx(1,2) _ _ a(2), of es nm yyg] ctx(3) aw by auto
    have "ctx\<lparr>pc_parent := Some (p @ [length es]), pc_setting := q'\<rparr>
        = ctx\<lparr>pc_parent := Some (p @ [length es]), pc_setting := q', pc_string := pc_string ctx\<rparr>" by simp
    then show "\<exists>p' q' b r'. yy_rule_action yyg rule x ctx (cfg\<lparr>root := r\<rparr>)
        = Act_Ok (ctx\<lparr>pc_parent := Some p', pc_setting := q', pc_string := b\<rparr>) (cfg\<lparr>root := r'\<rparr>) \<and> ?Q p' q' (sb_string b) r'"
      using a(1) y ctx(4) by metis
  qed (use red in auto)
qed

lemma read_close:
  assumes tab: "(tok, m, s, rule, u, o', g, rule') \<in> set closings" and t: "t \<in> {8, 26, 42}" and d: "length ss + 8 < YYMAXDEPTH"
  shows "reaches fs (conf fs cfg (m # u # o' # t # ss) w ((tok, None) # ts) (p @ [j]) q None r)
    (\<lambda>st. \<exists>q'. conf fs cfg (after t # t # ss) None ts p q' None r st)"
proof (rule reaches_trans)
  have f: "shift_to m tok = Some s" "s \<noteq> 0" "s \<noteq> YYFINAL" "yyr2 ! rule = 4" "quiet rule'" "yyr2 ! rule' = 1" "rule \<in> {14, 16, 39}"
      "nat (yygoto (yyr1 ! rule - YYNTOKENS) t) = g" "nat (yygoto (yyr1 ! rule' - YYNTOKENS) t) = after t"
    using bspec [OF open_table(2) [unfolded list_all_iff] tab] t(1) by auto
  have red: "reduced rule (s # m # u # o' # t # ss) = g # t # ss" "reduced rule' (g # t # ss) = after t # t # ss"
    using f by (simp_all add: reduced_def numeral_eq_Suc)
  have rb: "reduces_by s (lookahead ts) = Some rule" "reduces_by g (lookahead ts) = Some rule'"
    using tab by (auto simp: closings_def intro!: reduce_always)
  show "reaches fs (conf fs cfg (m # u # o' # t # ss) w ((tok, None) # ts) (p @ [j]) q None r)
      (conf fs cfg (s # m # u # o' # t # ss) None ts (p @ [j]) q None r)"
    using f(1-3) d by (intro reaches_shift) simp_all
  have close: "reaches fs (conf fs cfg (s # m # u # o' # t # ss) None ts (p @ [j]) q None r) (conf fs cfg (g # t # ss) None ts p q None r)"
  proof (rule reaches_weaken [OF reaches_reduce [where rule = rule and Q = "\<lambda>p' q' str' r'. p' = p \<and> q' = q \<and> str' = None \<and> r' = r"]])
    show "reduces_by s (lookahead ts) = Some rule" by (rule rb)
    show "length (m # u # o' # t # ss) + 3 < YYMAXDEPTH" using d by simp
    fix yyg x and ctx :: parse_context
    assume ctx: "pc_parent ctx = Some (p @ [j])" "pc_setting ctx = q" "sb_string (pc_string ctx) = None"
    then have "ctx\<lparr>pc_parent := Some p\<rparr> = ctx\<lparr>pc_parent := Some p, pc_setting := q, pc_string := pc_string ctx\<rparr>" by (cases ctx) simp
    then have "yy_rule_action yyg rule x ctx (cfg\<lparr>root := r\<rparr>)
        = Act_Ok (ctx\<lparr>pc_parent := Some p, pc_setting := q, pc_string := pc_string ctx\<rparr>) (cfg\<lparr>root := r\<rparr>)"
      using f(7) ctx(1) by (auto simp: yy_rule_action_def act_close_def)
    then show "\<exists>p' q' b r'. yy_rule_action yyg rule x ctx (cfg\<lparr>root := r\<rparr>)
        = Act_Ok (ctx\<lparr>pc_parent := Some p', pc_setting := q', pc_string := b\<rparr>) (cfg\<lparr>root := r'\<rparr>)
        \<and> (p' = p \<and> q' = q \<and> sb_string b = None \<and> r' = r)" using ctx(3) by blast
  qed (use red in auto)
  have "reaches fs (conf fs cfg (g # t # ss) None ts p q None r) (conf fs cfg (after t # t # ss) None ts p q None r)"
    using reaches_quiet [OF rb(2) f(5), of "t # ss"] red(2) d by simp
  then show "reaches fs (conf fs cfg (s # m # u # o' # t # ss) None ts (p @ [j]) q None r)
      (\<lambda>st. \<exists>q'. conf fs cfg (after t # t # ss) None ts p q' None r st)"
    by (rule reaches_weaken [OF reaches_trans [OF close]]) auto
qed

section \<open>Elements\<close>

text \<open>A content that is read wherever its value may stand.\<close>

definition reads_content :: "file_system \<Rightarrow> config \<Rightarrow> bool \<Rightarrow> content \<Rightarrow> bool" where
  "reads_content fs cfg semi c \<longleftrightarrow> (\<forall>t r p q es nm ss w ts. place t (deref r p) es (content_type c) \<longrightarrow> awaits p q (deref r p) es nm \<longrightarrow>
     follows ts \<longrightarrow> length ss + 16 * depth_of c + 8 < YYMAXDEPTH \<longrightarrow>
     reaches fs (conf fs cfg (t # ss) w (content_tokens semi c @ ts) p q None r) (value_read fs cfg (after t) (t # ss) ts p r es nm c))"

text \<open>All contents of a list have been read into the aggregate at \<open>p\<close>.\<close>

definition items_read :: "(config_setting \<Rightarrow> 'a) \<Rightarrow> file_system \<Rightarrow> config \<Rightarrow> nat list \<Rightarrow> token list \<Rightarrow> nat list \<Rightarrow> config_setting
    \<Rightarrow> 'a list \<Rightarrow> yyparse_state \<Rightarrow> bool" where
  "items_read f fs cfg ss ts p r cs st \<longleftrightarrow>
     (\<exists>y q. config_setting_type y = config_setting_type (deref r p) \<and> s_name y = s_name (deref r p) \<and> map f (children y) = cs
        \<and> conf fs cfg ss None ts p q None (update_at p (\<lambda>_. y) r) st)"

text \<open>The states of the first element, of a later one, and between two; for arrays and lists.\<close>

definition element_states :: "(nat \<times> nat \<times> nat) list" where
  "element_states = [(25, 40, 33), (26, 42, 36)]"

lemma element_table:
  assumes "(a, b, m) \<in> set element_states"
  shows "kind_of a = kind_of b" "a \<in> {25, 26}" "b \<in> {40, 42}" "shift_to m TOK_COMMA = Some b" "b \<noteq> 0" "b \<noteq> YYFINAL"
    "length ss + 16 < YYMAXDEPTH \<Longrightarrow>
       reaches fs (conf fs cfg (after a # a # ss) None ts p q str r) (conf fs cfg (m # a # ss) None ts p q str r)"
    "length ss + 16 < YYMAXDEPTH \<Longrightarrow>
       reaches fs (conf fs cfg (after b # b # m # a # ss) None ts p q str r) (conf fs cfg (m # a # ss) None ts p q str r)"
proof -
  have r: "reduced 34 (32 # 25 # ss) = 33 # 25 # ss" "reduced 30 (35 # 26 # ss) = 36 # 26 # ss"
    "reduced 35 (45 # 40 # 33 # 25 # ss) = 33 # 25 # ss" "reduced 31 (46 # 42 # 36 # 26 # ss) = 36 # 26 # ss"
  proof -
    have "yyr2 ! 34 = 1 \<and> yyr2 ! 30 = 1 \<and> yyr2 ! 35 = 3 \<and> yyr2 ! 31 = 3 \<and> nat (yygoto (yyr1 ! 34 - YYNTOKENS) 25) = 33
        \<and> nat (yygoto (yyr1 ! 30 - YYNTOKENS) 26) = 36 \<and> nat (yygoto (yyr1 ! 35 - YYNTOKENS) 25) = 33
        \<and> nat (yygoto (yyr1 ! 31 - YYNTOKENS) 26) = 36" by code_simp
    then show "reduced 34 (32 # 25 # ss) = 33 # 25 # ss" "reduced 30 (35 # 26 # ss) = 36 # 26 # ss"
      "reduced 35 (45 # 40 # 33 # 25 # ss) = 33 # 25 # ss" "reduced 31 (46 # 42 # 36 # 26 # ss) = 36 # 26 # ss"
      by (simp_all add: reduced_def numeral_eq_Suc)
  qed
  have ab: "(a, b, m) = (25, 40, 33) \<or> (a, b, m) = (26, 42, 36)" using assms by (auto simp: element_states_def)
  then show "kind_of a = kind_of b" "a \<in> {25, 26}" "b \<in> {40, 42}" "shift_to m TOK_COMMA = Some b" "b \<noteq> 0" "b \<noteq> YYFINAL"
    using shift_table(3,4) by (auto simp: kind_of_def YYFINAL_def)
  assume d: "length ss + 16 < YYMAXDEPTH"
  show "reaches fs (conf fs cfg (after a # a # ss) None ts p q str r) (conf fs cfg (m # a # ss) None ts p q str r)"
    using ab reaches_quiet [OF reduce_always [of 32 34], of "25 # ss"] reaches_quiet [OF reduce_always [of 35 30], of "26 # ss"] r d
    by (auto simp: after_def quiet_def)
  show "reaches fs (conf fs cfg (after b # b # m # a # ss) None ts p q str r) (conf fs cfg (m # a # ss) None ts p q str r)"
    using ab reaches_quiet [OF reduce_always [of 45 35], of "40 # 33 # 25 # ss"] reaches_quiet [OF reduce_always [of 46 31], of "42 # 36 # 26 # ss"] r d
    by (auto simp: after_def quiet_def)
qed

lemma follows_simps:
  "follows ((TOK_COMMA, v) # ts)" "follows ((TOK_ARRAY_END, v) # ts)" "follows ((TOK_LIST_END, v) # ts)" "follows ((TOK_SEMICOLON, v) # ts)"
  "follows ((TOK_NAME, v) # ts)" "follows ((TOK_GROUP_END, v) # ts)" "follows []"
  by (simp_all add: follows_def follow_tokens_def)

text \<open>What is true of the elements that can go to a place.\<close>

lemma place_next:
  assumes "place t x es ty" "kind_of t' = kind_of t" "t' \<in> {25, 26, 40, 42}" "t \<in> {25, 26, 40, 42}" "config_setting_type y = config_setting_type x"
    and "children y = es @ [e]" "config_setting_type e = ty"
  shows "place t' y (es @ [e]) ty"
proof -
  have "t' \<in> {25, 40} \<longleftrightarrow> t \<in> {25, 40}"
    using assms(2-4) by (elim insertE emptyE; hypsubst; simp add: kind_of_def config_types)
  moreover have "t' \<in> {8, 25, 26, 40, 42}" using assms(3) by blast
  ultimately show ?thesis using assms(1,2,5,7) by (simp add: place_def)
qed

lemma awaits_element: "config_setting_type x \<noteq> CONFIG_TYPE_GROUP \<Longrightarrow> awaits p q x es nm \<longleftrightarrow> children x = es \<and> nm = None"
  by (simp add: awaits_def)

lemma extended_items:
  assumes "valid_path r p" "extended (deref r p) es nm (\<lambda>e. setting_content 0 e = c) y"
  defines "r' \<equiv> update_at p (\<lambda>_. y) r"
  shows "deref r' p = y" "valid_path r' p" "update_at p (\<lambda>_. z) r' = update_at p (\<lambda>_. z) r"
    "config_setting_type y = config_setting_type (deref r p)" "s_name y = s_name (deref r p)"
    "\<exists>e. children y = es @ [e] \<and> s_name e = nm \<and> setting_content 0 e = c"
  using assms(2) update_effects(1,2) [OF assms(1)] by (simp_all add: r'_def update_at_twice [OF assms(1)] extended_def)

lemma valid_conf: "conf fs cfg ss v ts p q str r st \<Longrightarrow> valid_path r p"
  by (auto simp: conf_def parse_ok_def ctx_ok_def)

text \<open>The elements of an array or a list, from the first or a later one.\<close>

lemma read_elements:
  assumes tab: "(a, b, m) \<in> set element_states"
  shows "cs \<noteq> [] \<Longrightarrow> \<forall>c \<in> set cs. reads_content fs cfg semi c \<and> depth_of c \<le> n
      \<and> (a = 25 \<longrightarrow> content_type c = ty \<and> scalar_type ty) \<Longrightarrow>
    u # us = a # ss \<or> u # us = b # m # a # ss \<Longrightarrow> config_setting_type (deref r p) = kind_of a \<Longrightarrow> children (deref r p) = es \<Longrightarrow>
    (a = 25 \<longrightarrow> (\<forall>e \<in> set es. config_setting_type e = ty)) \<Longrightarrow>
    follows ts \<Longrightarrow> length ss + 16 * n + 16 < YYMAXDEPTH \<Longrightarrow>
    reaches fs (conf fs cfg (u # us) w (element_tokens semi cs @ ts) p q None r)
      (items_read (setting_content 0) fs cfg (m # a # ss) ts p r (map (setting_content 0) es @ cs))"
proof (induction cs arbitrary: r es u us w q)
  case (Cons c cs)
  let ?ts = "(if cs \<noteq> [] then [(TOK_COMMA, None)] else []) @ element_tokens semi cs @ ts"
  have c: "reads_content fs cfg semi c" "depth_of c \<le> n" using Cons.prems(2) by simp_all
  have ng: "kind_of a \<noteq> CONFIG_TYPE_GROUP" using element_table(2) [OF tab] by (auto simp: kind_of_def config_types)
  have u: "u = a \<or> u = b" "kind_of u = kind_of a" "u \<in> {25, 26, 40, 42}" "length us \<le> length ss + 2"
    using Cons.prems(3) element_table(1-3) [OF tab] by auto
  have pl: "place u (deref r p) es (content_type c)"
  proof -
    have "u \<in> {25, 40} \<longrightarrow> a = 25" using tab u(1) by (auto simp: element_states_def)
    then show ?thesis using Cons.prems(2,4,6) u(2,3) by (auto simp: place_def)
  qed
  have f: "follows ?ts" using Cons.prems(7) follows_simps(1) by (cases cs) simp_all
  have d: "length us + 16 * depth_of c + 8 < YYMAXDEPTH" using Cons.prems(8) c(2) u(4) by linarith
  have aw: "awaits p q (deref r p) es None" using Cons.prems(4,5) ng by (simp add: awaits_def)
  have between: "reaches fs (conf fs cfg (after u # u # us) None x p q' None r') (conf fs cfg (m # a # ss) None x p q' None r')" for x q' r'
    using Cons.prems(3,8) element_table(7,8) [OF tab, of ss] by auto
  have first: "reaches fs (conf fs cfg (u # us) w (content_tokens semi c @ ?ts) p q None r) (value_read fs cfg (after u) (u # us) ?ts p r es None c)"
    using c(1) pl aw f d unfolding reads_content_def by blast
  have rest: "reaches fs (value_read fs cfg (after u) (u # us) ?ts p r es None c)
      (items_read (setting_content 0) fs cfg (m # a # ss) ts p r (map (setting_content 0) es @ c # cs))" if v: "valid_path r p"
    unfolding value_read_def
  proof (intro reaches_ex)
    fix y q'
    let ?r = "update_at p (\<lambda>_. y) r"
    let ?A = "\<lambda>st. extended (deref r p) es None (\<lambda>e. setting_content 0 e = c) y \<and> conf fs cfg (after u # u # us) None ?ts p q' None ?r st"
    show "reaches fs ?A (items_read (setting_content 0) fs cfg (m # a # ss) ts p r (map (setting_content 0) es @ c # cs))"
    proof (rule reaches_assume [where H = "extended (deref r p) es None (\<lambda>e. setting_content 0 e = c) y"])
      assume y: "extended (deref r p) es None (\<lambda>e. setting_content 0 e = c) y"
      note ei = extended_items [OF v y]
      obtain e where e: "children y = es @ [e]" "setting_content 0 e = c" using ei(6) by blast
      have A: "reaches fs ?A (conf fs cfg (m # a # ss) None ?ts p q' None ?r)"
        by (rule reaches_weaken [OF between]) auto
      show "reaches fs ?A (items_read (setting_content 0) fs cfg (m # a # ss) ts p r (map (setting_content 0) es @ c # cs))"
      proof (cases "cs = []")
        case True
        then show ?thesis
          by (intro reaches_weaken [OF A]) (use e ei(4,5) in \<open>auto simp: items_read_def intro!: exI [of _ y] exI [of _ q']\<close>)
      next
        case False
        have comma: "reaches fs (conf fs cfg (m # a # ss) None ((TOK_COMMA, None) # element_tokens semi cs @ ts) p q' None ?r)
            (conf fs cfg (b # m # a # ss) None (element_tokens semi cs @ ts) p q' None ?r)"
          using element_table(4-6) [OF tab] Cons.prems(8) by (intro reaches_shift) simp_all
        have ty: "a = 25 \<longrightarrow> (\<forall>x \<in> set (es @ [e]). config_setting_type x = ty)"
          using Cons.prems(2,6) e(2) content_type_setting [of 0 e] by auto
        have "reaches fs (conf fs cfg (b # m # a # ss) None (element_tokens semi cs @ ts) p q' None ?r)
            (items_read (setting_content 0) fs cfg (m # a # ss) ts p ?r (map (setting_content 0) (es @ [e]) @ cs))"
          using Cons.IH [OF False _ _ _ _ ty Cons.prems(7,8)] Cons.prems(2,4) ei(1,4) e(1) by simp
        then have "reaches fs (conf fs cfg (b # m # a # ss) None (element_tokens semi cs @ ts) p q' None ?r)
            (items_read (setting_content 0) fs cfg (m # a # ss) ts p r (map (setting_content 0) es @ c # cs))"
          by (rule reaches_weaken) (use ei e in \<open>simp_all add: items_read_def\<close>)
        then show ?thesis using reaches_trans [OF A] reaches_trans [OF comma] False by simp
      qed
    qed simp
  qed
  show ?case
  proof (rule reaches_assume [where H = "valid_path r p"])
    assume "valid_path r p"
    then show "reaches fs (conf fs cfg (u # us) w (element_tokens semi (c # cs) @ ts) p q None r)
        (items_read (setting_content 0) fs cfg (m # a # ss) ts p r (map (setting_content 0) es @ c # cs))"
      using reaches_trans [OF first rest] by simp
  qed (rule valid_conf)
qed simp

section \<open>Members\<close>

text \<open>The states of the first member of a group and of a later one, for the root and for other groups.\<close>

definition member_states :: "(nat \<times> nat) list" where
  "member_states = [(0, 3), (27, 38)]"

definition members_follow :: "token list \<Rightarrow> bool" where
  "members_follow ts \<longleftrightarrow> lookahead ts \<in> {TOK_GROUP_END, YYEOF}"

lemma member_end:
  assumes tab: "(a, m) \<in> set member_states" and u: "u # us = a # ss \<or> u # us = m # a # ss" and d: "length ss + 16 < YYMAXDEPTH"
    and ts: "lookahead ts \<in> {TOK_NAME, TOK_GROUP_END, YYEOF}"
  shows "reaches fs (conf fs cfg (21 # 8 # 5 # 1 # u # us) None ((if semi then [(TOK_SEMICOLON, None)] else []) @ ts) p q None r)
    (conf fs cfg (m # a # ss) None ts p q None r)"
proof -
  have r: "reduced 9 (29 # 21 # x) = 30 # 21 # x" "reduced 8 (21 # x) = 30 # 21 # x"
    "u \<in> {0, 27} \<Longrightarrow> reduced 12 (30 # 21 # 8 # 5 # 1 # u # x) = 4 # u # x" "u \<in> {3, 38} \<Longrightarrow> reduced 12 (30 # 21 # 8 # 5 # 1 # u # x) = 7 # u # x"
    "reduced 4 (4 # 0 # x) = 3 # 0 # x" "reduced 4 (4 # 27 # x) = 38 # 27 # x"
    "reduced 5 (7 # 3 # 0 # x) = 3 # 0 # x" "reduced 5 (7 # 38 # 27 # x) = 38 # 27 # x" for x u
  proof -
    have g: "yyr2 ! 9 = 1 \<and> yyr2 ! 8 = 0 \<and> yyr2 ! 12 = 5 \<and> yyr2 ! 4 = 1 \<and> yyr2 ! 5 = 2
        \<and> nat (yygoto (yyr1 ! 9 - YYNTOKENS) 21) = 30 \<and> nat (yygoto (yyr1 ! 8 - YYNTOKENS) 21) = 30
        \<and> nat (yygoto (yyr1 ! 4 - YYNTOKENS) 0) = 3 \<and> nat (yygoto (yyr1 ! 4 - YYNTOKENS) 27) = 38
        \<and> nat (yygoto (yyr1 ! 5 - YYNTOKENS) 0) = 3 \<and> nat (yygoto (yyr1 ! 5 - YYNTOKENS) 27) = 38" by code_simp
    then show "reduced 9 (29 # 21 # x) = 30 # 21 # x" "reduced 8 (21 # x) = 30 # 21 # x"
      "reduced 4 (4 # 0 # x) = 3 # 0 # x" "reduced 4 (4 # 27 # x) = 38 # 27 # x"
      "reduced 5 (7 # 3 # 0 # x) = 3 # 0 # x" "reduced 5 (7 # 38 # 27 # x) = 38 # 27 # x" by (simp_all add: reduced_def numeral_eq_Suc)
    have h: "list_all (\<lambda>u. nat (yygoto (yyr1 ! 12 - YYNTOKENS) u) = 4) [0, 27]"
      "list_all (\<lambda>u. nat (yygoto (yyr1 ! 12 - YYNTOKENS) u) = 7) [3, 38]" by code_simp+
    show "reduced 12 (30 # 21 # 8 # 5 # 1 # u # x) = 4 # u # x" if "u \<in> {0, 27}"
      using g h(1) that by (auto simp: reduced_def numeral_eq_Suc)
    show "reduced 12 (30 # 21 # 8 # 5 # 1 # u # x) = 7 # u # x" if "u \<in> {3, 38}"
      using g h(2) that by (auto simp: reduced_def numeral_eq_Suc)
  qed
  have l: "length (u # us) \<le> length ss + 2" using u by auto
  have t30: "reaches fs (conf fs cfg (21 # 8 # 5 # 1 # u # us) None ((if semi then [(TOK_SEMICOLON, None)] else []) @ ts) p q None r)
      (conf fs cfg (30 # 21 # 8 # 5 # 1 # u # us) None ts p q None r)"
  proof (cases semi)
    case True
    have "reaches fs (conf fs cfg (21 # 8 # 5 # 1 # u # us) None ((TOK_SEMICOLON, None) # ts) p q None r)
        (conf fs cfg (29 # 21 # 8 # 5 # 1 # u # us) None ts p q None r)"
      using shift_table(8) d l by (intro reaches_shift) (simp_all add: YYFINAL_def)
    then show ?thesis
      using reaches_trans [OF _ reaches_quiet [OF reduce_always [of 29 9]], of _ _ _ "21 # 8 # 5 # 1 # u # us"] r(1) True d l
      by (simp add: quiet_def)
  next
    case False
    have "reduces_by 21 (lookahead ts) = Some 8"
      using reduce_before(2) ts by (auto simp: follow_tokens_def tokens)
    then show ?thesis using reaches_quiet [of 21 ts 8 "8 # 5 # 1 # u # us"] r(2) False d l by (simp add: quiet_def)
  qed
  have t4: "reaches fs (conf fs cfg (30 # 21 # 8 # 5 # 1 # u # us) None ts p q None r)
      (conf fs cfg ((if u = a then 4 else 7) # u # us) None ts p q None r)"
    using reaches_quiet [OF reduce_always [of 30 12], of "21 # 8 # 5 # 1 # u # us"] r(3,4) d l u tab
    by (auto simp: quiet_def member_states_def)
  have "reaches fs (conf fs cfg ((if u = a then 4 else 7) # u # us) None ts p q None r) (conf fs cfg (m # a # ss) None ts p q None r)"
    using reaches_quiet [OF reduce_always [of 4 4], of "u # us"] reaches_quiet [OF reduce_always [of 7 5], of "u # us"] r(5-8) d l u tab
    by (auto simp: quiet_def member_states_def)
  then show ?thesis by (rule reaches_trans [OF reaches_trans [OF t30 t4]])
qed

lemma member_start:
  assumes tab: "(a, m) \<in> set member_states" and u: "u = a \<or> u = m" and d: "length us + 12 < YYMAXDEPTH"
    and x: "config_setting_type (deref r p) = CONFIG_TYPE_GROUP" and n: "config_validate_name n" "Some n \<notin> s_name ` set (children (deref r p))"
  shows "reaches fs (conf fs cfg (u # us) w ((TOK_NAME, Some (Y_String n)) # (TOK_EQUALS, None) # ts) p q None r)
    (\<lambda>st. \<exists>y. extended (deref r p) (children (deref r p)) (Some n) (\<lambda>e. s_value e = V_None) y
       \<and> conf fs cfg (8 # 5 # 1 # u # us) None ts p (Some (p @ [length (children (deref r p))])) None (update_at p (\<lambda>_. y) r) st)"
proof -
  let ?es = "children (deref r p)" and ?P = "\<lambda>e. s_value e = V_None"
  let ?Q = "\<lambda>p' q' str' r'. p' = p \<and> q' = Some (p @ [length ?es]) \<and> str' = None
      \<and> (\<exists>y. extended (deref r p) ?es (Some n) ?P y \<and> r' = update_at p (\<lambda>_. y) r)"
  have "shift_to u TOK_NAME = Some 1" using shift_table(9) tab u by (auto simp: member_states_def)
  then have shift: "reaches fs (conf fs cfg (u # us) w ((TOK_NAME, Some (Y_String n)) # (TOK_EQUALS, None) # ts) p q None r)
      (conf fs cfg (1 # u # us) (Some (Y_String n)) ((TOK_EQUALS, None) # ts) p q None r)"
    using d by (intro reaches_shift) (simp_all add: YYFINAL_def)
  have red: "reduced 11 (1 # u # us) = 5 # 1 # u # us"
  proof -
    have "yyr2 ! 11 = 0 \<and> nat (yygoto (yyr1 ! 11 - YYNTOKENS) 1) = 5" by code_simp
    then show ?thesis by (simp add: reduced_def)
  qed
  have name: "reaches fs (conf fs cfg (1 # u # us) (Some (Y_String n)) ((TOK_EQUALS, None) # ts) p q None r)
      (\<lambda>st. \<exists>p' q' str' r'. ?Q p' q' str' r' \<and> conf fs cfg (reduced 11 (1 # u # us)) None ((TOK_EQUALS, None) # ts) p' q' str' r' st)"
  proof (rule reaches_reduce)
    show "reduces_by 1 (lookahead ((TOK_EQUALS, None) # ts)) = Some 11" by (rule reduce_always) simp
    show "length (u # us) + 3 < YYMAXDEPTH" using d by simp
    fix yyg x and ctx :: parse_context
    assume ctx: "ctx_ok (rev (kinds (1 # u # us))) (pending (1 # u # us)) ctx (cfg\<lparr>root := r\<rparr>)" "pc_parent ctx = Some p"
      "pc_setting ctx = q" "sb_string (pc_string ctx) = None" "agrees (Some (Y_String n)) x"
    obtain y where y: "act_name yyg n ctx (cfg\<lparr>root := r\<rparr>)
        = Act_Ok (ctx\<lparr>pc_setting := Some (p @ [length ?es])\<rparr>) (cfg\<lparr>root := update_at p (\<lambda>_. y) r\<rparr>)" "extended (deref r p) ?es (Some n) ?P y"
      using act_name_extends [OF ctx(1,2) _ n(1), of yyg] x n(2) by auto
    have "ctx\<lparr>pc_setting := Some (p @ [length ?es])\<rparr>
        = ctx\<lparr>pc_parent := Some p, pc_setting := Some (p @ [length ?es]), pc_string := pc_string ctx\<rparr>" using ctx(2) by (cases ctx) simp
    moreover have "yy_rule_action yyg 11 x ctx (cfg\<lparr>root := r\<rparr>) = act_name yyg n ctx (cfg\<lparr>root := r\<rparr>)"
      using ctx(5) by (simp add: yy_rule_action_def agrees_def)
    ultimately show "\<exists>p' q' b r'. yy_rule_action yyg 11 x ctx (cfg\<lparr>root := r\<rparr>)
        = Act_Ok (ctx\<lparr>pc_parent := Some p', pc_setting := q', pc_string := b\<rparr>) (cfg\<lparr>root := r'\<rparr>) \<and> ?Q p' q' (sb_string b) r'"
      using y ctx(4) by metis
  qed
  have equals: "reaches fs (conf fs cfg (5 # 1 # u # us) None ((TOK_EQUALS, None) # ts) p q' None r')
      (conf fs cfg (8 # 5 # 1 # u # us) None ts p q' None r')" for q' r'
    using shift_table(10) d by (intro reaches_shift) (simp_all add: YYFINAL_def)
  have "reaches fs (\<lambda>st. \<exists>p' q' str' r'. ?Q p' q' str' r' \<and> conf fs cfg (reduced 11 (1 # u # us)) None ((TOK_EQUALS, None) # ts) p' q' str' r' st)
    (\<lambda>st. \<exists>y. extended (deref r p) ?es (Some n) ?P y
       \<and> conf fs cfg (8 # 5 # 1 # u # us) None ts p (Some (p @ [length ?es])) None (update_at p (\<lambda>_. y) r) st)"
  proof (intro reaches_ex)
    fix p' q' str' r'
    let ?A = "\<lambda>st. ?Q p' q' str' r' \<and> conf fs cfg (reduced 11 (1 # u # us)) None ((TOK_EQUALS, None) # ts) p' q' str' r' st"
    show "reaches fs ?A (\<lambda>st. \<exists>y. extended (deref r p) ?es (Some n) ?P y
       \<and> conf fs cfg (8 # 5 # 1 # u # us) None ts p (Some (p @ [length ?es])) None (update_at p (\<lambda>_. y) r) st)"
    proof (rule reaches_assume [where H = "?Q p' q' str' r'"])
      assume Q: "?Q p' q' str' r'"
      show "reaches fs ?A (\<lambda>st. \<exists>y. extended (deref r p) ?es (Some n) ?P y
         \<and> conf fs cfg (8 # 5 # 1 # u # us) None ts p (Some (p @ [length ?es])) None (update_at p (\<lambda>_. y) r) st)"
        by (rule reaches_weaken [OF equals [of q' r']]) (use Q red in auto)
    qed simp
  qed
  then show ?thesis by (rule reaches_trans [OF reaches_trans [OF shift name]])
qed

definition member_of :: "config_setting \<Rightarrow> string \<times> content" where
  "member_of e = (member_name e, setting_content 0 e)"

lemma member_of_fun: "member_of = (\<lambda>e. (member_name e, setting_content 0 e))"
  by (simp add: member_of_def fun_eq_iff)

lemma read_members:
  assumes tab: "(a, m) \<in> set member_states"
  shows "ms \<noteq> [] \<Longrightarrow> \<forall>(n, c) \<in> set ms. config_validate_name n \<and> reads_content fs cfg semi c \<and> depth_of c \<le> k \<Longrightarrow>
    distinct (map fst (map member_of es @ ms)) \<Longrightarrow>
    u # us = a # ss \<or> u # us = m # a # ss \<Longrightarrow> config_setting_type (deref r p) = CONFIG_TYPE_GROUP \<Longrightarrow> children (deref r p) = es \<Longrightarrow>
    members_follow ts \<Longrightarrow> length ss + 16 * k + 16 < YYMAXDEPTH \<Longrightarrow>
    reaches fs (conf fs cfg (u # us) w (member_tokens semi ms @ ts) p q None r)
      (items_read member_of fs cfg (m # a # ss) ts p r (map member_of es @ ms))"
proof (induction ms arbitrary: r es u us w q)
  case (Cons nc ms)
  obtain n c where nc: "nc = (n, c)" by (cases nc)
  let ?rest = "member_tokens semi ms @ ts"
  let ?ts = "(if semi then [(TOK_SEMICOLON, None)] else []) @ ?rest"
  have c: "config_validate_name n" "reads_content fs cfg semi c" "depth_of c \<le> k" using Cons.prems(2) nc by simp_all
  have u: "u = a \<or> u = m" "length us \<le> length ss + 1" using Cons.prems(4) by auto
  have new: "Some n \<notin> s_name ` set (children (deref r p))"
  proof
    assume "Some n \<in> s_name ` set (children (deref r p))"
    then obtain e where "e \<in> set es" "s_name e = Some n" using Cons.prems(6) by auto
    then have "n \<in> set (map fst (map member_of es))" by (auto simp: member_of_def member_name_def intro!: image_eqI [of _ _ e])
    then show False using Cons.prems(3) nc by (simp only: map_append distinct_append list.map fst_conv list.set) blast
  qed
  have la: "lookahead ?rest \<in> {TOK_NAME, TOK_GROUP_END, YYEOF}"
    using Cons.prems(7) by (cases ms) (auto simp: members_follow_def)
  then have f: "follows ?ts" by (cases semi) (auto simp: follows_def follow_tokens_def)
  have d: "length (5 # 1 # u # us) + 16 * depth_of c + 8 < YYMAXDEPTH" using Cons.prems(8) c(3) u(2) by simp
  let ?A1 = "\<lambda>y st. extended (deref r p) es (Some n) (\<lambda>e. s_value e = V_None) y
      \<and> conf fs cfg (8 # 5 # 1 # u # us) None (content_tokens semi c @ ?ts) p (Some (p @ [length es])) None (update_at p (\<lambda>_. y) r) st"
  let ?goal = "items_read member_of fs cfg (m # a # ss) ts p r (map member_of es @ nc # ms)"
  have start: "reaches fs (conf fs cfg (u # us) w (member_tokens semi (nc # ms) @ ts) p q None r) (\<lambda>st. \<exists>y. ?A1 y st)"
    using member_start [OF tab u(1) _ Cons.prems(5) c(1) new, of us fs cfg w "content_tokens semi c @ ?ts" q] Cons.prems(6,8) u(2) nc by simp
  have rest: "reaches fs (\<lambda>st. \<exists>y. ?A1 y st) ?goal" if v: "valid_path r p"
  proof (intro reaches_ex)
    fix y
    show "reaches fs (?A1 y) ?goal"
    proof (rule reaches_assume [where H = "extended (deref r p) es (Some n) (\<lambda>e. s_value e = V_None) y"])
      assume y: "extended (deref r p) es (Some n) (\<lambda>e. s_value e = V_None) y"
      let ?r = "update_at p (\<lambda>_. y) r"
      have dy: "deref ?r p = y" "valid_path ?r p" using update_effects(1,2) [OF v] by simp_all
      have ty: "config_setting_type y = CONFIG_TYPE_GROUP" using y Cons.prems(5) by (simp add: extended_def)
      have pl: "place 8 (deref ?r p) es (content_type c)" using dy ty by (simp add: place_def kind_of_def)
      have aw: "awaits p (Some (p @ [length es])) (deref ?r p) es (Some n)"
        using dy ty y by (auto simp: awaits_def extended_def)
      have "reaches fs (conf fs cfg (8 # 5 # 1 # u # us) None (content_tokens semi c @ ?ts) p (Some (p @ [length es])) None ?r)
          (value_read fs cfg (after 8) (8 # 5 # 1 # u # us) ?ts p ?r es (Some n) c)"
        using c(2) pl aw f d unfolding reads_content_def by blast
      moreover have "reaches fs (value_read fs cfg (after 8) (8 # 5 # 1 # u # us) ?ts p ?r es (Some n) c) ?goal"
        unfolding value_read_def
      proof (intro reaches_ex)
        fix z q'
        let ?A2 = "\<lambda>st. extended (deref ?r p) es (Some n) (\<lambda>e. setting_content 0 e = c) z
            \<and> conf fs cfg (after 8 # 8 # 5 # 1 # u # us) None ?ts p q' None (update_at p (\<lambda>_. z) ?r) st"
        show "reaches fs ?A2 ?goal"
        proof (rule reaches_assume [where H = "extended (deref ?r p) es (Some n) (\<lambda>e. setting_content 0 e = c) z"])
          assume z: "extended (deref ?r p) es (Some n) (\<lambda>e. setting_content 0 e = c) z"
          let ?z = "update_at p (\<lambda>_. z) r"
          have zz: "update_at p (\<lambda>_. z) ?r = ?z" by (simp add: update_at_twice [OF v])
          have dz: "deref ?z p = z" "valid_path ?z p" "update_at p (\<lambda>_. x) ?z = update_at p (\<lambda>_. x) r" for x
            using update_effects(1,2) [OF v] by (simp_all add: update_at_twice [OF v])
          obtain e where e: "children z = es @ [e]" "s_name e = Some n" "setting_content 0 e = c"
              "config_setting_type z = config_setting_type (deref r p)" "s_name z = s_name (deref r p)"
            using z y dy(1) by (auto simp: extended_def)
          have me: "member_of e = nc" using e nc by (simp add: member_of_def member_name_def)
          have A: "reaches fs ?A2 (conf fs cfg (m # a # ss) None ?rest p q' None ?z)"
            by (rule reaches_weaken [OF member_end [OF tab Cons.prems(4) _ la, of fs cfg semi p q' ?z]])
              (use Cons.prems(8) zz in \<open>auto simp: after_def\<close>)
          show "reaches fs ?A2 ?goal"
          proof (cases "ms = []")
            case True
            then show ?thesis
              by (intro reaches_weaken [OF A]) (use e me in \<open>auto simp: items_read_def intro!: exI [of _ z] exI [of _ q']\<close>)
          next
            case False
            have "reaches fs (conf fs cfg (m # a # ss) None ?rest p q' None ?z)
                (items_read member_of fs cfg (m # a # ss) ts p ?z (map member_of (es @ [e]) @ ms))"
              using Cons.IH [OF False _ _ _ _ _ Cons.prems(7,8), of "es @ [e]" m "a # ss" ?z None q'] Cons.prems(2,3,5) dz(1) e me by simp
            then have "reaches fs (conf fs cfg (m # a # ss) None ?rest p q' None ?z) ?goal"
              by (rule reaches_weaken) (use dz e me in \<open>simp_all add: items_read_def\<close>)
            then show ?thesis by (rule reaches_trans [OF A])
          qed
        qed simp
      qed
      ultimately have "reaches fs (conf fs cfg (8 # 5 # 1 # u # us) None (content_tokens semi c @ ?ts) p (Some (p @ [length es])) None ?r) ?goal"
        by (rule reaches_trans)
      then show "reaches fs (?A1 y) ?goal" by (rule reaches_weaken) simp_all
    qed simp
  qed
  show ?case
  proof (rule reaches_assume [where H = "valid_path r p"])
    show "reaches fs (conf fs cfg (u # us) w (member_tokens semi (nc # ms) @ ts) p q None r) ?goal" if "valid_path r p"
      using reaches_trans [OF start rest [OF that]] .
  qed (rule valid_conf)
qed simp

section \<open>Aggregates\<close>

text \<open>An aggregate that was opened at \<open>p\<close> is filled and closed.\<close>

lemma fill_opened:
  assumes v: "valid_path r p" and y: "extended (deref r p) es nm (\<lambda>e. s_value e = zero_value ty) y" and ty: "aggregate_type ty"
  defines "r1 \<equiv> update_at p (\<lambda>_. y) r" and "p1 \<equiv> p @ [length es]"
  shows "config_setting_type (deref r1 p1) = ty" "children (deref r1 p1) = []"
    "s_name z = s_name (deref r1 p1) \<Longrightarrow> setting_content 0 z = c \<Longrightarrow>
       \<exists>x. update_at p1 (\<lambda>_. z) r1 = update_at p (\<lambda>_. x) r \<and> extended (deref r p) es nm (\<lambda>e. setting_content 0 e = c) x"
proof -
  obtain e where e: "children y = es @ [e]" "s_name e = nm" "s_value e = zero_value ty"
      "config_setting_type y = config_setting_type (deref r p)" "s_name y = s_name (deref r p)"
    using y by (auto simp: extended_def)
  have d: "deref r1 p1 = e" using update_effects(2) [OF v] e(1) by (simp add: r1_def p1_def deref_append)
  show "config_setting_type (deref r1 p1) = ty" "children (deref r1 p1) = []"
    using empty_aggregate(1,2) [OF ty e(3)] d by simp_all
  assume z: "s_name z = s_name (deref r1 p1)" "setting_content 0 z = c"
  have "update_at p1 (\<lambda>_. z) r1 = update_at p (\<lambda>_. put_child (length es) z y) r"
    unfolding r1_def p1_def by (rule update_child [OF v])
  moreover have "extended (deref r p) es nm (\<lambda>e. setting_content 0 e = c) (put_child (length es) z y)"
    using extended_put [OF e(1), of z "\<lambda>e. setting_content 0 e = c"] z d e by (simp add: extended_def)
  ultimately show "\<exists>x. update_at p1 (\<lambda>_. z) r1 = update_at p (\<lambda>_. x) r \<and> extended (deref r p) es nm (\<lambda>e. setting_content 0 e = c) x"
    by blast
qed

lemma read_aggregate:
  assumes op: "(tok, s, rule, u, ty) \<in> set openings" and cl: "(tok', m, s', rule', u, s, g, rule'') \<in> set closings"
    and t: "t \<in> {8, 26, 42}" "config_setting_type (deref r p) = kind_of t" "awaits p q (deref r p) es nm" and d: "length ss + 8 < YYMAXDEPTH"
    and inner: "\<And>p1 q1 r1. config_setting_type (deref r1 p1) = ty \<Longrightarrow> children (deref r1 p1) = [] \<Longrightarrow>
      reaches fs (conf fs cfg (u # s # t # ss) None (toks @ (tok', None) # ts) p1 q1 None r1)
        (items_read f fs cfg (m # u # s # t # ss) ((tok', None) # ts) p1 r1 cs)"
    and c: "\<And>y. config_setting_type y = ty \<Longrightarrow> map f (children y) = cs \<Longrightarrow> setting_content 0 y = c"
  shows "reaches fs (conf fs cfg (t # ss) w ((tok, None) # toks @ (tok', None) # ts) p q None r)
    (value_read fs cfg (after t) (t # ss) ts p r es nm c)"
proof (rule reaches_assume [where H = "valid_path r p", OF valid_conf])
  assume v: "valid_path r p"
  have ty: "aggregate_type ty" using op by (auto simp: openings_def aggregate_type_def)
  let ?B = "\<lambda>y q' st. extended (deref r p) es nm (\<lambda>e. s_value e = zero_value ty) y
      \<and> conf fs cfg (u # s # t # ss) None (toks @ (tok', None) # ts) (p @ [length es]) q' None (update_at p (\<lambda>_. y) r) st"
  have "reaches fs (\<lambda>st. \<exists>y q'. ?B y q' st) (value_read fs cfg (after t) (t # ss) ts p r es nm c)"
  proof (intro reaches_ex)
    fix y q'
    show "reaches fs (?B y q') (value_read fs cfg (after t) (t # ss) ts p r es nm c)"
    proof (rule reaches_assume [where H = "extended (deref r p) es nm (\<lambda>e. s_value e = zero_value ty) y"])
      assume y: "extended (deref r p) es nm (\<lambda>e. s_value e = zero_value ty) y"
      let ?r1 = "update_at p (\<lambda>_. y) r" and ?p1 = "p @ [length es]"
      note fo = fill_opened [OF v y ty]
      have "reaches fs (items_read f fs cfg (m # u # s # t # ss) ((tok', None) # ts) ?p1 ?r1 cs)
          (value_read fs cfg (after t) (t # ss) ts p r es nm c)"
        unfolding items_read_def
      proof (intro reaches_ex)
        fix z q2
        let ?C = "\<lambda>st. config_setting_type z = config_setting_type (deref ?r1 ?p1) \<and> s_name z = s_name (deref ?r1 ?p1)
            \<and> map f (children z) = cs
            \<and> conf fs cfg (m # u # s # t # ss) None ((tok', None) # ts) ?p1 q2 None (update_at ?p1 (\<lambda>_. z) ?r1) st"
        show "reaches fs ?C (value_read fs cfg (after t) (t # ss) ts p r es nm c)"
        proof (rule reaches_assume [where H = "config_setting_type z = config_setting_type (deref ?r1 ?p1)
            \<and> s_name z = s_name (deref ?r1 ?p1) \<and> map f (children z) = cs"])
          assume z: "config_setting_type z = config_setting_type (deref ?r1 ?p1) \<and> s_name z = s_name (deref ?r1 ?p1) \<and> map f (children z) = cs"
          then have "setting_content 0 z = c" using c [of z] fo(1) by simp
          then obtain x where x: "update_at ?p1 (\<lambda>_. z) ?r1 = update_at p (\<lambda>_. x) r"
              "extended (deref r p) es nm (\<lambda>e. setting_content 0 e = c) x" using fo(3) z by blast
          show "reaches fs ?C (value_read fs cfg (after t) (t # ss) ts p r es nm c)"
            by (rule reaches_weaken [OF read_close [OF cl t(1) d, of fs cfg None ts p "length es" q2 "update_at p (\<lambda>_. x) r"]])
              (use x in \<open>auto simp: value_read_def\<close>)
        qed simp
      qed
      then have "reaches fs (conf fs cfg (u # s # t # ss) None (toks @ (tok', None) # ts) ?p1 q' None ?r1)
          (value_read fs cfg (after t) (t # ss) ts p r es nm c)"
        by (rule reaches_trans [OF inner [OF fo(1,2)]])
      then show "reaches fs (?B y q') (value_read fs cfg (after t) (t # ss) ts p r es nm c)" by (rule reaches_weaken) simp_all
    qed simp
  qed
  then show "reaches fs (conf fs cfg (t # ss) w ((tok, None) # toks @ (tok', None) # ts) p q None r)
      (value_read fs cfg (after t) (t # ss) ts p r es nm c)"
    by (rule reaches_trans [OF read_open [OF op t d]])
qed

text \<open>The end of the elements or members.\<close>

lemma items_end:
  assumes s: "(s, a, tok, rule, m) \<in> set [(33, 25, TOK_ARRAY_END, 37 :: nat, 34), (36, 26, TOK_LIST_END, 33, 37), (38, 27, TOK_GROUP_END, 7, 39)]"
    and d: "length ss + 8 < YYMAXDEPTH"
  shows "reaches fs (items_read f fs cfg (s # a # ss) ((tok, v) # ts) p r cs) (items_read f fs cfg (m # a # ss) ((tok, v) # ts) p r cs)"
proof -
  have "list_all (\<lambda>(s, a, tok, rule, m). reduces_by s tok = Some rule \<and> quiet rule \<and> yyr2 ! rule = 1
      \<and> nat (yygoto (yyr1 ! rule - YYNTOKENS) a) = m)
    [(33, 25, TOK_ARRAY_END, 37 :: nat, 34), (36, 26, TOK_LIST_END, 33, 37), (38, 27, TOK_GROUP_END, 7, 39)]" by code_simp
  from bspec [OF this [unfolded list_all_iff] s]
  have f: "reduces_by s tok = Some rule" "quiet rule" "yyr2 ! rule = 1" "nat (yygoto (yyr1 ! rule - YYNTOKENS) a) = m" by simp_all
  have red: "reduced rule (s # a # ss) = m # a # ss" using f(3,4) by (simp add: reduced_def)
  have r: "reaches fs (conf fs cfg (s # a # ss) None ((tok, v) # ts) p q None r') (conf fs cfg (m # a # ss) None ((tok, v) # ts) p q None r')" for q r'
    using reaches_quiet [of s "(tok, v) # ts" rule "a # ss"] f(1,2) red d by simp
  show ?thesis
    unfolding items_read_def [of f fs cfg "s # a # ss"]
  proof (intro reaches_ex)
    fix y q
    let ?H = "config_setting_type y = config_setting_type (deref r p) \<and> s_name y = s_name (deref r p) \<and> map f (children y) = cs"
    let ?A = "\<lambda>st. config_setting_type y = config_setting_type (deref r p) \<and> s_name y = s_name (deref r p) \<and> map f (children y) = cs
        \<and> conf fs cfg (s # a # ss) None ((tok, v) # ts) p q None (update_at p (\<lambda>_. y) r) st"
    show "reaches fs ?A (items_read f fs cfg (m # a # ss) ((tok, v) # ts) p r cs)"
    proof (rule reaches_assume [where H = ?H])
      assume ?H
      then show "reaches fs ?A (items_read f fs cfg (m # a # ss) ((tok, v) # ts) p r cs)"
        by (intro reaches_weaken [OF r [of q "update_at p (\<lambda>_. y) r"]]) (auto simp: items_read_def)
    qed simp
  qed
qed

lemma update_at_self: "update_at p (\<lambda>_. deref r p) r = r"
proof (induction p arbitrary: r)
  case (Cons i p)
  have "put_child i (children s ! i) s = s" for s
  proof -
    obtain n f v h l x where s: "s = Setting n f v h l x" by (cases s)
    have "Config_List ((elements k)[i := elements k ! i]) (capacity k) = k" for k by (cases k) simp
    then show ?thesis using s by (cases v) (simp_all add: put_child_def children_def split: option.split)
  qed
  then show ?case using Cons by simp
qed simp

lemma no_items:
  assumes s: "(a, tok, rule, m) \<in> set [(25, TOK_ARRAY_END, 36 :: nat, 34), (26, TOK_LIST_END, 32, 37), (27, TOK_GROUP_END, 6, 39)]"
    and d: "length ss + 8 < YYMAXDEPTH" and c: "children (deref r p) = []"
  shows "reaches fs (conf fs cfg (a # ss) None ((tok, v) # ts) p q None r) (items_read f fs cfg (m # a # ss) ((tok, v) # ts) p r [])"
proof -
  have "list_all (\<lambda>(a, tok, rule, m). reduces_by a tok = Some rule \<and> quiet rule \<and> yyr2 ! rule = 0
      \<and> nat (yygoto (yyr1 ! rule - YYNTOKENS) a) = m)
    [(25, TOK_ARRAY_END, 36 :: nat, 34), (26, TOK_LIST_END, 32, 37), (27, TOK_GROUP_END, 6, 39)]" by code_simp
  from bspec [OF this [unfolded list_all_iff] s]
  have f: "reduces_by a tok = Some rule" "quiet rule" "yyr2 ! rule = 0" "nat (yygoto (yyr1 ! rule - YYNTOKENS) a) = m" by simp_all
  have red: "reduced rule (a # ss) = m # a # ss" using f(3,4) by (simp add: reduced_def)
  have "reaches fs (conf fs cfg (a # ss) None ((tok, v) # ts) p q None r) (conf fs cfg (m # a # ss) None ((tok, v) # ts) p q None r)"
    using reaches_quiet [of a "(tok, v) # ts" rule ss] f(1,2) red d by simp
  then show ?thesis
    by (rule reaches_weaken)
      (use c update_at_self [of p r] in \<open>auto simp: items_read_def intro!: exI [of _ "deref r p"] exI [of _ q]\<close>)
qed

lemma element_depth: "c \<in> set cs \<Longrightarrow> depth_of c \<le> foldr max (map depth_of cs) 0"
  by (rule foldr_max_ge) simp

lemma member_depth: "(n, c) \<in> set ms \<Longrightarrow> depth_of c \<le> foldr max (map (\<lambda>(n, c). depth_of c) ms) 0"
  by (rule foldr_max_ge) force

lemma scalar_types: "scalar_content c \<Longrightarrow> scalar_type (content_type c) \<and> depth_of c = 0"
  by (cases c) (auto simp: scalar_content_def scalar_type_def config_types)

lemma place_aggregate:
  assumes "place t x es ty" "aggregate_type ty"
  shows "t \<in> {8, 26, 42}" "config_setting_type x = kind_of t"
proof -
  have "\<not> scalar_type ty" using assms(2) by (auto simp: aggregate_type_def scalar_type_def config_types)
  then show "t \<in> {8, 26, 42}" "config_setting_type x = kind_of t" using assms(1) by (auto simp: place_def)
qed

text \<open>The inside of an array or a list, and of a group.\<close>

lemma read_vector:
  assumes v: "(a, b :: nat, s :: nat, tok, m, ty) \<in> set [(25, 40, 33, TOK_ARRAY_END, 34, CONFIG_TYPE_ARRAY), (26, 42, 36, TOK_LIST_END, 37, CONFIG_TYPE_LIST)]"
    and cs: "\<forall>c \<in> set cs. reads_content fs cfg semi c \<and> depth_of c \<le> n \<and> (a = 25 \<longrightarrow> content_type c = ty' \<and> scalar_type ty')"
    and x: "config_setting_type (deref r p) = ty" "children (deref r p) = []" and d: "length ss + 16 * n + 16 < YYMAXDEPTH"
  shows "reaches fs (conf fs cfg (a # ss) None (element_tokens semi cs @ (tok, None) # ts) p q None r)
    (items_read (setting_content 0) fs cfg (m # a # ss) ((tok, None) # ts) p r cs)"
proof (cases "cs = []")
  case True
  then show ?thesis
    using v no_items [of 25 TOK_ARRAY_END 36 34, OF _ _ x(2), where f = "setting_content 0"]
      no_items [of 26 TOK_LIST_END 32 37, OF _ _ x(2), where f = "setting_content 0"] d by auto
next
  case False
  have tab: "(a, b, s) \<in> set element_states" "config_setting_type (deref r p) = kind_of a" "follows ((tok, None) # ts)"
    using v x(1) by (auto simp: element_states_def kind_of_def follows_simps)
  have items: "reaches fs (conf fs cfg (a # ss) None (element_tokens semi cs @ (tok, None) # ts) p q None r)
      (items_read (setting_content 0) fs cfg (s # a # ss) ((tok, None) # ts) p r (map (setting_content 0) [] @ cs))"
    by (rule read_elements [OF tab(1) False cs _ tab(2) x(2) _ tab(3) d]) simp_all
  have "reaches fs (items_read (setting_content 0) fs cfg (s # a # ss) ((tok, None) # ts) p r cs)
      (items_read (setting_content 0) fs cfg (m # a # ss) ((tok, None) # ts) p r cs)"
    using v items_end [of 33 25 TOK_ARRAY_END 37 34 ss fs "setting_content 0"] items_end [of 36 26 TOK_LIST_END 33 37 ss fs "setting_content 0"] d by auto
  then show ?thesis using reaches_trans [OF items] by simp
qed

lemma read_group:
  assumes ms: "\<forall>(n, c) \<in> set ms. config_validate_name n \<and> reads_content fs cfg semi c \<and> depth_of c \<le> k" "distinct (map fst ms)"
    and x: "config_setting_type (deref r p) = CONFIG_TYPE_GROUP" "children (deref r p) = []" and d: "length ss + 16 * k + 16 < YYMAXDEPTH"
  shows "reaches fs (conf fs cfg (27 # ss) None (member_tokens semi ms @ (TOK_GROUP_END, None) # ts) p q None r)
    (items_read member_of fs cfg (39 # 27 # ss) ((TOK_GROUP_END, None) # ts) p r ms)"
proof (cases "ms = []")
  case True
  then show ?thesis using no_items [of 27 TOK_GROUP_END 6 39, OF _ _ x(2), where f = member_of] d by simp
next
  case False
  have items: "reaches fs (conf fs cfg (27 # ss) None (member_tokens semi ms @ (TOK_GROUP_END, None) # ts) p q None r)
      (items_read member_of fs cfg (38 # 27 # ss) ((TOK_GROUP_END, None) # ts) p r (map member_of [] @ ms))"
    by (rule read_members [OF _ False ms(1) _ _ x(1,2) _ d]) (use ms(2) in \<open>simp_all add: member_states_def members_follow_def\<close>)
  then show ?thesis using reaches_trans [OF _ items_end [of 38 27 TOK_GROUP_END 7 39 ss fs member_of]] d by simp
qed

lemma reads_aggregate:
  assumes op: "(tok, s, rule, u, ty) \<in> set openings" and cl: "(tok', m, s', rule', u, s, g, rule'') \<in> set closings"
    and c: "content_type c = ty" "content_tokens semi c = (tok, None) # toks @ [(tok', None)]"
    and inner: "\<And>ss ts p q r. config_setting_type (deref r p) = ty \<Longrightarrow> children (deref r p) = [] \<Longrightarrow>
      length ss + 16 * depth_of c + 7 < YYMAXDEPTH \<Longrightarrow>
      reaches fs (conf fs cfg (u # s # ss) None (toks @ (tok', None) # ts) p q None r)
        (items_read f fs cfg (m # u # s # ss) ((tok', None) # ts) p r cs)"
    and content: "\<And>y. config_setting_type y = ty \<Longrightarrow> map f (children y) = cs \<Longrightarrow> setting_content 0 y = c"
    and depth: "1 \<le> depth_of c"
  shows "reads_content fs cfg semi c"
  unfolding reads_content_def
proof (intro allI impI)
  fix t r p q es nm w ts and ss :: "nat list"
  assume a: "place t (deref r p) es (content_type c)" "awaits p q (deref r p) es nm" "follows ts" "length ss + 16 * depth_of c + 8 < YYMAXDEPTH"
  have "aggregate_type ty" using op by (auto simp: openings_def aggregate_type_def)
  then have t: "t \<in> {8, 26, 42}" "config_setting_type (deref r p) = kind_of t" using place_aggregate [OF a(1)] c(1) by simp_all
  have "reaches fs (conf fs cfg (t # ss) w ((tok, None) # toks @ (tok', None) # ts) p q None r) (value_read fs cfg (after t) (t # ss) ts p r es nm c)"
    by (rule read_aggregate [OF op cl t a(2) _ inner content]) (use a(4) depth in simp_all)
  then show "reaches fs (conf fs cfg (t # ss) w (content_tokens semi c @ ts) p q None r) (value_read fs cfg (after t) (t # ss) ts p r es nm c)"
    by (simp add: c(2))
qed

lemma reads_scalar: "scalar_content c \<Longrightarrow> plain c \<Longrightarrow> reads_content fs cfg semi c"
  unfolding reads_content_def using read_scalar scalar_types by (metis add_0_right mult_0_right)

lemma reads_plain: "plain c \<Longrightarrow> reads_content fs cfg semi c"
proof (induction c)
  case (C_Array cs)
  have cs: "\<forall>c \<in> set cs. reads_content fs cfg semi c \<and> depth_of c \<le> 0 \<and> (25 = (25 :: nat) \<longrightarrow>
      content_type c = content_type (hd cs) \<and> scalar_type (content_type (hd cs)))"
    using C_Array scalar_types unfolding plain.simps list_all_iff by (metis le_zero_eq)
  show ?case
    by (rule reads_aggregate [where ty = CONFIG_TYPE_ARRAY and f = "setting_content 0" and cs = cs and toks = "element_tokens semi cs"
          and u = 25 and s = 16 and m = 34 and tok = TOK_ARRAY_START and tok' = TOK_ARRAY_END])
      (use read_vector [of 25 40 33 TOK_ARRAY_END 34, OF _ cs] in \<open>simp_all add: openings_def closings_def setting_content_children\<close>)
next
  case (C_List cs)
  have cs: "\<forall>c \<in> set cs. reads_content fs cfg semi c \<and> depth_of c \<le> foldr max (map depth_of cs) 0 \<and> (26 = (25 :: nat) \<longrightarrow>
      content_type c = 0 \<and> scalar_type 0)"
    using C_List element_depth by (simp add: list_all_iff)
  show ?case
    by (rule reads_aggregate [where ty = CONFIG_TYPE_LIST and f = "setting_content 0" and cs = cs and toks = "element_tokens semi cs"
          and u = 26 and s = 17 and m = 37 and tok = TOK_LIST_START and tok' = TOK_LIST_END])
      (use read_vector [of 26 42 36 TOK_LIST_END 37, OF _ cs] in \<open>simp_all add: openings_def closings_def setting_content_children\<close>)
next
  case (C_Group ms)
  have "reads_content fs cfg semi c" if "(n, c) \<in> set ms" "plain c" for n c
    using C_Group.IH [OF that(1), of c] that(2) by (simp add: snds.simps)
  then have ms: "\<forall>(n, c) \<in> set ms. config_validate_name n \<and> reads_content fs cfg semi c
      \<and> depth_of c \<le> foldr max (map (\<lambda>(n, c). depth_of c) ms) 0" "distinct (map fst ms)"
    using C_Group.prems member_depth by (auto simp: list_all_iff)
  show ?case
    by (rule reads_aggregate [where ty = CONFIG_TYPE_GROUP and f = member_of and cs = ms and toks = "member_tokens semi ms"
          and u = 27 and s = 18 and m = 39 and tok = TOK_GROUP_START and tok' = TOK_GROUP_END])
      (use read_group [OF ms] in \<open>simp_all add: openings_def closings_def setting_content_children flip: member_of_fun\<close>)
qed (simp_all add: reads_scalar scalar_content_def)

section \<open>The whole input\<close>

lemma plain_members:
  assumes "plain (C_Group ms)"
  shows "\<forall>(n, c) \<in> set ms. config_validate_name n \<and> reads_content fs cfg semi c \<and> depth_of c \<le> foldr max (map (\<lambda>(n, c). depth_of c) ms) 0"
    "distinct (map fst ms)"
proof -
  have "config_validate_name n \<and> plain c" if "(n, c) \<in> set ms" for n c
    using assms that unfolding plain.simps list_all_iff by (blast dest: bspec)
  then show "\<forall>(n, c) \<in> set ms. config_validate_name n \<and> reads_content fs cfg semi c \<and> depth_of c \<le> foldr max (map (\<lambda>(n, c). depth_of c) ms) 0"
    using reads_plain member_depth [of _ _ ms] by (intro ballI) (simp only: split_paired_all prod.case simp_thms)
  show "distinct (map fst ms)" using assms by simp
qed

text \<open>Only the end of the input is missing.\<close>

lemma read_root:
  assumes ms: "plain (C_Group ms)" "16 * depth_of (C_Group ms) + 16 < YYMAXDEPTH"
    and x: "config_setting_type r = CONFIG_TYPE_GROUP" "children r = []"
  shows "reaches fs (conf fs cfg [0] None (member_tokens semi ms) [] q None r)
    (\<lambda>st. \<exists>y q. config_setting_type y = CONFIG_TYPE_GROUP \<and> map member_of (children y) = ms \<and> conf fs cfg [2, 0] None [] [] q None y st)"
proof -
  have red: "reduces_by 0 YYEOF = Some 2 \<and> reduces_by 3 YYEOF = Some 3 \<and> quiet 2 \<and> quiet 3
      \<and> reduced 2 [0] = [2, 0] \<and> reduced 3 [3, 0] = [2, 0]" by code_simp
  show ?thesis
  proof (cases "ms = []")
    case True
    have "reaches fs (conf fs cfg [0] None [] [] q None r) (conf fs cfg [2, 0] None [] [] q None r)"
      using reaches_quiet [of 0 "[]" 2 "[]" fs cfg None "[]" q None r] red by (simp add: YYMAXDEPTH_def)
    then show ?thesis by (rule reaches_weaken) (use True x in \<open>auto intro!: exI [of _ r] exI [of _ q]\<close>)
  next
    case False
    have "reaches fs (conf fs cfg [0] None (member_tokens semi ms @ []) [] q None r)
        (items_read member_of fs cfg [3, 0] [] [] r (map member_of [] @ ms))"
      by (rule read_members [OF _ False plain_members(1) [OF ms(1)], where r = r])
        (use ms x in \<open>simp_all add: member_states_def members_follow_def\<close>)
    moreover have "reaches fs (items_read member_of fs cfg [3, 0] [] [] r (map member_of [] @ ms))
        (\<lambda>st. \<exists>y q. config_setting_type y = CONFIG_TYPE_GROUP \<and> map member_of (children y) = ms \<and> conf fs cfg [2, 0] None [] [] q None y st)"
      unfolding items_read_def
    proof (intro reaches_ex)
      fix y q'
      let ?H = "config_setting_type y = config_setting_type (deref r []) \<and> s_name y = s_name (deref r []) \<and> map member_of (children y) = map member_of [] @ ms"
      let ?A = "\<lambda>st. config_setting_type y = config_setting_type (deref r []) \<and> s_name y = s_name (deref r [])
          \<and> map member_of (children y) = map member_of [] @ ms \<and> conf fs cfg [3, 0] None [] [] q' None (update_at [] (\<lambda>_. y) r) st"
      let ?B = "\<lambda>st. \<exists>y q. config_setting_type y = CONFIG_TYPE_GROUP \<and> map member_of (children y) = ms \<and> conf fs cfg [2, 0] None [] [] q None y st"
      have end_run: "reaches fs (conf fs cfg [3, 0] None [] [] q' None y) (conf fs cfg [2, 0] None [] [] q' None y)"
        using reaches_quiet [of 3 "[]" 3 "[0]" fs cfg None "[]" q' None y] red by (simp add: YYMAXDEPTH_def)
      show "reaches fs ?A ?B"
      proof (rule reaches_assume [where H = ?H])
        assume ?H
        then show "reaches fs ?A ?B" by (intro reaches_weaken [OF end_run]) (auto simp: x)
      qed simp
    qed
    ultimately show ?thesis using reaches_trans by simp
  qed
qed

text \<open>Then the end of the input is shifted, and the parser accepts.\<close>

lemma accepts:
  assumes "conf fs cfg [2, 0] None [] p q None r st"
  shows "\<exists>st'. yybackup fs st = Some (Parse_Returns 0 st') \<and> ps_config st' = cfg\<lparr>root := r\<rparr> \<and> finished (ps_scanner st')"
proof -
  define st1 where "st1 = yyread fs st"
  have a: "ahead fs [] st" "ps_yyss st = [2, 0]" "parse_ok st" "ps_config st = cfg\<lparr>root := r\<rparr>" using assms by (simp_all add: conf_def)
  note rd = yyread_ahead [OF a(1), folded st1_def]
  obtain c l g where f: "st1 = st\<lparr>ps_char := c, ps_lval := l, ps_scanner := g\<rparr>" using rd(4) by blast
  have s: "shift_to 2 YYEOF = Some 6" by (rule shift_table(11))
  then have n: "yypact ! 2 \<noteq> YYPACT_NINF" by (auto simp: shift_to_def Let_def split: if_splits)
  let ?st = "st1\<lparr>ps_char := None, ps_errstatus := ps_errstatus st1 - 1, ps_yyvs := ps_lval st1 # ps_yyvs st1\<rparr>"
  have y: "yybackup fs st = Some (yynewstate 6 ?st)"
    using rd(3) n a(2) shift_unfold [OF s, of st1 "[0]"] f by simp
  have "length (ps_yyss ?st) < ps_stacksize ?st" "ps_stacksize ?st \<le> YYMAXDEPTH" "Suc (length (ps_yyss ?st)) < YYMAXDEPTH"
    using a(2,3) f by (auto simp: parse_ok_def YYMAXDEPTH_def)
  from yynewstate_fits [OF this, of 6]
  have "\<exists>n. yynewstate 6 ?st = Parse_Returns 0 (?st\<lparr>ps_yyss := 6 # ps_yyss ?st, ps_stacksize := n\<rparr>)" by (simp add: YYFINAL_def)
  moreover have "finished (ps_scanner st1)" using rd(1,2) by (simp add: ahead_def)
  ultimately show ?thesis using y f a(4) by auto
qed

end
