(* ===== verification/Reader_Total.thy ===== *)
theory Reader_Total
  imports Parser_Total Config_Reader "HOL-Library.Multiset"
begin

text \<open>
  Reading a configuration always comes to an end, releases every include file it has opened,
  and leaves a well-formed tree.
\<close>

section \<open>Streams\<close>

definition opened :: "stream_event list \<Rightarrow> string list" where
  "opened es = List.map_filter (\<lambda>e. case e of Fopen p \<Rightarrow> Some p | Fclose p \<Rightarrow> None) es"

definition closed_streams :: "stream_event list \<Rightarrow> string list" where
  "closed_streams es = List.map_filter (\<lambda>e. case e of Fopen p \<Rightarrow> None | Fclose p \<Rightarrow> Some p) es"

lemma stream_lists [simp]:
  "opened [] = []" "opened (Fopen p # es) = p # opened es" "opened (Fclose p # es) = opened es"
  "closed_streams [] = []" "closed_streams (Fopen p # es) = closed_streams es" "closed_streams (Fclose p # es) = p # closed_streams es"
  by (simp_all add: opened_def closed_streams_def List.map_filter_simps)

lemma stream_lists_append [simp]:
  "opened (a @ b) = opened a @ opened b" "closed_streams (a @ b) = closed_streams a @ closed_streams b"
  by (simp_all add: opened_def closed_streams_def List.map_filter_def)

lemma closing_all [simp]: "opened (map Fclose ps) = []" "closed_streams (map Fclose ps) = ps"
  by (induction ps) simp_all

lemma still_open_balance: "still_open st es = Some st' \<Longrightarrow> mset st + mset (opened es) = mset (closed_streams es) + mset st'"
proof (induction st es rule: still_open.induct)
  case (3 st p es)
  then have "st \<noteq> []" "last st = p" "still_open (butlast st) es = Some st'" by (auto split: if_splits)
  moreover from this have "mset st = add_mset p (mset (butlast st))"
    by (metis append_butlast_last_id mset.simps add_mset_add_single mset_append)
  ultimately show ?case using 3 by simp
qed auto

lemma cleanup_balance:
  assumes "scanctx_ok ctx" "scanctx_cleanup ctx = (names, ctx')"
  shows "mset (opened (sc_log ctx')) = mset (closed_streams (sc_log ctx'))"
proof -
  have "still_open [] (sc_log ctx) = Some (take (sc_depth ctx) (sc_streams ctx))" using assms(1) by (simp add: scanctx_ok_def)
  from still_open_balance [OF this] show ?thesis using assms(2) by (auto simp: scanctx_cleanup_def)
qed

lemma unwind_ok: "scanctx_ok ctx \<Longrightarrow> scanctx_ok (unwind_includes n ctx)"
proof (induction n ctx rule: unwind_includes.induct)
  case (2 n ctx)
  obtain b c where p: "scanctx_pop_include ctx = (b, c)" by fastforce
  then have "scanctx_ok c" using scanctx_pop_ok(1) [OF 2(2)] by simp
  then show ?case using 2(1) p by (cases b) simp_all
qed simp

lemma scanctx_init_ok:
  "\<exists>ctx :: 'b scan_context. scanctx_init filename = Ptr ctx \<and> scanctx_ok ctx \<and> sc_depth ctx = 0 \<and> sc_log ctx = []
     \<and> sc_string ctx = strbuf_zero"
proof (cases filename)
  case None
  then show ?thesis by (simp add: scanctx_init_def scanctx_zero_def) (simp flip: scanctx_zero_def)
next
  case (Some f)
  obtain ctx :: "'b scan_context" where c: "scanctx_add_filename scanctx_zero f = Ptr (f, ctx)" "scanctx_ok ctx"
      "set (sc_filenames ctx) = insert f (set (sc_filenames (scanctx_zero :: 'b scan_context)))"
      "\<exists>r ns. ctx = scanctx_zero\<lparr>sc_filenames := ns, sc_room := r\<rparr>"
    by (rule scanctx_add_filename_ok [OF scanctx_zero_ok, of f])
  then have "scanctx_ok (ctx\<lparr>sc_top_filename := Some f\<rparr>)" by (auto simp: scanctx_ok_def)
  moreover have "sc_depth ctx = 0 \<and> sc_log ctx = [] \<and> sc_string ctx = strbuf_zero"
    using c(4) by (auto simp: scanctx_zero_def)
  ultimately show ?thesis using Some c(1) by (simp add: scanctx_init_def)
qed

section \<open>Reading returns\<close>

text \<open>
  What a read promises: streams that were opened are closed, the tree is well formed, its
  arrays hold scalars of one type and its settings have no hooks; after a success every setting has a value, after a failure
  there is a message.
\<close>

definition read_ok :: "read_result \<Rightarrow> bool" where
  "read_ok r =
     (case r of
        Read_Done ok config echoed es \<Rightarrow> wf_setting (root config) \<and> tidy (root config)
          \<and> mset (opened es) = mset (closed_streams es)
          \<and> (if ok then nones (root config) = 0
             else error_text config \<noteq> None \<and> error_type config = CONFIG_ERR_PARSE)
      | Read_Exit m \<Rightarrow> m = ''input in flex scanner failed''
      | Read_Undefined \<Rightarrow> False
      | Read_Range \<Rightarrow> True)"

lemma config_read_end_ok:
  assumes "end_ok r st"
  shows "read_ok (config_read_end r (ps_config st) (ps_scanner st))"
proof -
  let ?ctx = "yy_extra (ps_scanner st)"
  define ctx1 where "ctx1 = (if r \<noteq> 0 then unwind_includes (sc_depth ?ctx) ?ctx else ?ctx)"
  obtain names ctx2 where c: "scanctx_cleanup ctx1 = (names, ctx2)" by fastforce
  have "scanctx_ok ctx1" using assms unwind_ok [of ?ctx "sc_depth ?ctx"] by (simp add: end_ok_def yy_ok_def ctx1_def)
  then have "mset (opened (sc_log ctx2)) = mset (closed_streams (sc_log ctx2))" using c by (rule cleanup_balance)
  then show ?thesis
    using assms c by (simp add: read_ok_def config_read_end_def Let_def end_ok_def split: if_splits flip: ctx1_def)
qed

lemma config_read_p_returns: "\<exists>r. config_read_p fs config src filename = Some r \<and> read_ok r"
proof -
  obtain ctx :: "yy_buffer_state scan_context" where ctx: "scanctx_init filename = Ptr ctx" "scanctx_ok ctx" using scanctx_init_ok by blast
  let ?yyg = "yylex_init_extra ctx (source_buffer src)"
  let ?config = "update_setting [] (\<lambda>s. case s of Setting n f v h l _ \<Rightarrow> Setting n f v h l (scanctx_current_filename ctx))
    (config_reinit config)"
  let ?pctx = "parsectx_init\<lparr>pc_parent := Some [], pc_setting := Some []\<rparr>"
  define s where "s = Setting None 0 (V_Group None) 0 0 (scanctx_current_filename ctx)"
  have root: "root ?config = s" by (simp add: config_reinit_def config_init_def s_def)
  have s: "wf_setting s" "tidy s" "nones s = 0" "config_setting_type s = CONFIG_TYPE_GROUP"
    by (simp_all add: s_def tidy_iff [of s, unfolded s_def] array_ok_def config_setting_type_def config_types children_def)
  have "yy_ok ?yyg" using ctx(2) by (simp add: yy_ok_def yylex_init_extra_def)
  then obtain r where r: "yyparse fs ?yyg ?pctx ?config = Some r" "\<forall>st. r \<noteq> Parse_Goes_On st"
      "step_ok (yyparse_start ?yyg ?pctx ?config) r"
    using yyparse_returns [of ?yyg ?config ?pctx fs] s root by (auto simp: parsectx_init_def)
  then show ?thesis
    using ctx(1) config_read_end_ok
    by (cases r) (auto simp: config_read_p_def step_ok_def read_ok_def [of Read_Range] read_ok_def [of "Read_Exit _"])
qed

text \<open>
  C33. Reading a configuration comes to an end, whatever the text, the file system and the
  include files, and never leaves a table, a stack or a list. The tree it leaves is well
  formed: valid and distinct names in groups, arrays of scalars of one type, and no hook on any
  setting. Every include
  file that was opened is closed exactly once. After a success every setting has a value;
  after a failure there is a message and the parse error is noted. A file that does not exist,
  or is a directory, leaves the configuration as it was but for the error.
\<close>

theorem reading_returns:
  "\<exists>r1 r2 r3. config_read_string fs config str = Some r1 \<and> read_ok r1
     \<and> config_read fs config stream = Some r2 \<and> read_ok r2
     \<and> config_read_file fs config filename = Some r3
     \<and> (case fs filename of Some (Regular t) \<Rightarrow> read_ok r3
          | _ \<Rightarrow> r3 = Read_Done False (config\<lparr>error_text := Some io_error, error_type := CONFIG_ERR_FILE_IO\<rparr>) [] [])"
proof -
  obtain r1 where "config_read_string fs config str = Some r1 \<and> read_ok r1"
    using config_read_p_returns unfolding config_read_string_def by blast
  moreover obtain r2 where "config_read fs config stream = Some r2 \<and> read_ok r2"
    using config_read_p_returns unfolding config_read_def by blast
  moreover have "\<exists>r3. config_read_file fs config filename = Some r3 \<and> (case fs filename of Some (Regular t) \<Rightarrow> read_ok r3
      | _ \<Rightarrow> r3 = Read_Done False (config\<lparr>error_text := Some io_error, error_type := CONFIG_ERR_FILE_IO\<rparr>) [] [])"
    using config_read_p_returns by (auto simp: config_read_file_def split: option.split file_node.split)
  ultimately show ?thesis by blast
qed

end
