(* ===== verification/Write_Read.thy ===== *)
theory Write_Read
  imports Write_Tokens Parse_Contents Reader_Total
begin

text \<open>
  Writing a configuration and reading the file again gives a configuration with the same
  content.
\<close>

section \<open>Reading tokens\<close>

lemma text_feeds: "text_tokens fs input ts [] \<Longrightarrow> reads 1 [] input g \<Longrightarrow> delivers fs ts g"
  unfolding text_tokens_def delivers_def by blast

text \<open>The input is a text whose tokens are the members of a group.\<close>

lemma config_read_p_members:
  assumes src: "yy_input (source_buffer src) = input" "yy_readable (source_buffer src)" "text_tokens fs input (member_tokens semi ms) []"
    and ms: "plain (C_Group ms)" "16 * depth_of (C_Group ms) + 16 < YYMAXDEPTH"
  shows "\<exists>c. config_read_p fs config src filename = Some (Read_Done True c [] []) \<and> config_content c = C_Group ms"
proof -
  obtain ctx :: "yy_buffer_state scan_context" where ctx: "scanctx_init filename = Ptr ctx" "scanctx_ok ctx" "sc_depth ctx = 0" "sc_log ctx = []"
      "sc_string ctx = strbuf_zero" using scanctx_init_ok by blast
  let ?yyg = "yylex_init_extra ctx (source_buffer src)"
  define cfg where "cfg = update_setting [] (\<lambda>s. case s of Setting n f v h l _ \<Rightarrow> Setting n f v h l (scanctx_current_filename ctx))
    (config_reinit config)"
  let ?pctx = "parsectx_init\<lparr>pc_parent := Some [], pc_setting := Some []\<rparr>"
  define s where "s = Setting None 0 (V_Group None) 0 0 (scanctx_current_filename ctx)"
  have root: "root cfg = s" and d: "default_format cfg = 0"
    by (simp_all add: cfg_def config_reinit_def config_init_def s_def update_setting_def)
  have s: "wf_setting s" "tidy s" "nones s = 0" "config_setting_type s = CONFIG_TYPE_GROUP" "children s = []"
    by (simp_all add: s_def tidy_iff [of s, unfolded s_def] array_ok_def config_setting_type_def config_types children_def)
  have rd: "reads 1 [] input ?yyg" using ctx src(1,2) by (simp add: reads_def yylex_init_extra_def)
  define st where "st = yyparse_start ?yyg ?pctx cfg"
  have "parse_ok st"
    unfolding st_def using s root ctx(2) by (intro yyparse_start_ok) (simp_all add: yy_ok_def yylex_init_extra_def parsectx_init_def)
  then have c0: "conf fs cfg [0] None (member_tokens semi ms) [] (Some []) None s st"
    using text_feeds [OF src(3) rd] root
    by (simp add: conf_def st_def yyparse_start_def agrees_def ahead_def parsectx_init_def strbuf_zero_def flip: root)
  let ?R = "\<lambda>e. (\<exists>y. ps_config e = cfg\<lparr>root := y\<rparr> \<and> config_setting_type y = CONFIG_TYPE_GROUP \<and> map member_of (children y) = ms)
      \<and> finished (ps_scanner e)"
  have "\<exists>e. yyparse_loop fs st = Some (Parse_Returns 0 e) \<and> ?R e"
    by (rule reaches_loop [where R = ?R, OF read_root [OF ms s(4,5)] c0]) (use accepts in blast)
  then obtain e y where e: "yyparse_loop fs st = Some (Parse_Returns 0 e)" "ps_config e = cfg\<lparr>root := y\<rparr>"
      "config_setting_type y = CONFIG_TYPE_GROUP" "map member_of (children y) = ms" "finished (ps_scanner e)" by blast
  obtain names ctx2 where cl: "scanctx_cleanup (yy_extra (ps_scanner e)) = (names, ctx2)" by fastforce
  then have log: "sc_log ctx2 = []" using e(5) by (auto simp: scanctx_cleanup_def finished_def)
  have "config_read_p fs config src filename = Some (config_read_end 0 (cfg\<lparr>root := y\<rparr>) (ps_scanner e))"
    using ctx(1) e(1,2) by (simp add: config_read_p_def yyparse_def flip: cfg_def st_def)
  moreover have "config_read_end 0 (cfg\<lparr>root := y\<rparr>) (ps_scanner e) = Read_Done True (cfg\<lparr>root := y, filenames := names\<rparr>) [] []"
    using e(5) cl log by (simp add: config_read_end_def finished_def)
  moreover have "config_content (cfg\<lparr>root := y, filenames := names\<rparr>) = C_Group ms"
    using setting_content_children(3) [OF e(3), of 0] e(4) d by (simp add: config_content_def flip: member_of_fun)
  ultimately show ?thesis by auto
qed

section \<open>The round trip\<close>

text \<open>
  C5. Whatever is stored in a configuration - groups, lists, arrays, booleans, integers of both
  widths with their formats, strings with any characters - is there again after it was written
  to a file and the file was read, by a configuration with any options. Names must not be words
  for booleans, the nesting may be 600 levels deep, and floating point numbers are left out.
\<close>

theorem write_then_read:
  assumes "writable filename" "s_name (root config) = None" "config_setting_type (root config) = CONFIG_TYPE_GROUP"
    and "plain (config_content config)" "depth_of (config_content config) \<le> 600"
  shows "\<exists>c1 fs1 c2. config_write_file writable fs config filename = (True, c1, fs1)
    \<and> config_read_file fs1 other filename = Some (Read_Done True c2 [] []) \<and> config_content c2 = config_content config"
proof -
  obtain ms where ms: "config_content config = C_Group ms"
    using setting_content_children(3) [OF assms(3)] by (auto simp: config_content_def)
  let ?fs = "fs(filename \<mapsto> Regular (config_write config))"
  have "text_tokens ?fs (config_write config) (member_tokens (semicolons config) ms) []"
    using text_config [OF assms(2) ms] assms(4) ms by simp
  moreover have "16 * depth_of (C_Group ms) + 16 < YYMAXDEPTH" using assms(5) ms by (simp add: YYMAXDEPTH_def)
  ultimately obtain c where c: "config_read_p ?fs other (Stream (Regular (config_write config))) (Some filename) = Some (Read_Done True c [] [])"
      "config_content c = C_Group ms"
    using config_read_p_members [of "Stream (Regular (config_write config))" "config_write config" ?fs "semicolons config" ms other "Some filename"]
      assms(4) ms by (auto simp: source_buffer_def yy_create_buffer_def)
  then show ?thesis using assms(1) ms by (auto simp: config_write_file_def config_read_file_def)
qed

definition sample_config :: config where
  "sample_config = config_init\<lparr>root := Setting None 0 (V_Group (Some (Config_List
     [Setting (Some ''port'') 0 (V_Int 123) 0 0 None,
      Setting (Some ''hosts'') 0 (V_List (Some (Config_List
        [Setting None 0 (V_String (Some ''ntp.org'')) 0 0 None, Setting None 1 (V_Int64 (- 1)) 0 0 None] 16))) 0 0 None,
      Setting (Some ''on'') 0 (V_Bool 1) 0 0 None] 16))) 0 0 None\<rparr>"

theorem write_then_read_witness:
  "\<exists>c1 fs1 c2. config_write_file (\<lambda>_. True) (\<lambda>_. None) sample_config ''a.cfg'' = (True, c1, fs1)
    \<and> config_read_file fs1 config_init ''a.cfg'' = Some (Read_Done True c2 [] [])
    \<and> config_content c2 = C_Group [(''port'', C_Int 123 False), (''hosts'', C_List [C_String ''ntp.org'', C_Int64 (- 1) True]), (''on'', C_Bool True)]"
proof -
  have "config_content sample_config
      = C_Group [(''port'', C_Int 123 False), (''hosts'', C_List [C_String ''ntp.org'', C_Int64 (- 1) True]), (''on'', C_Bool True)]"
    by code_simp
  moreover have "plain (config_content sample_config)" "depth_of (config_content sample_config) \<le> 600"
      "s_name (root sample_config) = None" "config_setting_type (root sample_config) = CONFIG_TYPE_GROUP" by code_simp+
  ultimately show ?thesis
    using write_then_read [of "\<lambda>_. True" "''a.cfg''" sample_config "\<lambda>_. None" config_init] by simp
qed

end
