(* ===== verification/Cpp_Setting.thy ===== *)
theory Cpp_Setting
  imports Reader_Total Config_Writer
begin

text \<open>
  The C++ interface of \<^verbatim>\<open>libconfigcpp.c++\<close>: the wrapper objects, the exceptions, and
  the methods of \<^verbatim>\<open>Setting\<close>.

  A \<^verbatim>\<open>Setting &\<close> is the path of the setting it wraps; the object itself lies at the
  address that the setting has as its hook, and holds the type and the format that were current
  when it was made. A \<^verbatim>\<open>new\<close> takes a fresh address, a \<^verbatim>\<open>delete\<close> of an address
  without an object is undefined behaviour, and so is a method of a setting without an object.
\<close>

section \<open>Types and objects\<close>

datatype setting_type =
  TypeNone | TypeInt | TypeInt64 | TypeFloat | TypeString | TypeBoolean | TypeGroup | TypeArray | TypeList

datatype setting_format = FormatDefault | FormatHex

record setting_object =
  obj_type :: setting_type
  obj_format :: setting_format

record cpp_config =
  cfg :: config
  objects :: "nat \<rightharpoonup> setting_object"
  next_object :: nat
  default_fmt :: setting_format

datatype cpp_exception =
  SettingTypeException string | SettingNotFoundException string | SettingNameException string
| ParseException "string option" int "string option" | FileIOException

definition what :: "cpp_exception \<Rightarrow> string" where
  "what e =
     (case e of SettingTypeException _ \<Rightarrow> ''SettingTypeException''
      | SettingNotFoundException _ \<Rightarrow> ''SettingNotFoundException''
      | SettingNameException _ \<Rightarrow> ''SettingNameException''
      | ParseException _ _ _ \<Rightarrow> ''ParseException''
      | FileIOException \<Rightarrow> ''FileIOException'')"

text \<open>
  What a method comes to: it returns, throws, is undefined behaviour, ends the program, does not
  end, or leaves the floating point numbers of the model.
\<close>

datatype 'a outcome =
  Returns 'a cpp_config | Throws cpp_exception cpp_config | Undefined_Behaviour | Exits string | Hangs | Beyond_Model

definition and_then :: "'a outcome \<Rightarrow> ('a \<Rightarrow> cpp_config \<Rightarrow> 'b outcome) \<Rightarrow> 'b outcome" where
  "and_then m f =
     (case m of Returns x st \<Rightarrow> f x st | Throws e st \<Rightarrow> Throws e st | Undefined_Behaviour \<Rightarrow> Undefined_Behaviour
      | Exits msg \<Rightarrow> Exits msg | Hangs \<Rightarrow> Hangs | Beyond_Model \<Rightarrow> Beyond_Model)"

definition setting_at :: "cpp_config \<Rightarrow> nat list \<Rightarrow> config_setting" where
  "setting_at st p = deref (root (cfg st)) p"

definition store :: "nat list \<Rightarrow> config_setting \<Rightarrow> cpp_config \<Rightarrow> cpp_config" where
  "store p s st = st\<lparr>cfg := set_at p s (cfg st)\<rparr>"

definition toTypeCode :: "setting_type \<Rightarrow> int" where
  "toTypeCode t =
     (case t of TypeGroup \<Rightarrow> CONFIG_TYPE_GROUP | TypeInt \<Rightarrow> CONFIG_TYPE_INT | TypeInt64 \<Rightarrow> CONFIG_TYPE_INT64
      | TypeFloat \<Rightarrow> CONFIG_TYPE_FLOAT | TypeString \<Rightarrow> CONFIG_TYPE_STRING | TypeBoolean \<Rightarrow> CONFIG_TYPE_BOOL
      | TypeArray \<Rightarrow> CONFIG_TYPE_ARRAY | TypeList \<Rightarrow> CONFIG_TYPE_LIST | TypeNone \<Rightarrow> CONFIG_TYPE_NONE)"

text \<open>The constructor of \<^verbatim>\<open>Setting\<close>.\<close>

definition type_of_code :: "int \<Rightarrow> setting_type" where
  "type_of_code c =
     (if c = CONFIG_TYPE_GROUP then TypeGroup else if c = CONFIG_TYPE_INT then TypeInt
      else if c = CONFIG_TYPE_INT64 then TypeInt64 else if c = CONFIG_TYPE_FLOAT then TypeFloat
      else if c = CONFIG_TYPE_STRING then TypeString else if c = CONFIG_TYPE_BOOL then TypeBoolean
      else if c = CONFIG_TYPE_ARRAY then TypeArray else if c = CONFIG_TYPE_LIST then TypeList else TypeNone)"

definition Setting_new :: "config \<Rightarrow> config_setting \<Rightarrow> setting_object" where
  "Setting_new c s = \<lparr>obj_type = type_of_code (config_setting_type s),
     obj_format = (if config_setting_get_format c s = CONFIG_FORMAT_HEX then FormatHex else FormatDefault)\<rparr>"

definition wrapped :: "nat list \<Rightarrow> cpp_config \<Rightarrow> cpp_config" where
  "wrapped p st =
     (if s_hook (setting_at st p) = 0
      then st\<lparr>cfg := set_at p (config_setting_set_hook (setting_at st p) (next_object st)) (cfg st),
              objects := (objects st)(next_object st \<mapsto> Setting_new (cfg st) (setting_at st p)),
              next_object := Suc (next_object st)\<rparr>
      else st)"

definition wrapSetting :: "nat list \<Rightarrow> cpp_config \<Rightarrow> nat list outcome" where
  "wrapSetting p st = Returns p (wrapped p st)"

text \<open>The object behind \<^verbatim>\<open>this\<close>.\<close>

definition with_object :: "nat list \<Rightarrow> cpp_config \<Rightarrow> (setting_object \<Rightarrow> 'a outcome) \<Rightarrow> 'a outcome" where
  "with_object p st f = (case objects st (s_hook (setting_at st p)) of None \<Rightarrow> Undefined_Behaviour | Some ob \<Rightarrow> f ob)"

section \<open>Paths and exceptions\<close>

text \<open>The walk to the root wraps every setting on its way.\<close>

function constructPath :: "nat list \<Rightarrow> cpp_config \<Rightarrow> string \<times> cpp_config" where
  "constructPath p st =
     (if p = [] then ([], st)
      else
        (let (path, st1) = constructPath (butlast p) (wrapped (butlast p) st)
         in (path @ (if path \<noteq> [] then ''.'' else [])
               @ (case s_name (setting_at st p) of Some nm \<Rightarrow> nm
                  | None \<Rightarrow> ''['' @ fmt_d (config_setting_index p) @ '']''), st1)))"
  by pat_completeness auto
termination by (relation "measure (\<lambda>(p, st). length p)") auto

declare constructPath.simps [simp del]

text \<open>The four constructors of \<^verbatim>\<open>SettingException\<close>, for an exception class; the last one takes a pointer.\<close>

definition throw_setting :: "(string \<Rightarrow> cpp_exception) \<Rightarrow> nat list \<Rightarrow> cpp_config \<Rightarrow> 'a outcome" where
  "throw_setting ex p st = (let (path, st1) = constructPath p st in Throws (ex path) st1)"

definition throw_setting_idx :: "(string \<Rightarrow> cpp_exception) \<Rightarrow> nat list \<Rightarrow> int \<Rightarrow> cpp_config \<Rightarrow> 'a outcome" where
  "throw_setting_idx ex p idx st =
     (let (path, st1) = constructPath p st in Throws (ex (path @ ''.['' @ fmt_d idx @ '']'')) st1)"

definition throw_setting_name :: "(string \<Rightarrow> cpp_exception) \<Rightarrow> nat list \<Rightarrow> string \<Rightarrow> cpp_config \<Rightarrow> 'a outcome" where
  "throw_setting_name ex p nm st =
     (let (path, st1) = constructPath p st in Throws (ex (path @ ''.'' @ nm)) st1)"

definition throw_path :: "(string \<Rightarrow> cpp_exception) \<Rightarrow> string option \<Rightarrow> cpp_config \<Rightarrow> 'a outcome" where
  "throw_path ex path st = (case path of None \<Rightarrow> Undefined_Behaviour | Some s \<Rightarrow> Throws (ex s) st)"

definition isNumber :: "setting_object \<Rightarrow> bool" where
  "isNumber ob \<longleftrightarrow> obj_type ob = TypeInt \<or> obj_type ob = TypeInt64 \<or> obj_type ob = TypeFloat"

definition isAggregate :: "setting_object \<Rightarrow> bool" where
  "isAggregate ob \<longleftrightarrow> obj_type ob = TypeGroup \<or> obj_type ob = TypeArray \<or> obj_type ob = TypeList"

definition assertType :: "setting_type \<Rightarrow> nat list \<Rightarrow> cpp_config \<Rightarrow> unit outcome" where
  "assertType type p st = with_object p st (\<lambda>ob.
     if type \<noteq> obj_type ob
        \<and> \<not> (isNumber ob \<and> config_get_auto_convert (cfg st) \<and> (type = TypeInt \<or> type = TypeInt64 \<or> type = TypeFloat))
     then throw_setting SettingTypeException p st
     else Returns () st)"

section \<open>Reading a value\<close>

text \<open>A getter that may meet an undefined conversion.\<close>

definition defined_value :: "'a option \<Rightarrow> cpp_config \<Rightarrow> 'a outcome" where
  "defined_value v st = (case v of None \<Rightarrow> Undefined_Behaviour | Some x \<Rightarrow> Returns x st)"

definition operator_bool :: "nat list \<Rightarrow> cpp_config \<Rightarrow> bool outcome" where
  "operator_bool p st = and_then (assertType TypeBoolean p st) (\<lambda>_ st1.
     Returns (config_setting_get_bool (setting_at st1 p) \<noteq> 0) st1)"

definition operator_int :: "nat list \<Rightarrow> cpp_config \<Rightarrow> int outcome" where
  "operator_int p st = and_then (assertType TypeInt p st) (\<lambda>_ st1.
     defined_value (config_setting_get_int (cfg st1) (setting_at st1 p)) st1)"

definition operator_unsigned_int :: "nat list \<Rightarrow> cpp_config \<Rightarrow> int outcome" where
  "operator_unsigned_int p st = and_then (assertType TypeInt p st) (\<lambda>_ st1.
     defined_value (map_option (\<lambda>v. if v < 0 then 0 else v) (config_setting_get_int (cfg st1) (setting_at st1 p))) st1)"

definition operator_long_long :: "nat list \<Rightarrow> cpp_config \<Rightarrow> int outcome" where
  "operator_long_long p st = and_then (assertType TypeInt64 p st) (\<lambda>_ st1.
     defined_value (config_setting_get_int64 (cfg st1) (setting_at st1 p)) st1)"

definition operator_unsigned_long_long :: "nat list \<Rightarrow> cpp_config \<Rightarrow> int outcome" where
  "operator_unsigned_long_long p st = and_then (assertType TypeInt64 p st) (\<lambda>_ st1.
     defined_value (map_option (\<lambda>v. if v < 0 then 0 else v) (config_setting_get_int64 (cfg st1) (setting_at st1 p))) st1)"

definition sizeof_long :: nat where "sizeof_long = 8"
definition sizeof_long_long :: nat where "sizeof_long_long = 8"

definition operator_long :: "nat list \<Rightarrow> cpp_config \<Rightarrow> int outcome" where
  "operator_long p st = (if sizeof_long = sizeof_long_long then operator_long_long p st else operator_int p st)"

definition operator_unsigned_long :: "nat list \<Rightarrow> cpp_config \<Rightarrow> int outcome" where
  "operator_unsigned_long p st =
     (if sizeof_long = sizeof_long_long then operator_unsigned_long_long p st else operator_unsigned_int p st)"

definition operator_double :: "nat list \<Rightarrow> cpp_config \<Rightarrow> dbl outcome" where
  "operator_double p st = and_then (assertType TypeFloat p st) (\<lambda>_ st1.
     defined_value (config_setting_get_float (cfg st1) (setting_at st1 p)) st1)"

text \<open>
  The conversion to \<^verbatim>\<open>float\<close>: 24 significant bits, for zero and for values whose
  exponent is that of a normal \<^verbatim>\<open>float\<close> before and after rounding.
\<close>

definition float_of_dbl :: "dbl \<Rightarrow> dbl option" where
  "float_of_dbl d =
     (let k = sig_bits (mant d) - 24; r = Dbl (rne_shift k (mant d)) (expo d + int k)
      in if mant d = 0 then Some d
         else if expo d + int (sig_bits (mant d)) \<le> - 126 \<or> 128 < expo r + int (sig_bits (mant r)) then None
         else Some r)"

definition operator_float :: "nat list \<Rightarrow> cpp_config \<Rightarrow> dbl outcome" where
  "operator_float p st = and_then (assertType TypeFloat p st) (\<lambda>_ st1.
     case config_setting_get_float (cfg st1) (setting_at st1 p) of
       None \<Rightarrow> Undefined_Behaviour
     | Some d \<Rightarrow> (case float_of_dbl d of None \<Rightarrow> Beyond_Model | Some f \<Rightarrow> Returns f st1))"

definition operator_c_str :: "nat list \<Rightarrow> cpp_config \<Rightarrow> string option outcome" where
  "operator_c_str p st = and_then (assertType TypeString p st) (\<lambda>_ st1.
     Returns (config_setting_get_string (setting_at st1 p)) st1)"

definition operator_string :: "nat list \<Rightarrow> cpp_config \<Rightarrow> string outcome" where
  "operator_string p st = and_then (assertType TypeString p st) (\<lambda>_ st1.
     Returns (case config_setting_get_string (setting_at st1 p) of None \<Rightarrow> [] | Some str \<Rightarrow> str) st1)"

section \<open>Storing a value\<close>

text \<open>The assignments ignore whether the setter succeeded.\<close>

definition assign_bool :: "nat list \<Rightarrow> bool \<Rightarrow> cpp_config \<Rightarrow> nat list outcome" where
  "assign_bool p v st = and_then (assertType TypeBoolean p st) (\<lambda>_ st1.
     let s = setting_at st1 p in Returns p (store p (or_same (config_setting_set_bool s (of_bool v)) s) st1))"

definition assign_int :: "nat list \<Rightarrow> int \<Rightarrow> cpp_config \<Rightarrow> nat list outcome" where
  "assign_int p v st = and_then (assertType TypeInt p st) (\<lambda>_ st1.
     let s = setting_at st1 p in Returns p (store p (or_same (config_setting_set_int (cfg st1) s v) s) st1))"

definition assign_long_long :: "nat list \<Rightarrow> int \<Rightarrow> cpp_config \<Rightarrow> nat list outcome" where
  "assign_long_long p v st = and_then (assertType TypeInt64 p st) (\<lambda>_ st1.
     let s = setting_at st1 p in Returns p (store p (or_same (config_setting_set_int64 (cfg st1) s v) s) st1))"

definition assign_long :: "nat list \<Rightarrow> int \<Rightarrow> cpp_config \<Rightarrow> nat list outcome" where
  "assign_long p v st =
     (if sizeof_long = sizeof_long_long then assign_long_long p v st else assign_int p (to_int32 v) st)"

definition assign_double :: "nat list \<Rightarrow> dbl \<Rightarrow> cpp_config \<Rightarrow> nat list outcome" where
  "assign_double p v st = and_then (assertType TypeFloat p st) (\<lambda>_ st1.
     let s = setting_at st1 p in
     case config_setting_set_float (cfg st1) s v of
       Ptr s1 \<Rightarrow> Returns p (store p s1 st1) | Null \<Rightarrow> Returns p st1 | Undefined \<Rightarrow> Undefined_Behaviour)"

text \<open>A \<^verbatim>\<open>float\<close> is a double with at most 24 significant bits, so the cast changes nothing.\<close>

definition assign_float :: "nat list \<Rightarrow> dbl \<Rightarrow> cpp_config \<Rightarrow> nat list outcome" where
  "assign_float p v st = and_then (assertType TypeFloat p st) (\<lambda>_ st1.
     let cvalue = v; s = setting_at st1 p in
     case config_setting_set_float (cfg st1) s cvalue of
       Ptr s1 \<Rightarrow> Returns p (store p s1 st1) | Null \<Rightarrow> Returns p st1 | Undefined \<Rightarrow> Undefined_Behaviour)"

definition assign_c_str :: "nat list \<Rightarrow> string option \<Rightarrow> cpp_config \<Rightarrow> nat list outcome" where
  "assign_c_str p v st = and_then (assertType TypeString p st) (\<lambda>_ st1.
     let s = setting_at st1 p in Returns p (store p (or_same (config_setting_set_string s v) s) st1))"

text \<open>A \<^verbatim>\<open>std::string\<close> is cut at its first null character.\<close>

definition assign_string :: "nat list \<Rightarrow> string \<Rightarrow> cpp_config \<Rightarrow> nat list outcome" where
  "assign_string p v st = and_then (assertType TypeString p st) (\<lambda>_ st1.
     let s = setting_at st1 p; c_str = takeWhile (\<lambda>c. c \<noteq> CHR 0x00) v in
     Returns p (store p (or_same (config_setting_set_string s (Some c_str)) s) st1))"

definition format_code :: "setting_format \<Rightarrow> int" where
  "format_code f = (case f of FormatDefault \<Rightarrow> 0 | FormatHex \<Rightarrow> 1)"

definition setFormat :: "nat list \<Rightarrow> setting_format \<Rightarrow> cpp_config \<Rightarrow> unit outcome" where
  "setFormat p format st = with_object p st (\<lambda>ob.
     let f = (if obj_type ob = TypeInt \<or> obj_type ob = TypeInt64
              then (if format = FormatHex then FormatHex else FormatDefault) else FormatDefault);
         s = setting_at st p;
         st1 = st\<lparr>objects := (objects st)(s_hook s \<mapsto> ob\<lparr>obj_format := f\<rparr>)\<rparr>
     in Returns () (store p (or_same (config_setting_set_format s (format_code f)) s) st1))"

section \<open>Finding settings\<close>

definition Setting_lookup :: "nat list \<Rightarrow> string \<Rightarrow> cpp_config \<Rightarrow> nat list outcome" where
  "Setting_lookup p path st = and_then (assertType TypeGroup p st) (\<lambda>_ st1.
     case config_setting_lookup (setting_at st1 p) path of
       None \<Rightarrow> throw_setting_name SettingNotFoundException p path st1
     | Some q \<Rightarrow> wrapSetting (p @ q) st1)"

definition Setting_member :: "nat list \<Rightarrow> string \<Rightarrow> cpp_config \<Rightarrow> nat list outcome" where
  "Setting_member p nm st = and_then (assertType TypeGroup p st) (\<lambda>_ st1.
     case config_setting_get_member (setting_at st1 p) nm of
       None \<Rightarrow> throw_setting_name SettingNotFoundException p nm st1
     | Some i \<Rightarrow> wrapSetting (p @ [i]) st1)"

text \<open>The index is an \<^verbatim>\<open>int\<close>, the parameter of the C function is unsigned.\<close>

definition Setting_element :: "nat list \<Rightarrow> int \<Rightarrow> cpp_config \<Rightarrow> nat list outcome" where
  "Setting_element p i st = with_object p st (\<lambda>ob.
     if obj_type ob \<noteq> TypeArray \<and> obj_type ob \<noteq> TypeGroup \<and> obj_type ob \<noteq> TypeList
     then throw_setting_idx SettingTypeException p i st
     else (case config_setting_get_elem (setting_at st p) (nat (i mod 2 ^ 32)) of
             None \<Rightarrow> throw_setting_idx SettingNotFoundException p i st
           | Some k \<Rightarrow> wrapSetting (p @ [k]) st))"

definition Setting_exists :: "nat list \<Rightarrow> string \<Rightarrow> cpp_config \<Rightarrow> bool outcome" where
  "Setting_exists p nm st = with_object p st (\<lambda>ob.
     if obj_type ob \<noteq> TypeGroup then Returns False st
     else Returns (config_setting_get_member (setting_at st p) nm \<noteq> None) st)"

definition getLength :: "nat list \<Rightarrow> cpp_config \<Rightarrow> int" where
  "getLength p st = to_int32 (int (config_setting_length (setting_at st p)))"

definition getName :: "nat list \<Rightarrow> cpp_config \<Rightarrow> string option" where
  "getName p st = s_name (setting_at st p)"

definition getPath :: "nat list \<Rightarrow> cpp_config \<Rightarrow> string outcome" where
  "getPath p st = (let (path, st1) = constructPath p st in Returns path st1)"

text \<open>Both versions of \<^verbatim>\<open>getParent\<close>; the path of the exception is a null pointer.\<close>

definition getParent :: "nat list \<Rightarrow> cpp_config \<Rightarrow> nat list outcome" where
  "getParent p st =
     (if p = [] then throw_path SettingNotFoundException None st else wrapSetting (butlast p) st)"

definition getSourceLine :: "nat list \<Rightarrow> cpp_config \<Rightarrow> nat" where
  "getSourceLine p st = s_line (setting_at st p)"

definition getSourceFile :: "nat list \<Rightarrow> cpp_config \<Rightarrow> string option" where
  "getSourceFile p st = s_file (setting_at st p)"

definition isRoot :: "nat list \<Rightarrow> bool" where
  "isRoot p \<longleftrightarrow> p = []"

definition getIndex :: "nat list \<Rightarrow> int" where
  "getIndex p = config_setting_index p"

end
