(* ===== verification/Cpp_Config.thy ===== *)
theory Cpp_Config
  imports Cpp_Setting
begin

text \<open>
  The C++ interface of \<^verbatim>\<open>libconfigcpp.c++\<close>: lookups without exceptions, adding and
  removing settings, the methods of \<^verbatim>\<open>Config\<close>, and the iterators.
\<close>

section \<open>Adding and removing\<close>

text \<open>\<^verbatim>\<open>ConfigDestructor\<close> on the hooks of the settings that are destroyed.\<close>

definition delete_object :: "nat \<Rightarrow> cpp_config \<Rightarrow> unit outcome" where
  "delete_object h st =
     (if objects st h = None then Undefined_Behaviour else Returns () (st\<lparr>objects := (objects st)(h := None)\<rparr>))"

fun delete_objects :: "nat list \<Rightarrow> cpp_config \<Rightarrow> unit outcome" where
  "delete_objects [] st = Returns () st"
| "delete_objects (h # hs) st = and_then (delete_object h st) (\<lambda>_ st1. delete_objects hs st1)"

definition remove_name :: "nat list \<Rightarrow> string \<Rightarrow> cpp_config \<Rightarrow> unit outcome" where
  "remove_name p nm st = and_then (assertType TypeGroup p st) (\<lambda>_ st1.
     case config_setting_remove (setting_at st1 p) nm of
       None \<Rightarrow> throw_setting_name SettingNotFoundException p nm st1
     | Some (s, hooks) \<Rightarrow> delete_objects hooks (store p s st1))"

text \<open>The unsigned index becomes an \<^verbatim>\<open>int\<close> in the exception.\<close>

definition remove_index :: "nat list \<Rightarrow> 32 word \<Rightarrow> cpp_config \<Rightarrow> unit outcome" where
  "remove_index p idx st = with_object p st (\<lambda>ob.
     if obj_type ob \<noteq> TypeArray \<and> obj_type ob \<noteq> TypeGroup \<and> obj_type ob \<noteq> TypeList
     then throw_setting_idx SettingTypeException p (sint idx) st
     else (case config_setting_remove_elem (setting_at st p) (unat idx) of
             None \<Rightarrow> throw_setting_idx SettingNotFoundException p (sint idx) st
           | Some (s, hooks) \<Rightarrow> delete_objects hooks (store p s st)))"

definition add_named :: "nat list \<Rightarrow> string \<Rightarrow> setting_type \<Rightarrow> cpp_config \<Rightarrow> nat list outcome" where
  "add_named p nm type st = and_then (assertType TypeGroup p st) (\<lambda>_ st1.
     let typecode = toTypeCode type; s = setting_at st1 p in
     if typecode = CONFIG_TYPE_NONE then throw_setting_name SettingTypeException p nm st1
     else (case config_setting_add s (Some nm) typecode of
             Null \<Rightarrow> throw_setting_name SettingNameException p nm st1
           | Undefined \<Rightarrow> Undefined_Behaviour
           | Ptr s1 \<Rightarrow> wrapSetting (p @ [length (children s)]) (store p s1 st1)))"

text \<open>The check of an array: elements have the type of the first one, which is a scalar type.\<close>

definition check_element :: "nat list \<Rightarrow> setting_type \<Rightarrow> setting_object \<Rightarrow> cpp_config \<Rightarrow> unit outcome" where
  "check_element p type ob st =
     (if obj_type ob \<noteq> TypeArray then Returns () st
      else
        (let idx = getLength p st in
         if idx > 0
         then and_then (Setting_element p 0 st) (\<lambda>q st1. with_object q st1 (\<lambda>first.
           if type \<noteq> obj_type first then throw_setting_idx SettingTypeException p idx st1 else Returns () st1))
         else if type \<noteq> TypeInt \<and> type \<noteq> TypeInt64 \<and> type \<noteq> TypeFloat \<and> type \<noteq> TypeString \<and> type \<noteq> TypeBoolean
         then throw_setting_idx SettingTypeException p idx st
         else Returns () st))"

definition assign_zero :: "nat list \<Rightarrow> setting_type \<Rightarrow> cpp_config \<Rightarrow> nat list outcome" where
  "assign_zero p type st =
     (case type of TypeInt \<Rightarrow> assign_int p 0 st | TypeInt64 \<Rightarrow> assign_long_long p 0 st
      | TypeFloat \<Rightarrow> assign_double p (Dbl 0 0) st | TypeString \<Rightarrow> assign_c_str p None st
      | TypeBoolean \<Rightarrow> assign_bool p False st | _ \<Rightarrow> Returns p st)"

definition add_element :: "nat list \<Rightarrow> setting_type \<Rightarrow> cpp_config \<Rightarrow> nat list outcome" where
  "add_element p type st = with_object p st (\<lambda>ob.
     if obj_type ob \<noteq> TypeArray \<and> obj_type ob \<noteq> TypeList then throw_setting SettingTypeException p st
     else and_then (check_element p type ob st) (\<lambda>_ st1.
       let s = setting_at st1 p; q = p @ [length (children s)] in
       case config_setting_add s None (toTypeCode type) of
         Ptr s1 \<Rightarrow> and_then (wrapSetting q (store p s1 st1)) (\<lambda>_ st2. assign_zero q type st2)
       | _ \<Rightarrow> Undefined_Behaviour))"

section \<open>Lookups without exceptions\<close>

text \<open>
  The two macros: a result is the value that is stored and \<^verbatim>\<open>true\<close>, none is
  \<^verbatim>\<open>false\<close>.
\<close>

definition no_exceptions :: "'a outcome \<Rightarrow> 'a option outcome" where
  "no_exceptions m =
     (case m of Returns v st \<Rightarrow> Returns (Some v) st | Throws e st \<Rightarrow> Returns None st
      | Undefined_Behaviour \<Rightarrow> Undefined_Behaviour | Exits msg \<Rightarrow> Exits msg | Hangs \<Rightarrow> Hangs | Beyond_Model \<Rightarrow> Beyond_Model)"

definition setting_lookup_no_exceptions ::
    "(nat list \<Rightarrow> cpp_config \<Rightarrow> 'a outcome) \<Rightarrow> nat list \<Rightarrow> string \<Rightarrow> cpp_config \<Rightarrow> 'a option outcome" where
  "setting_lookup_no_exceptions conv p nm st = no_exceptions (and_then (Setting_member p nm st) conv)"

text \<open>The conversion of a character pointer to \<^verbatim>\<open>std::string\<close> must not meet a null pointer.\<close>

definition c_str_to_string :: "nat list \<Rightarrow> cpp_config \<Rightarrow> string outcome" where
  "c_str_to_string p st = and_then (operator_c_str p st) (\<lambda>v st1.
     case v of None \<Rightarrow> Undefined_Behaviour | Some s \<Rightarrow> Returns s st1)"

definition Setting_lookupValue_bool :: "nat list \<Rightarrow> string \<Rightarrow> cpp_config \<Rightarrow> bool option outcome" where
  "Setting_lookupValue_bool p nm st = setting_lookup_no_exceptions operator_bool p nm st"

definition Setting_lookupValue_int :: "nat list \<Rightarrow> string \<Rightarrow> cpp_config \<Rightarrow> int option outcome" where
  "Setting_lookupValue_int p nm st = setting_lookup_no_exceptions operator_int p nm st"

definition Setting_lookupValue_unsigned_int :: "nat list \<Rightarrow> string \<Rightarrow> cpp_config \<Rightarrow> int option outcome" where
  "Setting_lookupValue_unsigned_int p nm st = setting_lookup_no_exceptions operator_unsigned_int p nm st"

definition Setting_lookupValue_long_long :: "nat list \<Rightarrow> string \<Rightarrow> cpp_config \<Rightarrow> int option outcome" where
  "Setting_lookupValue_long_long p nm st = setting_lookup_no_exceptions operator_long_long p nm st"

definition Setting_lookupValue_unsigned_long_long :: "nat list \<Rightarrow> string \<Rightarrow> cpp_config \<Rightarrow> int option outcome" where
  "Setting_lookupValue_unsigned_long_long p nm st = setting_lookup_no_exceptions operator_unsigned_long_long p nm st"

definition Setting_lookupValue_double :: "nat list \<Rightarrow> string \<Rightarrow> cpp_config \<Rightarrow> dbl option outcome" where
  "Setting_lookupValue_double p nm st = setting_lookup_no_exceptions operator_double p nm st"

definition Setting_lookupValue_float :: "nat list \<Rightarrow> string \<Rightarrow> cpp_config \<Rightarrow> dbl option outcome" where
  "Setting_lookupValue_float p nm st = setting_lookup_no_exceptions operator_float p nm st"

definition Setting_lookupValue_c_str :: "nat list \<Rightarrow> string \<Rightarrow> cpp_config \<Rightarrow> (string option) option outcome" where
  "Setting_lookupValue_c_str p nm st = setting_lookup_no_exceptions operator_c_str p nm st"

definition Setting_lookupValue_string :: "nat list \<Rightarrow> string \<Rightarrow> cpp_config \<Rightarrow> string option outcome" where
  "Setting_lookupValue_string p nm st = setting_lookup_no_exceptions c_str_to_string p nm st"

section \<open>Configurations\<close>

definition Config_new :: cpp_config where
  "Config_new = \<lparr>cfg = config_init, objects = (\<lambda>_. None), next_object = 1, default_fmt = FormatDefault\<rparr>"

definition Config_destroy :: "cpp_config \<Rightarrow> unit outcome" where
  "Config_destroy st = delete_objects (config_destroy (cfg st)) st"

definition setAutoConvert :: "bool \<Rightarrow> cpp_config \<Rightarrow> cpp_config" where
  "setAutoConvert flag st = st\<lparr>cfg := config_set_auto_convert (cfg st) flag\<rparr>"

definition setOptions :: "int \<Rightarrow> cpp_config \<Rightarrow> cpp_config" where
  "setOptions opts st = st\<lparr>cfg := config_set_options (cfg st) opts\<rparr>"

definition getOptions :: "cpp_config \<Rightarrow> int" where
  "getOptions st = config_get_options (cfg st)"

definition getAutoConvert :: "cpp_config \<Rightarrow> bool" where
  "getAutoConvert st = config_get_auto_convert (cfg st)"

definition setDefaultFormat :: "setting_format \<Rightarrow> cpp_config \<Rightarrow> cpp_config" where
  "setDefaultFormat format st =
     (let f = (if format = FormatHex then FormatHex else FormatDefault)
      in st\<lparr>default_fmt := f, cfg := (cfg st)\<lparr>default_format := format_code f\<rparr>\<rparr>)"

text \<open>The C macro keeps the last four bits.\<close>

definition setTabWidth :: "nat \<Rightarrow> cpp_config \<Rightarrow> cpp_config" where
  "setTabWidth width st = st\<lparr>cfg := (cfg st)\<lparr>tab_width := width AND 15\<rparr>\<rparr>"

definition getTabWidth :: "cpp_config \<Rightarrow> nat" where
  "getTabWidth st = tab_width (cfg st)"

definition setIncludeDir :: "string \<Rightarrow> cpp_config \<Rightarrow> cpp_config" where
  "setIncludeDir dir st = st\<lparr>cfg := config_set_include_dir (cfg st) dir\<rparr>"

definition getIncludeDir :: "cpp_config \<Rightarrow> string option" where
  "getIncludeDir st = include_dir (cfg st)"

definition handleError :: "cpp_config \<Rightarrow> unit outcome" where
  "handleError st =
     (case error_type (cfg st) of
        CONFIG_ERR_NONE \<Rightarrow> Returns () st
      | CONFIG_ERR_PARSE \<Rightarrow>
          Throws (ParseException (error_file (cfg st)) (error_line (cfg st)) (error_text (cfg st))) st
      | CONFIG_ERR_FILE_IO \<Rightarrow> Throws FileIOException st)"

text \<open>What follows a read: the configuration it left, and an exception unless it succeeded.\<close>

definition after_read :: "read_result option \<Rightarrow> cpp_config \<Rightarrow> unit outcome" where
  "after_read r st =
     (case r of
        None \<Rightarrow> Hangs
      | Some (Read_Done ok c echoed events) \<Rightarrow>
          if \<not> ok then handleError (st\<lparr>cfg := c\<rparr>) else Returns () (st\<lparr>cfg := c\<rparr>)
      | Some (Read_Exit msg) \<Rightarrow> Exits msg
      | Some Read_Undefined \<Rightarrow> Undefined_Behaviour
      | Some Read_Range \<Rightarrow> Beyond_Model)"

text \<open>Every read destroys the old tree first, except that of a file that is not read.\<close>

definition Config_read :: "file_system \<Rightarrow> file_node \<Rightarrow> cpp_config \<Rightarrow> unit outcome" where
  "Config_read fs stream st = and_then (delete_objects (config_destroy (cfg st)) st) (\<lambda>_ st1.
     after_read (config_read fs (cfg st1) stream) st1)"

definition readString :: "file_system \<Rightarrow> string \<Rightarrow> cpp_config \<Rightarrow> unit outcome" where
  "readString fs str st = and_then (delete_objects (config_destroy (cfg st)) st) (\<lambda>_ st1.
     after_read (config_read_string fs (cfg st1) str) st1)"

definition readFile :: "file_system \<Rightarrow> string \<Rightarrow> cpp_config \<Rightarrow> unit outcome" where
  "readFile fs filename st =
     and_then (delete_objects (case fs filename of Some (Regular _) \<Rightarrow> config_destroy (cfg st) | _ \<Rightarrow> []) st) (\<lambda>_ st1.
       after_read (config_read_file fs (cfg st1) filename) st1)"

definition Config_write :: "cpp_config \<Rightarrow> string" where
  "Config_write st = config_write (cfg st)"

definition writeFile :: "(string \<Rightarrow> bool) \<Rightarrow> file_system \<Rightarrow> string \<Rightarrow> cpp_config \<Rightarrow> file_system outcome" where
  "writeFile writable fs filename st =
     (let (ok, c, fs1) = config_write_file writable fs (cfg st) filename; st1 = st\<lparr>cfg := c\<rparr>
      in if \<not> ok then and_then (handleError st1) (\<lambda>_ st2. Returns fs1 st2) else Returns fs1 st1)"

definition Config_lookup :: "string \<Rightarrow> cpp_config \<Rightarrow> nat list outcome" where
  "Config_lookup path st =
     (case config_setting_lookup (root (cfg st)) path of
        None \<Rightarrow> throw_path SettingNotFoundException (Some path) st
      | Some p \<Rightarrow> wrapSetting p st)"

definition Config_exists :: "string \<Rightarrow> cpp_config \<Rightarrow> bool" where
  "Config_exists path st \<longleftrightarrow> config_lookup (cfg st) path \<noteq> None"

definition config_lookup_no_exceptions ::
    "(nat list \<Rightarrow> cpp_config \<Rightarrow> 'a outcome) \<Rightarrow> string \<Rightarrow> cpp_config \<Rightarrow> 'a option outcome" where
  "config_lookup_no_exceptions conv path st = no_exceptions (and_then (Config_lookup path st) conv)"

definition Config_lookupValue_bool :: "string \<Rightarrow> cpp_config \<Rightarrow> bool option outcome" where
  "Config_lookupValue_bool path st = config_lookup_no_exceptions operator_bool path st"

definition Config_lookupValue_int :: "string \<Rightarrow> cpp_config \<Rightarrow> int option outcome" where
  "Config_lookupValue_int path st = config_lookup_no_exceptions operator_int path st"

definition Config_lookupValue_unsigned_int :: "string \<Rightarrow> cpp_config \<Rightarrow> int option outcome" where
  "Config_lookupValue_unsigned_int path st = config_lookup_no_exceptions operator_unsigned_int path st"

definition Config_lookupValue_long_long :: "string \<Rightarrow> cpp_config \<Rightarrow> int option outcome" where
  "Config_lookupValue_long_long path st = config_lookup_no_exceptions operator_long_long path st"

definition Config_lookupValue_unsigned_long_long :: "string \<Rightarrow> cpp_config \<Rightarrow> int option outcome" where
  "Config_lookupValue_unsigned_long_long path st = config_lookup_no_exceptions operator_unsigned_long_long path st"

definition Config_lookupValue_double :: "string \<Rightarrow> cpp_config \<Rightarrow> dbl option outcome" where
  "Config_lookupValue_double path st = config_lookup_no_exceptions operator_double path st"

definition Config_lookupValue_float :: "string \<Rightarrow> cpp_config \<Rightarrow> dbl option outcome" where
  "Config_lookupValue_float path st = config_lookup_no_exceptions operator_float path st"

definition Config_lookupValue_c_str :: "string \<Rightarrow> cpp_config \<Rightarrow> (string option) option outcome" where
  "Config_lookupValue_c_str path st = config_lookup_no_exceptions operator_c_str path st"

definition Config_lookupValue_string :: "string \<Rightarrow> cpp_config \<Rightarrow> string option outcome" where
  "Config_lookupValue_string path st = config_lookup_no_exceptions c_str_to_string path st"

definition getRoot :: "cpp_config \<Rightarrow> nat list outcome" where
  "getRoot st = wrapSetting [] st"

section \<open>Iterators\<close>

text \<open>
  Positions are of type \<^verbatim>\<open>int\<close>; an overflow is undefined behaviour, here no result.
\<close>

record setting_iterator =
  it_setting :: "nat list"
  it_count :: int
  it_idx :: int

definition int_result :: "int \<Rightarrow> int option" where
  "int_result i = (if - (2 ^ 31) \<le> i \<and> i < 2 ^ 31 then Some i else None)"

definition SettingIterator_new :: "nat list \<Rightarrow> bool \<Rightarrow> cpp_config \<Rightarrow> setting_iterator outcome" where
  "SettingIterator_new p endIterator st = with_object p st (\<lambda>ob.
     let count = getLength p st in
     if \<not> isAggregate ob then throw_setting SettingTypeException p st
     else Returns \<lparr>it_setting = p, it_count = count, it_idx = (if endIterator then count else 0)\<rparr> st)"

definition Setting_begin :: "nat list \<Rightarrow> cpp_config \<Rightarrow> setting_iterator outcome" where
  "Setting_begin p st = SettingIterator_new p False st"

definition Setting_end :: "nat list \<Rightarrow> cpp_config \<Rightarrow> setting_iterator outcome" where
  "Setting_end p st = SettingIterator_new p True st"

definition it_equal :: "setting_iterator \<Rightarrow> setting_iterator \<Rightarrow> bool" where
  "it_equal a b \<longleftrightarrow> it_setting a = it_setting b \<and> it_idx a = it_idx b"

definition it_deref :: "setting_iterator \<Rightarrow> cpp_config \<Rightarrow> nat list outcome" where
  "it_deref it st = Setting_element (it_setting it) (it_idx it) st"

definition it_advance :: "setting_iterator \<Rightarrow> int \<Rightarrow> setting_iterator option" where
  "it_advance it offset = map_option (\<lambda>i. it\<lparr>it_idx := i\<rparr>) (int_result (it_idx it + offset))"

definition it_retreat :: "setting_iterator \<Rightarrow> int \<Rightarrow> setting_iterator option" where
  "it_retreat it offset = map_option (\<lambda>i. it\<lparr>it_idx := i\<rparr>) (int_result (it_idx it - offset))"

definition it_increment :: "setting_iterator \<Rightarrow> setting_iterator option" where
  "it_increment it = map_option (\<lambda>i. it\<lparr>it_idx := i\<rparr>) (int_result (it_idx it + 1))"

definition it_decrement :: "setting_iterator \<Rightarrow> setting_iterator option" where
  "it_decrement it = map_option (\<lambda>i. it\<lparr>it_idx := i\<rparr>) (int_result (it_idx it - 1))"

text \<open>The result of a postfix operator and the iterator after it.\<close>

definition it_increment_post :: "setting_iterator \<Rightarrow> (setting_iterator \<times> setting_iterator) option" where
  "it_increment_post it = (let tmp = it in map_option (Pair tmp) (it_increment it))"

definition it_decrement_post :: "setting_iterator \<Rightarrow> (setting_iterator \<times> setting_iterator) option" where
  "it_decrement_post it = (let tmp = it in map_option (Pair tmp) (it_decrement it))"

definition it_plus :: "setting_iterator \<Rightarrow> int \<Rightarrow> setting_iterator option" where
  "it_plus it offset = (let copy = it in it_advance copy offset)"

definition plus_it :: "int \<Rightarrow> setting_iterator \<Rightarrow> setting_iterator option" where
  "plus_it offset it = (let copy = it in it_advance copy offset)"

definition it_minus :: "setting_iterator \<Rightarrow> int \<Rightarrow> setting_iterator option" where
  "it_minus it offset = (let copy = it in map_option (\<lambda>i. copy\<lparr>it_idx := i\<rparr>) (int_result (it_idx copy - offset)))"

definition it_distance :: "setting_iterator \<Rightarrow> setting_iterator \<Rightarrow> int option" where
  "it_distance a b = int_result (it_idx a - it_idx b)"

section \<open>Iterators over constant settings\<close>

text \<open>The same operations, except that the difference is written with the compound assignment.\<close>

type_synonym setting_const_iterator = setting_iterator

definition SettingConstIterator_new :: "nat list \<Rightarrow> bool \<Rightarrow> cpp_config \<Rightarrow> setting_const_iterator outcome" where
  "SettingConstIterator_new p endIterator st = with_object p st (\<lambda>ob.
     let count = getLength p st in
     if \<not> isAggregate ob then throw_setting SettingTypeException p st
     else Returns \<lparr>it_setting = p, it_count = count, it_idx = (if endIterator then count else 0)\<rparr> st)"

definition Setting_const_begin :: "nat list \<Rightarrow> cpp_config \<Rightarrow> setting_const_iterator outcome" where
  "Setting_const_begin p st = SettingConstIterator_new p False st"

definition Setting_const_end :: "nat list \<Rightarrow> cpp_config \<Rightarrow> setting_const_iterator outcome" where
  "Setting_const_end p st = SettingConstIterator_new p True st"

definition const_it_increment :: "setting_const_iterator \<Rightarrow> setting_const_iterator option" where
  "const_it_increment it = map_option (\<lambda>i. it\<lparr>it_idx := i\<rparr>) (int_result (it_idx it + 1))"

definition const_it_increment_post :: "setting_const_iterator \<Rightarrow> (setting_const_iterator \<times> setting_const_iterator) option" where
  "const_it_increment_post it = (let tmp = it in map_option (Pair tmp) (const_it_increment it))"

definition const_it_decrement :: "setting_const_iterator \<Rightarrow> setting_const_iterator option" where
  "const_it_decrement it = map_option (\<lambda>i. it\<lparr>it_idx := i\<rparr>) (int_result (it_idx it - 1))"

definition const_it_decrement_post :: "setting_const_iterator \<Rightarrow> (setting_const_iterator \<times> setting_const_iterator) option" where
  "const_it_decrement_post it = (let tmp = it in map_option (Pair tmp) (const_it_decrement it))"

definition const_it_advance :: "setting_const_iterator \<Rightarrow> int \<Rightarrow> setting_const_iterator option" where
  "const_it_advance it offset = map_option (\<lambda>i. it\<lparr>it_idx := i\<rparr>) (int_result (it_idx it + offset))"

definition const_it_retreat :: "setting_const_iterator \<Rightarrow> int \<Rightarrow> setting_const_iterator option" where
  "const_it_retreat it offset = map_option (\<lambda>i. it\<lparr>it_idx := i\<rparr>) (int_result (it_idx it - offset))"

definition const_it_plus :: "setting_const_iterator \<Rightarrow> int \<Rightarrow> setting_const_iterator option" where
  "const_it_plus it offset = (let copy = it in const_it_advance copy offset)"

definition plus_const_it :: "int \<Rightarrow> setting_const_iterator \<Rightarrow> setting_const_iterator option" where
  "plus_const_it offset it = (let copy = it in const_it_advance copy offset)"

definition const_it_minus :: "setting_const_iterator \<Rightarrow> int \<Rightarrow> setting_const_iterator option" where
  "const_it_minus it offset = (let copy = it in const_it_retreat copy offset)"

definition const_it_distance :: "setting_const_iterator \<Rightarrow> setting_const_iterator \<Rightarrow> int option" where
  "const_it_distance a b = int_result (it_idx a - it_idx b)"

end
