(* ===== verification/Cpp_Ownership.thy ===== *)
theory Cpp_Ownership
  imports Cpp_Config
begin

text \<open>
  The wrapper objects of the C++ interface are owned by the settings: every object is the hook of
  exactly one setting, knows its type, and is deleted with it.
\<close>

section \<open>The hooks of a tree\<close>

lemma hooks_iff: "config_setting_destroy s
    = concat (map config_setting_destroy (children s)) @ (if s_hook s = 0 then [] else [s_hook s])"
proof -
  have l: "config_list_destroy l = concat (map config_setting_destroy (elements l))" for l by (cases l) simp
  have "destroy_value v = (case value_list v of None \<Rightarrow> [] | Some l \<Rightarrow> concat (map config_setting_destroy (elements l)))" for v
    by (cases v rule: destroy_value.cases) (simp_all add: l)
  then show ?thesis by (cases s) (simp add: children_def split: option.split)
qed

lemma hooks_update:
  "valid_path s p \<Longrightarrow> mset (config_setting_destroy (update_at p f s)) + mset (config_setting_destroy (deref s p))
     = mset (config_setting_destroy s) + mset (config_setting_destroy (f (deref s p)))"
proof (induction p arbitrary: s)
  case (Cons i p)
  then have i: "i < length (children s)" "valid_path (children s ! i) p" and a: "is_aggregate s"
    using children_aggregate by auto
  let ?h = "\<lambda>x. mset (config_setting_destroy x)" and ?e = "update_at p f (children s ! i)"
  have sum: "?h x = sum_list (map ?h (children x)) + mset (if s_hook x = 0 then [] else [s_hook x])" for x
    by (subst hooks_iff) (simp add: mset_concat comp_def)
  have "sum_list (map ?h ((children s)[i := ?e])) + ?h (children s ! i) = sum_list (map ?h (children s)) + ?h ?e"
  proof -
    have "(\<Sum>x\<leftarrow>xs[i := e]. ?h x) + ?h (xs ! i) = (\<Sum>x\<leftarrow>xs. ?h x) + ?h e" if "i < length xs" for xs e
      using that by (induction xs arbitrary: i) (auto split: nat.split simp: nth_Cons ac_simps)
    then show ?thesis using i(1) by simp
  qed
  then have "?h (put_child i ?e s) + ?h (children s ! i) = ?h s + ?h ?e"
    using sum [of s] sum [of "put_child i ?e s"] by (simp add: put_child_effects [OF i(1) a] ac_simps)
  then have "?h (put_child i ?e s) + ?h (children s ! i) + ?h (deref (children s ! i) p)
      = ?h s + (?h ?e + ?h (deref (children s ! i) p))" by (simp add: ac_simps)
  also have "\<dots> = ?h s + (?h (children s ! i) + ?h (f (deref (children s ! i) p)))"
    using Cons.IH [OF i(2)] by simp
  finally show ?case by (simp add: ac_simps)
qed simp

lemma every_mono:
  "every P s \<Longrightarrow> (\<And>x. P x \<Longrightarrow> s_hook x = 0 \<or> s_hook x \<in> set (config_setting_destroy s) \<Longrightarrow> Q x) \<Longrightarrow> every Q s"
  "every_value P v \<Longrightarrow> (\<And>x. P x \<Longrightarrow> s_hook x = 0 \<or> s_hook x \<in> set (destroy_value v) \<Longrightarrow> Q x) \<Longrightarrow> every_value Q v"
  "every_list P l \<Longrightarrow> (\<And>x. P x \<Longrightarrow> s_hook x = 0 \<or> s_hook x \<in> set (config_list_destroy l) \<Longrightarrow> Q x) \<Longrightarrow> every_list Q l"
proof (induction P s and P v and P l rule: every_every_value_every_list.induct)
  case (1 P n f v h l fname)
  have "every_value Q v" using 1 by auto
  moreover have "Q (Setting n f v h l fname)" using 1(2,3) by (cases "h = 0") auto
  ultimately show ?case by simp
qed auto

lemma tidy_hooks: "tidy s \<Longrightarrow> config_setting_destroy s = []"
  and "every_value (\<lambda>s. array_ok s \<and> s_hook s = 0) v \<Longrightarrow> destroy_value v = []"
  and "every_list (\<lambda>s. array_ok s \<and> s_hook s = 0) l \<Longrightarrow> config_list_destroy l = []"
  unfolding tidy_def
  by (induction s and v and l rule: config_setting_destroy_destroy_value_config_list_destroy.induct) auto

section \<open>Ownership\<close>

definition tracked :: "(nat \<rightharpoonup> setting_object) \<Rightarrow> config_setting \<Rightarrow> bool" where
  "tracked objs s \<longleftrightarrow> array_ok s \<and> (s_hook s \<noteq> 0 \<longrightarrow>
     (\<exists>ob. objs (s_hook s) = Some ob \<and> obj_type ob = type_of_code (config_setting_type s)))"

lemma profiled_tracked: "profiled (tracked objs)"
  using profiled_array_ok unfolding profiled_def tracked_def by metis

definition owns :: "cpp_config \<Rightarrow> bool" where
  "owns st \<longleftrightarrow> wf_setting (root (cfg st)) \<and> every (tracked (objects st)) (root (cfg st))
     \<and> distinct (config_setting_destroy (root (cfg st)))
     \<and> dom (objects st) = set (config_setting_destroy (root (cfg st)))
     \<and> (\<forall>h \<in> dom (objects st). h < next_object st) \<and> 0 < next_object st"

definition live :: "nat list \<Rightarrow> cpp_config \<Rightarrow> bool" where
  "live p st \<longleftrightarrow> valid_path (root (cfg st)) p \<and> s_hook (setting_at st p) \<noteq> 0"

lemma live_object:
  assumes "owns st" "live p st"
  obtains ob where "objects st (s_hook (setting_at st p)) = Some ob"
    "obj_type ob = type_of_code (config_setting_type (setting_at st p))"
proof -
  have "every (tracked (objects st)) (setting_at st p)"
    using assms every_deref unfolding owns_def live_def setting_at_def by blast
  then have "tracked (objects st) (setting_at st p)" using every_iff by blast
  then show thesis using assms(2) that unfolding tracked_def live_def by blast
qed

text \<open>Replacing a setting by one with the same hooks.\<close>

lemma owns_store:
  assumes "owns st" "valid_path (root (cfg st)) p"
    and "wf_setting y" "s_name y = s_name (setting_at st p)" "config_setting_type y = config_setting_type (setting_at st p)"
    and "every (tracked (objects st)) y"
    and "mset (config_setting_destroy y) = mset (config_setting_destroy (setting_at st p))"
  shows "owns (store p y st)" "valid_path (root (cfg (store p y st))) p" "setting_at (store p y st) p = y"
proof -
  let ?r = "root (cfg st)" and ?r' = "update_at p (\<lambda>_. y) (root (cfg st))"
  note u = update_effects [OF assms(2), of "\<lambda>_. y"]
  have "wf_setting ?r'" using wf_update [OF _ assms(2), of "\<lambda>_. y"] assms by (simp add: owns_def setting_at_def)
  moreover have "every (tracked (objects st)) ?r'"
    using every_update [OF profiled_tracked _ assms(2), of "objects st" "\<lambda>_. y"] assms by (simp add: owns_def setting_at_def)
  moreover have m: "mset (config_setting_destroy ?r') = mset (config_setting_destroy ?r)"
    using hooks_update [OF assms(2), of "\<lambda>_. y"] assms(7) by (simp add: setting_at_def)
  moreover have "distinct (config_setting_destroy ?r')" "set (config_setting_destroy ?r') = set (config_setting_destroy ?r)"
    using m assms(1) unfolding owns_def by (metis mset_eq_imp_distinct_iff, metis mset_eq_setD)
  ultimately show "owns (store p y st)" using assms(1) by (simp add: owns_def store_def)
  show "valid_path (root (cfg (store p y st))) p" "setting_at (store p y st) p = y"
    using u by (simp_all add: store_def setting_at_def)
qed

section \<open>Wrapping\<close>

lemma set_hook_fields [simp]:
  "s_value (config_setting_set_hook s a) = s_value s" "s_name (config_setting_set_hook s a) = s_name s"
  "s_hook (config_setting_set_hook s a) = a"
  by (simp_all add: config_setting_set_hook_def split: config_setting.split)

lemma set_hook_same [simp]:
  "config_setting_type (config_setting_set_hook s a) = config_setting_type s"
  "children (config_setting_set_hook s a) = children s"
  "wf_setting (config_setting_set_hook s a) = wf_setting s"
  by (rule same_value; simp)+

lemma wrapped_hook: "s_hook (setting_at st p) \<noteq> 0 \<Longrightarrow> wrapped p st = st"
  by (simp add: wrapped_def)

lemma fresh_object:
  assumes "owns st"
  shows "next_object st \<notin> set (config_setting_destroy (root (cfg st)))" "objects st (next_object st) = None" "next_object st \<noteq> 0"
  using assms by (auto simp: owns_def dest: domI)

lemma wrapped_new:
  assumes st: "owns st" "valid_path (root (cfg st)) p" and new: "s_hook (setting_at st p) = 0"
  shows "owns (wrapped p st)"
    "root (cfg (wrapped p st)) = update_at p (\<lambda>_. config_setting_set_hook (setting_at st p) (next_object st)) (root (cfg st))"
proof -
  let ?x = "setting_at st p" and ?r = "root (cfg st)" and ?a = "next_object st"
  let ?y = "config_setting_set_hook ?x ?a" and ?objs = "(objects st)(next_object st \<mapsto> Setting_new (cfg st) (setting_at st p))"
  let ?r' = "update_at p (\<lambda>_. ?y) ?r"
  note fresh = fresh_object [OF st(1)]
  have w: "wrapped p st = st\<lparr>cfg := set_at p ?y (cfg st), objects := ?objs, next_object := Suc ?a\<rparr>"
    using new by (simp add: wrapped_def)
  then show root: "root (cfg (wrapped p st)) = ?r'" by simp
  have ev: "every (tracked ?objs) ?r"
  proof (rule every_mono(1))
    show "every (tracked (objects st)) ?r" using st(1) by (simp add: owns_def)
    show "tracked ?objs z" if "tracked (objects st) z" "s_hook z = 0 \<or> s_hook z \<in> set (config_setting_destroy ?r)" for z
      using that fresh by (auto simp: tracked_def)
  qed
  then have x: "every (tracked ?objs) ?x" using every_deref [OF _ st(2)] by (simp add: setting_at_def)
  have "tracked ?objs ?y"
    using x every_iff [of "tracked ?objs" ?x] by (auto simp: tracked_def array_ok_def Setting_new_def)
  then have y: "every (tracked ?objs) ?y" using x every_iff [of "tracked ?objs" ?x] every_iff [of "tracked ?objs" ?y] by simp
  have "wf_setting ?r'" using wf_update [OF _ st(2), of "\<lambda>_. ?y"] wf_deref [OF _ st(2)] st(1) by (simp add: owns_def setting_at_def)
  moreover have "every (tracked ?objs) ?r'"
    using every_update [OF profiled_tracked ev st(2), of "\<lambda>_. ?y"] y by (simp add: setting_at_def)
  moreover have m: "mset (config_setting_destroy ?r') = add_mset ?a (mset (config_setting_destroy ?r))"
    using hooks_update [OF st(2), of "\<lambda>_. ?y"] hooks_iff [of ?x] hooks_iff [of ?y] new fresh(3) by (simp add: setting_at_def)
  moreover have "distinct (config_setting_destroy ?r')"
  proof -
    have "mset (config_setting_destroy ?r') = mset (?a # config_setting_destroy ?r)" using m by simp
    then show ?thesis using st(1) fresh(1) unfolding owns_def by (metis distinct.simps(2) mset_eq_imp_distinct_iff)
  qed
  moreover have "set (config_setting_destroy ?r') = insert ?a (set (config_setting_destroy ?r))"
    using m by (metis set_mset_add_mset_insert set_mset_mset)
  moreover have "dom ?objs = insert ?a (set (config_setting_destroy ?r))" using st(1) by (simp add: owns_def)
  moreover have "\<forall>h \<in> insert ?a (set (config_setting_destroy ?r)). h < Suc ?a" using st(1) by (fastforce simp: owns_def)
  ultimately show "owns (wrapped p st)" using root by (simp add: owns_def w)
qed

lemma wrapped_ok:
  assumes "owns st" "valid_path (root (cfg st)) p"
  shows "owns (wrapped p st)" "live p (wrapped p st)"
    "config_setting_type (setting_at (wrapped p st) p) = config_setting_type (setting_at st p)"
proof -
  have "owns (wrapped p st) \<and> live p (wrapped p st)
      \<and> config_setting_type (setting_at (wrapped p st) p) = config_setting_type (setting_at st p)"
  proof (cases "s_hook (setting_at st p) = 0")
    case True
    note w = wrapped_new [OF assms True]
    note u = update_effects [OF assms(2), of "\<lambda>_. config_setting_set_hook (setting_at st p) (next_object st)"]
    show ?thesis using w u fresh_object(3) [OF assms(1)] by (simp add: live_def setting_at_def)
  next
    case False
    then show ?thesis using assms by (simp add: wrapped_hook live_def)
  qed
  then show "owns (wrapped p st)" "live p (wrapped p st)"
    "config_setting_type (setting_at (wrapped p st) p) = config_setting_type (setting_at st p)" by blast+
qed

lemma valid_butlast: "valid_path s p \<Longrightarrow> valid_path s (butlast p)"
  by (cases p rule: rev_cases) (simp_all add: valid_path_append)

lemma constructPath_owns: "owns st \<Longrightarrow> valid_path (root (cfg st)) p \<Longrightarrow> owns (snd (constructPath p st))"
proof (induction p st rule: constructPath.induct)
  case (1 p st)
  show ?case
  proof (cases "p = []")
    case True
    then show ?thesis using 1(2) by (simp add: constructPath.simps)
  next
    case False
    note w = wrapped_ok [OF 1(2) valid_butlast [OF 1(3)]]
    have "owns (snd (constructPath (butlast p) (wrapped (butlast p) st)))" using 1(1) [OF False w(1)] w(2) by (simp add: live_def)
    then show ?thesis using False by (subst constructPath.simps) (simp add: case_prod_unfold Let_def)
  qed
qed

section \<open>Sound outcomes\<close>

definition sound :: "'a outcome \<Rightarrow> bool" where
  "sound m = (case m of Returns x st \<Rightarrow> owns st | Throws e st \<Rightarrow> owns st | Undefined_Behaviour \<Rightarrow> False | _ \<Rightarrow> True)"

lemma sound_simps [simp]:
  "sound (Returns x st) = owns st" "sound (Throws e st) = owns st" "\<not> sound Undefined_Behaviour"
  "sound (Exits msg)" "sound Hangs" "sound Beyond_Model"
  by (simp_all add: sound_def)

lemma sound_and_then:
  assumes "sound m" "\<And>x st. m = Returns x st \<Longrightarrow> owns st \<Longrightarrow> sound (f x st)"
  shows "sound (and_then m f)"
  using assms by (cases m) (simp_all add: and_then_def)

lemma throws_sound:
  assumes "owns st" "valid_path (root (cfg st)) p"
  shows "sound (throw_setting ex p st :: 'a outcome)" "sound (throw_setting_idx ex p i st :: 'a outcome)"
    "sound (throw_setting_name ex p nm st :: 'a outcome)"
  using constructPath_owns [OF assms]
  by (simp_all add: throw_setting_def throw_setting_idx_def throw_setting_name_def case_prod_unfold Let_def)

lemma throw_not_returns [simp]:
  "throw_setting ex p st \<noteq> Returns x st'" "throw_setting_idx ex p i st \<noteq> Returns x st'"
  "throw_setting_name ex p nm st \<noteq> Returns x st'" "throw_path ex path st \<noteq> Returns x st'"
  by (simp_all add: throw_setting_def throw_setting_idx_def throw_setting_name_def throw_path_def case_prod_unfold Let_def split: option.split)

lemma wrapSetting_sound: "owns st \<Longrightarrow> valid_path (root (cfg st)) p \<Longrightarrow> sound (wrapSetting p st)"
  using wrapped_ok(1) by (simp add: wrapSetting_def)

lemma with_object_sound:
  assumes "owns st" "live p st"
    and "\<And>ob. objects st (s_hook (setting_at st p)) = Some ob \<Longrightarrow>
      obj_type ob = type_of_code (config_setting_type (setting_at st p)) \<Longrightarrow> sound (f ob)"
  shows "sound (with_object p st f)"
proof -
  obtain ob where "objects st (s_hook (setting_at st p)) = Some ob"
    "obj_type ob = type_of_code (config_setting_type (setting_at st p))" using assms(1,2) by (rule live_object)
  then show ?thesis using assms(3) by (simp add: with_object_def)
qed

text \<open>A check that passes changes nothing, and tells the type of the setting.\<close>

lemma assertType_passes:
  assumes "owns st" "live p st" "assertType t p st = Returns u st1"
  shows "st1 = st" "type_of_code (config_setting_type (setting_at st p)) = t
    \<or> config_get_auto_convert (cfg st) \<and> type_of_code (config_setting_type (setting_at st p)) \<in> {TypeInt, TypeInt64, TypeFloat}
      \<and> t \<in> {TypeInt, TypeInt64, TypeFloat}"
proof -
  obtain ob where ob: "objects st (s_hook (setting_at st p)) = Some ob"
    "obj_type ob = type_of_code (config_setting_type (setting_at st p))" using assms(1,2) by (rule live_object)
  then show "st1 = st" "type_of_code (config_setting_type (setting_at st p)) = t
    \<or> config_get_auto_convert (cfg st) \<and> type_of_code (config_setting_type (setting_at st p)) \<in> {TypeInt, TypeInt64, TypeFloat}
      \<and> t \<in> {TypeInt, TypeInt64, TypeFloat}"
    using assms(3) by (auto simp: assertType_def with_object_def isNumber_def split: if_splits)
qed

lemma assertType_sound:
  assumes "owns st" "live p st"
  shows "sound (assertType t p st)"
proof -
  have "valid_path (root (cfg st)) p" using assms(2) by (simp add: live_def)
  then show ?thesis
    unfolding assertType_def using assms throws_sound(1) [OF assms(1)] by (intro with_object_sound) auto
qed

text \<open>A method that starts with the check.\<close>

lemma checked_sound:
  assumes "owns st" "live p st"
    and "type_of_code (config_setting_type (setting_at st p)) = t
      \<or> config_get_auto_convert (cfg st) \<and> type_of_code (config_setting_type (setting_at st p)) \<in> {TypeInt, TypeInt64, TypeFloat}
        \<and> t \<in> {TypeInt, TypeInt64, TypeFloat} \<Longrightarrow> sound (f () st)"
  shows "sound (and_then (assertType t p st) f)"
proof (rule sound_and_then [OF assertType_sound [OF assms(1,2)]])
  show "sound (f u st1)" if "assertType t p st = Returns u st1" for u st1
    using assertType_passes [OF assms(1,2) that] assms(3) by simp
qed

section \<open>Values\<close>

lemma type_of_code_iff:
  "type_of_code t = TypeInt \<longleftrightarrow> t = CONFIG_TYPE_INT" "type_of_code t = TypeInt64 \<longleftrightarrow> t = CONFIG_TYPE_INT64"
  "type_of_code t = TypeFloat \<longleftrightarrow> t = CONFIG_TYPE_FLOAT" "type_of_code t = TypeString \<longleftrightarrow> t = CONFIG_TYPE_STRING"
  "type_of_code t = TypeBoolean \<longleftrightarrow> t = CONFIG_TYPE_BOOL" "type_of_code t = TypeGroup \<longleftrightarrow> t = CONFIG_TYPE_GROUP"
  "type_of_code t = TypeArray \<longleftrightarrow> t = CONFIG_TYPE_ARRAY" "type_of_code t = TypeList \<longleftrightarrow> t = CONFIG_TYPE_LIST"
  by (simp_all add: type_of_code_def config_types)

lemma toTypeCode_inverse: "type_of_code (toTypeCode t) = t"
  by (cases t) (simp_all add: toTypeCode_def type_of_code_def config_types)

text \<open>A setter stores a value of the type of the setting, or nothing.\<close>

definition retains :: "config_setting \<Rightarrow> config_setting option \<Rightarrow> bool" where
  "retains s r \<longleftrightarrow> (case r of None \<Rightarrow> True
     | Some s' \<Rightarrow> \<exists>v. s' = set_value v s \<and> value_type v = config_setting_type s \<and> scalar_type (value_type v))"

lemma setters_retain:
  assumes "config_setting_type s \<noteq> CONFIG_TYPE_NONE"
  shows "retains s (config_setting_set_bool s i)" "retains s (config_setting_set_int c s i)"
    "retains s (config_setting_set_int64 c s i)" "retains s (config_setting_set_string s str)"
    "config_setting_set_float c s d = Ptr s' \<Longrightarrow> retains s (Some s')"
  using assms
  by (auto simp: retains_def config_setting_set_bool_def config_setting_set_int_def config_setting_set_int64_def
      config_setting_set_string_def config_setting_set_float_def config_setting_type_def scalar_type_def config_types Let_def
      split: config_value.splits option.splits if_splits)

lemma owns_setter:
  assumes "owns st" "valid_path (root (cfg st)) p" "retains (setting_at st p) r"
  shows "owns (store p (or_same r (setting_at st p)) st)"
proof (cases r)
  case None
  have "wf_setting (setting_at st p)" "every (tracked (objects st)) (setting_at st p)"
    using assms(1,2) wf_deref every_deref unfolding owns_def setting_at_def by blast+
  then show ?thesis using None owns_store(1) [OF assms(1,2), of "setting_at st p"] by (simp add: or_same_def)
next
  case (Some s')
  let ?s = "setting_at st p"
  obtain v where v: "s' = set_value v ?s" "value_type v = config_setting_type ?s" "scalar_type (value_type v)"
    using assms(3) Some by (auto simp: retains_def)
  note sc = scalar_setting [OF v(3), of ?s]
  have "tracked (objects st) ?s" using assms(1,2) every_deref every_iff unfolding owns_def setting_at_def by blast
  moreover have c: "children s' = []" "children ?s = []"
    using v by (auto simp: children_def scalar_type_def config_setting_type_def config_types split: option.split)
      (cases v; cases "s_value ?s"; simp add: config_types)+
  ultimately have "tracked (objects st) s'" using v(1,2) by (simp add: tracked_def array_ok_def)
  then have "every (tracked (objects st)) s'" using c every_iff [of "tracked (objects st)" s'] by simp
  moreover have "config_setting_destroy s' = config_setting_destroy ?s"
    using c v(1) hooks_iff [of s'] hooks_iff [of ?s] by simp
  ultimately show ?thesis
    using owns_store(1) [OF assms(1,2), of s'] v(1,2) sc(1) Some by (simp add: or_same_def)
qed

lemma assign_sound:
  assumes "owns st" "live p st"
  shows "sound (assign_bool p b st)" "sound (assign_int p i st)" "sound (assign_long_long p i st)"
    "sound (assign_c_str p str st)" "sound (assign_string p t st)"
proof -
  have v: "valid_path (root (cfg st)) p" using assms(2) by (simp add: live_def)
  have none: "config_setting_type (setting_at st p) \<noteq> CONFIG_TYPE_NONE"
    if "type_of_code (config_setting_type (setting_at st p)) \<noteq> TypeNone"
    using that by (auto simp: type_of_code_def config_types)
  show "sound (assign_bool p b st)"
    unfolding assign_bool_def using none
    by (intro checked_sound [OF assms]) (auto simp: Let_def intro!: owns_setter [OF assms(1) v] setters_retain)
  show "sound (assign_int p i st)"
    unfolding assign_int_def using none
    by (intro checked_sound [OF assms]) (auto simp: Let_def intro!: owns_setter [OF assms(1) v] setters_retain)
  show "sound (assign_long_long p i st)"
    unfolding assign_long_long_def using none
    by (intro checked_sound [OF assms]) (auto simp: Let_def intro!: owns_setter [OF assms(1) v] setters_retain)
  show "sound (assign_c_str p str st)"
    unfolding assign_c_str_def using none
    by (intro checked_sound [OF assms]) (auto simp: Let_def intro!: owns_setter [OF assms(1) v] setters_retain)
  show "sound (assign_string p t st)"
    unfolding assign_string_def using none
    by (intro checked_sound [OF assms]) (auto simp: Let_def intro!: owns_setter [OF assms(1) v] setters_retain)
qed

text \<open>A double has to fit into the setting, which may be an integer.\<close>

definition fits :: "cpp_config \<Rightarrow> nat list \<Rightarrow> dbl \<Rightarrow> bool" where
  "fits st p d \<longleftrightarrow> config_setting_set_float (cfg st) (setting_at st p) d \<noteq> Undefined"

lemma assign_double_sound:
  assumes "owns st" "live p st" "fits st p d"
  shows "sound (assign_double p d st)" "sound (assign_float p d st)"
proof -
  have v: "valid_path (root (cfg st)) p" using assms(2) by (simp add: live_def)
  have "sound (case config_setting_set_float (cfg st) (setting_at st p) d of
       Ptr s1 \<Rightarrow> Returns p (store p s1 st) | Null \<Rightarrow> Returns p st | Undefined \<Rightarrow> Undefined_Behaviour)"
    if "type_of_code (config_setting_type (setting_at st p)) \<noteq> TypeNone"
  proof (cases "config_setting_set_float (cfg st) (setting_at st p) d")
    case (Ptr s1)
    have "config_setting_type (setting_at st p) \<noteq> CONFIG_TYPE_NONE" using that by (auto simp: type_of_code_def config_types)
    then have "retains (setting_at st p) (Some s1)" using setters_retain(5) Ptr by blast
    then show ?thesis using owns_setter [OF assms(1) v] Ptr by (fastforce simp: or_same_def)
  qed (use assms in \<open>auto simp: fits_def\<close>)
  then have "sound (and_then (assertType TypeFloat p st) (\<lambda>_ st1. let s = setting_at st1 p in
     case config_setting_set_float (cfg st1) s d of
       Ptr s1 \<Rightarrow> Returns p (store p s1 st1) | Null \<Rightarrow> Returns p st1 | Undefined \<Rightarrow> Undefined_Behaviour))"
    by (intro checked_sound [OF assms(1,2)]) (auto simp: Let_def)
  then show "sound (assign_double p d st)" "sound (assign_float p d st)" by (simp_all add: assign_double_def assign_float_def)
qed

text \<open>Reading an integer may meet a floating point number that does not fit.\<close>

definition readable :: "cpp_config \<Rightarrow> nat list \<Rightarrow> bool" where
  "readable st p \<longleftrightarrow> config_setting_get_int (cfg st) (setting_at st p) \<noteq> None \<and> config_setting_get_int64 (cfg st) (setting_at st p) \<noteq> None"

lemma get_float_defined: "config_setting_get_float c s \<noteq> None"
  by (auto simp: config_setting_get_float_def config_setting_get_float_p_def split: config_value.splits if_splits)

lemma operators_sound:
  assumes "owns st" "live p st" "readable st p"
  shows "sound (operator_bool p st)" "sound (operator_int p st)" "sound (operator_unsigned_int p st)"
    "sound (operator_long_long p st)" "sound (operator_unsigned_long_long p st)" "sound (operator_double p st)"
    "sound (operator_float p st)" "sound (operator_c_str p st)" "sound (operator_string p st)"
  using assms(1,3) get_float_defined [of "cfg st" "setting_at st p"]
  by (auto simp: operator_bool_def operator_int_def operator_unsigned_int_def operator_long_long_def
      operator_unsigned_long_long_def operator_double_def operator_float_def operator_c_str_def operator_string_def
      readable_def defined_value_def intro!: checked_sound [OF assms(1,2)] split: option.split)

lemma owns_object:
  assumes "owns st" "objects st h = Some ob" "obj_type ob' = obj_type ob"
  shows "owns (st\<lparr>objects := (objects st)(h \<mapsto> ob')\<rparr>)"
proof -
  have "tracked ((objects st)(h \<mapsto> ob')) z" if "tracked (objects st) z" for z
    using that assms(2,3) by (auto simp: tracked_def)
  then have "every (tracked ((objects st)(h \<mapsto> ob'))) (root (cfg st))"
    using every_mono(1) [of "tracked (objects st)" "root (cfg st)" "tracked ((objects st)(h \<mapsto> ob'))"] assms(1)
    by (simp add: owns_def)
  moreover have "dom ((objects st)(h \<mapsto> ob')) = dom (objects st)" using assms(2) by auto
  ultimately show ?thesis using assms(1) by (simp add: owns_def)
qed

text \<open>A setting that differs in its format or its position in the source only.\<close>

lemma owns_same:
  assumes "owns st" "valid_path (root (cfg st)) p"
    and y: "s_value y = s_value (setting_at st p)" "s_name y = s_name (setting_at st p)" "s_hook y = s_hook (setting_at st p)"
  shows "owns (store p y st)"
proof -
  let ?s = "setting_at st p"
  have s: "wf_setting ?s" "every (tracked (objects st)) ?s"
    using assms(1,2) wf_deref every_deref unfolding owns_def setting_at_def by blast+
  note e = same_value [OF y(1)]
  have "tracked (objects st) y" using s(2) every_iff [of "tracked (objects st)" ?s] e y(3) by (simp add: tracked_def array_ok_def)
  then have "every (tracked (objects st)) y"
    using s(2) every_iff [of "tracked (objects st)" ?s] every_iff [of "tracked (objects st)" y] e(2) by simp
  then show ?thesis
    using owns_store(1) [OF assms(1,2)] s(1) e y hooks_iff [of y] hooks_iff [of ?s] by simp
qed

lemma setFormat_sound:
  assumes "owns st" "live p st"
  shows "sound (setFormat p f st)"
  unfolding setFormat_def
proof (rule with_object_sound [OF assms])
  fix ob
  let ?s = "setting_at st p"
  assume ob: "objects st (s_hook ?s) = Some ob" "obj_type ob = type_of_code (config_setting_type ?s)"
  let ?f = "if obj_type ob = TypeInt \<or> obj_type ob = TypeInt64 then (if f = FormatHex then FormatHex else FormatDefault) else FormatDefault"
  let ?st = "st\<lparr>objects := (objects st)(s_hook ?s \<mapsto> ob\<lparr>obj_format := ?f\<rparr>)\<rparr>"
  let ?y = "or_same (config_setting_set_format ?s (format_code ?f)) ?s"
  have "owns ?st" using owns_object [OF assms(1) ob(1)] by simp
  moreover have "setting_at ?st p = ?s" "valid_path (root (cfg ?st)) p" using assms(2) by (simp_all add: setting_at_def live_def)
  moreover have "s_value ?y = s_value ?s" "s_name ?y = s_name ?s" "s_hook ?y = s_hook ?s"
    using set_format_fields by (auto simp: or_same_def split: option.split)
  ultimately have "owns (store p ?y ?st)" using owns_same [of ?st p ?y] by simp
  then show "sound (let f = ?f; s = ?s; st1 = st\<lparr>objects := (objects st)(s_hook s \<mapsto> ob\<lparr>obj_format := f\<rparr>)\<rparr>
      in Returns () (store p (or_same (config_setting_set_format s (format_code f)) s) st1))"
    by (simp only: Let_def sound_simps)
qed

section \<open>Finding\<close>

lemma valid_lookup:
  assumes "valid_path (root (cfg st)) p" "config_setting_lookup (setting_at st p) path = Some q"
  shows "valid_path (root (cfg st)) (p @ q)"
  using assms lookup_in_tree by (simp add: valid_path_append setting_at_def)

lemma finding_sound:
  assumes "owns st" "live p st"
  shows "sound (Setting_lookup p path st)" "sound (Setting_member p nm st)" "sound (Setting_element p i st)"
    "sound (Setting_exists p nm st)" "sound (getPath p st)" "p \<noteq> [] \<Longrightarrow> sound (getParent p st)"
proof -
  have v: "valid_path (root (cfg st)) p" using assms(2) by (simp add: live_def)
  show "sound (Setting_lookup p path st)"
    unfolding Setting_lookup_def using valid_lookup [OF v]
    by (intro checked_sound [OF assms]) (auto intro!: throws_sound [OF assms(1) v] wrapSetting_sound [OF assms(1)] split: option.split)
  show "sound (Setting_member p nm st)"
    unfolding Setting_member_def using get_member_range v
    by (intro checked_sound [OF assms])
      (auto simp: valid_path_append setting_at_def intro!: throws_sound [OF assms(1) v] wrapSetting_sound [OF assms(1)] split: option.split)
  show "sound (Setting_element p i st)"
    unfolding Setting_element_def using get_elem_range v
    by (intro with_object_sound [OF assms])
      (auto simp: valid_path_append setting_at_def intro!: throws_sound [OF assms(1) v] wrapSetting_sound [OF assms(1)] split: option.split)
  show "sound (Setting_exists p nm st)"
    unfolding Setting_exists_def using assms(1) by (intro with_object_sound [OF assms]) auto
  show "sound (getPath p st)" using constructPath_owns [OF assms(1) v] by (simp add: getPath_def case_prod_unfold Let_def)
  show "sound (getParent p st)" if "p \<noteq> []"
    using that wrapSetting_sound [OF assms(1) valid_butlast [OF v]] by (simp add: getParent_def)
qed

section \<open>Adding\<close>

lemma zero_value_type: "type_ok t \<Longrightarrow> value_type (zero_value t) = t"
  by (auto simp: type_ok_def zero_value_def config_types)

lemma zero_value_children: "s_value e = zero_value t \<Longrightarrow> children e = []"
  by (auto simp: children_def zero_value_def)

lemma typecode_ok: "type_ok (toTypeCode t)"
  by (cases t) (simp_all add: type_ok_def toTypeCode_def config_types)

lemma grown_store:
  assumes st: "owns st" "live p st" and g: "grown (setting_at st p) s e" and e: "s_value e = zero_value t" "s_hook e = 0"
    and t: "type_ok t" and arr: "config_setting_type (setting_at st p) = CONFIG_TYPE_ARRAY \<Longrightarrow>
      scalar_type t \<and> (\<forall>x \<in> set (children (setting_at st p)). config_setting_type x = t)"
  shows "owns (store p s st)" "valid_path (root (cfg (store p s st))) (p @ [length (children (setting_at st p))])"
    "setting_at (store p s st) (p @ [length (children (setting_at st p))]) = e"
proof -
  let ?s = "setting_at st p"
  have v: "valid_path (root (cfg st)) p" using st(2) by (simp add: live_def)
  have et: "config_setting_type e = t" using e(1) zero_value_type [OF t] by (simp add: config_setting_type_def)
  have ec: "children e = []" using zero_value_children [OF e(1)] .
  have old: "every (tracked (objects st)) ?s" using st(1) v every_deref unfolding owns_def setting_at_def by blast
  have "array_ok e" using ec et by (auto simp: array_ok_def scalar_type_def)
  then have "every (tracked (objects st)) e" using ec e(2) every_iff [of "tracked (objects st)" e] by (simp add: tracked_def)
  moreover have "array_ok s" using arr g et by (auto simp: array_ok_def grown_def)
  then have "tracked (objects st) s" using old every_iff [of "tracked (objects st)" ?s] g by (auto simp: tracked_def grown_def)
  ultimately have ev: "every (tracked (objects st)) s"
    using old every_iff [of "tracked (objects st)" ?s] every_iff [of "tracked (objects st)" s] g by (auto simp: grown_def)
  have "config_setting_destroy s = config_setting_destroy ?s"
    using g e(2) ec hooks_iff [of s] hooks_iff [of ?s] hooks_iff [of e] by (simp add: grown_def)
  then have o: "owns (store p s st)" "valid_path (root (cfg (store p s st))) p" "setting_at (store p s st) p = s"
    using owns_store [OF st(1) v, of s] g ev by (simp_all add: grown_def)
  show "owns (store p s st)" by (rule o(1))
  show "valid_path (root (cfg (store p s st))) (p @ [length (children ?s)])"
    "setting_at (store p s st) (p @ [length (children ?s)]) = e"
    using o(2,3) g by (simp_all add: valid_path_append setting_at_def deref_append grown_def)
qed

lemma add_named_sound:
  assumes "owns st" "live p st"
  shows "sound (add_named p nm t st)"
proof -
  let ?s = "setting_at st p" and ?t = "toTypeCode t"
  have v: "valid_path (root (cfg st)) p" using assms(2) by (simp add: live_def)
  have wf: "wf_setting ?s" using assms(1) v wf_deref by (simp add: owns_def setting_at_def)
  have "sound (case config_setting_add ?s (Some nm) ?t of
             Null \<Rightarrow> throw_setting_name SettingNameException p nm st
           | Undefined \<Rightarrow> Undefined_Behaviour
           | Ptr s1 \<Rightarrow> wrapSetting (p @ [length (children ?s)]) (store p s1 st))" if "type_of_code (config_setting_type ?s) = TypeGroup"
  proof -
    have g: "is_group ?s" "is_aggregate ?s" "config_setting_type ?s \<noteq> CONFIG_TYPE_ARRAY"
      using that by (simp_all add: type_of_code_iff is_group_def is_aggregate_def config_types)
    show ?thesis
    proof (cases "config_setting_add ?s (Some nm) ?t")
      case (Ptr s1)
      then obtain e where e: "grown ?s s1 e" "s_value e = zero_value ?t" "s_hook e = 0"
        using add_grown [OF wf g(2) Ptr typecode_ok] by auto
      then show ?thesis
        using Ptr grown_store(1,2) [OF assms e typecode_ok] g(3) wrapSetting_sound by simp
    next
      case Null
      then show ?thesis using throws_sound(3) [OF assms(1) v] by simp
    next
      case Undefined
      then show ?thesis using add_defined(1) [OF wf g(2) typecode_ok, of "Some nm"] by simp
    qed
  qed
  then show ?thesis
    unfolding add_named_def Let_def using throws_sound(3) [OF assms(1) v]
    by (intro checked_sound [OF assms]) auto
qed

text \<open>The element check leaves a tree in which the new element may be added.\<close>

lemma to_int32_length: "n < 2 ^ 31 \<Longrightarrow> to_int32 (int n) = int n"
  by (rule to_int32_id) simp_all

lemma setting_length: "is_aggregate s \<Longrightarrow> config_setting_length s = length (children s)"
  by (simp add: config_setting_length_def children_def is_aggregate_def split: option.split)

lemma check_element_ok:
  assumes st: "owns st" "live p st" and ob: "obj_type ob = type_of_code (config_setting_type (setting_at st p))"
    and agg: "obj_type ob = TypeArray \<or> obj_type ob = TypeList" and small: "length (children (setting_at st p)) < 2 ^ 31"
  shows "sound (check_element p t ob st)"
    "check_element p t ob st = Returns u st1 \<Longrightarrow> live p st1
      \<and> config_setting_type (setting_at st1 p) = config_setting_type (setting_at st p)
      \<and> (config_setting_type (setting_at st p) = CONFIG_TYPE_ARRAY \<longrightarrow> scalar_type (toTypeCode t)
          \<and> (\<forall>x \<in> set (children (setting_at st1 p)). config_setting_type x = toTypeCode t))"
proof -
  let ?s = "setting_at st p"
  have v: "valid_path (root (cfg st)) p" using st(2) by (simp add: live_def)
  have "sound (check_element p t ob st) \<and> (check_element p t ob st = Returns u st1 \<longrightarrow> live p st1
      \<and> config_setting_type (setting_at st1 p) = config_setting_type (setting_at st p)
      \<and> (config_setting_type (setting_at st p) = CONFIG_TYPE_ARRAY \<longrightarrow> scalar_type (toTypeCode t)
          \<and> (\<forall>x \<in> set (children (setting_at st1 p)). config_setting_type x = toTypeCode t)))"
  proof (cases "obj_type ob = TypeArray")
    case False
    then have "config_setting_type ?s \<noteq> CONFIG_TYPE_ARRAY" using ob type_of_code_iff(7) by simp
    then show ?thesis using False st by (auto simp: check_element_def)
  next
    case True
    then have arr: "config_setting_type ?s = CONFIG_TYPE_ARRAY" "is_aggregate ?s"
      using ob type_of_code_iff(7) by (simp_all add: is_aggregate_def)
    then have len: "getLength p st = int (length (children ?s))"
      using to_int32_length [OF small] setting_length [of ?s] by (simp add: getLength_def)
    show ?thesis
    proof (cases "children ?s = []")
      case empty: True
      show ?thesis
      proof (cases "t \<in> {TypeInt, TypeInt64, TypeFloat, TypeString, TypeBoolean}")
        case True
        then have "scalar_type (toTypeCode t)" by (auto simp: scalar_type_def toTypeCode_def)
        then show ?thesis using True empty len st \<open>obj_type ob = TypeArray\<close> by (auto simp: check_element_def)
      next
        case False
        then show ?thesis
          using empty len throws_sound(2) [OF st(1) v] \<open>obj_type ob = TypeArray\<close> by (auto simp: check_element_def)
      qed
    next
      case full: False
      let ?q = "p @ [0]"
      have vq: "valid_path (root (cfg st)) ?q" using v full by (simp add: valid_path_append setting_at_def)
      note w = wrapped_ok [OF st(1) vq]
      obtain first where first: "objects (wrapped ?q st) (s_hook (setting_at (wrapped ?q st) ?q)) = Some first"
          "obj_type first = type_of_code (config_setting_type (setting_at (wrapped ?q st) ?q))"
        using w(1,2) by (rule live_object)
      have f0: "config_setting_type (setting_at (wrapped ?q st) ?q) = config_setting_type (children ?s ! 0)"
        using w(3) by (simp add: setting_at_def deref_append)
      obtain ob0 where ob0: "objects st (s_hook ?s) = Some ob0" "obj_type ob0 = type_of_code (config_setting_type ?s)"
        using st by (rule live_object)
      have elem: "Setting_element p 0 st = Returns ?q (wrapped ?q st)"
        using ob0 True ob full arr
        by (auto simp: Setting_element_def with_object_def config_setting_get_elem_def children_def wrapSetting_def split: option.splits)
      have p_ok: "live p (wrapped ?q st) \<and> config_setting_type (setting_at (wrapped ?q st) p) = config_setting_type ?s
          \<and> (\<forall>x \<in> set (children (setting_at (wrapped ?q st) p)). config_setting_type x \<in> config_setting_type ` set (children ?s))"
      proof (cases "s_hook (setting_at st ?q) = 0")
        case False
        then show ?thesis using st(2) by (simp add: wrapped_hook)
      next
        case new: True
        let ?y = "config_setting_set_hook (children ?s ! 0) (next_object st)"
        have i: "0 < length (children ?s)" using full by simp
        have "setting_at st ?q = children ?s ! 0" by (simp add: setting_at_def deref_append)
        moreover have "update_at [0] (\<lambda>_. ?y) = put_child 0 ?y" by (simp add: fun_eq_iff)
        ultimately have r: "root (cfg (wrapped ?q st)) = update_at p (\<lambda>s. put_child 0 ?y s) (root (cfg st))"
          using wrapped_new(2) [OF st(1) vq new] by (simp add: update_at_append)
        note u = update_effects [OF v, of "\<lambda>s. put_child 0 ?y s"]
        have "setting_at (wrapped ?q st) p = put_child 0 ?y ?s" using u(2) r by (simp add: setting_at_def)
        moreover have "valid_path (root (cfg (wrapped ?q st))) p" using u(1) r by simp
        moreover have "\<forall>x \<in> set ((children ?s)[0 := ?y]). config_setting_type x \<in> config_setting_type ` set (children ?s)"
          using set_update_subset_insert [of "children ?s" 0 ?y] nth_mem [OF i] by force
        ultimately show ?thesis using st(2) put_child_effects [OF i arr(2)] by (simp add: live_def)
      qed
      have every: "scalar_type (config_setting_type (children ?s ! 0))
          \<and> (\<forall>x \<in> set (children ?s). config_setting_type x = config_setting_type (children ?s ! 0))"
      proof -
        have "every (tracked (objects st)) ?s" using st(1) v every_deref unfolding owns_def setting_at_def by blast
        then have "array_ok ?s" using every_iff [of "tracked (objects st)" ?s] unfolding tracked_def by blast
        then obtain t where t: "scalar_type t" "\<forall>x \<in> set (children ?s). config_setting_type x = t"
          using arr(1) unfolding array_ok_def by blast
        moreover have "children ?s ! 0 \<in> set (children ?s)" using full by simp
        ultimately show ?thesis by simp
      qed
      then have code: "toTypeCode t = config_setting_type (children ?s ! 0)" if "t = obj_type first"
        using first(2) f0 that by (auto simp: scalar_type_def toTypeCode_def type_of_code_def config_types)
      have "check_element p t ob st = (if t \<noteq> obj_type first then throw_setting_idx SettingTypeException p (getLength p st) (wrapped ?q st)
          else Returns () (wrapped ?q st))"
        using True elem len full first(1) by (simp add: check_element_def and_then_def with_object_def)
      then show ?thesis
        using w(1) p_ok every code throws_sound(2) [OF w(1), of p] by (auto simp: live_def)
    qed
  qed
  then show "sound (check_element p t ob st)"
    "check_element p t ob st = Returns u st1 \<Longrightarrow> live p st1
      \<and> config_setting_type (setting_at st1 p) = config_setting_type (setting_at st p)
      \<and> (config_setting_type (setting_at st p) = CONFIG_TYPE_ARRAY \<longrightarrow> scalar_type (toTypeCode t)
          \<and> (\<forall>x \<in> set (children (setting_at st1 p)). config_setting_type x = toTypeCode t))" by blast+
qed

lemma assign_zero_sound:
  assumes "owns st" "live p st" "config_setting_type (setting_at st p) = toTypeCode t"
  shows "sound (assign_zero p t st)"
proof -
  have "fits st p (Dbl 0 0)" if "t = TypeFloat"
    using assms(3) that by (cases "s_value (setting_at st p)")
      (auto simp: fits_def config_setting_set_float_def config_setting_type_def toTypeCode_def config_types)
  then show ?thesis
    using assign_sound [OF assms(1,2)] assign_double_sound [OF assms(1,2)] assms(1) by (cases t) (simp_all add: assign_zero_def)
qed

lemma add_element_sound:
  assumes "owns st" "live p st" "length (children (setting_at st p)) < 2 ^ 31"
  shows "sound (add_element p t st)"
  unfolding add_element_def
proof (rule with_object_sound [OF assms(1,2)])
  fix ob :: setting_object
  assume ob: "obj_type ob = type_of_code (config_setting_type (setting_at st p))"
  have v: "valid_path (root (cfg st)) p" using assms(2) by (simp add: live_def)
  have "sound (let s = setting_at st1 p; q = p @ [length (children s)] in
       case config_setting_add s None (toTypeCode t) of
         Ptr s1 \<Rightarrow> and_then (wrapSetting q (store p s1 st1)) (\<lambda>_ st2. assign_zero q t st2)
       | _ \<Rightarrow> Undefined_Behaviour)"
    if agg: "obj_type ob = TypeArray \<or> obj_type ob = TypeList" and ret: "check_element p t ob st = Returns u st1" "owns st1" for u st1
  proof -
    let ?s = "setting_at st1 p" and ?q = "p @ [length (children (setting_at st1 p))]" and ?t = "toTypeCode t"
    have c: "live p st1" "config_setting_type ?s = config_setting_type (setting_at st p)"
        "config_setting_type ?s = CONFIG_TYPE_ARRAY \<Longrightarrow> scalar_type ?t \<and> (\<forall>x \<in> set (children ?s). config_setting_type x = ?t)"
      using check_element_ok(2) [OF assms(1,2) ob agg assms(3) ret(1)] by simp_all
    have s: "is_aggregate ?s" "\<not> is_group ?s"
      using agg ob c(2) type_of_code_iff(7,8) by (auto simp: is_aggregate_def is_group_def config_types)
    have wf: "wf_setting ?s" using ret(2) c(1) wf_deref by (simp add: owns_def live_def setting_at_def)
    obtain s1 where s1: "config_setting_add ?s None ?t = Ptr s1"
      using add_defined [OF wf s(1) typecode_ok, of None] s(2) by (cases "config_setting_add ?s None ?t") auto
    obtain e where e: "grown ?s s1 e" "s_value e = zero_value ?t" "s_hook e = 0"
      using add_grown [OF wf s(1) s1 typecode_ok] s(2) by auto
    note g = grown_store [OF ret(2) c(1) e typecode_ok c(3)]
    note w = wrapped_ok [OF g(1,2)]
    have "config_setting_type (setting_at (wrapped ?q (store p s1 st1)) ?q) = ?t"
      using w(3) g(3) e(2) zero_value_type [OF typecode_ok] by (simp add: config_setting_type_def)
    then have "sound (assign_zero ?q t (wrapped ?q (store p s1 st1)))" using w(1,2) by (intro assign_zero_sound)
    then show ?thesis using s1 by (simp add: Let_def wrapSetting_def and_then_def)
  qed
  then show "sound (if obj_type ob \<noteq> TypeArray \<and> obj_type ob \<noteq> TypeList then throw_setting SettingTypeException p st
     else and_then (check_element p t ob st) (\<lambda>_ st1. let s = setting_at st1 p; q = p @ [length (children s)] in
       case config_setting_add s None (toTypeCode t) of
         Ptr s1 \<Rightarrow> and_then (wrapSetting q (store p s1 st1)) (\<lambda>_ st2. assign_zero q t st2)
       | _ \<Rightarrow> Undefined_Behaviour))"
    using throws_sound(1) [OF assms(1) v] check_element_ok(1) [OF assms(1,2) ob _ assms(3)] by (auto intro!: sound_and_then)
qed

section \<open>Removing\<close>

lemma delete_objects_all:
  assumes "distinct hs" "set hs \<subseteq> dom (objects st)"
  shows "delete_objects hs st = Returns () (st\<lparr>objects := (\<lambda>h. if h \<in> set hs then None else objects st h)\<rparr>)"
  using assms
proof (induction hs arbitrary: st)
  case (Cons h hs)
  let ?st = "st\<lparr>objects := (objects st)(h := None)\<rparr>"
  have "delete_object h st = Returns () ?st" using Cons.prems(2) by (auto simp: delete_object_def)
  moreover have "delete_objects hs ?st = Returns () (?st\<lparr>objects := (\<lambda>k. if k \<in> set hs then None else objects ?st k)\<rparr>)"
    using Cons by (intro Cons.IH) auto
  moreover have "(\<lambda>k. if k \<in> set hs then None else objects ?st k) = (\<lambda>k. if k \<in> set (h # hs) then None else objects st k)"
    by auto
  ultimately show ?case by (simp add: and_then_def)
qed simp

lemma remove_sound:
  assumes "owns st" "valid_path (root (cfg st)) p" "config_setting_remove_elem (setting_at st p) i = Some (s, hs)"
  shows "sound (delete_objects hs (store p s st))"
proof -
  let ?s = "setting_at st p" and ?r = "root (cfg st)" and ?r' = "update_at p (\<lambda>_. s) (root (cfg st))"
  let ?objs = "\<lambda>h. if h \<in> set hs then None else objects st h"
  note parts = remove_elem_parts [OF assms(3)]
  have old: "wf_setting ?s" "every (tracked (objects st)) ?s"
    using assms(1,2) wf_deref every_deref unfolding owns_def setting_at_def by blast+
  have sub: "set (children s) \<subseteq> set (children ?s)"
    using parts(2) set_take_subset [of i "children ?s"] set_drop_subset [of "Suc i" "children ?s"] by auto
  have "tracked (objects st) s"
    using old(2) every_iff [of "tracked (objects st)" ?s] parts(6,8) sub unfolding tracked_def array_ok_def by (metis subsetD)
  then have "every (tracked (objects st)) s"
    using old(2) every_iff [of "tracked (objects st)" ?s] every_iff [of "tracked (objects st)" s] sub by blast
  then have ev: "every (tracked (objects st)) ?r'"
    using every_update [OF profiled_tracked _ assms(2), of "objects st" "\<lambda>_. s"] assms(1) parts(8) by (simp add: owns_def setting_at_def)
  have m: "mset hs + mset (config_setting_destroy ?r') = mset (config_setting_destroy ?r)"
    using hooks_update [OF assms(2), of "\<lambda>_. s"] remove_elem_hooks [OF assms(3)] by (simp add: setting_at_def ac_simps)
  then have "mset (hs @ config_setting_destroy ?r') = mset (config_setting_destroy ?r)" by simp
  then have d: "distinct (hs @ config_setting_destroy ?r')" "set hs \<union> set (config_setting_destroy ?r') = set (config_setting_destroy ?r)"
    using assms(1) unfolding owns_def by (metis mset_eq_imp_distinct_iff, metis mset_eq_setD set_append)
  have obj: "objects (store p s st) = objects st" by (simp add: store_def)
  have "set hs \<subseteq> dom (objects st)" using d(2) assms(1) by (auto simp: owns_def)
  then have del: "delete_objects hs (store p s st) = Returns () ((store p s st)\<lparr>objects := ?objs\<rparr>)"
    using delete_objects_all [of hs "store p s st", unfolded obj] d(1) by simp
  have "every (tracked ?objs) ?r'"
  proof (rule every_mono(1) [OF ev])
    show "tracked ?objs x" if "tracked (objects st) x" "s_hook x = 0 \<or> s_hook x \<in> set (config_setting_destroy ?r')" for x
      using that d(1) by (auto simp: tracked_def)
  qed
  moreover have "wf_setting ?r'"
    using wf_update [OF _ assms(2), of "\<lambda>_. s"] assms(1) old(1) parts(7,9) by (simp add: owns_def setting_at_def)
  moreover have "dom ?objs = set (config_setting_destroy ?r')"
  proof -
    have "dom ?objs = dom (objects st) - set hs" by (auto simp: dom_def)
    then show ?thesis using d assms(1) by (auto simp: owns_def)
  qed
  moreover have "\<forall>h \<in> dom ?objs. h < next_object st" using assms(1) by (auto simp: owns_def dom_def)
  ultimately show ?thesis using d(1) assms(1) unfolding del by (simp add: owns_def store_def)
qed

lemma removing_sound:
  assumes "owns st" "live p st"
  shows "sound (remove_name p nm st)" "sound (remove_index p idx st)"
proof -
  have v: "valid_path (root (cfg st)) p" using assms(2) by (simp add: live_def)
  have "sound (delete_objects hs (store p s st))" if "config_setting_remove (setting_at st p) nm = Some (s, hs)" for s hs
    using remove_is_remove_elem [OF that] remove_sound [OF assms(1) v] by blast
  then show "sound (remove_name p nm st)"
    unfolding remove_name_def using throws_sound(3) [OF assms(1) v]
    by (intro checked_sound [OF assms]) (auto split: option.split)
  show "sound (remove_index p idx st)"
    unfolding remove_index_def using throws_sound(2) [OF assms(1) v] remove_sound [OF assms(1) v]
    by (intro with_object_sound [OF assms]) (auto split: option.split)
qed

section \<open>The configuration\<close>

lemma owns_new: "owns Config_new"
  by (simp add: owns_def Config_new_def config_init_def tracked_def array_ok_def config_setting_type_def config_types)

lemma destroy_all:
  assumes "owns st"
  shows "Config_destroy st = Returns () (st\<lparr>objects := (\<lambda>_. None)\<rparr>)"
proof -
  have "(\<lambda>h. if h \<in> set (config_setting_destroy (root (cfg st))) then None else objects st h) = (\<lambda>_. None)"
    using assms by (auto simp: owns_def fun_eq_iff domIff)
  then show ?thesis using delete_objects_all [of "config_setting_destroy (root (cfg st))" st] assms
    by (simp add: Config_destroy_def config_destroy_def owns_def)
qed

lemma owns_tidy:
  assumes "wf_setting (root c)" "tidy (root c)" "objects st = (\<lambda>_. None)" "0 < next_object st"
  shows "owns (st\<lparr>cfg := c\<rparr>)"
proof -
  have "every (tracked (\<lambda>_. None)) (root c)"
    by (rule every_mono(1) [OF assms(2) [unfolded tidy_def]]) (auto simp: tracked_def)
  then show ?thesis using assms tidy_hooks(1) [OF assms(2)] by (simp add: owns_def)
qed

lemma handleError_sound: "owns st \<Longrightarrow> sound (handleError st)"
  by (simp add: handleError_def split: config_error.split)

lemma read_sound:
  assumes "owns st" "read_ok r"
  shows "sound (and_then (delete_objects (config_destroy (cfg st)) st) (\<lambda>_ st1. after_read (Some r) st1))"
proof -
  let ?st = "st\<lparr>objects := (\<lambda>_. None)\<rparr>"
  have d: "delete_objects (config_destroy (cfg st)) st = Returns () ?st"
    using destroy_all [OF assms(1)] by (simp add: Config_destroy_def)
  have "sound (after_read (Some r) ?st)"
  proof (cases r)
    case (Read_Done ok c echoed es)
    then have "owns (?st\<lparr>cfg := c\<rparr>)" using assms by (intro owns_tidy) (auto simp: read_ok_def owns_def)
    then show ?thesis using Read_Done handleError_sound by (simp add: after_read_def)
  qed (use assms(2) in \<open>auto simp: after_read_def read_ok_def\<close>)
  then show ?thesis using d by (simp add: and_then_def)
qed

lemma reading_sound:
  assumes "owns st"
  shows "sound (Config_read fs stream st)" "sound (readString fs str st)" "sound (readFile fs filename st)"
proof -
  have d: "delete_objects (config_destroy (cfg st)) st = Returns () (st\<lparr>objects := (\<lambda>_. None)\<rparr>)"
    using destroy_all [OF assms] by (simp add: Config_destroy_def)
  obtain r1 where r1: "config_read fs (cfg st) stream = Some r1" "read_ok r1"
    using config_read_p_returns unfolding config_read_def by blast
  show "sound (Config_read fs stream st)" using read_sound [OF assms r1(2)] r1(1) d by (simp add: Config_read_def and_then_def)
  obtain r2 where r2: "config_read_string fs (cfg st) str = Some r2" "read_ok r2"
    using config_read_p_returns unfolding config_read_string_def by blast
  show "sound (readString fs str st)" using read_sound [OF assms r2(2)] r2(1) d by (simp add: readString_def and_then_def)
  show "sound (readFile fs filename st)"
  proof (cases "\<exists>t. fs filename = Some (Regular t)")
    case True
    then obtain t where t: "fs filename = Some (Regular t)" by blast
    obtain r3 where r3: "config_read_file fs (cfg st) filename = Some r3" "read_ok r3"
      using config_read_p_returns t unfolding config_read_file_def by fastforce
    show ?thesis using read_sound [OF assms r3(2)] r3(1) d t by (simp add: readFile_def and_then_def)
  next
    case False
    then have "readFile fs filename st = handleError (st\<lparr>cfg := (cfg st)\<lparr>error_text := Some io_error, error_type := CONFIG_ERR_FILE_IO\<rparr>\<rparr>)"
      by (auto simp: readFile_def and_then_def config_read_file_def after_read_def split: option.split file_node.split)
    moreover have "owns (st\<lparr>cfg := (cfg st)\<lparr>error_text := Some io_error, error_type := CONFIG_ERR_FILE_IO\<rparr>\<rparr>)"
      using assms by (simp add: owns_def)
    ultimately show ?thesis using handleError_sound by simp
  qed
qed

lemma Config_lookup_sound: "owns st \<Longrightarrow> sound (Config_lookup path st)"
  using lookup_in_tree [of "root (cfg st)" path] wrapSetting_sound [of st]
  by (auto simp: Config_lookup_def throw_path_def split: option.split)

end
