(* ===== verification/Cpp_Calls.thy ===== *)
theory Cpp_Calls
  imports Cpp_Ownership
begin

text \<open>
  Sequences of calls of the C++ interface, from the constructor of \<^verbatim>\<open>Config\<close> to its
  destructor.
\<close>

section \<open>Calls\<close>

datatype value_kind = K_bool | K_int | K_unsigned_int | K_long_long | K_unsigned_long_long | K_double | K_float | K_c_str | K_string

datatype setting_value = A_bool bool | A_int int | A_long_long int | A_double dbl | A_float dbl | A_c_str "string option" | A_string string

datatype call =
  Get_Root | Find string | Find_Value value_kind string
| Below "nat list" string | Member "nat list" string | Element "nat list" int | Member_Value value_kind "nat list" string
| Exists "nat list" string | Path "nat list" | Parent "nat list" | Convert value_kind "nat list"
| Assign "nat list" setting_value | Format "nat list" setting_format
| Add_Named "nat list" string setting_type | Add_Element "nat list" setting_type
| Remove_Name "nat list" string | Remove_Index "nat list" "32 word"
| Iterate "nat list" bool
| Auto_Convert bool | Options int | Default_Format setting_format | Tab_Width nat | Include_Dir string
| Read_Stream file_system file_node | Read_String file_system string | Read_File file_system string

definition discard :: "'a outcome \<Rightarrow> unit outcome" where
  "discard m = and_then m (\<lambda>_ st. Returns () st)"

fun convert :: "value_kind \<Rightarrow> nat list \<Rightarrow> cpp_config \<Rightarrow> unit outcome" where
  "convert K_bool p st = discard (operator_bool p st)"
| "convert K_int p st = discard (operator_int p st)"
| "convert K_unsigned_int p st = discard (operator_unsigned_int p st)"
| "convert K_long_long p st = discard (operator_long_long p st)"
| "convert K_unsigned_long_long p st = discard (operator_unsigned_long_long p st)"
| "convert K_double p st = discard (operator_double p st)"
| "convert K_float p st = discard (operator_float p st)"
| "convert K_c_str p st = discard (operator_c_str p st)"
| "convert K_string p st = discard (operator_string p st)"

fun find_value :: "value_kind \<Rightarrow> string \<Rightarrow> cpp_config \<Rightarrow> unit outcome" where
  "find_value K_bool path st = discard (Config_lookupValue_bool path st)"
| "find_value K_int path st = discard (Config_lookupValue_int path st)"
| "find_value K_unsigned_int path st = discard (Config_lookupValue_unsigned_int path st)"
| "find_value K_long_long path st = discard (Config_lookupValue_long_long path st)"
| "find_value K_unsigned_long_long path st = discard (Config_lookupValue_unsigned_long_long path st)"
| "find_value K_double path st = discard (Config_lookupValue_double path st)"
| "find_value K_float path st = discard (Config_lookupValue_float path st)"
| "find_value K_c_str path st = discard (Config_lookupValue_c_str path st)"
| "find_value K_string path st = discard (Config_lookupValue_string path st)"

fun member_value :: "value_kind \<Rightarrow> nat list \<Rightarrow> string \<Rightarrow> cpp_config \<Rightarrow> unit outcome" where
  "member_value K_bool p nm st = discard (Setting_lookupValue_bool p nm st)"
| "member_value K_int p nm st = discard (Setting_lookupValue_int p nm st)"
| "member_value K_unsigned_int p nm st = discard (Setting_lookupValue_unsigned_int p nm st)"
| "member_value K_long_long p nm st = discard (Setting_lookupValue_long_long p nm st)"
| "member_value K_unsigned_long_long p nm st = discard (Setting_lookupValue_unsigned_long_long p nm st)"
| "member_value K_double p nm st = discard (Setting_lookupValue_double p nm st)"
| "member_value K_float p nm st = discard (Setting_lookupValue_float p nm st)"
| "member_value K_c_str p nm st = discard (Setting_lookupValue_c_str p nm st)"
| "member_value K_string p nm st = discard (Setting_lookupValue_string p nm st)"

fun assign :: "nat list \<Rightarrow> setting_value \<Rightarrow> cpp_config \<Rightarrow> unit outcome" where
  "assign p (A_bool v) st = discard (assign_bool p v st)"
| "assign p (A_int v) st = discard (assign_int p v st)"
| "assign p (A_long_long v) st = discard (assign_long_long p v st)"
| "assign p (A_double v) st = discard (assign_double p v st)"
| "assign p (A_float v) st = discard (assign_float p v st)"
| "assign p (A_c_str v) st = discard (assign_c_str p v st)"
| "assign p (A_string v) st = discard (assign_string p v st)"

fun run :: "call \<Rightarrow> cpp_config \<Rightarrow> unit outcome" where
  "run Get_Root st = discard (getRoot st)"
| "run (Find path) st = discard (Config_lookup path st)"
| "run (Find_Value k path) st = find_value k path st"
| "run (Below p path) st = discard (Setting_lookup p path st)"
| "run (Member p nm) st = discard (Setting_member p nm st)"
| "run (Element p i) st = discard (Setting_element p i st)"
| "run (Member_Value k p nm) st = member_value k p nm st"
| "run (Exists p nm) st = discard (Setting_exists p nm st)"
| "run (Path p) st = discard (getPath p st)"
| "run (Parent p) st = discard (getParent p st)"
| "run (Convert k p) st = convert k p st"
| "run (Assign p v) st = assign p v st"
| "run (Format p f) st = setFormat p f st"
| "run (Add_Named p nm t) st = discard (add_named p nm t st)"
| "run (Add_Element p t) st = discard (add_element p t st)"
| "run (Remove_Name p nm) st = remove_name p nm st"
| "run (Remove_Index p idx) st = remove_index p idx st"
| "run (Iterate p e) st = discard (SettingIterator_new p e st)"
| "run (Auto_Convert flag) st = Returns () (setAutoConvert flag st)"
| "run (Options opts) st = Returns () (setOptions opts st)"
| "run (Default_Format f) st = Returns () (setDefaultFormat f st)"
| "run (Tab_Width w) st = Returns () (setTabWidth w st)"
| "run (Include_Dir d) st = Returns () (setIncludeDir d st)"
| "run (Read_Stream fs stream) st = Config_read fs stream st"
| "run (Read_String fs str) st = readString fs str st"
| "run (Read_File fs filename) st = readFile fs filename st"

section \<open>Proper use\<close>

text \<open>
  A method is called on a setting a reference of which has been handed out and that still
  exists. Excluded are: the parent of the root, whose exception is made of a null pointer;
  conversions between a floating point number and an integer it does not fit; the string of a
  setting that was never given one; and an array with more elements than an \<^verbatim>\<open>int\<close> counts.
\<close>

definition has_string :: "value_kind \<Rightarrow> cpp_config \<Rightarrow> nat list \<Rightarrow> bool" where
  "has_string k st p \<longleftrightarrow> (k = K_string \<longrightarrow> s_value (setting_at st p) \<noteq> V_String None)"

fun proper :: "call \<Rightarrow> cpp_config \<Rightarrow> bool" where
  "proper (Find_Value k path) st =
     (case config_setting_lookup (root (cfg st)) path of None \<Rightarrow> True | Some p \<Rightarrow> readable st p \<and> has_string k st p)"
| "proper (Below p path) st = live p st"
| "proper (Member p nm) st = live p st"
| "proper (Element p i) st = live p st"
| "proper (Member_Value k p nm) st = (live p st
     \<and> (case config_setting_get_member (setting_at st p) nm of None \<Rightarrow> True
        | Some i \<Rightarrow> readable st (p @ [i]) \<and> has_string k st (p @ [i])))"
| "proper (Exists p nm) st = live p st"
| "proper (Path p) st = live p st"
| "proper (Parent p) st = (live p st \<and> p \<noteq> [])"
| "proper (Convert k p) st = (live p st \<and> readable st p)"
| "proper (Assign p v) st = (live p st \<and> (case v of A_double d \<Rightarrow> fits st p d | A_float d \<Rightarrow> fits st p d | _ \<Rightarrow> True))"
| "proper (Format p f) st = live p st"
| "proper (Add_Named p nm t) st = live p st"
| "proper (Add_Element p t) st = (live p st \<and> length (children (setting_at st p)) < 2 ^ 31)"
| "proper (Remove_Name p nm) st = live p st"
| "proper (Remove_Index p idx) st = live p st"
| "proper (Iterate p e) st = live p st"
| "proper _ st = True"

inductive cpp_reachable :: "cpp_config \<Rightarrow> bool" where
  start: "cpp_reachable Config_new"
| returns: "cpp_reachable st \<Longrightarrow> proper c st \<Longrightarrow> run c st = Returns u st1 \<Longrightarrow> cpp_reachable st1"
| throws: "cpp_reachable st \<Longrightarrow> proper c st \<Longrightarrow> run c st = Throws e st1 \<Longrightarrow> cpp_reachable st1"

section \<open>Every call is sound\<close>

lemma sound_discard [simp]: "sound (discard m) = sound m"
  by (cases m) (simp_all add: discard_def and_then_def)

lemma sound_no_exceptions [simp]: "sound (no_exceptions m) = sound m"
  by (cases m) (simp_all add: no_exceptions_def)

lemma root_cfg_simps [simp]:
  "root (config_set_auto_convert c flag) = root c" "root (config_set_options c opts) = root c"
  "root (config_set_include_dir c dir) = root c"
  by (simp_all add: config_set_auto_convert_def config_set_options_def config_set_include_dir_def)

lemma owns_options:
  assumes "owns st"
  shows "owns (setAutoConvert flag st)" "owns (setOptions opts st)" "owns (setDefaultFormat f st)"
    "owns (setTabWidth w st)" "owns (setIncludeDir d st)"
  using assms
  by (simp_all add: owns_def setAutoConvert_def setOptions_def setDefaultFormat_def setTabWidth_def setIncludeDir_def Let_def)

lemma wrapped_value:
  assumes "owns st" "valid_path (root (cfg st)) p"
  shows "s_value (setting_at (wrapped p st) p) = s_value (setting_at st p)"
    "config_has_option (cfg (wrapped p st)) = config_has_option (cfg st)"
  using update_effects(2) [OF assms(2)]
  by (simp_all add: wrapped_def setting_at_def set_at_def update_setting_def config_has_option_def fun_eq_iff)

lemma readable_wrapped:
  assumes "owns st" "valid_path (root (cfg st)) p"
  shows "readable (wrapped p st) p = readable st p" "has_string k (wrapped p st) p = has_string k st p"
  unfolding readable_def has_string_def config_setting_get_int_def config_setting_get_int64_def
    config_setting_get_int_p_def config_setting_get_int64_p_def wrapped_value [OF assms]
  by (rule refl)+

lemma c_str_to_string_sound:
  assumes "owns st" "live p st" "has_string K_string st p"
  shows "sound (c_str_to_string p st)"
proof -
  have "sound (case config_setting_get_string (setting_at st p) of None \<Rightarrow> Undefined_Behaviour | Some s \<Rightarrow> Returns s st)"
    if "type_of_code (config_setting_type (setting_at st p)) = TypeString"
    using that assms(1,3) type_of_code_iff(4) [of "config_setting_type (setting_at st p)"]
    by (cases "s_value (setting_at st p)")
      (auto simp: has_string_def config_setting_get_string_def config_setting_type_def config_types split: option.split)
  moreover have "c_str_to_string p st = and_then (assertType TypeString p st) (\<lambda>_ st1.
      case config_setting_get_string (setting_at st1 p) of None \<Rightarrow> Undefined_Behaviour | Some s \<Rightarrow> Returns s st1)"
    by (cases "assertType TypeString p st") (simp_all add: c_str_to_string_def operator_c_str_def and_then_def)
  ultimately show ?thesis by (simp only:) (rule checked_sound [OF assms(1,2)], auto)
qed

lemma found_value_sound:
  assumes "owns st" "valid_path (root (cfg st)) p" "readable st p" "has_string k st p"
    and conv: "\<And>st. owns st \<Longrightarrow> live p st \<Longrightarrow> readable st p \<Longrightarrow> has_string k st p \<Longrightarrow> sound (conv p st)"
  shows "sound (and_then (wrapSetting p st) conv)"
  using wrapped_ok [OF assms(1,2)] readable_wrapped [OF assms(1,2)] assms(3,4) conv
  by (simp add: wrapSetting_def and_then_def)

lemma find_value_sound:
  assumes st: "owns st" and "proper (Find_Value k path) st"
    and conv: "\<And>p st. owns st \<Longrightarrow> live p st \<Longrightarrow> readable st p \<Longrightarrow> has_string k st p \<Longrightarrow> sound (conv p st)"
  shows "sound (config_lookup_no_exceptions conv path st)"
proof (cases "config_setting_lookup (root (cfg st)) path")
  case None
  then show ?thesis using st by (simp add: config_lookup_no_exceptions_def Config_lookup_def throw_path_def and_then_def)
next
  case (Some p)
  then have "sound (and_then (wrapSetting p st) conv)"
    using assms(2) lookup_in_tree [OF Some] by (intro found_value_sound [OF st] conv) auto
  then show ?thesis using Some by (simp add: config_lookup_no_exceptions_def Config_lookup_def)
qed

lemma and_then_assoc: "and_then (and_then m f) g = and_then m (\<lambda>x st. and_then (f x st) g)"
  by (cases m) (simp_all add: and_then_def)

lemma and_then_throws: "throw_setting_name ex p nm st = and_then (throw_setting_name ex p nm st) f"
  by (simp add: throw_setting_name_def and_then_def Let_def case_prod_unfold)

lemma member_value_sound:
  assumes st: "owns st" and "proper (Member_Value k p nm) st"
    and conv: "\<And>p st. owns st \<Longrightarrow> live p st \<Longrightarrow> readable st p \<Longrightarrow> has_string k st p \<Longrightarrow> sound (conv p st)"
  shows "sound (setting_lookup_no_exceptions conv p nm st)"
proof -
  have l: "live p st" and v: "valid_path (root (cfg st)) p" using assms(2) by (simp_all add: live_def)
  have "sound (and_then (case config_setting_get_member (setting_at st p) nm of
       None \<Rightarrow> throw_setting_name SettingNotFoundException p nm st | Some i \<Rightarrow> wrapSetting (p @ [i]) st) conv)"
  proof (cases "config_setting_get_member (setting_at st p) nm")
    case None
    then show ?thesis using throws_sound(3) [OF st v] by (simp flip: and_then_throws)
  next
    case (Some i)
    then have "valid_path (root (cfg st)) (p @ [i])"
      using v get_member_range [OF Some] by (simp add: valid_path_append setting_at_def)
    then have "sound (and_then (wrapSetting (p @ [i]) st) conv)"
      using assms(2) Some by (intro found_value_sound [OF st] conv) auto
    then show ?thesis using Some by simp
  qed
  then have "sound (and_then (Setting_member p nm st) conv)"
    unfolding Setting_member_def and_then_assoc by (rule checked_sound [OF st l])
  then show ?thesis by (simp add: setting_lookup_no_exceptions_def)
qed

lemma convert_sound: "owns st \<Longrightarrow> live p st \<Longrightarrow> readable st p \<Longrightarrow> sound (convert k p st)"
  using operators_sound by (cases k) simp_all

lemma iterator_sound:
  assumes "owns st" "live p st"
  shows "sound (SettingIterator_new p e st)"
proof -
  have "valid_path (root (cfg st)) p" using assms(2) by (simp add: live_def)
  then show ?thesis
    unfolding SettingIterator_new_def using assms(1) throws_sound(1) [OF assms(1)]
    by (intro with_object_sound [OF assms]) (auto simp: Let_def)
qed

lemma run_sound:
  assumes "owns st" "proper c st"
  shows "sound (run c st)"
proof (cases c)
  case (Find_Value k path)
  then have "proper (Find_Value k path) st" using assms(2) by simp
  note f = find_value_sound [OF assms(1) this]
  show ?thesis
    by (cases k; simp add: Find_Value Config_lookupValue_bool_def Config_lookupValue_int_def Config_lookupValue_unsigned_int_def
      Config_lookupValue_long_long_def Config_lookupValue_unsigned_long_long_def Config_lookupValue_double_def
      Config_lookupValue_float_def Config_lookupValue_c_str_def Config_lookupValue_string_def; rule f; simp add: operators_sound c_str_to_string_sound)
next
  case (Member_Value k p nm)
  then have "proper (Member_Value k p nm) st" using assms(2) by simp
  note f = member_value_sound [OF assms(1) this]
  show ?thesis
    by (cases k; simp add: Member_Value Setting_lookupValue_bool_def Setting_lookupValue_int_def Setting_lookupValue_unsigned_int_def
      Setting_lookupValue_long_long_def Setting_lookupValue_unsigned_long_long_def Setting_lookupValue_double_def
      Setting_lookupValue_float_def Setting_lookupValue_c_str_def Setting_lookupValue_string_def; rule f; simp add: operators_sound c_str_to_string_sound)
next
  case (Assign p v)
  then show ?thesis using assms assign_sound [OF assms(1)] assign_double_sound [OF assms(1)] by (cases v) simp_all
qed (use assms finding_sound [OF assms(1)] convert_sound setFormat_sound add_named_sound add_element_sound removing_sound
    iterator_sound owns_options reading_sound Config_lookup_sound wrapSetting_sound [OF assms(1), of "[]"] in \<open>simp_all add: getRoot_def\<close>)

lemma reachable_owns: "cpp_reachable st \<Longrightarrow> owns st"
proof (induction rule: cpp_reachable.induct)
  case start
  show ?case by (rule owns_new)
next
  case (returns st c u st1)
  then show ?case using run_sound [of st c] by simp
next
  case (throws st c e st1)
  then show ?case using run_sound [of st c] by simp
qed

text \<open>
  C34. Every wrapper object is owned by one setting. Whatever is called in whatever order on a
  \<^verbatim>\<open>Config\<close>, exceptions included: the objects are exactly the hooks of the settings, no
  two settings share one, and an object knows the type its setting has; no proper call is
  undefined behaviour, in particular no object is deleted twice or used after it was deleted;
  and the destructor of the configuration deletes every object that is left.
\<close>

theorem wrappers_are_owned:
  assumes "cpp_reachable st"
  shows "distinct (config_setting_destroy (root (cfg st))) \<and> dom (objects st) = set (config_setting_destroy (root (cfg st)))
    \<and> (\<forall>p. live p st \<longrightarrow> (\<exists>ob. objects st (s_hook (setting_at st p)) = Some ob
          \<and> obj_type ob = type_of_code (config_setting_type (setting_at st p))))
    \<and> (\<forall>c. proper c st \<longrightarrow> run c st \<noteq> Undefined_Behaviour)
    \<and> Config_destroy st = Returns () (st\<lparr>objects := (\<lambda>_. None)\<rparr>)"
proof -
  have st: "owns st" using reachable_owns [OF assms] .
  have "run c st \<noteq> Undefined_Behaviour" if "proper c st" for c
    using run_sound [OF st that] by auto
  moreover have "\<exists>ob. objects st (s_hook (setting_at st p)) = Some ob
      \<and> obj_type ob = type_of_code (config_setting_type (setting_at st p))" if "live p st" for p
    using live_object [OF st that] by blast
  ultimately show ?thesis using st destroy_all [OF st] by (simp add: owns_def)
qed

text \<open>A run: two settings are added to the root and the first is removed.\<close>

definition after_call :: "call \<Rightarrow> cpp_config \<Rightarrow> cpp_config" where
  "after_call c st = (case run c st of Returns u st1 \<Rightarrow> st1 | Throws e st1 \<Rightarrow> st1 | _ \<Rightarrow> st)"

lemma reachable_after: "cpp_reachable st \<Longrightarrow> proper c st \<Longrightarrow> cpp_reachable (after_call c st)"
  by (auto simp: after_call_def split: outcome.split intro: cpp_reachable.intros)

definition demo_calls :: "call list" where
  "demo_calls = [Get_Root, Add_Named [] ''port'' TypeInt, Add_Named [] ''host'' TypeString, Remove_Name [] ''port'']"

theorem wrappers_are_owned_witness:
  "config_setting_destroy (root (cfg (fold after_call demo_calls Config_new))) = [3, 1]
   \<and> dom (objects (fold after_call demo_calls Config_new)) = {3, 1}"
proof -
  let ?st1 = "after_call Get_Root Config_new"
  let ?st2 = "after_call (Add_Named [] ''port'' TypeInt) ?st1"
  let ?st3 = "after_call (Add_Named [] ''host'' TypeString) ?st2"
  let ?st4 = "after_call (Remove_Name [] ''port'') ?st3"
  have "proper Get_Root Config_new" "proper (Add_Named [] ''port'' TypeInt) ?st1"
    "proper (Add_Named [] ''host'' TypeString) ?st2" "proper (Remove_Name [] ''port'') ?st3"
    by code_simp+
  then have "cpp_reachable ?st4" using cpp_reachable.start by (intro reachable_after)
  then have r: "cpp_reachable (fold after_call demo_calls Config_new)" by (simp add: demo_calls_def)
  have "config_setting_destroy (root (cfg (fold after_call demo_calls Config_new))) = [3, 1]" by code_simp
  then show ?thesis using wrappers_are_owned [OF r] by simp
qed

text \<open>
  What the proper calls leave out. The parent of the root is an exception made of a null pointer;
  and an integer assigned to a 64-bit setting is lost without a word when conversions are allowed.
\<close>

lemma parent_of_root: "run (Parent []) st = Undefined_Behaviour"
  by (simp add: getParent_def throw_path_def discard_def and_then_def)

lemma assigned_int_is_lost:
  assumes "owns st" "live p st" "s_value (setting_at st p) = V_Int64 old" "config_get_auto_convert (cfg st)"
  shows "\<exists>st1. assign_int p new st = Returns p st1 \<and> s_value (setting_at st1 p) = V_Int64 old"
proof -
  obtain ob where ob: "objects st (s_hook (setting_at st p)) = Some ob" "obj_type ob = TypeInt64"
    using live_object [OF assms(1,2)] assms(3) type_of_code_iff(2) by (metis config_setting_type_def value_type.simps(4))
  then have "assign_int p new st = Returns p (store p (setting_at st p) st)"
    using assms(3,4) by (simp add: assign_int_def assertType_def with_object_def isNumber_def and_then_def or_same_def
        config_setting_set_int_def)
  moreover have "setting_at (store p (setting_at st p) st) p = setting_at st p"
    using update_effects(2) [of "root (cfg st)" p "\<lambda>_. setting_at st p"] assms(2) by (simp add: live_def store_def setting_at_def)
  ultimately show ?thesis using assms(3) by simp
qed

end
