(* ===== verification/Cpp_Paths.thy ===== *)
theory Cpp_Paths
  imports Cpp_Calls
begin

text \<open>
  The path that \<^verbatim>\<open>Setting::getPath\<close> and the exceptions report leads back to the setting.
\<close>

section \<open>The text of a path\<close>

definition step_text :: "config_setting \<Rightarrow> nat \<Rightarrow> string" where
  "step_text e i = (case s_name e of Some nm \<Rightarrow> nm | None \<Rightarrow> ''['' @ fmt_d (int i) @ '']'')"

fun step_texts :: "config_setting \<Rightarrow> nat list \<Rightarrow> string list" where
  "step_texts s [] = []"
| "step_texts s (i # is) = step_text (children s ! i) i # step_texts (children s ! i) is"

lemma step_texts_snoc: "step_texts s (p @ [i]) = step_texts s p @ [step_text (deref s (p @ [i])) i]"
  by (induction p arbitrary: s) simp_all

lemma join_path_snoc: "join_path c (xs @ [x]) = (if xs = [] then x else join_path c xs @ c # x)"
  by (induction c xs rule: join_path.induct) simp_all

lemma step_text_nonempty:
  assumes "wf_setting s" "i < length (children s)"
  shows "step_text (children s ! i) i \<noteq> []"
proof (cases "s_name (children s ! i)")
  case (Some nm)
  have a: "is_aggregate s" using assms(2) by (rule children_aggregate)
  have "if config_setting_type s = CONFIG_TYPE_GROUP then names_ok (children s)
      else \<forall>x \<in> set (children s). s_name x = None" using wf_children(2) [OF assms(1) a] .
  then have "config_validate_name nm" using Some nth_mem [OF assms(2)] by (auto simp: names_ok_def split: if_splits)
  then show ?thesis using Some by (auto simp: step_text_def config_validate_name_def)
qed (simp add: step_text_def)

lemma join_nonempty:
  assumes "wf_setting s" "valid_path s p" "p \<noteq> []"
  shows "join_path CHR ''.'' (step_texts s p) \<noteq> []"
proof -
  obtain i "is" where "p = i # is" using assms(3) by (cases p) auto
  then show ?thesis using assms step_text_nonempty [of s i]
    by (cases "step_texts (children s ! i) is") auto
qed

text \<open>Wrapping a setting changes no path.\<close>

lemma step_texts_update:
  assumes "\<And>s. children (f s) = children s" "\<And>s. s_name (f s) = s_name s"
  shows "valid_path s q \<Longrightarrow> step_texts (update_at q f s) p = step_texts s p
    \<and> (valid_path (update_at q f s) p \<longleftrightarrow> valid_path s p)"
proof (induction q arbitrary: s p)
  case Nil
  then show ?case using assms(1) by (cases p) simp_all
next
  case (Cons j q)
  then have j: "j < length (children s)" "valid_path (children s ! j) q" by simp_all
  have "s_name (update_at q f (children s ! j)) = s_name (children s ! j)"
    using assms(2) s_name_update [of q] by (cases "q = []") simp_all
  then show ?case
    using Cons.IH [OF j(2)] j put_child_effects [OF j(1) children_aggregate [OF j(1)]]
    by (cases p) (auto simp: nth_list_update step_text_def)
qed

lemma step_texts_wrapped:
  assumes "valid_path (root (cfg st)) q"
  shows "step_texts (root (cfg (wrapped q st))) p = step_texts (root (cfg st)) p"
    "valid_path (root (cfg (wrapped q st))) p \<longleftrightarrow> valid_path (root (cfg st)) p"
proof -
  let ?f = "\<lambda>s. config_setting_set_hook s (next_object st)"
  have u: "update_at q (\<lambda>_. ?f (setting_at st q)) (root (cfg st)) = update_at q ?f (root (cfg st))"
    using update_at_const [of q ?f "root (cfg st)"] by (simp add: setting_at_def)
  show "step_texts (root (cfg (wrapped q st))) p = step_texts (root (cfg st)) p"
    "valid_path (root (cfg (wrapped q st))) p \<longleftrightarrow> valid_path (root (cfg st)) p"
    using step_texts_update [of ?f, OF _ _ assms] by (simp_all add: wrapped_def u)
qed

lemma constructPath_text:
  "owns st \<Longrightarrow> valid_path (root (cfg st)) p \<Longrightarrow>
   fst (constructPath p st) = join_path CHR ''.'' (step_texts (root (cfg st)) p)"
proof (induction p st rule: constructPath.induct)
  case (1 p st)
  show ?case
  proof (cases p rule: rev_cases)
    case Nil
    then show ?thesis by (subst constructPath.simps) simp
  next
    case (snoc q i)
    let ?st = "wrapped q st"
    have q: "valid_path (root (cfg st)) q" using 1(3) snoc by (simp add: valid_path_append)
    note w = wrapped_ok [OF 1(2) q]
    have "fst (constructPath q ?st) = join_path CHR ''.'' (step_texts (root (cfg st)) q)"
      using 1(1) w(1) step_texts_wrapped [OF q] q snoc by simp
    moreover have "join_path CHR ''.'' (step_texts (root (cfg st)) q) \<noteq> [] \<longleftrightarrow> step_texts (root (cfg st)) q \<noteq> []"
      using join_nonempty [OF _ q] 1(2) by (cases q) (auto simp: owns_def)
    moreover have "config_setting_index p = int i" using snoc by (simp add: config_setting_index_def)
    then have "(case s_name (setting_at st p) of Some nm \<Rightarrow> nm
        | None \<Rightarrow> ''['' @ fmt_d (config_setting_index p) @ '']'') = step_text (deref (root (cfg st)) p) i"
      using snoc by (simp only: step_text_def setting_at_def)
    ultimately show ?thesis
      using snoc by (subst constructPath.simps) (simp add: case_prod_unfold Let_def step_texts_snoc join_path_snoc)
  qed
qed

section \<open>The way back\<close>

lemma search_from_index:
  "names_ok xs \<Longrightarrow> i < length xs \<Longrightarrow> s_name (xs ! i) = Some n \<Longrightarrow> search_from b xs n = Some (b + i)"
proof (induction xs arbitrary: b i)
  case (Cons x xs)
  obtain m where m: "s_name x = Some m" "config_validate_name m" using Cons.prems(1) by (auto simp: names_ok_def)
  have n: "config_validate_name n" using Cons.prems nth_mem [of i "x # xs"] by (fastforce simp: names_ok_def)
  show ?case
  proof (cases i)
    case 0
    then show ?thesis using Cons.prems(3) m by (simp add: name_compare_zero)
  next
    case (Suc k)
    have "s_name (xs ! k) \<in> s_name ` set xs" using Cons.prems(2) Suc by simp
    then have "n \<noteq> m" using Cons.prems(1,3) Suc m(1) by (auto simp: names_ok_def)
    moreover have "names_ok xs" using Cons.prems(1) by (simp add: names_ok_def)
    ultimately show ?thesis using Cons Suc m n by (simp add: name_compare_zero)
  qed
qed simp

lemma bracket_chars: "\<not> is_path_token CHR ''[''" "\<not> is_path_token CHR '']''" "digit_val CHR '']'' = None"
  by code_simp+

lemma digits_no_token: "c \<in> set (digits n) \<Longrightarrow> \<not> is_path_token c"
  using digits_are_digits [of n] by (auto simp: is_path_token_def PATH_TOKENS_def digit_val_def Let_def)

lemma atoi_bracket:
  assumes "n < 2 ^ 31"
  shows "atoi (digits n @ CHR '']'' # r) = int n"
proof -
  obtain c cs where c: "digits n = c # cs" "digit_val c \<noteq> None" using digits_hd by blast
  then have s: "\<not> is_space c" "c \<noteq> CHR ''-''" "c \<noteq> CHR ''+''"
    by (auto simp: is_space_def digit_val_def Let_def split: if_splits)
  have v: "digits_value 0 (digits n @ CHR '']'' # r) = n"
    using digits_value_append [OF digits_are_digits] digits_value_digits bracket_chars(3) by simp
  have "strtol10 (digits n @ CHR '']'' # r) = max (- (2 ^ 63)) (min (2 ^ 63 - 1) (int (digits_value 0 (digits n @ CHR '']'' # r))))"
    using s by (simp add: strtol10_def c(1))
  then show ?thesis using assms v by (simp add: atoi_def to_int32_id)
qed

lemma lookup_from_index:
  assumes "n < 2 ^ 31" "path_rest r" "is_aggregate s" "n < length (children s)"
  shows "lookup_from s t (''['' @ digits n @ '']'' @ r) = lookup_from (children s ! n) (t @ [n]) r"
proof -
  have e: "config_setting_get_elem s n = Some n"
    using assms(3,4) by (auto simp: config_setting_get_elem_def children_def is_aggregate_def split: option.splits)
  have d: "dropWhile (\<lambda>c. \<not> is_path_token c) (digits n @ CHR '']'' # r) = r"
    using digits_no_token assms(2) bracket_chars(2) by (cases r) (auto simp: dropWhile_append path_rest_def)
  show ?thesis
    using e d atoi_bracket [OF assms(1), of r] assms(1) bracket_chars(1)
    by (subst lookup_from_unfold [OF refl refl refl]) simp
qed

text \<open>No list on the way has more elements than an \<^verbatim>\<open>int\<close> counts.\<close>

lemma lookup_step_texts:
  "wf_setting s \<Longrightarrow> valid_path s p \<Longrightarrow> \<forall>i \<in> set p. i < 2 ^ 31 \<Longrightarrow>
   lookup_from s t (join_path CHR ''.'' (step_texts s p)) = Some (t @ p)"
proof (induction p arbitrary: s t)
  case (Cons i p)
  let ?e = "children s ! i" and ?ts = "step_texts (children s ! i) p"
  have i: "i < length (children s)" "valid_path ?e p" using Cons.prems(2) by simp_all
  then have a: "is_aggregate s" using children_aggregate by blast
  have e: "wf_setting ?e" using wf_children(1) [OF Cons.prems(1) a] i(1) by simp
  have names: "if config_setting_type s = CONFIG_TYPE_GROUP then names_ok (children s)
      else \<forall>x \<in> set (children s). s_name x = None" using wf_children(2) [OF Cons.prems(1) a] .
  define r where "r = (if ?ts = [] then [] else CHR ''.'' # join_path CHR ''.'' ?ts)"
  have dot: "is_path_token CHR ''.''" by code_simp
  then have r: "path_rest r" "lookup_from ?e (t @ [i]) r = Some (t @ i # p)"
    using Cons.IH [OF e i(2), of "t @ [i]"] Cons.prems(3) by (auto simp: r_def path_rest_def lookup_from_token)
  have whole: "join_path CHR ''.'' (step_texts s (i # p)) = step_text ?e i @ r" by (cases ?ts) (simp_all add: r_def)
  show ?case
  proof (cases "s_name ?e")
    case None
    have "fmt_d (int i) = digits i" by (simp add: fmt_d_def)
    then show ?thesis
      unfolding whole using None lookup_from_index [OF _ r(1) a i(1), of t] r(2) Cons.prems(3) by (simp add: step_text_def)
  next
    case (Some nm)
    then have g: "config_setting_type s = CONFIG_TYPE_GROUP" "names_ok (children s)"
      using names nth_mem [OF i(1)] by (auto split: if_splits)
    then have v: "config_validate_name nm" using Some nth_mem [OF i(1)] by (fastforce simp: names_ok_def)
    have "config_setting_get_member s nm = search_from 0 (children s) nm"
      using g(1) by (auto simp: config_setting_get_member_def config_list_search_def children_def split: option.split)
    then have "config_setting_get_member s nm = Some i" using search_from_index [OF g(2) i(1) Some, of 0] by simp
    then show ?thesis
      unfolding whole using Some lookup_from_name [OF v r(1), of s t] r(2) by (simp add: step_text_def)
  qed
qed simp

text \<open>
  C35. The path of a setting leads back to it. Whatever \<^verbatim>\<open>getPath\<close> returns for a setting,
  for members of groups, elements of arrays and lists, and any nesting of them,
  \<^verbatim>\<open>Config::lookup\<close> of that text returns the same setting, and so does a lookup of the
  path in an exception that was thrown for the setting.
\<close>

theorem path_leads_back:
  assumes "owns st" "live p st" "\<forall>i \<in> set p. i < 2 ^ 31"
  shows "\<exists>path st1 st2 st3. getPath p st = Returns path st1 \<and> owns st1 \<and> Config_lookup path st1 = Returns p st2
    \<and> throw_setting SettingTypeException p st = (Throws (SettingTypeException path) st1 :: unit outcome)
    \<and> Config_lookup path st = Returns p st3"
proof -
  have v: "valid_path (root (cfg st)) p" using assms(2) by (simp add: live_def)
  obtain path st1 where c: "constructPath p st = (path, st1)" by fastforce
  have path: "path = join_path CHR ''.'' (step_texts (root (cfg st)) p)" using constructPath_text [OF assms(1) v] c by simp
  have o: "owns st1" using constructPath_owns [OF assms(1) v] c by simp
  have same: "step_texts (root (cfg (snd (constructPath p st)))) q = step_texts (root (cfg st)) q
      \<and> (valid_path (root (cfg (snd (constructPath p st)))) q \<longleftrightarrow> valid_path (root (cfg st)) q)"
    if "owns st" "valid_path (root (cfg st)) p" for q p st
    using that
  proof (induction p st rule: constructPath.induct)
    case (1 p st)
    show ?case
    proof (cases "p = []")
      case True
      then show ?thesis by (simp add: constructPath.simps)
    next
      case False
      have b: "valid_path (root (cfg st)) (butlast p)" using valid_butlast [OF 1(3)] .
      note w = wrapped_ok [OF 1(2) b]
      have "snd (constructPath p st) = snd (constructPath (butlast p) (wrapped (butlast p) st))"
        using False by (subst constructPath.simps) (simp add: case_prod_unfold Let_def)
      then show ?thesis using 1(1) [OF False w(1)] step_texts_wrapped [OF b] b by simp
    qed
  qed
  have "config_setting_lookup (root (cfg st1)) path = Some p"
    using lookup_step_texts [of "root (cfg st1)" p "[]"] same [OF assms(1) v] o v path c assms(3)
    by (simp add: config_setting_lookup_def owns_def)
  moreover have "config_setting_lookup (root (cfg st)) path = Some p"
    using lookup_step_texts [of "root (cfg st)" p "[]"] v path assms(1,3) by (simp add: config_setting_lookup_def owns_def)
  ultimately show ?thesis
    using c o by (simp add: getPath_def throw_setting_def Config_lookup_def wrapSetting_def)
qed

definition demo_list_calls :: "call list" where
  "demo_list_calls = [Get_Root, Add_Named [] ''servers'' TypeList, Add_Element [0] TypeInt]"

theorem path_leads_back_witness:
  "(\<exists>st1. getPath [0, 0] (fold after_call demo_list_calls Config_new) = Returns ''servers.[0]'' st1)
   \<and> (\<exists>st3. Config_lookup ''servers.[0]'' (fold after_call demo_list_calls Config_new) = Returns [0, 0] st3)"
proof -
  let ?st1 = "after_call Get_Root Config_new"
  let ?st2 = "after_call (Add_Named [] ''servers'' TypeList) ?st1"
  let ?st3 = "after_call (Add_Element [0] TypeInt) ?st2"
  have "live [0] ?st2" "children (setting_at ?st2 [0]) = []" "proper Get_Root Config_new"
    "proper (Add_Named [] ''servers'' TypeList) ?st1" by code_simp+
  moreover from this have "proper (Add_Element [0] TypeInt) ?st2" by simp
  ultimately have "cpp_reachable ?st3" using cpp_reachable.start by (intro reachable_after)
  then have o: "owns (fold after_call demo_list_calls Config_new)" using reachable_owns by (simp add: demo_list_calls_def)
  have l: "live [0, 0] (fold after_call demo_list_calls Config_new)"
    and t: "fst (constructPath [0, 0] (fold after_call demo_list_calls Config_new)) = ''servers.[0]''" by code_simp+
  have "\<forall>i \<in> set [0, 0 :: nat]. i < 2 ^ 31" by simp
  from path_leads_back [OF o l this] show ?thesis using t by (auto simp: getPath_def case_prod_unfold Let_def)
qed

end
