(* ===== verification/Scanner_Buffers.thy ===== *)
theory Scanner_Buffers
  imports Scanner
begin

text \<open>
  The input buffers of flex as \<^verbatim>\<open>scanner.c\<close> has them: a block of bytes with two
  end-of-buffer characters behind the text, positions into it, refilling from a stream, and the
  buffers on the heap that include files switch between. The scanner of the theory Scanner
  reads the sequence of characters that these buffers represent.
\<close>

section \<open>Memory\<close>

text \<open>
  An operation that fails ends the call with a message of flex or with undefined behaviour, the
  left injection. Every access to a block is checked against its length.
\<close>

definition chain :: "'e + 'a \<Rightarrow> ('a \<Rightarrow> 'e + 'b) \<Rightarrow> 'e + 'b" where
  "chain m k = (case m of Inl e \<Rightarrow> Inl e | Inr a \<Rightarrow> k a)"

definition peek :: "string \<Rightarrow> nat \<Rightarrow> lex_result + char" where
  "peek ch i = (if i < length ch then Inr (ch ! i) else Inl Lex_Undefined)"

definition poke :: "string \<Rightarrow> nat \<Rightarrow> char \<Rightarrow> lex_result + string" where
  "poke ch i c = (if i < length ch then Inr (ch[i := c]) else Inl Lex_Undefined)"

text \<open>
  What fresh memory contains: its bytes, and a member of a structure that is read before it is
  written. Allocation does not fail.
\<close>

record fresh_memory =
  fresh_byte :: "nat \<Rightarrow> char"
  fresh_int :: int

definition malloc_block :: "fresh_memory \<Rightarrow> nat \<Rightarrow> string" where
  "malloc_block mem n = map (fresh_byte mem) [0..<n]"

definition realloc_block :: "fresh_memory \<Rightarrow> string \<Rightarrow> nat \<Rightarrow> string" where
  "realloc_block mem ch n = take n ch @ map (fresh_byte mem) [length ch..<n]"

text \<open>A copy within one block, from the front, one byte after the other.\<close>

fun block_move :: "string \<Rightarrow> nat \<Rightarrow> nat \<Rightarrow> nat \<Rightarrow> lex_result + string" where
  "block_move ch dest source 0 = Inr ch"
| "block_move ch dest source (Suc k) =
     chain (peek ch source) (\<lambda>c. chain (poke ch dest c) (\<lambda>ch1. block_move ch1 (Suc dest) (Suc source) k))"

fun block_fill :: "string \<Rightarrow> nat \<Rightarrow> string \<Rightarrow> lex_result + string" where
  "block_fill ch i [] = Inr ch"
| "block_fill ch i (c # cs) = chain (poke ch i c) (\<lambda>ch1. block_fill ch1 (Suc i) cs)"

section \<open>State\<close>

definition YY_END_OF_BUFFER_CHAR :: char where "YY_END_OF_BUFFER_CHAR = NUL"
definition YY_BUF_SIZE :: nat where "YY_BUF_SIZE = 16384"
definition YY_READ_BUF_SIZE :: nat where "YY_READ_BUF_SIZE = 8192"

datatype yy_buffer_status = YY_BUFFER_NEW | YY_BUFFER_NORMAL | YY_BUFFER_EOF_PENDING

text \<open>
  A buffer on the heap. Streams and buffers are named by numbers, and a position is an offset
  into the block. The buffers are never interactive, and the column is only ever set to zero.
\<close>

record struct_yy_buffer_state =
  b_input_file :: "nat option"
  b_ch_buf :: string
  b_buf_pos :: nat
  b_buf_size :: nat
  b_n_chars :: nat
  b_is_our_buffer :: bool
  b_at_bol :: bool
  b_bs_lineno :: int
  b_fill_buffer :: bool
  b_buffer_status :: yy_buffer_status

text \<open>
  The state of the scanner, with the heap of buffers and what is left of every stream. The
  stack of buffers is the list of its slots, empty before it is allocated.
\<close>

record struct_yyguts_t =
  g_extra :: "nat scan_context"
  g_in :: "nat option"
  g_out :: string
  g_buffer_stack_top :: nat
  g_buffer_stack :: "nat option list"
  g_hold_char :: char
  g_n_chars :: nat
  g_leng :: nat
  g_c_buf_p :: nat
  g_init :: bool
  g_start :: nat
  g_last_accepting_state :: nat
  g_last_accepting_cpos :: nat
  g_text :: nat
  g_heap :: "struct_yy_buffer_state option list"
  g_files :: "file_node list"

text \<open>The standard input is the stream 0.\<close>

definition STDIN :: nat where "STDIN = 0"

definition YY_CURRENT_BUFFER :: "struct_yyguts_t \<Rightarrow> nat option" where
  "YY_CURRENT_BUFFER g = (if g_buffer_stack g = [] then None else g_buffer_stack g ! g_buffer_stack_top g)"

definition set_current_buffer :: "nat option \<Rightarrow> struct_yyguts_t \<Rightarrow> struct_yyguts_t" where
  "set_current_buffer p g = g\<lparr>g_buffer_stack := (g_buffer_stack g)[g_buffer_stack_top g := p]\<rparr>"

definition buffer_at :: "struct_yyguts_t \<Rightarrow> nat \<Rightarrow> lex_result + struct_yy_buffer_state" where
  "buffer_at g p =
     (if p < length (g_heap g) then (case g_heap g ! p of None \<Rightarrow> Inl Lex_Undefined | Some b \<Rightarrow> Inr b)
      else Inl Lex_Undefined)"

definition store_buffer :: "nat \<Rightarrow> struct_yy_buffer_state \<Rightarrow> struct_yyguts_t \<Rightarrow> struct_yyguts_t" where
  "store_buffer p b g = g\<lparr>g_heap := (g_heap g)[p := Some b]\<rparr>"

definition current_buffer :: "struct_yyguts_t \<Rightarrow> lex_result + nat \<times> struct_yy_buffer_state" where
  "current_buffer g =
     (case YY_CURRENT_BUFFER g of None \<Rightarrow> Inl Lex_Undefined
      | Some p \<Rightarrow> chain (buffer_at g p) (\<lambda>b. Inr (p, b)))"

section \<open>Buffers\<close>

definition libconfig_yyensure_buffer_stack :: "struct_yyguts_t \<Rightarrow> struct_yyguts_t" where
  "libconfig_yyensure_buffer_stack g =
     (if g_buffer_stack g = [] then g\<lparr>g_buffer_stack := [None], g_buffer_stack_top := 0\<rparr>
      else if length (g_buffer_stack g) - 1 \<le> g_buffer_stack_top g
      then g\<lparr>g_buffer_stack := g_buffer_stack g @ replicate 8 None\<rparr>
      else g)"

definition libconfig_yy_load_buffer_state :: "struct_yyguts_t \<Rightarrow> lex_result + struct_yyguts_t" where
  "libconfig_yy_load_buffer_state g =
     chain (current_buffer g) (\<lambda>(p, b).
     chain (peek (b_ch_buf b) (b_buf_pos b)) (\<lambda>c.
       Inr (g\<lparr>g_n_chars := b_n_chars b, g_text := b_buf_pos b, g_c_buf_p := b_buf_pos b,
              g_in := b_input_file b, g_hold_char := c\<rparr>)))"

definition libconfig_yy_flush_buffer :: "nat \<Rightarrow> struct_yyguts_t \<Rightarrow> lex_result + struct_yyguts_t" where
  "libconfig_yy_flush_buffer p g =
     chain (buffer_at g p) (\<lambda>b.
     chain (poke (b_ch_buf b) 0 YY_END_OF_BUFFER_CHAR) (\<lambda>ch1.
     chain (poke ch1 1 YY_END_OF_BUFFER_CHAR) (\<lambda>ch2.
       let g1 = store_buffer p (b\<lparr>b_n_chars := 0, b_ch_buf := ch2, b_buf_pos := 0, b_at_bol := True,
                  b_buffer_status := YY_BUFFER_NEW\<rparr>) g
       in if YY_CURRENT_BUFFER g1 = Some p then libconfig_yy_load_buffer_state g1 else Inr g1)))"

definition libconfig_yy_init_buffer :: "nat \<Rightarrow> nat option \<Rightarrow> struct_yyguts_t \<Rightarrow> lex_result + struct_yyguts_t" where
  "libconfig_yy_init_buffer p stream g =
     chain (libconfig_yy_flush_buffer p g) (\<lambda>g1.
     chain (buffer_at g1 p) (\<lambda>b.
       let b1 = b\<lparr>b_input_file := stream, b_fill_buffer := True\<rparr>;
           b2 = (if YY_CURRENT_BUFFER g1 = Some p then b1 else b1\<lparr>b_bs_lineno := 1\<rparr>)
       in Inr (store_buffer p b2 g1)))"

text \<open>A structure from \<^verbatim>\<open>malloc\<close>; what is set here and not written later is the argument.\<close>

definition new_buffer :: "fresh_memory \<Rightarrow> string \<Rightarrow> nat \<Rightarrow> bool \<Rightarrow> struct_yy_buffer_state" where
  "new_buffer mem ch bytes ours =
     \<lparr>b_input_file = None, b_ch_buf = ch, b_buf_pos = 0, b_buf_size = bytes, b_n_chars = bytes, b_is_our_buffer = ours,
      b_at_bol = True, b_bs_lineno = fresh_int mem, b_fill_buffer = False, b_buffer_status = YY_BUFFER_NEW\<rparr>"

definition libconfig_yy_create_buffer ::
    "fresh_memory \<Rightarrow> nat option \<Rightarrow> nat \<Rightarrow> struct_yyguts_t \<Rightarrow> lex_result + nat \<times> struct_yyguts_t" where
  "libconfig_yy_create_buffer mem stream bytes g =
     (let p = length (g_heap g);
          b = new_buffer mem (malloc_block mem (bytes + 2)) bytes True
      in chain (libconfig_yy_init_buffer p stream (g\<lparr>g_heap := g_heap g @ [Some b]\<rparr>)) (\<lambda>g1. Inr (p, g1)))"

definition libconfig_yy_delete_buffer :: "nat option \<Rightarrow> struct_yyguts_t \<Rightarrow> lex_result + struct_yyguts_t" where
  "libconfig_yy_delete_buffer q g =
     (case q of None \<Rightarrow> Inr g
      | Some p \<Rightarrow>
          chain (buffer_at g p) (\<lambda>b.
            let g1 = (if YY_CURRENT_BUFFER g = Some p then set_current_buffer None g else g)
            in Inr (g1\<lparr>g_heap := (g_heap g1)[p := None]\<rparr>)))"

text \<open>What the scanner knows of the current buffer is written back before another takes its place.\<close>

definition save_buffer_state :: "struct_yyguts_t \<Rightarrow> lex_result + struct_yyguts_t" where
  "save_buffer_state g =
     (case YY_CURRENT_BUFFER g of None \<Rightarrow> Inr g
      | Some p \<Rightarrow>
          chain (buffer_at g p) (\<lambda>b.
          chain (poke (b_ch_buf b) (g_c_buf_p g) (g_hold_char g)) (\<lambda>ch.
            Inr (store_buffer p (b\<lparr>b_ch_buf := ch, b_buf_pos := g_c_buf_p g, b_n_chars := g_n_chars g\<rparr>) g))))"

definition libconfig_yy_switch_to_buffer :: "nat \<Rightarrow> struct_yyguts_t \<Rightarrow> lex_result + struct_yyguts_t" where
  "libconfig_yy_switch_to_buffer p g =
     (let g1 = libconfig_yyensure_buffer_stack g
      in if YY_CURRENT_BUFFER g1 = Some p then Inr g1
         else chain (save_buffer_state g1) (\<lambda>g2. libconfig_yy_load_buffer_state (set_current_buffer (Some p) g2)))"

definition libconfig_yypush_buffer_state :: "nat option \<Rightarrow> struct_yyguts_t \<Rightarrow> lex_result + struct_yyguts_t" where
  "libconfig_yypush_buffer_state q g =
     (case q of None \<Rightarrow> Inr g
      | Some p \<Rightarrow>
          chain (save_buffer_state (libconfig_yyensure_buffer_stack g)) (\<lambda>g1.
            let g2 = (if YY_CURRENT_BUFFER g1 \<noteq> None then g1\<lparr>g_buffer_stack_top := Suc (g_buffer_stack_top g1)\<rparr> else g1)
            in libconfig_yy_load_buffer_state (set_current_buffer (Some p) g2)))"

definition libconfig_yypop_buffer_state :: "struct_yyguts_t \<Rightarrow> lex_result + struct_yyguts_t" where
  "libconfig_yypop_buffer_state g =
     (case YY_CURRENT_BUFFER g of None \<Rightarrow> Inr g
      | Some p \<Rightarrow>
          chain (libconfig_yy_delete_buffer (Some p) g) (\<lambda>g1.
            let g2 = set_current_buffer None g1;
                g3 = (if 0 < g_buffer_stack_top g2 then g2\<lparr>g_buffer_stack_top := g_buffer_stack_top g2 - 1\<rparr> else g2)
            in if YY_CURRENT_BUFFER g3 \<noteq> None then libconfig_yy_load_buffer_state g3 else Inr g3))"

definition libconfig_yyrestart :: "fresh_memory \<Rightarrow> nat option \<Rightarrow> struct_yyguts_t \<Rightarrow> lex_result + struct_yyguts_t" where
  "libconfig_yyrestart mem stream g =
     chain
       (case YY_CURRENT_BUFFER g of Some _ \<Rightarrow> Inr g
        | None \<Rightarrow>
            (let g1 = libconfig_yyensure_buffer_stack g
             in chain (libconfig_yy_create_buffer mem (g_in g1) YY_BUF_SIZE g1) (\<lambda>(p, g2). Inr (set_current_buffer (Some p) g2))))
       (\<lambda>g3.
     chain (current_buffer g3) (\<lambda>(p, b).
     chain (libconfig_yy_init_buffer p stream g3) libconfig_yy_load_buffer_state))"

text \<open>A buffer over bytes that the caller owns: they end in two end-of-buffer characters.\<close>

definition libconfig_yy_scan_buffer ::
    "fresh_memory \<Rightarrow> string \<Rightarrow> nat \<Rightarrow> struct_yyguts_t \<Rightarrow> lex_result + nat option \<times> struct_yyguts_t" where
  "libconfig_yy_scan_buffer mem base bytes g =
     (if bytes < 2 then Inr (None, g)
      else
        chain (peek base (bytes - 2)) (\<lambda>c1.
        chain (peek base (bytes - 1)) (\<lambda>c2.
          if c1 \<noteq> YY_END_OF_BUFFER_CHAR \<or> c2 \<noteq> YY_END_OF_BUFFER_CHAR then Inr (None, g)
          else
            (let p = length (g_heap g); b = new_buffer mem base (bytes - 2) False
             in chain (libconfig_yy_switch_to_buffer p (g\<lparr>g_heap := g_heap g @ [Some b]\<rparr>)) (\<lambda>g1. Inr (Some p, g1))))))"

text \<open>The length is of the type \<^verbatim>\<open>size_t\<close>.\<close>

definition libconfig_yy_scan_bytes ::
    "fresh_memory \<Rightarrow> string \<Rightarrow> struct_yyguts_t \<Rightarrow> lex_result + nat \<times> struct_yyguts_t" where
  "libconfig_yy_scan_bytes mem yybytes g =
     (let len = length yybytes; n = (len + 2) mod 2 ^ 64; buf = malloc_block mem n
      in chain (block_fill buf 0 yybytes) (\<lambda>buf1.
         chain (poke buf1 len YY_END_OF_BUFFER_CHAR) (\<lambda>buf2.
         chain (poke buf2 (len + 1) YY_END_OF_BUFFER_CHAR) (\<lambda>buf3.
         chain (libconfig_yy_scan_buffer mem buf3 n g) (\<lambda>(q, g1).
           case q of None \<Rightarrow> Inl (Lex_Fatal ''bad buffer in libconfig_yy_scan_bytes()'')
           | Some p \<Rightarrow> chain (buffer_at g1 p) (\<lambda>b. Inr (p, store_buffer p (b\<lparr>b_is_our_buffer := True\<rparr>) g1)))))))"

definition libconfig_yy_scan_string ::
    "fresh_memory \<Rightarrow> string \<Rightarrow> struct_yyguts_t \<Rightarrow> lex_result + nat \<times> struct_yyguts_t" where
  "libconfig_yy_scan_string mem yystr g = libconfig_yy_scan_bytes mem (c_string yystr) g"

definition libconfig_yyset_lineno :: "int \<Rightarrow> struct_yyguts_t \<Rightarrow> lex_result + struct_yyguts_t" where
  "libconfig_yyset_lineno line_number g =
     (case YY_CURRENT_BUFFER g of None \<Rightarrow> Inl (Lex_Fatal ''libconfig_yyset_lineno called with no buffer'')
      | Some p \<Rightarrow> chain (buffer_at g p) (\<lambda>b. Inr (store_buffer p (b\<lparr>b_bs_lineno := line_number\<rparr>) g)))"

definition libconfig_yyget_lineno :: "struct_yyguts_t \<Rightarrow> lex_result + int" where
  "libconfig_yyget_lineno g =
     (case YY_CURRENT_BUFFER g of None \<Rightarrow> Inr 0 | Some p \<Rightarrow> chain (buffer_at g p) (\<lambda>b. Inr (b_bs_lineno b)))"

end
