(* ===== verification/Scanner_Blocks.thy ===== *)
theory Scanner_Blocks
  imports Scanner_Buffers
begin

text \<open>
  The function \<^verbatim>\<open>libconfig_yylex\<close> over the blocks of bytes: the automaton runs until it
  jams, an end-of-buffer character makes it refill the buffer and go on where it was, and a
  byte behind the token is overwritten while the action runs. The actions of the rules are
  those of the theory Scanner; entering and leaving an include file switch buffers.
\<close>

section \<open>The automaton\<close>

text \<open>
  The run over the bytes from a position on, until it jams. A NUL has the class of the
  end-of-buffer character here. The result is the last accepting state with its position.
\<close>

definition yy_raw_class :: "char \<Rightarrow> nat" where
  "yy_raw_class c = yy_ec ! of_char c"

fun yy_run :: "string \<Rightarrow> nat \<Rightarrow> nat \<Rightarrow> nat \<times> nat \<Rightarrow> lex_result + nat \<times> nat" where
  "yy_run [] cp s last_acc = Inl Lex_Undefined"
| "yy_run (c # cs) cp s last_acc =
     (let l = (if yy_accept ! s \<noteq> 0 then (s, cp) else last_acc)
      in case yy_trans s (yy_raw_class c) of None \<Rightarrow> Inl Lex_Undefined
         | Some t \<Rightarrow> if t = YY_JAM then Inr l else yy_run cs (Suc cp) t l)"

text \<open>The state before the end-of-buffer character, from a position over a number of bytes.\<close>

fun yy_previous :: "string \<Rightarrow> nat \<Rightarrow> nat \<Rightarrow> nat \<Rightarrow> nat \<times> nat \<Rightarrow> lex_result + nat \<times> nat \<times> nat" where
  "yy_previous ch 0 cp s last_acc = Inr (s, last_acc)"
| "yy_previous ch (Suc k) cp s last_acc =
     chain (peek ch cp) (\<lambda>c.
       case yy_trans s (yy_class c) of None \<Rightarrow> Inl Lex_Undefined
       | Some t \<Rightarrow> yy_previous ch k (Suc cp) t (if yy_accept ! s \<noteq> 0 then (s, cp) else last_acc))"

definition yy_last :: "struct_yyguts_t \<Rightarrow> nat \<times> nat" where
  "yy_last g = (g_last_accepting_state g, g_last_accepting_cpos g)"

definition set_yy_last :: "nat \<times> nat \<Rightarrow> struct_yyguts_t \<Rightarrow> struct_yyguts_t" where
  "set_yy_last l g = g\<lparr>g_last_accepting_state := fst l, g_last_accepting_cpos := snd l\<rparr>"

definition yy_first_state :: "struct_yyguts_t \<Rightarrow> struct_yy_buffer_state \<Rightarrow> nat" where
  "yy_first_state g b = g_start g + (if b_at_bol b then 1 else 0)"

definition yy_get_previous_state :: "struct_yyguts_t \<Rightarrow> lex_result + nat \<times> struct_yyguts_t" where
  "yy_get_previous_state g =
     chain (current_buffer g) (\<lambda>(p, b).
     chain (yy_previous (b_ch_buf b) (g_c_buf_p g - g_text g) (g_text g) (yy_first_state g b) (yy_last g)) (\<lambda>(s, l).
       Inr (s, set_yy_last l g)))"

text \<open>The jam is the result 0 of the C function.\<close>

definition yy_try_NUL_trans :: "nat \<Rightarrow> struct_yyguts_t \<Rightarrow> lex_result + nat option \<times> struct_yyguts_t" where
  "yy_try_NUL_trans s g =
     (let g1 = (if yy_accept ! s \<noteq> 0 then set_yy_last (s, g_c_buf_p g) g else g)
      in case yy_trans s 1 of None \<Rightarrow> Inl Lex_Undefined
         | Some t \<Rightarrow> Inr (if t = YY_JAM then None else Some t, g1))"

section \<open>Refilling\<close>

datatype eob_act = EOB_ACT_CONTINUE_SCAN | EOB_ACT_END_OF_FILE | EOB_ACT_LAST_MATCH

text \<open>
  A read gives all that is asked for, unless the stream ends before. A directory can be opened
  and not read.
\<close>

definition fread :: "file_node \<Rightarrow> nat \<Rightarrow> (string \<times> file_node) option" where
  "fread node n = (case node of Regular t \<Rightarrow> Some (take n t, Regular (drop n t)) | Directory \<Rightarrow> None)"

text \<open>Reading into a block from a position on; the block must have room for all that is asked for.\<close>

definition YY_INPUT :: "string \<Rightarrow> int \<Rightarrow> nat \<Rightarrow> struct_yyguts_t \<Rightarrow> lex_result + string \<times> nat \<times> struct_yyguts_t" where
  "YY_INPUT ch i max_size g =
     (case g_in g of None \<Rightarrow> Inl Lex_Undefined
      | Some f \<Rightarrow>
          if length (g_files g) \<le> f \<or> i < 0 \<or> int (length ch) < i + int max_size then Inl Lex_Undefined
          else
            (case fread (g_files g ! f) max_size of
               None \<Rightarrow> Inl (Lex_Fatal ''input in flex scanner failed'')
             | Some (bytes, node) \<Rightarrow>
                 chain (block_fill ch (nat i) bytes) (\<lambda>ch1. Inr (ch1, length bytes, g\<lparr>g_files := (g_files g)[f := node]\<rparr>))))"

definition size_t :: "int \<Rightarrow> nat" where
  "size_t i = nat (i mod 2 ^ 64)"

text \<open>
  The loop that grows a buffer without room. A buffer that is not empty is doubled once, so a
  fuel of two is enough.
\<close>

fun yy_grow :: "nat \<Rightarrow> fresh_memory \<Rightarrow> int \<Rightarrow> struct_yy_buffer_state \<Rightarrow> lex_result + struct_yy_buffer_state \<times> nat" where
  "yy_grow fuel mem number_to_move b =
     (let num_to_read = size_t (int (b_buf_size b) - number_to_move - 1)
      in if num_to_read \<noteq> 0 then Inr (b, num_to_read)
         else case fuel of 0 \<Rightarrow> Inl Lex_Undefined
         | Suc f \<Rightarrow>
             if \<not> b_is_our_buffer b then Inl (Lex_Fatal ''fatal error - scanner input buffer overflow'')
             else
               (let new_size = (b_buf_size b * 2) mod 2 ^ 64;
                    buf_size = (if new_size = 0 then b_buf_size b + b_buf_size b div 8 else new_size)
                in yy_grow f mem number_to_move
                     (b\<lparr>b_buf_size := buf_size, b_ch_buf := realloc_block mem (b_ch_buf b) (buf_size + 2)\<rparr>)))"

declare yy_grow.simps [simp del]

text \<open>
  The number of bytes to move is of the type \<^verbatim>\<open>int\<close>. A buffer whose stream has ended is
  not read again.
\<close>

definition yy_fill ::
    "fresh_memory \<Rightarrow> int \<Rightarrow> nat \<Rightarrow> struct_yy_buffer_state \<Rightarrow> struct_yyguts_t \<Rightarrow> lex_result + struct_yyguts_t" where
  "yy_fill mem number_to_move p b g =
     (if b_buffer_status b = YY_BUFFER_EOF_PENDING then Inr (store_buffer p (b\<lparr>b_n_chars := 0\<rparr>) (g\<lparr>g_n_chars := 0\<rparr>))
      else
        chain (yy_grow 2 mem number_to_move b) (\<lambda>(b1, num_to_read).
        chain (YY_INPUT (b_ch_buf b1) number_to_move (min num_to_read YY_READ_BUF_SIZE) g) (\<lambda>(ch, n, g1).
          Inr (store_buffer p (b1\<lparr>b_ch_buf := ch, b_n_chars := n\<rparr>) (g1\<lparr>g_n_chars := n\<rparr>)))))"

definition yy_filled :: "fresh_memory \<Rightarrow> int \<Rightarrow> struct_yyguts_t \<Rightarrow> lex_result + eob_act \<times> struct_yyguts_t" where
  "yy_filled mem number_to_move g =
     chain (if g_n_chars g \<noteq> 0 then Inr (EOB_ACT_CONTINUE_SCAN, g)
            else if number_to_move = 0
            then chain (libconfig_yyrestart mem (g_in g) g) (\<lambda>g1. Inr (EOB_ACT_END_OF_FILE, g1))
            else chain (current_buffer g) (\<lambda>(p, b).
                   Inr (EOB_ACT_LAST_MATCH, store_buffer p (b\<lparr>b_buffer_status := YY_BUFFER_EOF_PENDING\<rparr>) g)))
       (\<lambda>(ret_val, g1).
     chain (current_buffer g1) (\<lambda>(p, b).
       let n = size_t (int (g_n_chars g1) + number_to_move);
           ch = (if b_buf_size b < n
                 then realloc_block mem (b_ch_buf b) (size_t (int n + int (g_n_chars g1 div 2)))
                 else b_ch_buf b)
       in chain (poke ch n YY_END_OF_BUFFER_CHAR) (\<lambda>ch1.
          chain (poke ch1 (n + 1) YY_END_OF_BUFFER_CHAR) (\<lambda>ch2.
            Inr (ret_val, store_buffer p (b\<lparr>b_ch_buf := ch2\<rparr>) (g1\<lparr>g_n_chars := n, g_text := 0\<rparr>))))))"

definition yy_get_next_buffer :: "fresh_memory \<Rightarrow> struct_yyguts_t \<Rightarrow> lex_result + eob_act \<times> struct_yyguts_t" where
  "yy_get_next_buffer mem g =
     chain (current_buffer g) (\<lambda>(p, b).
       if g_n_chars g + 1 < g_c_buf_p g then Inl (Lex_Fatal ''fatal flex scanner internal error--end of buffer missed'')
       else if \<not> b_fill_buffer b
       then Inr (if g_c_buf_p g - g_text g = 1 then EOB_ACT_END_OF_FILE else EOB_ACT_LAST_MATCH, g)
       else
         (let number_to_move = to_int32 (int (g_c_buf_p g) - int (g_text g)) - 1
          in chain (block_move (b_ch_buf b) 0 (g_text g) (nat number_to_move)) (\<lambda>ch.
             chain (yy_fill mem number_to_move p (b\<lparr>b_ch_buf := ch\<rparr>) g) (yy_filled mem number_to_move))))"

section \<open>Jumps\<close>

text \<open>
  The labels \<^verbatim>\<open>yy_match\<close>, \<^verbatim>\<open>yy_find_action\<close> and \<^verbatim>\<open>do_action\<close> of the C code
  with the variables \<^verbatim>\<open>yy_bp\<close>, \<^verbatim>\<open>yy_current_state\<close> and \<^verbatim>\<open>yy_cp\<close>; the last for
  a rule, and for the end of the file.
\<close>

datatype yy_label = At_Match nat nat nat | At_Find_Action nat nat nat | At_Action nat nat | At_End_Of_File

definition YY_DO_BEFORE_ACTION :: "nat \<Rightarrow> nat \<Rightarrow> struct_yyguts_t \<Rightarrow> lex_result + struct_yyguts_t" where
  "YY_DO_BEFORE_ACTION bp cp g =
     chain (current_buffer g) (\<lambda>(p, b).
     chain (peek (b_ch_buf b) cp) (\<lambda>c.
     chain (poke (b_ch_buf b) cp NUL) (\<lambda>ch.
       Inr (store_buffer p (b\<lparr>b_ch_buf := ch\<rparr>)
              (g\<lparr>g_text := bp, g_leng := cp - bp, g_hold_char := c, g_c_buf_p := cp\<rparr>)))))"

text \<open>The byte that was overwritten is put back.\<close>

definition restore_hold_char :: "nat \<Rightarrow> struct_yyguts_t \<Rightarrow> lex_result + struct_yyguts_t" where
  "restore_hold_char cp g =
     chain (current_buffer g) (\<lambda>(p, b).
     chain (poke (b_ch_buf b) cp (g_hold_char g)) (\<lambda>ch. Inr (store_buffer p (b\<lparr>b_ch_buf := ch\<rparr>) g)))"

definition yytext :: "struct_yyguts_t \<Rightarrow> lex_result + string" where
  "yytext g =
     chain (current_buffer g) (\<lambda>(p, b).
       if length (b_ch_buf b) < g_text g + g_leng g then Inl Lex_Undefined
       else Inr (take (g_leng g) (drop (g_text g) (b_ch_buf b))))"

text \<open>The first use of a buffer takes over its stream and its length.\<close>

definition adopt_buffer :: "nat \<Rightarrow> struct_yy_buffer_state \<Rightarrow> struct_yyguts_t \<Rightarrow> struct_yyguts_t" where
  "adopt_buffer p b g =
     (if b_buffer_status b = YY_BUFFER_NEW
      then store_buffer p (b\<lparr>b_input_file := g_in g, b_buffer_status := YY_BUFFER_NORMAL\<rparr>) (g\<lparr>g_n_chars := b_n_chars b\<rparr>)
      else g)"

definition yy_found_NUL :: "nat \<Rightarrow> struct_yyguts_t \<Rightarrow> lex_result + yy_label \<times> struct_yyguts_t" where
  "yy_found_NUL c_buf_p g =
     chain (yy_get_previous_state (g\<lparr>g_c_buf_p := c_buf_p\<rparr>)) (\<lambda>(s, g1).
     chain (yy_try_NUL_trans s g1) (\<lambda>(t, g2).
       case t of
         Some s' \<Rightarrow> Inr (At_Match (g_text g2) s' (Suc (g_c_buf_p g2)), g2\<lparr>g_c_buf_p := Suc (g_c_buf_p g2)\<rparr>)
       | None \<Rightarrow> Inr (At_Find_Action (g_text g2) (g_last_accepting_state g2) (g_last_accepting_cpos g2), g2)))"

text \<open>The function \<^verbatim>\<open>yywrap\<close> is the constant 1: the end of a file is the end of the input.\<close>

definition yy_refilled :: "int \<Rightarrow> eob_act \<times> struct_yyguts_t \<Rightarrow> lex_result + yy_label \<times> struct_yyguts_t" where
  "yy_refilled amount =
     (\<lambda>(act, g).
        case act of
          EOB_ACT_END_OF_FILE \<Rightarrow> Inr (At_End_Of_File, g\<lparr>g_c_buf_p := g_text g\<rparr>)
        | EOB_ACT_CONTINUE_SCAN \<Rightarrow>
            chain (yy_get_previous_state (g\<lparr>g_c_buf_p := nat (int (g_text g) + amount)\<rparr>)) (\<lambda>(s, g1).
              Inr (At_Match (g_text g1) s (g_c_buf_p g1), g1))
        | EOB_ACT_LAST_MATCH \<Rightarrow>
            chain (yy_get_previous_state (g\<lparr>g_c_buf_p := g_n_chars g\<rparr>)) (\<lambda>(s, g1).
              Inr (At_Find_Action (g_text g1) s (g_c_buf_p g1), g1)))"

definition yy_end_of_buffer :: "fresh_memory \<Rightarrow> nat \<Rightarrow> struct_yyguts_t \<Rightarrow> lex_result + yy_label \<times> struct_yyguts_t" where
  "yy_end_of_buffer mem cp g =
     (let amount = to_int32 (int cp - int (g_text g)) - 1
      in chain (restore_hold_char cp g) (\<lambda>g1.
         chain (current_buffer g1) (\<lambda>(p, b).
           let g2 = adopt_buffer p b g1
           in if g_c_buf_p g2 \<le> g_n_chars g2 then yy_found_NUL (nat (int (g_text g2) + amount)) g2
              else chain (yy_get_next_buffer mem g2) (yy_refilled amount))))"

definition yy_find_action ::
    "fresh_memory \<Rightarrow> nat \<Rightarrow> nat \<Rightarrow> nat \<Rightarrow> struct_yyguts_t \<Rightarrow> lex_result + yy_label \<times> struct_yyguts_t" where
  "yy_find_action mem bp s cp g =
     chain (YY_DO_BEFORE_ACTION bp cp g) (\<lambda>g1.
       if yy_accept ! s = 43 then yy_end_of_buffer mem cp g1
       else if yy_accept ! s = 0
       then chain (restore_hold_char cp g1) (\<lambda>g2.
              Inr (At_Find_Action bp (g_last_accepting_state g2) (g_last_accepting_cpos g2), g2))
       else Inr (At_Action bp (yy_accept ! s), g1))"

definition yy_jump :: "fresh_memory \<Rightarrow> yy_label \<Rightarrow> struct_yyguts_t \<Rightarrow> lex_result + yy_label \<times> struct_yyguts_t" where
  "yy_jump mem j g =
     (case j of
        At_Match bp s cp \<Rightarrow>
          chain (current_buffer g) (\<lambda>(p, b).
          chain (yy_run (drop cp (b_ch_buf b)) cp s (yy_last g)) (\<lambda>(s', cp').
            Inr (At_Find_Action bp s' cp', set_yy_last (s', cp') g)))
      | At_Find_Action bp s cp \<Rightarrow> yy_find_action mem bp s cp g
      | _ \<Rightarrow> Inr (j, g))"

text \<open>The outcome \<open>None\<close> is a sequence of jumps without end.\<close>

partial_function (option) yy_jumps ::
    "fresh_memory \<Rightarrow> yy_label \<Rightarrow> struct_yyguts_t \<Rightarrow> (lex_result + yy_label \<times> struct_yyguts_t) option" where
  "yy_jumps mem j g =
     (case j of
        At_Action bp act \<Rightarrow> Some (Inr (j, g))
      | At_End_Of_File \<Rightarrow> Some (Inr (j, g))
      | _ \<Rightarrow> (case yy_jump mem j g of Inl e \<Rightarrow> Some (Inl e) | Inr (j', g') \<Rightarrow> yy_jumps mem j' g'))"

declare yy_jumps.simps [code]

section \<open>One round of the loop\<close>

definition yy_count_lines :: "nat \<Rightarrow> struct_yyguts_t \<Rightarrow> lex_result + struct_yyguts_t" where
  "yy_count_lines act g =
     (if yy_rule_can_match_eol ! act = 0 then Inr g
      else
        chain (yytext g) (\<lambda>text.
        chain (current_buffer g) (\<lambda>(p, b).
          Inr (store_buffer p
                 (b\<lparr>b_bs_lineno := b_bs_lineno b + int (length (filter (\<lambda>c. c = CHR 0x0A) text))\<rparr>) g))))"

text \<open>The comment rule gives its last character back.\<close>

definition yy_trailing :: "nat \<Rightarrow> nat \<Rightarrow> struct_yyguts_t \<Rightarrow> lex_result + struct_yyguts_t" where
  "yy_trailing bp act g =
     (if act = 40
      then chain (restore_hold_char (g_c_buf_p g) g) (YY_DO_BEFORE_ACTION bp (g_c_buf_p g - 1))
      else Inr g)"

definition YY_RULE_SETUP :: "struct_yyguts_t \<Rightarrow> lex_result + struct_yyguts_t" where
  "YY_RULE_SETUP g =
     chain (yytext g) (\<lambda>text.
     chain (current_buffer g) (\<lambda>(p, b).
       Inr (if text \<noteq> [] then store_buffer p (b\<lparr>b_at_bol := last text = CHR 0x0A\<rparr>) g else g)))"

text \<open>
  The actions of the rules, except for the include directive, see the start condition, the
  string of the scan context and the output only.
\<close>

definition with_buffers :: "'c option list \<Rightarrow> 'b scan_context \<Rightarrow> 'c scan_context" where
  "with_buffers bs ctx =
     \<lparr>sc_top_filename = sc_top_filename ctx, sc_files = sc_files ctx, sc_buffers = bs, sc_streams = sc_streams ctx,
      sc_depth = sc_depth ctx, sc_string = sc_string ctx, sc_filenames = sc_filenames ctx, sc_room = sc_room ctx,
      sc_log = sc_log ctx\<rparr>"

definition no_buffer :: yy_buffer_state where
  "no_buffer = \<lparr>yy_input = [], yy_at_bol = False, yy_bs_lineno = 0, yy_readable = False\<rparr>"

definition action_view :: "struct_yyguts_t \<Rightarrow> yyguts" where
  "action_view g =
     \<lparr>yy_start = g_start g, yy_buffer = no_buffer, yy_extra = with_buffers [] (g_extra g), yy_out = g_out g\<rparr>"

definition action_done :: "yyguts \<Rightarrow> struct_yyguts_t \<Rightarrow> struct_yyguts_t" where
  "action_done yyg g =
     g\<lparr>g_start := yy_start yyg, g_extra := with_buffers (sc_buffers (g_extra g)) (yy_extra yyg), g_out := yy_out yyg\<rparr>"

datatype blocks_step = Goes_On config struct_yyguts_t | Returns lex_result config struct_yyguts_t

definition libconfig_yy_include ::
    "fresh_memory \<Rightarrow> file_system \<Rightarrow> config \<Rightarrow> struct_yyguts_t \<Rightarrow> lex_result + blocks_step" where
  "libconfig_yy_include mem fs config g =
     chain (current_buffer g) (\<lambda>(p, _).
       case scanctx_push_include fs (include_dir config) (g_extra g) p of
         Pushed node ctx \<Rightarrow>
           (let g1 = g\<lparr>g_extra := ctx, g_files := g_files g @ [node], g_in := Some (length (g_files g))\<rparr>
            in chain (libconfig_yy_create_buffer mem (g_in g1) YY_BUF_SIZE g1) (\<lambda>(q, g2).
               chain (libconfig_yy_switch_to_buffer q g2) (\<lambda>g3.
                 Inr (Goes_On config (g3\<lparr>g_start := 1 + 2 * INITIAL\<rparr>)))))
       | Push_Error e ctx \<Rightarrow>
           chain (libconfig_yyget_lineno g) (\<lambda>n.
             Inr (Returns (Token TOK_ERROR None)
                    (config\<lparr>error_text := Some e, error_file := scanctx_current_filename ctx, error_line := n\<rparr>)
                    (g\<lparr>g_extra := ctx\<rparr>)))
       | Push_Undefined \<Rightarrow> Inl Lex_Undefined)"

definition libconfig_yy_eof :: "config \<Rightarrow> struct_yyguts_t \<Rightarrow> lex_result + blocks_step" where
  "libconfig_yy_eof config g =
     (case scanctx_pop_include (g_extra g) of
        (Some buf, ctx) \<Rightarrow>
          chain (libconfig_yy_delete_buffer (YY_CURRENT_BUFFER g) (g\<lparr>g_extra := ctx\<rparr>)) (\<lambda>g1.
          chain (libconfig_yy_switch_to_buffer buf g1) (\<lambda>g2. Inr (Goes_On config g2)))
      | (None, ctx) \<Rightarrow> Inr (Returns (Token YYEOF None) config (g\<lparr>g_extra := ctx\<rparr>)))"

definition libconfig_yy_action ::
    "fresh_memory \<Rightarrow> file_system \<Rightarrow> nat \<Rightarrow> config \<Rightarrow> struct_yyguts_t \<Rightarrow> lex_result + blocks_step" where
  "libconfig_yy_action mem fs act config g =
     (if act = 20 then libconfig_yy_include mem fs config g
      else
        chain (yytext g) (\<lambda>text.
          case yy_action fs act text config (action_view g) of
            Lex_Goes_On c yyg \<Rightarrow> Inr (Goes_On c (action_done yyg g))
          | Lex_Returns r c yyg \<Rightarrow> Inr (Returns r c (action_done yyg g))))"

definition yy_do_action ::
    "fresh_memory \<Rightarrow> file_system \<Rightarrow> config \<Rightarrow> yy_label \<times> struct_yyguts_t \<Rightarrow> lex_result + blocks_step" where
  "yy_do_action mem fs config =
     (\<lambda>(j, g).
        case j of
          At_Action bp act \<Rightarrow>
            chain (yy_count_lines act g) (\<lambda>g1.
            chain (yy_trailing bp act g1) (\<lambda>g2.
            chain (YY_RULE_SETUP g2) (libconfig_yy_action mem fs act config)))
        | At_End_Of_File \<Rightarrow> libconfig_yy_eof config g
        | _ \<Rightarrow> Inl Lex_Undefined)"

definition yy_token_start :: "struct_yyguts_t \<Rightarrow> lex_result + yy_label \<times> struct_yyguts_t" where
  "yy_token_start g =
     chain (restore_hold_char (g_c_buf_p g) g) (\<lambda>g1.
     chain (current_buffer g1) (\<lambda>(p, b). Inr (At_Match (g_c_buf_p g1) (yy_first_state g1 b) (g_c_buf_p g1), g1)))"

definition libconfig_yy_round ::
    "fresh_memory \<Rightarrow> file_system \<Rightarrow> config \<Rightarrow> struct_yyguts_t \<Rightarrow> (lex_result + blocks_step) option" where
  "libconfig_yy_round mem fs config g =
     (case yy_token_start g of
        Inl e \<Rightarrow> Some (Inl e)
      | Inr (j, g1) \<Rightarrow> map_option (\<lambda>r. chain r (yy_do_action mem fs config)) (yy_jumps mem j g1))"

partial_function (option) libconfig_yy_rounds ::
    "fresh_memory \<Rightarrow> file_system \<Rightarrow> config \<Rightarrow> struct_yyguts_t \<Rightarrow> (lex_result \<times> config \<times> struct_yyguts_t) option" where
  "libconfig_yy_rounds mem fs config g =
     (case libconfig_yy_round mem fs config g of
        None \<Rightarrow> None
      | Some (Inl e) \<Rightarrow> Some (e, config, g)
      | Some (Inr (Returns r c g')) \<Rightarrow> Some (r, c, g')
      | Some (Inr (Goes_On c g')) \<Rightarrow> libconfig_yy_rounds mem fs c g')"

declare libconfig_yy_rounds.simps [code]

section \<open>Calls\<close>

text \<open>The first call sets up what is missing.\<close>

definition yy_first_call :: "fresh_memory \<Rightarrow> struct_yyguts_t \<Rightarrow> lex_result + struct_yyguts_t" where
  "yy_first_call mem g =
     (if g_init g then Inr g
      else
        (let g1 = g\<lparr>g_init := True, g_start := (if g_start g = 0 then 1 else g_start g),
                g_in := (case g_in g of None \<Rightarrow> Some STDIN | Some f \<Rightarrow> Some f)\<rparr>
         in chain
              (case YY_CURRENT_BUFFER g1 of Some _ \<Rightarrow> Inr g1
               | None \<Rightarrow>
                   (let g2 = libconfig_yyensure_buffer_stack g1
                    in chain (libconfig_yy_create_buffer mem (g_in g2) YY_BUF_SIZE g2) (\<lambda>(p, g3).
                         Inr (set_current_buffer (Some p) g3))))
              libconfig_yy_load_buffer_state))"

definition libconfig_yylex ::
    "fresh_memory \<Rightarrow> file_system \<Rightarrow> config \<Rightarrow> struct_yyguts_t \<Rightarrow> (lex_result \<times> config \<times> struct_yyguts_t) option" where
  "libconfig_yylex mem fs config g =
     (case yy_first_call mem g of
        Inl e \<Rightarrow> Some (e, config, g)
      | Inr g1 \<Rightarrow> libconfig_yy_rounds mem fs config g1)"

text \<open>A scanner from \<^verbatim>\<open>malloc\<close> and \<^verbatim>\<open>memset\<close>; the standard input is the only stream.\<close>

definition libconfig_yylex_init_extra :: "file_node \<Rightarrow> nat scan_context \<Rightarrow> struct_yyguts_t" where
  "libconfig_yylex_init_extra stdin ctx =
     \<lparr>g_extra = ctx, g_in = None, g_out = [], g_buffer_stack_top = 0, g_buffer_stack = [], g_hold_char = NUL,
      g_n_chars = 0, g_leng = 0, g_c_buf_p = 0, g_init = False, g_start = 0, g_last_accepting_state = 0,
      g_last_accepting_cpos = 0, g_text = 0, g_heap = [], g_files = [stdin]\<rparr>"

text \<open>
  Deleting the buffers until there is no current one. After the first, the stack has no
  further one, so its length is enough fuel.
\<close>

fun yy_destroy_buffers :: "nat \<Rightarrow> struct_yyguts_t \<Rightarrow> lex_result + struct_yyguts_t" where
  "yy_destroy_buffers fuel g =
     (case YY_CURRENT_BUFFER g of None \<Rightarrow> Inr g
      | Some p \<Rightarrow>
          (case fuel of 0 \<Rightarrow> Inl Lex_Undefined
           | Suc f \<Rightarrow>
               chain (libconfig_yy_delete_buffer (Some p) g) (\<lambda>g1.
               chain (libconfig_yypop_buffer_state (set_current_buffer None g1)) (yy_destroy_buffers f))))"

declare yy_destroy_buffers.simps [simp del]

text \<open>Destroying the scanner leaves the heap of buffers.\<close>

definition libconfig_yylex_destroy :: "struct_yyguts_t \<Rightarrow> lex_result + struct_yy_buffer_state option list" where
  "libconfig_yylex_destroy g = chain (yy_destroy_buffers (length (g_buffer_stack g)) g) (\<lambda>g1. Inr (g_heap g1))"

end
