(* ===== verification/Scanner_Sequence.thy ===== *)
theory Scanner_Sequence
  imports Scanner_Blocks Scanner_Total
begin

text \<open>
  The automaton over a block agrees with the automaton over the sequence: up to the first NUL
  the two runs take the same transitions, and the end-of-buffer character leads every state to
  the state behind the buffer.
\<close>

section \<open>The end-of-buffer character\<close>

lemma yy_raw_class: "c \<noteq> NUL \<Longrightarrow> yy_raw_class c = yy_class c" "yy_raw_class NUL = 0"
  by (simp_all add: yy_raw_class_def yy_class_def NUL_def yy_ec_def)

lemma yy_eob_not_owned: "list_all (\<lambda>s. yy_chk ! (yy_base ! s) \<noteq> s) ([1..<9] @ [10..<102] @ [103..<113])"
  by code_simp

lemma yy_not_owned: "1 \<le> s \<Longrightarrow> s \<le> 112 \<Longrightarrow> s \<noteq> 9 \<Longrightarrow> s \<noteq> 102 \<Longrightarrow> yy_chk ! (yy_base ! s) \<noteq> s"
proof -
  assume s: "1 \<le> s" "s \<le> 112" "s \<noteq> 9" "s \<noteq> 102"
  then have "s \<in> set ([1..<9] @ [10..<102] @ [103..<113])" by (simp only: set_append set_upt Un_iff atLeastLessThan_iff) arith
  then show ?thesis using yy_eob_not_owned unfolding list_all_iff by blast
qed

lemma yy_eob_fallback:
  assumes "1 \<le> s" "s \<le> 112" "s \<noteq> 9" "s \<noteq> 102"
  shows "yy_resolve (Suc f) s 0 = yy_resolve f (yy_def ! s) 0"
proof -
  have "yy_meta ! 0 = 0" by (simp add: yy_meta_def)
  then show ?thesis using assms yy_not_owned [OF assms]
    by (subst yy_resolve_direct) (auto simp: yy_direct_nth Let_def)
qed

lemma yy_eob_jam_row: "yy_resolve f 102 0 = Some 9"
  by (simp add: yy_resolve_direct yy_direct_nth yy_defaults(4) yy_eob_owner yy_nxt_def)

text \<open>Every state goes to the state behind the buffer, and that state jams.\<close>

lemma yy_trans_eob:
  assumes "good_state s"
  shows "yy_trans s 0 = Some 9"
proof -
  let ?d = "yy_def ! s"
  have d: "?d = 102 \<or> (?d \<noteq> 102 \<and> ?d \<noteq> 9 \<and> 1 \<le> ?d \<and> ?d \<le> 112 \<and> yy_def ! ?d = 102)"
    using assms yy_def_range [of s] yy_def_template [of ?d] yy_defaults(2) by (auto simp: good_state_def)
  have "yy_resolve (Suc 0) ?d 0 = Some 9"
    using d yy_eob_fallback [of ?d 0] yy_eob_jam_row by auto
  then show ?thesis
    using yy_eob_fallback [of s "Suc 0"] assms by (simp add: good_state_def yy_trans_def yy_fallbacks_def numeral_2_eq_2)
qed

lemma yy_behind_buffer:
  assumes "c < 49"
  shows "yy_trans 9 c = Some YY_JAM"
proof -
  have "list_all (\<lambda>t. t = 102) (yy_row yy_fallbacks 9)" by (simp add: row_eval)
  moreover have "length (yy_row yy_fallbacks 9) = 49"
    by (rule length_yy_row) (simp_all add: yy_def_def)
  ultimately have "yy_row yy_fallbacks 9 ! c = 102" using assms by (simp add: list_all_length)
  then show ?thesis using yy_trans_row [of 9 c] assms by (simp add: YY_JAM_def)
qed

lemma yy_accept_eob [simp]: "yy_accept ! 9 = 43" "yy_accept ! Suc (Suc (Suc (Suc (Suc (Suc (Suc (Suc (Suc 0)))))))) = 43"
  by (simp_all add: yy_accept_def)

lemma yy_raw_class_less: "yy_raw_class c < 49"
proof -
  have "(of_char c :: nat) < 256" by (rule nat_of_char_less_256)
  then have "yy_ec ! of_char c \<le> 48" using yy_ranges(2) by (simp add: list_all_length yy_lengths)
  then show ?thesis by (simp add: yy_raw_class_def)
qed

section \<open>Runs\<close>

text \<open>A run over a sequence that does not jam: the state behind it and the last accepting one.\<close>

fun yy_reach :: "nat \<Rightarrow> string \<Rightarrow> nat \<Rightarrow> (nat \<times> nat) option \<Rightarrow> (nat \<times> (nat \<times> nat) option) option" where
  "yy_reach s [] n l = Some (s, l)"
| "yy_reach s (c # cs) n l =
     (case yy_trans s (yy_class c) of None \<Rightarrow> None
      | Some t \<Rightarrow> if t = YY_JAM then None else yy_reach t cs (Suc n) (if yy_accept ! s \<noteq> 0 then Some (s, n) else l))"

lemma yy_reach_append:
  "yy_reach s xs n l = Some (s', l') \<Longrightarrow> yy_reach s (xs @ ys) n l = yy_reach s' ys (n + length xs) l'"
  by (induction xs arbitrary: s n l) (auto split: option.splits if_splits)

lemma yy_reach_match:
  "yy_reach s xs n l = Some (s', l') \<Longrightarrow> yy_match s (xs @ ys) n l = yy_match s' ys (n + length xs) l'"
  by (induction xs arbitrary: s n l) (auto split: option.splits if_splits)

lemma yy_reach_good: "good_state s \<Longrightarrow> yy_reach s xs n l = Some (s', l') \<Longrightarrow> good_state s'"
proof (induction xs arbitrary: s n l)
  case (Cons c cs)
  then show ?case using yy_trans_good [OF Cons.prems(1), of c] by (auto split: if_splits)
qed simp

text \<open>The C code keeps the last accepting state with its position in the block; it may be stale.\<close>

definition last_rel :: "nat \<Rightarrow> (nat \<times> nat) option \<Rightarrow> nat \<times> nat \<Rightarrow> bool" where
  "last_rel t l L \<longleftrightarrow> (\<forall>q k. l = Some (q, k) \<longrightarrow> L = (q, t + k))"

lemma last_rel_None [simp]: "last_rel t None L"
  by (simp add: last_rel_def)

lemma last_rel_Some [simp]: "last_rel t (Some (q, k)) L \<longleftrightarrow> L = (q, t + k)"
  by (auto simp: last_rel_def)

lemma last_rel_step:
  "last_rel t l L \<Longrightarrow>
   last_rel t (if yy_accept ! s \<noteq> 0 then Some (s, n) else l) (if yy_accept ! s \<noteq> 0 then (s, t + n) else L)"
  by simp

lemma yy_previous_reach:
  assumes "yy_reach s xs n l = Some (s', l')" "take (length xs) (drop (t + n) ch) = xs" "last_rel t l L"
  shows "\<exists>L'. yy_previous ch (length xs) (t + n) s L = Inr (s', L') \<and> last_rel t l' L'"
  using assms
proof (induction xs arbitrary: s n l L)
  case (Cons c cs)
  have c: "t + n < length ch" "ch ! (t + n) = c" "take (length cs) (drop (t + Suc n) ch) = cs"
    using Cons.prems(2) by (cases "drop (t + n) ch"; force simp: nth_via_drop drop_Suc tl_drop [symmetric] not_le [symmetric])+
  obtain u where u: "yy_trans s (yy_class c) = Some u" "u \<noteq> YY_JAM"
      "yy_reach u cs (Suc n) (if yy_accept ! s \<noteq> 0 then Some (s, n) else l) = Some (s', l')"
    using Cons.prems(1) by (auto split: option.splits if_splits)
  show ?case
    using Cons.IH [OF u(3) c(3) last_rel_step [OF Cons.prems(3)]] c(1,2) u(1) by (simp add: peek_def chain_def)
qed simp

text \<open>
  Over the bytes up to the first NUL the run jams where the run over the sequence does, or it
  ends behind the NUL in the state for the end of the buffer.
\<close>

lemma yy_run_behind: "yy_run (z # zs) cp 9 L = Inr (9, cp)"
  using yy_behind_buffer [OF yy_raw_class_less] by simp

lemma yy_run_cases:
  assumes "good_state s" "NUL \<notin> set xs" "last_rel t l L"
  shows "(\<exists>l' L'. xs \<noteq> [] \<and> (\<forall>ys. yy_match s (xs @ ys) n l = Some l') \<and> yy_run (xs @ NUL # z # zs) (t + n) s L = Inr L' \<and> last_rel t l' L')
    \<or> (\<exists>s' l'. yy_reach s xs n l = Some (s', l') \<and> yy_run (xs @ NUL # z # zs) (t + n) s L = Inr (9, Suc (t + n + length xs)))"
  using assms
proof (induction xs arbitrary: s n l L)
  case Nil
  have "yy_trans s 0 = Some 9" using Nil(1) by (rule yy_trans_eob)
  then have "yy_run (NUL # z # zs) (t + n) s L = Inr (9, Suc (t + n))"
    using yy_run_behind by (simp add: yy_raw_class YY_JAM_def del: yy_run.simps add: yy_run.simps(2) [of NUL])
  then show ?case by simp
next
  case (Cons c cs)
  have c: "yy_raw_class c = yy_class c" "NUL \<notin> set cs" using Cons.prems(2) by (auto simp: yy_raw_class)
  obtain u where u: "yy_trans s (yy_class c) = Some u" "u = YY_JAM \<or> good_state u" using yy_trans_good [OF Cons.prems(1)] by blast
  note l = last_rel_step [OF Cons.prems(3), of s n]
  show ?case
  proof (cases "u = YY_JAM")
    case True
    then show ?thesis using u(1) c(1) l by simp
  next
    case False
    then show ?thesis using Cons.IH [OF _ c(2) l, of u "Suc n"] u c(1) by (cases "yy_accept ! s = 0"; auto)
  qed
qed

end
