(* ===== verification/Scanner_Refill.thy ===== *)
theory Scanner_Refill
  imports Scanner_Sequence
begin

text \<open>
  The invariant of an input buffer, and what refilling does to it: the unread characters, those
  in the block followed by those of the stream, stay the same; the block grows when it is full,
  no byte outside it is read or written, and the two end-of-buffer characters end its text.
\<close>

section \<open>Current buffer\<close>

named_theorems buf_simps \<open>reading and writing the buffers of the scanner\<close>

lemma chain_simps [buf_simps, simp]: "chain (Inl e) k = Inl e" "chain (Inr a) k = k a"
  by (simp_all add: chain_def)

lemma current_buffer_cong:
  "g_buffer_stack g' = g_buffer_stack g \<Longrightarrow> g_buffer_stack_top g' = g_buffer_stack_top g \<Longrightarrow> g_heap g' = g_heap g
   \<Longrightarrow> current_buffer g' = current_buffer g"
proof -
  assume g: "g_buffer_stack g' = g_buffer_stack g" "g_buffer_stack_top g' = g_buffer_stack_top g" "g_heap g' = g_heap g"
  then have e: "buffer_at g' = buffer_at g" "YY_CURRENT_BUFFER g' = YY_CURRENT_BUFFER g"
    by (simp_all add: fun_eq_iff buffer_at_def YY_CURRENT_BUFFER_def)
  show ?thesis unfolding current_buffer_def e by (rule refl)
qed

lemma current_buffer_update [buf_simps]:
  "current_buffer (g\<lparr>g_extra := x1\<rparr>) = current_buffer g" "current_buffer (g\<lparr>g_in := x2\<rparr>) = current_buffer g"
  "current_buffer (g\<lparr>g_out := x3\<rparr>) = current_buffer g" "current_buffer (g\<lparr>g_hold_char := x4\<rparr>) = current_buffer g"
  "current_buffer (g\<lparr>g_n_chars := x5\<rparr>) = current_buffer g" "current_buffer (g\<lparr>g_leng := x6\<rparr>) = current_buffer g"
  "current_buffer (g\<lparr>g_c_buf_p := x7\<rparr>) = current_buffer g" "current_buffer (g\<lparr>g_init := x8\<rparr>) = current_buffer g"
  "current_buffer (g\<lparr>g_start := x9\<rparr>) = current_buffer g" "current_buffer (g\<lparr>g_last_accepting_state := x10\<rparr>) = current_buffer g"
  "current_buffer (g\<lparr>g_last_accepting_cpos := x11\<rparr>) = current_buffer g" "current_buffer (g\<lparr>g_text := x12\<rparr>) = current_buffer g"
  "current_buffer (g\<lparr>g_files := x13\<rparr>) = current_buffer g" "current_buffer (set_yy_last l g) = current_buffer g"
  by (rule current_buffer_cong; simp add: set_yy_last_def)+

lemma current_buffer_iff:
  "current_buffer g = Inr (p, b) \<longleftrightarrow>
     YY_CURRENT_BUFFER g = Some p \<and> p < length (g_heap g) \<and> g_heap g ! p = Some b"
  by (auto simp: current_buffer_def buffer_at_def chain_def split: option.splits)

lemma buffer_at_iff: "buffer_at g p = Inr b \<longleftrightarrow> p < length (g_heap g) \<and> g_heap g ! p = Some b"
  by (auto simp: buffer_at_def split: option.splits)

lemma YY_CURRENT_BUFFER_store [buf_simps]: "YY_CURRENT_BUFFER (store_buffer p b g) = YY_CURRENT_BUFFER g"
  by (simp add: YY_CURRENT_BUFFER_def store_buffer_def)

lemma current_buffer_store [buf_simps]:
  "current_buffer g = Inr (p, b) \<Longrightarrow> current_buffer (store_buffer p b' g) = Inr (p, b')"
  by (simp add: current_buffer_iff YY_CURRENT_BUFFER_store) (simp add: store_buffer_def)

lemma store_buffer_fields [buf_simps]:
  "g_extra (store_buffer p b g) = g_extra g" "g_in (store_buffer p b g) = g_in g" "g_out (store_buffer p b g) = g_out g"
  "g_hold_char (store_buffer p b g) = g_hold_char g" "g_n_chars (store_buffer p b g) = g_n_chars g"
  "g_leng (store_buffer p b g) = g_leng g" "g_c_buf_p (store_buffer p b g) = g_c_buf_p g"
  "g_init (store_buffer p b g) = g_init g" "g_start (store_buffer p b g) = g_start g" "g_text (store_buffer p b g) = g_text g"
  "g_last_accepting_state (store_buffer p b g) = g_last_accepting_state g"
  "g_last_accepting_cpos (store_buffer p b g) = g_last_accepting_cpos g"
  "g_files (store_buffer p b g) = g_files g" "yy_last (store_buffer p b g) = yy_last g"
  by (simp_all add: store_buffer_def yy_last_def)

text \<open>What reading a token leaves alone: everything but the current buffer and its stream.\<close>

definition frame :: "nat \<Rightarrow> struct_yyguts_t \<Rightarrow> struct_yyguts_t \<Rightarrow> bool" where
  "frame p g g' \<longleftrightarrow> g_extra g' = g_extra g \<and> g_in g' = g_in g \<and> g_out g' = g_out g \<and> g_init g' = g_init g
     \<and> g_start g' = g_start g \<and> g_buffer_stack g' = g_buffer_stack g \<and> g_buffer_stack_top g' = g_buffer_stack_top g
     \<and> length (g_heap g') = length (g_heap g) \<and> (\<forall>q. q \<noteq> p \<longrightarrow> g_heap g' ! q = g_heap g ! q)
     \<and> length (g_files g') = length (g_files g) \<and> (\<forall>k. Some k \<noteq> g_in g \<longrightarrow> g_files g' ! k = g_files g ! k)"

lemma frame_refl [simp]: "frame p g g"
  by (simp add: frame_def)

lemma frame_trans: "frame p g1 g2 \<Longrightarrow> frame p g2 g3 \<Longrightarrow> frame p g1 g3"
  by (simp add: frame_def)

lemma frame_store [buf_simps]: "frame p g (store_buffer p b g') \<longleftrightarrow> frame p g g'"
  by (auto simp: frame_def store_buffer_def)

lemma frame_update [buf_simps]:
  "frame p g (g'\<lparr>g_hold_char := x1\<rparr>) = frame p g g'" "frame p g (g'\<lparr>g_n_chars := x2\<rparr>) = frame p g g'"
  "frame p g (g'\<lparr>g_leng := x3\<rparr>) = frame p g g'" "frame p g (g'\<lparr>g_c_buf_p := x4\<rparr>) = frame p g g'"
  "frame p g (g'\<lparr>g_text := x5\<rparr>) = frame p g g'" "frame p g (set_yy_last l g') = frame p g g'"
  by (simp_all add: frame_def set_yy_last_def)

section \<open>Blocks\<close>

lemma block_move_ok:
  assumes "d \<le> s" "s + k \<le> length ch"
  shows "\<exists>ch'. block_move ch d s k = Inr ch' \<and> length ch' = length ch \<and> (\<forall>i < k. ch' ! (d + i) = ch ! (s + i))
    \<and> (\<forall>i. i < d \<or> d + k \<le> i \<longrightarrow> ch' ! i = ch ! i)"
  using assms
proof (induction k arbitrary: ch d s)
  case (Suc k)
  let ?ch = "ch[d := ch ! s]"
  obtain ch' where ch': "block_move ?ch (Suc d) (Suc s) k = Inr ch'" "length ch' = length ?ch"
      "\<forall>i < k. ch' ! (Suc d + i) = ?ch ! (Suc s + i)" "\<forall>i. i < Suc d \<or> Suc d + k \<le> i \<longrightarrow> ch' ! i = ?ch ! i"
    using Suc.IH [of "Suc d" "Suc s" ?ch] Suc.prems by auto
  have "ch' ! (d + i) = ch ! (s + i)" if "i < Suc k" for i
    using that ch'(3,4) Suc.prems by (cases i) (auto simp: nth_list_update)
  moreover have "i < d \<or> d + Suc k \<le> i \<Longrightarrow> ch' ! i = ch ! i" for i
    using ch'(4) by (auto simp: nth_list_update)
  ultimately show ?case using ch'(1,2) Suc.prems by (auto simp: peek_def poke_def)
qed simp

lemma block_move_front:
  assumes "s + k \<le> length ch"
  obtains ch' where "block_move ch 0 s k = Inr ch'" "length ch' = length ch" "take k ch' = take k (drop s ch)"
proof -
  obtain ch' where ch': "block_move ch 0 s k = Inr ch'" "length ch' = length ch" "\<forall>i < k. ch' ! (0 + i) = ch ! (s + i)"
    using block_move_ok [of 0 s k ch] assms by auto
  have "take k ch' = take k (drop s ch)" using assms ch'(2,3) by (intro nth_equalityI) auto
  with ch'(1,2) show ?thesis by (rule that)
qed

lemma block_fill_ok:
  "i + length cs \<le> length ch \<Longrightarrow> block_fill ch i cs = Inr (take i ch @ cs @ drop (i + length cs) ch)"
proof (induction cs arbitrary: ch i)
  case (Cons c cs)
  then have "block_fill ch i (c # cs) = Inr (take (Suc i) (ch[i := c]) @ cs @ drop (Suc i + length cs) (ch[i := c]))"
    using Cons.IH [of "Suc i" "ch[i := c]"] by (simp add: poke_def)
  moreover have "take (Suc i) (ch[i := c]) = take i ch @ [c]"
    using Cons.prems by (simp add: take_Suc_conv_app_nth)
  ultimately show ?case by simp
qed simp

text \<open>The two end-of-buffer characters behind the text.\<close>

definition eob_marked :: "string \<Rightarrow> nat \<Rightarrow> bool" where
  "eob_marked ch n \<longleftrightarrow> Suc n < length ch \<and> ch ! n = NUL \<and> ch ! Suc n = NUL"

lemma poke_eob:
  assumes "Suc n < length ch"
  shows "\<exists>ch'. chain (poke ch n YY_END_OF_BUFFER_CHAR) (\<lambda>ch1. chain (poke ch1 (n + 1) YY_END_OF_BUFFER_CHAR) k) = k ch'
    \<and> length ch' = length ch \<and> take n ch' = take n ch \<and> eob_marked ch' n"
  using assms by (intro exI [of _ "ch[n := NUL, Suc n := NUL]"])
    (simp add: poke_def YY_END_OF_BUFFER_CHAR_def eob_marked_def)

lemma size_t_id: "0 \<le> i \<Longrightarrow> i < 2 ^ 64 \<Longrightarrow> size_t i = nat i"
  by (simp add: size_t_def)

text \<open>A full buffer is doubled once.\<close>

lemma yy_grow_ok:
  assumes "m < b_buf_size b" "m < 2 ^ 31" "b_buf_size b < 2 ^ 33" "b_is_our_buffer b" "length (b_ch_buf b) = b_buf_size b + 2"
  obtains s ch where "yy_grow 2 mem (int m) b = Inr (b\<lparr>b_buf_size := s, b_ch_buf := ch\<rparr>, s - m - 1)" "m + 1 < s" "s < 2 ^ 33"
    "length ch = s + 2" "take m ch = take m (b_ch_buf b)"
proof (cases "b_buf_size b = m + 1")
  case True
  let ?s = "2 * (m + 1)" and ?ch = "realloc_block mem (b_ch_buf b) (2 * (m + 1) + 2)"
  have n: "(b_buf_size b * 2) mod 2 ^ 64 = ?s" using True assms(2) by simp
  have r: "size_t (int ?s - int m - 1) = m + 1" using assms(2) by (simp add: size_t_def)
  have "yy_grow 2 mem (int m) b = yy_grow 1 mem (int m) (b\<lparr>b_buf_size := ?s, b_ch_buf := ?ch\<rparr>)"
    using True n assms(4) by (subst yy_grow.simps) (simp add: size_t_def Let_def numeral_2_eq_2)
  also have "\<dots> = Inr (b\<lparr>b_buf_size := ?s, b_ch_buf := ?ch\<rparr>, m + 1)"
    using r by (subst yy_grow.simps) (simp add: Let_def)
  finally show ?thesis
    using that [of ?ch ?s] True assms(2,5) by (simp add: realloc_block_def del: upt_Suc)
next
  case False
  have r: "size_t (int (b_buf_size b) - int m - 1) = b_buf_size b - m - 1" "b_buf_size b - m - 1 \<noteq> 0"
    using False assms(1,3) by (simp_all add: size_t_def nat_eq_iff)
  then have "yy_grow 2 mem (int m) b = Inr (b, b_buf_size b - m - 1)" by (subst yy_grow.simps) (simp add: Let_def)
  then show ?thesis using that [of "b_ch_buf b" "b_buf_size b"] False assms by simp
qed

section \<open>The invariant of a buffer\<close>

definition node_text :: "file_node \<Rightarrow> string" where
  "node_text node = (case node of Regular text \<Rightarrow> text | Directory \<Rightarrow> [])"

text \<open>What the stream of a buffer still has to give.\<close>

definition stream_left :: "file_node list \<Rightarrow> struct_yy_buffer_state \<Rightarrow> string" where
  "stream_left streams b =
     (if b_fill_buffer b \<and> b_buffer_status b \<noteq> YY_BUFFER_EOF_PENDING
      then (case b_input_file b of None \<Rightarrow> [] | Some f \<Rightarrow> node_text (streams ! f)) else [])"

definition unreadable :: "file_node list \<Rightarrow> struct_yy_buffer_state \<Rightarrow> bool" where
  "unreadable streams b \<longleftrightarrow> b_fill_buffer b \<and> (\<exists>f. b_input_file b = Some f \<and> streams ! f = Directory)"

text \<open>
  The block holds \<open>n\<close> characters, of which those from position \<open>t\<close> on and those of the
  stream are the unread characters \<open>w\<close>. Fewer than \<open>2 ^ 31 - 1\<close> characters are
  unread: the C code keeps lengths of tokens in an \<^verbatim>\<open>int\<close>.
\<close>

definition block_ok :: "file_node list \<Rightarrow> struct_yy_buffer_state \<Rightarrow> nat \<Rightarrow> nat \<Rightarrow> string \<Rightarrow> bool" where
  "block_ok streams b n t w \<longleftrightarrow>
     length (b_ch_buf b) = b_buf_size b + 2 \<and> t \<le> n \<and> n \<le> b_buf_size b \<and> eob_marked (b_ch_buf b) n
     \<and> (b_buffer_status b = YY_BUFFER_NEW \<longrightarrow> b_n_chars b = n)
     \<and> (b_fill_buffer b \<longrightarrow> n < b_buf_size b \<and> b_is_our_buffer b \<and> b_buf_size b < 2 ^ 33
          \<and> (\<exists>f. b_input_file b = Some f \<and> f < length streams))
     \<and> (unreadable streams b \<longrightarrow> n = 0 \<and> b_buffer_status b \<noteq> YY_BUFFER_EOF_PENDING)
     \<and> (b_buffer_status b = YY_BUFFER_EOF_PENDING \<longrightarrow> b_fill_buffer b
          \<and> (\<forall>f. b_input_file b = Some f \<longrightarrow> node_text (streams ! f) = []))
     \<and> w = drop t (take n (b_ch_buf b)) @ stream_left streams b \<and> length w < 2 ^ 31 - 1"

definition scanning :: "struct_yyguts_t \<Rightarrow> nat \<Rightarrow> struct_yy_buffer_state \<Rightarrow> nat \<Rightarrow> string \<Rightarrow> bool" where
  "scanning g p b t w \<longleftrightarrow>
     current_buffer g = Inr (p, b) \<and> g_in g = b_input_file b \<and> block_ok (g_files g) b (g_n_chars g) t w"

text \<open>What two states of one buffer have in common while a token is read.\<close>

definition same_line :: "struct_yy_buffer_state \<Rightarrow> struct_yy_buffer_state \<Rightarrow> bool" where
  "same_line b b' \<longleftrightarrow> b_at_bol b' = b_at_bol b \<and> b_bs_lineno b' = b_bs_lineno b \<and> b_fill_buffer b' = b_fill_buffer b"

section \<open>Refilling\<close>

lemma store_buffer_store [buf_simps]:
  "store_buffer p b (store_buffer p b' g) = store_buffer p b g"
  "store_buffer p b ((store_buffer p b' g)\<lparr>g_n_chars := x1, g_text := x2\<rparr>) = store_buffer p b (g\<lparr>g_n_chars := x1, g_text := x2\<rparr>)"
  by (simp_all add: store_buffer_def)

lemma restart_current:
  assumes "current_buffer g = Inr (p, b)" "2 \<le> length (b_ch_buf b)"
  shows "libconfig_yyrestart mem stream g =
    Inr (store_buffer p (b\<lparr>b_n_chars := 0, b_ch_buf := (b_ch_buf b)[0 := NUL, 1 := NUL], b_buf_pos := 0, b_at_bol := True,
             b_buffer_status := YY_BUFFER_NEW, b_input_file := stream, b_fill_buffer := True\<rparr>)
           (g\<lparr>g_n_chars := 0, g_text := 0, g_c_buf_p := 0, g_in := stream, g_hold_char := NUL\<rparr>))"
proof -
  have c: "YY_CURRENT_BUFFER g = Some p" "buffer_at g p = Inr b" "p < length (g_heap g)"
    using assms(1) by (auto simp: current_buffer_iff buffer_at_iff)
  let ?ch = "(b_ch_buf b)[0 := NUL, 1 := NUL]"
  let ?b1 = "b\<lparr>b_n_chars := 0, b_ch_buf := ?ch, b_buf_pos := 0, b_at_bol := True, b_buffer_status := YY_BUFFER_NEW\<rparr>"
  let ?g1 = "(store_buffer p ?b1 g)\<lparr>g_n_chars := 0, g_text := 0, g_c_buf_p := 0, g_in := b_input_file b, g_hold_char := NUL\<rparr>"
  have len: "0 < length (b_ch_buf b)" "1 < length (b_ch_buf b)" "Suc 0 < length (b_ch_buf b)" using assms(2) by auto
  have "libconfig_yy_flush_buffer p g = Inr ?g1"
    using c len current_buffer_store [OF assms(1)]
    by (simp add: libconfig_yy_flush_buffer_def libconfig_yy_load_buffer_state_def poke_def peek_def YY_CURRENT_BUFFER_store
        YY_END_OF_BUFFER_CHAR_def)
  moreover have k: "current_buffer ?g1 = Inr (p, ?b1)" using current_buffer_store [OF assms(1)] by (simp add: current_buffer_update)
  moreover have "YY_CURRENT_BUFFER ?g1 = Some p" "buffer_at ?g1 p = Inr ?b1"
    using k by (simp_all add: current_buffer_iff buffer_at_iff)
  ultimately have i: "libconfig_yy_init_buffer p stream g =
      Inr (store_buffer p (?b1\<lparr>b_input_file := stream, b_fill_buffer := True\<rparr>) ?g1)"
    by (simp add: libconfig_yy_init_buffer_def Let_def)
  show ?thesis
    using c i len current_buffer_store [OF k] assms(1)
    by (simp add: libconfig_yyrestart_def libconfig_yy_load_buffer_state_def peek_def) (simp add: store_buffer_def)
qed

text \<open>The end of refilling: something was read, or the stream has ended.\<close>

lemma yy_filled_continue:
  assumes "current_buffer g = Inr (p, b)" "g_n_chars g \<noteq> 0" "m + g_n_chars g \<le> b_buf_size b" "b_buf_size b < 2 ^ 33"
    "length (b_ch_buf b) = b_buf_size b + 2"
  shows "\<exists>ch. yy_filled mem (int m) g = Inr (EOB_ACT_CONTINUE_SCAN,
      store_buffer p (b\<lparr>b_ch_buf := ch\<rparr>) (g\<lparr>g_n_chars := m + g_n_chars g, g_text := 0\<rparr>))
    \<and> length ch = length (b_ch_buf b) \<and> take (m + g_n_chars g) ch = take (m + g_n_chars g) (b_ch_buf b)
    \<and> eob_marked ch (m + g_n_chars g)"
proof -
  have "size_t (int (g_n_chars g) + int m) = m + g_n_chars g" using assms(3,4) by (simp add: size_t_def flip: of_nat_add)
  moreover have "Suc (m + g_n_chars g) < length (b_ch_buf b)" using assms(3,5) by simp
  ultimately show ?thesis
    using assms(1-3) poke_eob [of "m + g_n_chars g" "b_ch_buf b" "\<lambda>ch. Inr (EOB_ACT_CONTINUE_SCAN,
      store_buffer p (b\<lparr>b_ch_buf := ch\<rparr>) (g\<lparr>g_n_chars := m + g_n_chars g, g_text := 0\<rparr>))"]
    by (auto simp: yy_filled_def Let_def)
qed

lemma yy_filled_last:
  assumes "current_buffer g = Inr (p, b)" "g_n_chars g = 0" "0 < m" "m \<le> b_buf_size b" "b_buf_size b < 2 ^ 33"
    "length (b_ch_buf b) = b_buf_size b + 2"
  shows "\<exists>ch. yy_filled mem (int m) g = Inr (EOB_ACT_LAST_MATCH,
      store_buffer p (b\<lparr>b_buffer_status := YY_BUFFER_EOF_PENDING, b_ch_buf := ch\<rparr>) (g\<lparr>g_n_chars := m, g_text := 0\<rparr>))
    \<and> length ch = length (b_ch_buf b) \<and> take m ch = take m (b_ch_buf b) \<and> eob_marked ch m"
proof -
  let ?b = "b\<lparr>b_buffer_status := YY_BUFFER_EOF_PENDING\<rparr>"
  have "size_t (int m) = m" using assms(4,5) by (simp add: size_t_def)
  moreover have "Suc m < length (b_ch_buf b)" using assms(4,6) by simp
  ultimately show ?thesis
    using assms(1-4) poke_eob [of m "b_ch_buf b" "\<lambda>ch. Inr (EOB_ACT_LAST_MATCH,
      store_buffer p (?b\<lparr>b_ch_buf := ch\<rparr>) (g\<lparr>g_n_chars := m, g_text := 0\<rparr>))"] current_buffer_store [OF assms(1), of ?b]
    by (auto simp: yy_filled_def Let_def buf_simps)
qed

lemma yy_filled_end:
  assumes "current_buffer g = Inr (p, b)" "g_n_chars g = 0" "2 \<le> length (b_ch_buf b)"
  shows "\<exists>ch. yy_filled mem 0 g = Inr (EOB_ACT_END_OF_FILE,
      store_buffer p (b\<lparr>b_n_chars := 0, b_buf_pos := 0, b_at_bol := True,
             b_buffer_status := YY_BUFFER_NEW, b_input_file := g_in g, b_fill_buffer := True, b_ch_buf := ch\<rparr>)
           (g\<lparr>g_c_buf_p := 0, g_hold_char := NUL, g_n_chars := 0, g_text := 0\<rparr>))
    \<and> length ch = length (b_ch_buf b) \<and> eob_marked ch 0"
proof -
  let ?ch = "(b_ch_buf b)[0 := NUL, 1 := NUL]"
  let ?b = "b\<lparr>b_n_chars := 0, b_ch_buf := ?ch, b_buf_pos := 0, b_at_bol := True,
             b_buffer_status := YY_BUFFER_NEW, b_input_file := g_in g, b_fill_buffer := True\<rparr>"
  let ?g = "g\<lparr>g_c_buf_p := 0, g_hold_char := NUL, g_n_chars := 0, g_text := 0\<rparr>"
  let ?g1 = "g\<lparr>g_n_chars := 0, g_text := 0, g_c_buf_p := 0, g_in := g_in g, g_hold_char := NUL\<rparr>"
  have c: "current_buffer (store_buffer p ?b ?g1) = Inr (p, ?b)" using assms(1) by (simp add: buf_simps)
  have r: "libconfig_yyrestart mem (g_in g) g = Inr (store_buffer p ?b ?g1)"
    using restart_current [OF assms(1,3)] .
  have e: "yy_filled mem 0 g = chain (poke ?ch 0 YY_END_OF_BUFFER_CHAR) (\<lambda>ch1. chain (poke ch1 (0 + 1) YY_END_OF_BUFFER_CHAR)
      (\<lambda>ch. Inr (EOB_ACT_END_OF_FILE, store_buffer p (?b\<lparr>b_ch_buf := ch\<rparr>) ?g)))"
    using assms(2) c by (simp add: yy_filled_def r Let_def size_t_def buf_simps)
  have "Suc 0 < length ?ch" using assms(3) by simp
  from poke_eob [OF this, of "\<lambda>ch. Inr (EOB_ACT_END_OF_FILE, store_buffer p (?b\<lparr>b_ch_buf := ch\<rparr>) ?g)"] obtain ch where
      "yy_filled mem 0 g = Inr (EOB_ACT_END_OF_FILE, store_buffer p (?b\<lparr>b_ch_buf := ch\<rparr>) ?g)"
      "length ch = length ?ch" "eob_marked ch 0"
    unfolding e by blast
  then show ?thesis by (intro exI [of _ ch]) simp
qed

text \<open>Reading into the block behind the characters that were moved to its front.\<close>

lemma yy_fill_ok:
  assumes "m < b_buf_size b" "m < 2 ^ 31" "b_buf_size b < 2 ^ 33" "b_is_our_buffer b" "length (b_ch_buf b) = b_buf_size b + 2"
    "b_fill_buffer b" "b_input_file b = Some f" "g_in g = Some f" "f < length (g_files g)" "\<not> unreadable (g_files g) b"
    "b_buffer_status b = YY_BUFFER_EOF_PENDING \<Longrightarrow> node_text (g_files g ! f) = []"
  shows "\<exists>b1 node bytes. yy_fill mem (int m) p b g =
      Inr (store_buffer p b1 (g\<lparr>g_files := (g_files g)[f := node], g_n_chars := length bytes\<rparr>))
    \<and> stream_left (g_files g) b = bytes @ stream_left ((g_files g)[f := node]) b1
    \<and> (bytes = [] \<longrightarrow> node_text node = [])
    \<and> node \<noteq> Directory \<and> length (b_ch_buf b1) = b_buf_size b1 + 2 \<and> m + length bytes < b_buf_size b1 \<and> b_buf_size b1 < 2 ^ 33
    \<and> take (m + length bytes) (b_ch_buf b1) = take m (b_ch_buf b) @ bytes \<and> same_line b b1
    \<and> b_is_our_buffer b1 \<and> b_input_file b1 = Some f \<and> b_buffer_status b1 = b_buffer_status b"
proof (cases "b_buffer_status b = YY_BUFFER_EOF_PENDING")
  case True
  have "g_files g ! f \<noteq> Directory" using assms by (auto simp: unreadable_def)
  then show ?thesis
    using True assms by (intro exI [of _ "b\<lparr>b_n_chars := 0\<rparr>"] exI [of _ "g_files g ! f"] exI [of _ "[]"])
      (simp add: yy_fill_def stream_left_def same_line_def)
next
  case False
  obtain left where left: "g_files g ! f = Regular left"
    using assms(6,7,10) by (cases "g_files g ! f") (auto simp: unreadable_def)
  obtain s ch where s: "yy_grow 2 mem (int m) b = Inr (b\<lparr>b_buf_size := s, b_ch_buf := ch\<rparr>, s - m - 1)" "m + 1 < s" "s < 2 ^ 33"
      "length ch = s + 2" "take m ch = take m (b_ch_buf b)"
    using yy_grow_ok [OF assms(1-5)] by metis
  define k where "k = min (s - Suc m) YY_READ_BUF_SIZE"
  have k: "0 < k" "m + k < s" using s(2) by (auto simp: k_def YY_READ_BUF_SIZE_def)
  define bytes where "bytes = take k left"
  have len: "length bytes \<le> k" by (simp add: bytes_def)
  define ch1 where "ch1 = take m ch @ bytes @ drop (m + length bytes) ch"
  have "block_fill ch m bytes = Inr ch1" unfolding ch1_def using k(2) len s(4) by (intro block_fill_ok) simp
  then have r: "YY_INPUT ch (int m) k g = Inr (ch1, length bytes, g\<lparr>g_files := (g_files g)[f := Regular (drop k left)]\<rparr>)"
    using assms(8,9) left k(2) s(4) by (simp add: YY_INPUT_def fread_def bytes_def)
  let ?b1 = "b\<lparr>b_buf_size := s, b_ch_buf := ch1, b_n_chars := length bytes\<rparr>"
  have "yy_fill mem (int m) p b g = Inr (store_buffer p ?b1 (g\<lparr>g_files := (g_files g)[f := Regular (drop k left)], g_n_chars := length bytes\<rparr>))"
    using False s(1) r by (simp add: yy_fill_def k_def [symmetric])
  moreover have "stream_left (g_files g) b = bytes @ stream_left ((g_files g)[f := Regular (drop k left)]) ?b1"
    using False assms(6,7,9) left by (simp add: stream_left_def node_text_def bytes_def)
  moreover have "bytes = [] \<Longrightarrow> node_text (Regular (drop k left)) = []"
    using k(1) by (auto simp: node_text_def bytes_def)
  moreover have "take (m + length bytes) ch1 = take m (b_ch_buf b) @ bytes" "length ch1 = s + 2"
    using s(2,4,5) k(2) len assms(1,5) by (simp_all add: ch1_def)
  ultimately show ?thesis
    using s(3) k(2) len assms(4,7) by (intro exI [of _ ?b1] exI [of _ "Regular (drop k left)"] exI [of _ bytes]) (simp add: same_line_def)
qed

lemma yy_fill_unreadable:
  assumes "m < b_buf_size b" "m < 2 ^ 31" "b_buf_size b < 2 ^ 33" "b_is_our_buffer b" "length (b_ch_buf b) = b_buf_size b + 2"
    "b_input_file b = Some f" "g_in g = Some f" "f < length (g_files g)" "unreadable (g_files g) b"
    "b_buffer_status b \<noteq> YY_BUFFER_EOF_PENDING"
  shows "yy_fill mem (int m) p b g = Inl (Lex_Fatal ''input in flex scanner failed'')"
proof -
  obtain s ch where s: "yy_grow 2 mem (int m) b = Inr (b\<lparr>b_buf_size := s, b_ch_buf := ch\<rparr>, s - m - 1)" "m + 1 < s" "s < 2 ^ 33"
      "length ch = s + 2" "take m ch = take m (b_ch_buf b)"
    using yy_grow_ok [OF assms(1-5)] by metis
  have "g_files g ! f = Directory" using assms(6,9) by (auto simp: unreadable_def)
  then show ?thesis
    using s assms(7,8,10) by (auto simp: yy_fill_def YY_INPUT_def fread_def)
qed

text \<open>
  What refilling ends with: the unread characters are the same, and the characters that were
  scanned are at the front of the block; or it is the end of the input; or a directory was
  opened.
\<close>

definition refills ::
    "nat \<Rightarrow> struct_yyguts_t \<Rightarrow> struct_yy_buffer_state \<Rightarrow> nat \<Rightarrow> string \<Rightarrow> lex_result + eob_act \<times> struct_yyguts_t \<Rightarrow> bool" where
  "refills p g b t w r \<longleftrightarrow>
     (case r of
        Inl e \<Rightarrow> unreadable (g_files g) b \<and> w = [] \<and> e = Lex_Fatal ''input in flex scanner failed''
      | Inr (act, g') \<Rightarrow>
          \<not> unreadable (g_files g) b \<and> frame p g g'
          \<and> (\<exists>b'. scanning g' p b' (g_text g') w \<and> \<not> unreadable (g_files g') b' \<and> b_bs_lineno b' = b_bs_lineno b
               \<and> b_fill_buffer b' = b_fill_buffer b
               \<and> (case act of
                    EOB_ACT_END_OF_FILE \<Rightarrow> w = [] \<and> g_hold_char g' = NUL
                  | EOB_ACT_CONTINUE_SCAN \<Rightarrow>
                      b_at_bol b' = b_at_bol b \<and> b_buffer_status b' \<noteq> YY_BUFFER_NEW
                      \<and> g_text g' + (g_n_chars g - t) \<le> g_n_chars g'
                      \<and> length (stream_left (g_files g') b') < length (stream_left (g_files g) b)
                  | EOB_ACT_LAST_MATCH \<Rightarrow>
                      b_at_bol b' = b_at_bol b \<and> w \<noteq> [] \<and> stream_left (g_files g) b = [] \<and> stream_left (g_files g') b' = [])))"

lemma refills_continue:
  assumes "\<not> unreadable (g_files g) b" "frame p g g'" "scanning g' p b' (g_text g') w" "\<not> unreadable (g_files g') b'"
    "same_line b b'" "b_buffer_status b' \<noteq> YY_BUFFER_NEW" "g_text g' + (g_n_chars g - t) \<le> g_n_chars g'"
    "length (stream_left (g_files g') b') < length (stream_left (g_files g) b)"
  shows "refills p g b t w (Inr (EOB_ACT_CONTINUE_SCAN, g'))"
  using assms by (auto simp: refills_def same_line_def simp del: not_less intro!: exI [of _ b'])

lemma refills_last:
  assumes "\<not> unreadable (g_files g) b" "frame p g g'" "scanning g' p b' (g_text g') w" "\<not> unreadable (g_files g') b'"
    "same_line b b'" "w \<noteq> []" "stream_left (g_files g) b = []" "stream_left (g_files g') b' = []"
  shows "refills p g b t w (Inr (EOB_ACT_LAST_MATCH, g'))"
  using assms by (auto simp: refills_def same_line_def intro!: exI [of _ b'])

lemma refills_end:
  assumes "\<not> unreadable (g_files g) b" "frame p g g'" "scanning g' p b' (g_text g') []" "\<not> unreadable (g_files g') b'"
    "b_bs_lineno b' = b_bs_lineno b" "b_fill_buffer b' = b_fill_buffer b" "g_hold_char g' = NUL"
  shows "refills p g b t [] (Inr (EOB_ACT_END_OF_FILE, g'))"
  using assms by (auto simp: refills_def intro!: exI [of _ b'])

lemma stream_left_block [buf_simps]:
  "stream_left streams (b\<lparr>b_ch_buf := ch\<rparr>) = stream_left streams b"
  "unreadable streams (b\<lparr>b_ch_buf := ch\<rparr>) = unreadable streams b"
  by (simp_all add: stream_left_def unreadable_def)

lemma scanningD:
  assumes "scanning g p b t w"
  shows "current_buffer g = Inr (p, b)" "length (b_ch_buf b) = b_buf_size b + 2" "t \<le> g_n_chars g" "g_n_chars g \<le> b_buf_size b"
    "eob_marked (b_ch_buf b) (g_n_chars g)" "w = drop t (take (g_n_chars g) (b_ch_buf b)) @ stream_left (g_files g) b"
    "length w < 2 ^ 31 - 1" "g_in g = b_input_file b"
  using assms unfolding scanning_def block_ok_def by blast+

lemma scanning_fillD:
  assumes "scanning g p b t w" "b_fill_buffer b"
  obtains f where "b_input_file b = Some f" "g_in g = Some f" "f < length (g_files g)" "b_is_our_buffer b" "b_buf_size b < 2 ^ 33"
    "g_n_chars g < b_buf_size b"
  using assms by (auto simp: scanning_def block_ok_def)

text \<open>The number of bytes to move is not too large for its type.\<close>

lemma scanning_amount:
  assumes "scanning g p b t w"
  shows "to_int32 (int (g_n_chars g + 1) - int t) - 1 = int (g_n_chars g - t)" "g_n_chars g - t < 2 ^ 31"
    "g_n_chars g - t \<le> length w"
proof -
  have n: "g_n_chars g < length (b_ch_buf b)" "t \<le> g_n_chars g" using scanningD [OF assms] by simp_all
  have "length w = g_n_chars g - t + length (stream_left (g_files g) b)" using scanningD(6) [OF assms] n by simp
  then show k: "g_n_chars g - t \<le> length w" by simp
  then show "g_n_chars g - t < 2 ^ 31" using scanningD(7) [OF assms] by simp
  then show "to_int32 (int (g_n_chars g + 1) - int t) - 1 = int (g_n_chars g - t)"
    using k n scanningD(7) [OF assms] by (simp add: to_int32_def)
qed

lemma yy_get_next_string:
  assumes "scanning g p b t w" "\<not> b_fill_buffer b" "g_text g = t" "g_c_buf_p g = g_n_chars g + 1" "g_hold_char g = NUL"
  shows "refills p g b t w (yy_get_next_buffer mem g)"
proof -
  note d = scanningD [OF assms(1)]
  have left: "stream_left (g_files g) b = []" "\<not> unreadable (g_files g) b"
    using assms(2) by (simp_all add: stream_left_def unreadable_def)
  have "w = [] \<longleftrightarrow> g_n_chars g = t" using d(2-4) left(1) unfolding d(6) by auto
  then have "yy_get_next_buffer mem g = Inr (if w = [] then EOB_ACT_END_OF_FILE else EOB_ACT_LAST_MATCH, g)"
    using assms(2-4) d(1,3) by (auto simp: yy_get_next_buffer_def)
  then show ?thesis using assms left by (auto simp: refills_def)
qed

lemma frame_files: "g_in g = Some f \<Longrightarrow> frame p g (g\<lparr>g_files := (g_files g)[f := node]\<rparr>)"
  by (auto simp: frame_def)

lemma eob_marked_take: "eob_marked ch n \<Longrightarrow> length (take n ch) = n"
  by (simp add: eob_marked_def)

lemma scanning_storeI:
  "current_buffer g = Inr (p, b0) \<Longrightarrow> g_in g = b_input_file b \<Longrightarrow> block_ok (g_files g) b (g_n_chars g) t w
   \<Longrightarrow> scanning (store_buffer p b g) p b t w"
  by (simp add: scanning_def buf_simps)

text \<open>The invariant of a buffer that is filled from a readable stream, at the front of its block.\<close>

lemma block_ok_readI:
  assumes "length (b_ch_buf b) = b_buf_size b + 2" "n < b_buf_size b" "eob_marked (b_ch_buf b) n"
    "b_buffer_status b = YY_BUFFER_NEW \<Longrightarrow> b_n_chars b = n" "b_fill_buffer b" "b_is_our_buffer b" "b_buf_size b < 2 ^ 33"
    "b_input_file b = Some f" "f < length streams" "streams ! f \<noteq> Directory"
    "b_buffer_status b = YY_BUFFER_EOF_PENDING \<Longrightarrow> node_text (streams ! f) = []"
    "w = take n (b_ch_buf b) @ stream_left streams b" "length w < 2 ^ 31 - 1"
  shows "block_ok streams b n 0 w"
  unfolding block_ok_def unreadable_def using assms by auto

text \<open>The three ways on from a block that was read into, by what was read and what was scanned.\<close>

lemma refills_read:
  assumes "scanning g p b t w" "g_in g = Some f" "f < length (g_files g)" "\<not> unreadable (g_files g) b" "b_fill_buffer b"
    "b_buffer_status b \<noteq> YY_BUFFER_NEW"
    "m = g_n_chars g - t" "take (m + length bytes) (b_ch_buf b1) = drop t (take (g_n_chars g) (b_ch_buf b)) @ bytes"
    "stream_left (g_files g) b = bytes @ stream_left ((g_files g)[f := node]) b1"
    "bytes = [] \<Longrightarrow> node_text node = []"
    "node \<noteq> Directory" "length (b_ch_buf b1) = b_buf_size b1 + 2" "m + length bytes < b_buf_size b1" "b_buf_size b1 < 2 ^ 33"
    "same_line b b1" "b_is_our_buffer b1" "b_input_file b1 = Some f" "b_buffer_status b1 = b_buffer_status b"
    "g1 = store_buffer p b1 (g\<lparr>g_files := (g_files g)[f := node], g_n_chars := length bytes\<rparr>)"
  shows "refills p g b t w (yy_filled mem (int m) g1)"
proof -
  note d = scanningD [OF assms(1)]
  have c: "current_buffer g1 = Inr (p, b1)" "g_n_chars g1 = length bytes" "g_files g1 = (g_files g)[f := node]" "g_in g1 = Some f"
    using d(1) assms(2) by (simp_all add: assms(19) buf_simps)
  have fr: "frame p g g1" using frame_files [OF assms(2)] by (simp add: assms(19) buf_simps)
  have w: "w = take (m + length bytes) (b_ch_buf b1) @ stream_left (g_files g1) b1"
    using d(6) assms(8,9) c(3) by simp
  have fill: "b_fill_buffer b1" "\<not> unreadable (g_files g1) b1"
    using assms(3,5,11,15,17) c(3) by (auto simp: same_line_def unreadable_def)
  have drained: "bytes = [] \<Longrightarrow> stream_left (g_files g1) b1 = []"
    using assms(3,10,17) c(3) by (simp add: stream_left_def)
  have pending: "bytes \<noteq> [] \<Longrightarrow> b_buffer_status b \<noteq> YY_BUFFER_EOF_PENDING"
    using assms(9) by (auto simp: stream_left_def)
  have left: "bytes \<noteq> [] \<Longrightarrow> length (stream_left (g_files g1) b1) < length (stream_left (g_files g) b)"
    using assms(9) c(3) by simp
  have sl: "b_at_bol b1 = b_at_bol b" "b_bs_lineno b1 = b_bs_lineno b" using assms(15) by (auto simp: same_line_def)
  consider "bytes \<noteq> []" | "bytes = []" "0 < m" | "bytes = []" "m = 0" by auto
  then show ?thesis
  proof cases
    case 1
    obtain ch where ch: "yy_filled mem (int m) g1 = Inr (EOB_ACT_CONTINUE_SCAN,
          store_buffer p (b1\<lparr>b_ch_buf := ch\<rparr>) (g1\<lparr>g_n_chars := m + length bytes, g_text := 0\<rparr>))"
        "length ch = length (b_ch_buf b1)" "take (m + length bytes) ch = take (m + length bytes) (b_ch_buf b1)"
        "eob_marked ch (m + length bytes)"
      using yy_filled_continue [OF c(1), of m mem] 1 assms(12-14) c(2) by auto
    have "scanning (store_buffer p (b1\<lparr>b_ch_buf := ch\<rparr>) (g1\<lparr>g_n_chars := m + length bytes, g_text := 0\<rparr>))
        p (b1\<lparr>b_ch_buf := ch\<rparr>) 0 w"
      using c ch(2-4) w d(7) fill assms(3,6,11-14,16-18) 1 pending
      by (intro scanning_storeI block_ok_readI [of _ _ f]) (simp_all add: buf_simps)
    then show ?thesis
      unfolding ch(1) using 1 fr fill left assms(4,6,7,15,18)
      by (intro refills_continue [where b' = "b1\<lparr>b_ch_buf := ch\<rparr>"]) (auto simp: buf_simps same_line_def)
  next
    case 2
    obtain ch where ch: "yy_filled mem (int m) g1 = Inr (EOB_ACT_LAST_MATCH,
          store_buffer p (b1\<lparr>b_buffer_status := YY_BUFFER_EOF_PENDING, b_ch_buf := ch\<rparr>) (g1\<lparr>g_n_chars := m, g_text := 0\<rparr>))"
        "length ch = length (b_ch_buf b1)" "take m ch = take m (b_ch_buf b1)" "eob_marked ch m"
      using yy_filled_last [OF c(1), of m mem] 2 assms(12-14) c(2) by auto
    let ?b = "b1\<lparr>b_buffer_status := YY_BUFFER_EOF_PENDING, b_ch_buf := ch\<rparr>"
    have b: "stream_left (g_files g1) ?b = []" "\<not> unreadable (g_files g1) ?b"
      using fill by (simp_all add: stream_left_def unreadable_def)
    moreover have "w = take m (b_ch_buf b1)" "w \<noteq> []"
      using w 2 drained assms(12,13) by auto
    ultimately have "scanning (store_buffer p ?b (g1\<lparr>g_n_chars := m, g_text := 0\<rparr>)) p ?b 0 w" "w \<noteq> []"
      using c ch(2-4) d(7) fill assms(3,6,10-14,16-18) 2
      by (auto intro!: scanning_storeI block_ok_readI [of _ _ f] simp: buf_simps)
    then show ?thesis
      unfolding ch(1) using b fr assms(4,9,15) 2(1) drained c(3)
      by (intro refills_last [where b' = ?b]) (auto simp: buf_simps same_line_def)
  next
    case 3
    let ?b = "\<lambda>ch. b1\<lparr>b_n_chars := 0, b_buf_pos := 0, b_at_bol := True, b_buffer_status := YY_BUFFER_NEW,
        b_input_file := g_in g1, b_fill_buffer := True, b_ch_buf := ch\<rparr>"
    obtain ch where ch: "yy_filled mem 0 g1 = Inr (EOB_ACT_END_OF_FILE,
          store_buffer p (?b ch) (g1\<lparr>g_c_buf_p := 0, g_hold_char := NUL, g_n_chars := 0, g_text := 0\<rparr>))"
        "length ch = length (b_ch_buf b1)" "eob_marked ch 0"
      using yy_filled_end [OF c(1), of mem] 3 assms(12) c(2) by auto
    have b: "stream_left (g_files g1) (?b ch) = []" "\<not> unreadable (g_files g1) (?b ch)" "w = []"
      using drained w 3 assms(3,10,11) c(3,4) by (auto simp: stream_left_def unreadable_def)
    have e: "yy_filled mem (int m) g1 = Inr (EOB_ACT_END_OF_FILE,
          store_buffer p (?b ch) (g1\<lparr>g_c_buf_p := 0, g_hold_char := NUL, g_n_chars := 0, g_text := 0\<rparr>))"
      using 3 ch(1) by simp
    from b have "scanning (store_buffer p (?b ch) (g1\<lparr>g_c_buf_p := 0, g_hold_char := NUL, g_n_chars := 0, g_text := 0\<rparr>)) p (?b ch) 0 w"
      using c ch(2,3) d(7) assms(3,11-14,16) by (intro scanning_storeI block_ok_readI [of _ _ f]) (simp_all add: buf_simps)
    then show ?thesis
      unfolding e b(3) using fr sl(2) b assms(4,5)
      by (intro refills_end [where b' = "?b ch"]; simp add: buf_simps)
  qed
qed

lemma yy_get_next_stream:
  assumes "scanning g p b t w" "b_fill_buffer b" "g_text g = t" "g_c_buf_p g = g_n_chars g + 1"
    "b_buffer_status b \<noteq> YY_BUFFER_NEW"
  shows "refills p g b t w (yy_get_next_buffer mem g)"
proof -
  note d = scanningD [OF assms(1)]
  obtain f where f: "b_input_file b = Some f" "g_in g = Some f" "f < length (g_files g)" "b_is_our_buffer b"
      "b_buf_size b < 2 ^ 33" "g_n_chars g < b_buf_size b" using assms(1,2) by (rule scanning_fillD)
  define m where "m = g_n_chars g - t"
  note amount = scanning_amount [OF assms(1), folded m_def]
  have m: "t + m \<le> length (b_ch_buf b)" "t + m = g_n_chars g" "m < b_buf_size b" using d(2-4) f(6) by (simp_all add: m_def)
  obtain ch where ch: "block_move (b_ch_buf b) 0 t m = Inr ch" "length ch = length (b_ch_buf b)"
      "take m ch = take m (drop t (b_ch_buf b))" using m(1) by (rule block_move_front)
  have u: "take m ch = drop t (take (g_n_chars g) (b_ch_buf b))" using ch(3) m(2) by (simp add: take_drop add.commute)
  let ?b = "b\<lparr>b_ch_buf := ch\<rparr>"
  have next_buffer: "yy_get_next_buffer mem g = chain (yy_fill mem (int m) p ?b g) (yy_filled mem (int m))"
    using d(1) assms(2-4) amount(1) ch(1) by (simp add: yy_get_next_buffer_def Let_def)
  have pre: "m < b_buf_size ?b" "m < 2 ^ 31" "b_buf_size ?b < 2 ^ 33" "b_is_our_buffer ?b"
      "length (b_ch_buf ?b) = b_buf_size ?b + 2" "b_fill_buffer ?b" "b_input_file ?b = Some f"
    using m(3) amount(2) f(1,4,5) ch(2) d(2) assms(2) by simp_all
  show ?thesis
  proof (cases "unreadable (g_files g) b")
    case True
    then have z: "g_n_chars g = 0" "b_buffer_status b \<noteq> YY_BUFFER_EOF_PENDING" "g_files g ! f = Directory"
      using assms(1) f(1) by (auto simp: scanning_def block_ok_def unreadable_def)
    then have "yy_fill mem (int m) p ?b g = Inl (Lex_Fatal ''input in flex scanner failed'')"
      using True yy_fill_unreadable [OF pre(1-5,7) f(2,3)] by (simp add: buf_simps)
    moreover have "w = []" using d(6) z f(1) by (simp add: stream_left_def node_text_def)
    ultimately show ?thesis using True by (simp add: next_buffer refills_def)
  next
    case False
    have r: "\<not> unreadable (g_files g) ?b" using False by (simp add: buf_simps)
    have pending: "b_buffer_status ?b = YY_BUFFER_EOF_PENDING \<Longrightarrow> node_text (g_files g ! f) = []"
      using assms(1) f(1) by (simp add: scanning_def block_ok_def)
    obtain b1 node bytes where b1: "yy_fill mem (int m) p ?b g =
          Inr (store_buffer p b1 (g\<lparr>g_files := (g_files g)[f := node], g_n_chars := length bytes\<rparr>))"
        "stream_left (g_files g) ?b = bytes @ stream_left ((g_files g)[f := node]) b1" "bytes = [] \<longrightarrow> node_text node = []"
        "node \<noteq> Directory" "length (b_ch_buf b1) = b_buf_size b1 + 2" "m + length bytes < b_buf_size b1" "b_buf_size b1 < 2 ^ 33"
        "take (m + length bytes) (b_ch_buf b1) = take m (b_ch_buf ?b) @ bytes" "same_line ?b b1"
        "b_is_our_buffer b1" "b_input_file b1 = Some f" "b_buffer_status b1 = b_buffer_status ?b"
      using yy_fill_ok [OF pre f(2,3) r pending] by blast
    have "refills p g b t w (yy_filled mem (int m) (store_buffer p b1 (g\<lparr>g_files := (g_files g)[f := node], g_n_chars := length bytes\<rparr>)))"
      using b1(2-12) u by (intro refills_read [OF assms(1) f(2,3) False assms(2,5) m_def, of bytes b1 node])
        (simp_all add: buf_simps same_line_def)
    then show ?thesis by (simp add: next_buffer b1(1))
  qed
qed

end
