(* ===== verification/Scanner_Tokens.thy ===== *)
theory Scanner_Tokens
  imports Scanner_Refill
begin

text \<open>
  One token: whatever the size of the block and wherever its text ends, the jumps between
  matching, refilling and backing up find the longest match of the sequence of unread
  characters, and its text is in the block.
\<close>

section \<open>The byte behind a token\<close>

lemma eob_marked_bounds: "eob_marked ch n \<Longrightarrow> i \<le> n + 1 \<Longrightarrow> i < length ch"
  by (simp add: eob_marked_def)

lemma YY_DO_BEFORE_ACTION_ok:
  assumes "current_buffer g = Inr (p, b)" "cp < length (b_ch_buf b)"
  shows "YY_DO_BEFORE_ACTION bp cp g = Inr (store_buffer p (b\<lparr>b_ch_buf := (b_ch_buf b)[cp := NUL]\<rparr>)
    (g\<lparr>g_text := bp, g_leng := cp - bp, g_hold_char := b_ch_buf b ! cp, g_c_buf_p := cp\<rparr>))"
  using assms by (simp add: YY_DO_BEFORE_ACTION_def peek_def poke_def)

lemma store_current: "current_buffer g = Inr (p, b) \<Longrightarrow> store_buffer p b g = g"
  by (simp add: current_buffer_iff store_buffer_def list_update_same_conv)

lemma restore_hold_char_ok:
  assumes "current_buffer g = Inr (p, b)" "cp < length (b_ch_buf b)"
  shows "restore_hold_char cp g = Inr (store_buffer p (b\<lparr>b_ch_buf := (b_ch_buf b)[cp := g_hold_char g]\<rparr>) g)"
  using assms by (simp add: restore_hold_char_def poke_def)

text \<open>Putting the byte back undoes what was done before the action.\<close>

lemma restore_after:
  assumes "current_buffer g = Inr (p, b)" "cp < length (b_ch_buf b)"
  shows "chain (YY_DO_BEFORE_ACTION bp cp g) (restore_hold_char cp) =
    Inr (g\<lparr>g_text := bp, g_leng := cp - bp, g_hold_char := b_ch_buf b ! cp, g_c_buf_p := cp\<rparr>)"
proof -
  let ?g = "g\<lparr>g_text := bp, g_leng := cp - bp, g_hold_char := b_ch_buf b ! cp, g_c_buf_p := cp\<rparr>"
  have c: "current_buffer ?g = Inr (p, b)" using assms(1) by (simp add: buf_simps)
  have "restore_hold_char cp (store_buffer p (b\<lparr>b_ch_buf := (b_ch_buf b)[cp := NUL]\<rparr>) ?g) = Inr (store_buffer p b ?g)"
    using restore_hold_char_ok [OF current_buffer_store [OF c], of cp "b\<lparr>b_ch_buf := (b_ch_buf b)[cp := NUL]\<rparr>"] assms(2)
    by (simp add: buf_simps list_update_same_conv)
  then show ?thesis using YY_DO_BEFORE_ACTION_ok [OF assms] store_current [OF c] by simp
qed

lemma scanning_update [buf_simps]:
  "scanning (g\<lparr>g_text := x1\<rparr>) p b t w = scanning g p b t w" "scanning (g\<lparr>g_leng := x2\<rparr>) p b t w = scanning g p b t w"
  "scanning (g\<lparr>g_hold_char := x3\<rparr>) p b t w = scanning g p b t w" "scanning (g\<lparr>g_c_buf_p := x4\<rparr>) p b t w = scanning g p b t w"
  "scanning (set_yy_last l g) p b t w = scanning g p b t w"
  by (simp_all add: scanning_def buf_simps) (simp_all add: set_yy_last_def)

lemma set_yy_last_fields [buf_simps]:
  "g_text (set_yy_last l g) = g_text g" "g_c_buf_p (set_yy_last l g) = g_c_buf_p g" "g_n_chars (set_yy_last l g) = g_n_chars g"
  "g_start (set_yy_last l g) = g_start g" "g_hold_char (set_yy_last l g) = g_hold_char g" "g_files (set_yy_last l g) = g_files g"
  "g_leng (set_yy_last l g) = g_leng g" "g_extra (set_yy_last l g) = g_extra g" "g_in (set_yy_last l g) = g_in g"
  "g_last_accepting_state (set_yy_last l g) = fst l" "g_last_accepting_cpos (set_yy_last l g) = snd l"
  "yy_last (set_yy_last l g) = l"
  by (simp_all add: set_yy_last_def yy_last_def)

section \<open>The first use of a buffer\<close>

lemma adopt_ok:
  assumes "scanning g p b t w"
  shows "\<exists>b'. scanning (adopt_buffer p b g) p b' t w \<and> b_buffer_status b' \<noteq> YY_BUFFER_NEW \<and> same_line b b'
    \<and> b_ch_buf b' = b_ch_buf b \<and> frame p g (adopt_buffer p b g) \<and> g_n_chars (adopt_buffer p b g) = g_n_chars g
    \<and> g_text (adopt_buffer p b g) = g_text g \<and> g_c_buf_p (adopt_buffer p b g) = g_c_buf_p g
    \<and> g_hold_char (adopt_buffer p b g) = g_hold_char g \<and> g_start (adopt_buffer p b g) = g_start g
    \<and> g_files (adopt_buffer p b g) = g_files g \<and> stream_left (g_files g) b' = stream_left (g_files g) b
    \<and> unreadable (g_files g) b' = unreadable (g_files g) b"
proof (cases "b_buffer_status b = YY_BUFFER_NEW")
  case True
  let ?b = "b\<lparr>b_input_file := g_in g, b_buffer_status := YY_BUFFER_NORMAL\<rparr>"
  have "b_n_chars b = g_n_chars g" "g_in g = b_input_file b" using assms True by (simp_all add: scanning_def block_ok_def)
  then have a: "adopt_buffer p b g = store_buffer p ?b (g\<lparr>g_n_chars := g_n_chars g\<rparr>)" using True by (simp add: adopt_buffer_def)
  have l: "stream_left (g_files g) ?b = stream_left (g_files g) b" "unreadable (g_files g) ?b = unreadable (g_files g) b"
    using \<open>g_in g = b_input_file b\<close> True by (simp_all add: stream_left_def unreadable_def)
  have "scanning (adopt_buffer p b g) p ?b t w"
    using assms True l \<open>g_in g = b_input_file b\<close> unfolding a
    by (intro scanning_storeI) (auto simp: scanning_def block_ok_def)
  then show ?thesis using l by (intro exI [of _ ?b]) (simp add: a buf_simps same_line_def)
next
  case False
  then show ?thesis using assms by (intro exI [of _ b]) (simp add: adopt_buffer_def same_line_def)
qed

section \<open>The end of the buffer\<close>

text \<open>The first NUL from a position on: one of the text, or the first end-of-buffer character.\<close>

lemma first_NUL:
  assumes "eob_marked ch n" "cp \<le> n"
  obtains xs z zs where "drop cp ch = xs @ NUL # z # zs" "NUL \<notin> set xs" "cp + length xs \<le> n"
proof -
  have n: "n < length ch" "Suc n < length ch" "ch ! n = NUL" using assms(1) by (simp_all add: eob_marked_def)
  have e: "drop cp ch ! (n - cp) = NUL" "n - cp < length (drop cp ch)" using n assms(2) by simp_all
  then have "NUL \<in> set (drop cp ch)" by (metis nth_mem)
  then obtain xs ys where xs: "drop cp ch = xs @ NUL # ys" "NUL \<notin> set xs" by (auto dest: split_list_first)
  have le: "length xs \<le> n - cp"
  proof (rule ccontr)
    assume "\<not> length xs \<le> n - cp"
    then have "n - cp < length xs" by simp
    then have "xs ! (n - cp) = NUL" using e(1) xs(1) by (simp add: nth_append)
    then show False using xs(2) \<open>n - cp < length xs\<close> nth_mem by fastforce
  qed
  have "length ch - cp = length xs + 1 + length ys" using arg_cong [OF xs(1), of length] by simp
  then have "ys \<noteq> []" using le n(2) assms(2) by auto
  then obtain z zs where "ys = z # zs" by (cases ys) auto
  then show ?thesis using that [of xs z zs] xs le assms(2) by simp
qed

lemma take_drop_split:
  assumes "drop cp ch = xs @ ys" "t \<le> cp" "cp \<le> length ch"
  shows "take (cp + length xs - t) (drop t ch) = take (cp - t) (drop t ch) @ xs"
proof -
  have "drop t ch = take (cp - t) (drop t ch) @ drop cp ch"
    using assms(2) by (metis append_take_drop_id drop_drop le_add_diff_inverse2)
  then have "take (cp + length xs - t) (drop t ch) = take (cp + length xs - t) (take (cp - t) (drop t ch) @ xs @ ys)"
    using assms(1) by simp
  also have "\<dots> = take (cp - t) (drop t ch) @ xs" using assms by simp
  finally show ?thesis .
qed

section \<open>The text of a token\<close>

text \<open>While the action of a rule runs, the byte behind its text is a NUL.\<close>

definition held :: "struct_yyguts_t \<Rightarrow> nat \<Rightarrow> struct_yy_buffer_state \<Rightarrow> nat \<Rightarrow> nat \<Rightarrow> string \<Rightarrow> bool" where
  "held g p b t k w \<longleftrightarrow>
     current_buffer g = Inr (p, b\<lparr>b_ch_buf := (b_ch_buf b)[t + k := NUL]\<rparr>) \<and> g_in g = b_input_file b
     \<and> block_ok (g_files g) b (g_n_chars g) t w \<and> g_text g = t \<and> g_leng g = k \<and> g_hold_char g = b_ch_buf b ! (t + k)
     \<and> g_c_buf_p g = t + k \<and> t + k \<le> g_n_chars g \<and> k \<le> length w"

lemma scanning_length: "scanning g p b t w \<Longrightarrow> length w = g_n_chars g - t + length (stream_left (g_files g) b)"
proof -
  assume s: "scanning g p b t w"
  have "g_n_chars g < length (b_ch_buf b)" using scanningD(2,4) [OF s] by simp
  then show ?thesis using scanningD(6) [OF s] by simp
qed

lemma scanning_prefix:
  assumes "scanning g p b t w" "t \<le> i" "i \<le> g_n_chars g"
  shows "\<exists>ys. w = take (i - t) (drop t (b_ch_buf b)) @ ys"
proof -
  have "drop t (take (g_n_chars g) (b_ch_buf b)) = take (g_n_chars g - t) (drop t (b_ch_buf b))" by (simp add: drop_take)
  also have "\<dots> = take (i - t) (drop t (b_ch_buf b)) @ drop (i - t) (take (g_n_chars g - t) (drop t (b_ch_buf b)))"
    using assms(2,3) by (metis append_take_drop_id min.absorb1 diff_le_mono take_take)
  finally show ?thesis using scanningD(6) [OF assms(1)] by (metis append.assoc)
qed

lemma find_token:
  assumes "scanning g p b t w" "yy_accept ! q \<noteq> 0" "yy_accept ! q \<noteq> 43" "t + k \<le> g_n_chars g"
  shows "\<exists>g'. yy_jumps mem (At_Find_Action t q (t + k)) g = Some (Inr (At_Action t (yy_accept ! q), g'))
    \<and> frame p g g' \<and> held g' p b t k w"
proof -
  note d = scanningD [OF assms(1)]
  have len: "t + k < length (b_ch_buf b)" using d(2,4) assms(4) by simp
  let ?g = "store_buffer p (b\<lparr>b_ch_buf := (b_ch_buf b)[t + k := NUL]\<rparr>)
    (g\<lparr>g_text := t, g_leng := k, g_hold_char := b_ch_buf b ! (t + k), g_c_buf_p := t + k\<rparr>)"
  have "yy_jumps mem (At_Find_Action t q (t + k)) g = yy_jumps mem (At_Action t (yy_accept ! q)) ?g"
    using YY_DO_BEFORE_ACTION_ok [OF d(1) len, of t] assms(2,3)
    by (subst yy_jumps.simps) (simp add: yy_jump_def yy_find_action_def)
  then have "yy_jumps mem (At_Find_Action t q (t + k)) g = Some (Inr (At_Action t (yy_accept ! q), ?g))"
    by (simp add: yy_jumps.simps)
  moreover have "held ?g p b t k w"
    using assms(1,4) d(1) scanning_length [OF assms(1)] by (simp add: held_def buf_simps scanning_def)
  ultimately show ?thesis by (intro exI [of _ ?g]) (simp add: buf_simps)
qed

lemma scanning_readable: "scanning g p b t w \<Longrightarrow> w \<noteq> [] \<Longrightarrow> \<not> unreadable (g_files g) b"
  by (auto simp: scanning_def block_ok_def stream_left_def unreadable_def node_text_def)

section \<open>Jumps\<close>

text \<open>
  What the jumps of a token come to: the longest match of the unread characters; or the end of
  the input; or a directory.
\<close>

definition token_outcome ::
    "nat \<Rightarrow> struct_yyguts_t \<Rightarrow> struct_yy_buffer_state \<Rightarrow> nat \<Rightarrow> string \<Rightarrow> (lex_result + yy_label \<times> struct_yyguts_t) option \<Rightarrow> bool" where
  "token_outcome p g b s0 w r \<longleftrightarrow>
     (if w = []
      then (if unreadable (g_files g) b then r = Some (Inl (Lex_Fatal ''input in flex scanner failed''))
            else \<exists>g' b'. r = Some (Inr (At_End_Of_File, g')) \<and> frame p g g' \<and> scanning g' p b' (g_c_buf_p g') []
              \<and> g_hold_char g' = NUL \<and> \<not> unreadable (g_files g') b' \<and> b_bs_lineno b' = b_bs_lineno b)
      else \<exists>q k t' g' b'. yy_match s0 w 0 None = Some (Some (q, k)) \<and> r = Some (Inr (At_Action t' (yy_accept ! q), g'))
              \<and> frame p g g' \<and> held g' p b' t' k w \<and> same_line b b')"

lemma same_line_trans: "same_line a b \<Longrightarrow> same_line b c \<Longrightarrow> same_line a c"
  by (simp add: same_line_def)

lemma token_outcome_trans:
  assumes "token_outcome p g1 b1 s0 w r" "frame p g g1" "same_line b b1"
    "w = [] \<Longrightarrow> unreadable (g_files g1) b1 = unreadable (g_files g) b"
  shows "token_outcome p g b s0 w r"
proof (cases "w = []")
  case True
  then show ?thesis
    using assms frame_trans by (auto simp: token_outcome_def same_line_def split: if_splits)
next
  case False
  then obtain q k t' g' b' where "yy_match s0 w 0 None = Some (Some (q, k))" "r = Some (Inr (At_Action t' (yy_accept ! q), g'))"
      "frame p g1 g'" "held g' p b' t' k w" "same_line b1 b'"
    using assms(1) by (auto simp: token_outcome_def)
  then show ?thesis
    using False frame_trans [OF assms(2)] same_line_trans [OF assms(3)] by (auto simp: token_outcome_def)
qed

text \<open>Jumping to the end of the buffer leaves the block as it was.\<close>

lemma eob_step:
  assumes "scanning g p b t w" "t \<le> i" "i \<le> g_n_chars g" "b_ch_buf b ! i = NUL"
  shows "\<exists>g' b'. yy_find_action mem t 9 (Suc i) g =
      (if i < g_n_chars g then yy_found_NUL i g' else chain (yy_get_next_buffer mem g') (yy_refilled (int (i - t))))
    \<and> scanning g' p b' t w \<and> b_buffer_status b' \<noteq> YY_BUFFER_NEW \<and> same_line b b' \<and> b_ch_buf b' = b_ch_buf b
    \<and> frame p g g' \<and> g_n_chars g' = g_n_chars g \<and> g_text g' = t \<and> g_c_buf_p g' = Suc i
    \<and> g_hold_char g' = b_ch_buf b ! Suc i \<and> stream_left (g_files g') b' = stream_left (g_files g) b
    \<and> unreadable (g_files g') b' = unreadable (g_files g) b"
proof -
  note d = scanningD [OF assms(1)]
  have len: "Suc i < length (b_ch_buf b)" using d(2,4) assms(3) by simp
  let ?g1 = "g\<lparr>g_text := t, g_leng := Suc i - t, g_hold_char := b_ch_buf b ! Suc i, g_c_buf_p := Suc i\<rparr>"
  have s1: "scanning ?g1 p b t w" "current_buffer ?g1 = Inr (p, b)" using assms(1) d(1) by (simp_all add: buf_simps)
  have amount: "to_int32 (1 + int i - int t) - 1 = int (i - t)"
    using assms(2,3) scanning_amount(3) [OF assms(1)] d(7) by (simp add: to_int32_def)
  obtain b' where b': "scanning (adopt_buffer p b ?g1) p b' t w" "b_buffer_status b' \<noteq> YY_BUFFER_NEW" "same_line b b'"
      "b_ch_buf b' = b_ch_buf b" "frame p ?g1 (adopt_buffer p b ?g1)" "g_n_chars (adopt_buffer p b ?g1) = g_n_chars g"
      "g_text (adopt_buffer p b ?g1) = t" "g_c_buf_p (adopt_buffer p b ?g1) = Suc i"
      "g_hold_char (adopt_buffer p b ?g1) = b_ch_buf b ! Suc i" "g_files (adopt_buffer p b ?g1) = g_files g"
      "stream_left (g_files g) b' = stream_left (g_files g) b" "unreadable (g_files g) b' = unreadable (g_files g) b"
    using adopt_ok [OF s1(1)] by auto
  have r: "restore_hold_char (Suc i) (store_buffer p (b\<lparr>b_ch_buf := (b_ch_buf b)[Suc i := NUL]\<rparr>) ?g1) = Inr ?g1"
    using restore_after [OF d(1) len, of t] YY_DO_BEFORE_ACTION_ok [OF d(1) len, of t] by simp
  have "yy_find_action mem t 9 (Suc i) g =
      (if i < g_n_chars g then yy_found_NUL i (adopt_buffer p b ?g1)
       else chain (yy_get_next_buffer mem (adopt_buffer p b ?g1)) (yy_refilled (int (i - t))))"
    using YY_DO_BEFORE_ACTION_ok [OF d(1) len, of t] r s1(2) amount b'(6-8) assms(2)
    by (simp add: yy_find_action_def yy_end_of_buffer_def Let_def buf_simps Suc_le_eq)
  moreover have "frame p g (adopt_buffer p b ?g1)"
    using b'(5) by (rule frame_trans [rotated]) (simp add: buf_simps)
  ultimately show ?thesis
    using b' by (intro exI [of _ "adopt_buffer p b ?g1"] exI [of _ b']) simp
qed

text \<open>A run from the first state of a token over unread characters.\<close>

definition reached :: "struct_yyguts_t \<Rightarrow> struct_yy_buffer_state \<Rightarrow> nat \<Rightarrow> nat \<Rightarrow> nat \<Rightarrow> nat \<Rightarrow> (nat \<times> nat) option \<Rightarrow> bool" where
  "reached g b t cp s0 s l \<longleftrightarrow> t \<le> cp \<and> cp \<le> g_n_chars g \<and> s0 = yy_first_state g b \<and> 1 \<le> s0 \<and> s0 \<le> 8
     \<and> yy_reach s0 (take (cp - t) (drop t (b_ch_buf b))) 0 None = Some (s, l)"

lemma reached_cong:
  "g_n_chars g' = g_n_chars g \<Longrightarrow> g_start g' = g_start g \<Longrightarrow> b_at_bol b' = b_at_bol b \<Longrightarrow> b_ch_buf b' = b_ch_buf b
   \<Longrightarrow> reached g' b' = reached g b"
  by (simp only: reached_def yy_first_state_def fun_eq_iff) simp

lemma reached_good: "reached g b t cp s0 s l \<Longrightarrow> good_state s0 \<and> good_state s"
proof -
  assume r: "reached g b t cp s0 s l"
  then have "good_state s0" by (auto simp: reached_def good_state_def)
  then show ?thesis using r yy_reach_good by (auto simp: reached_def)
qed

text \<open>The longest match, once it is known: a token that is in the block.\<close>

lemma match_in_block:
  assumes "scanning g p b t w" "1 \<le> s0" "s0 \<le> 8" "yy_match s0 w 0 None = Some l" "w \<noteq> []"
  obtains q k where "l = Some (q, k)" "yy_accept ! q \<noteq> 0" "yy_accept ! q \<noteq> 43"
proof -
  obtain q k where q: "yy_match s0 w 0 None = Some (Some (q, k))" "good_state q" "yy_accept ! q \<noteq> 0"
    using yy_match_start [OF assms(2,3,5)] by metis
  then have "yy_accept ! q \<le> 42" using yy_accept_rule [of q] by (simp add: good_state_def)
  then show ?thesis using that q assms(4) by simp
qed

lemma match_length:
  assumes "good_state s0" "yy_match s0 xs 0 None = Some (Some (q, k))"
  shows "k \<le> length xs"
  using yy_match_cases [OF assms(1), of xs 0 None] assms(2) by (auto simp: acc_ok_def)

lemma previous_reached:
  assumes "scanning g p b t w" "g_text g = t" "g_c_buf_p g = cp" "reached g b t cp s0 s l"
  shows "\<exists>L. yy_get_previous_state g = Inr (s, set_yy_last L g) \<and> last_rel t l L"
proof -
  note d = scanningD [OF assms(1)]
  let ?xs = "take (cp - t) (drop t (b_ch_buf b))"
  have r: "t \<le> cp" "cp \<le> g_n_chars g" "s0 = yy_first_state g b" "yy_reach s0 ?xs 0 None = Some (s, l)"
    using assms(4) unfolding reached_def by blast+
  have len: "length ?xs = cp - t" using d(2,4) r(1,2) by simp
  obtain L where "yy_previous (b_ch_buf b) (cp - t) t s0 (yy_last g) = Inr (s, L)" "last_rel t l L"
    using yy_previous_reach [OF r(4), of t "b_ch_buf b" "yy_last g"] len by auto
  then show ?thesis using d(1) assms(2,3) r(3) by (intro exI [of _ L]) (simp add: yy_get_previous_state_def)
qed

text \<open>A NUL of the text: the run goes on over it, or it ends the token.\<close>

lemma found_NUL_ok:
  assumes "scanning g p b t w" "g_text g = t" "reached g b t i s0 s l" "i < g_n_chars g" "b_ch_buf b ! i = NUL"
  shows "\<exists>g'. frame p g g' \<and> scanning g' p b t w \<and> g_n_chars g' = g_n_chars g \<and> g_files g' = g_files g
    \<and> ((\<exists>q k. yy_found_NUL i g = Inr (At_Find_Action t q (t + k), g') \<and> yy_match s0 w 0 None = Some (Some (q, k))
           \<and> t + k \<le> g_n_chars g)
     \<or> (\<exists>u l1. yy_found_NUL i g = Inr (At_Match t u (Suc i), g') \<and> reached g' b t (Suc i) s0 u l1 \<and> last_rel t l1 (yy_last g')))"
proof -
  let ?g = "g\<lparr>g_c_buf_p := i\<rparr>"
  have r: "t \<le> i" "1 \<le> s0" "s0 \<le> 8" "yy_reach s0 (take (i - t) (drop t (b_ch_buf b))) 0 None = Some (s, l)"
      "s0 = yy_first_state g b" using assms(3) unfolding reached_def by blast+
  have g: "scanning ?g p b t w" "g_text ?g = t" "reached ?g b t i s0 s l"
    using assms(1-3) reached_cong [of ?g g b b] by (simp_all add: buf_simps)
  obtain L where L: "yy_get_previous_state ?g = Inr (s, set_yy_last L ?g)" "last_rel t l L"
    using previous_reached [OF g(1,2) _ g(3)] by auto
  define l1 where "l1 = (if yy_accept ! s \<noteq> 0 then Some (s, i - t) else l)"
  define L1 where "L1 = (if yy_accept ! s \<noteq> 0 then (s, i) else L)"
  have l1: "last_rel t l1 L1" using L(2) r(1) by (simp add: l1_def L1_def)
  let ?g1 = "set_yy_last L1 ?g"
  obtain u where u: "yy_trans s (yy_class NUL) = Some u" "u = YY_JAM \<or> good_state u"
    using yy_trans_good reached_good [OF assms(3)] by blast
  have step: "yy_found_NUL i g = (if u = YY_JAM then Inr (At_Find_Action t (fst L1) (snd L1), ?g1)
      else Inr (At_Match t u (Suc i), ?g1\<lparr>g_c_buf_p := Suc i\<rparr>))"
    using L(1) u(1) assms(2) unfolding yy_found_NUL_def L1_def yy_try_NUL_trans_def
    by (simp add: yy_class_def buf_simps) (simp add: set_yy_last_def)
  have len: "Suc i < length (b_ch_buf b)" using scanningD(2,4) [OF assms(1)] assms(4) by simp
  have xs: "take (Suc i - t) (drop t (b_ch_buf b)) = take (i - t) (drop t (b_ch_buf b)) @ [NUL]"
    using len r(1) assms(5) by (simp add: Suc_diff_le take_Suc_conv_app_nth)
  obtain ys where ys: "w = (take (i - t) (drop t (b_ch_buf b)) @ [NUL]) @ ys"
    using scanning_prefix [OF assms(1), of "Suc i"] r(1) assms(4) xs by auto
  have m: "length (take (i - t) (drop t (b_ch_buf b))) = i - t" using len r(1) by simp
  have f: "frame p g ?g1" "scanning ?g1 p b t w" using g(1) by (simp_all add: buf_simps)
  show ?thesis
  proof (cases "u = YY_JAM")
    case True
    have e: "yy_match s0 w 0 None = Some l1" "yy_match s0 (take (i - t) (drop t (b_ch_buf b)) @ [NUL]) 0 None = Some l1"
      using yy_reach_match [OF r(4), of "NUL # ys"] yy_reach_match [OF r(4), of "[NUL]"] u(1) True m by (simp_all add: ys l1_def)
    have "w \<noteq> []" using ys by simp
    with assms(1) r(2,3) e(1) obtain q k where q: "l1 = Some (q, k)" by (rule match_in_block)
    have "k \<le> Suc (i - t)" using match_length [of s0 _ q k] reached_good [OF assms(3)] e(2) q m by fastforce
    then show ?thesis using True step l1 q e(1) f r(1) assms(4) by (intro exI [of _ ?g1]) (simp add: buf_simps)
  next
    case False
    have "yy_reach s0 (take (Suc i - t) (drop t (b_ch_buf b))) 0 None = Some (u, l1)"
      using yy_reach_append [OF r(4), of "[NUL]"] u(1) False m by (simp add: xs l1_def)
    then have e: "reached (?g1\<lparr>g_c_buf_p := Suc i\<rparr>) b t (Suc i) s0 u l1"
      using r assms(4) by (simp add: reached_def buf_simps yy_first_state_def)
    have "yy_last (?g1\<lparr>g_c_buf_p := Suc i\<rparr>) = L1" by (simp add: yy_last_def set_yy_last_def)
    then have e': "last_rel t l1 (yy_last (?g1\<lparr>g_c_buf_p := Suc i\<rparr>))" using l1 by simp
    show ?thesis
      by (rule exI [of _ "?g1\<lparr>g_c_buf_p := Suc i\<rparr>"], intro conjI disjI2 exI [of _ u] exI [of _ l1])
        (use False step f e e' in \<open>simp_all add: buf_simps\<close>)
  qed
qed

lemma frame_start: "frame p g g' \<Longrightarrow> g_start g' = g_start g"
  by (simp add: frame_def)

lemma same_first_state: "frame p g g' \<Longrightarrow> b_at_bol b' = b_at_bol b \<Longrightarrow> yy_first_state g' b' = yy_first_state g b"
  by (simp add: frame_def yy_first_state_def)

text \<open>After refilling, the run is where it was, over the characters at their new place.\<close>

lemma reached_again:
  assumes "scanning g p b t w" "reached g b t cp s0 s l" "scanning g' p b' t' w" "frame p g g'" "b_at_bol b' = b_at_bol b"
    "t' + (cp - t) \<le> g_n_chars g'"
  shows "reached g' b' t' (t' + (cp - t)) s0 s l"
proof -
  have r: "t \<le> cp" "cp \<le> g_n_chars g" "1 \<le> s0" "s0 \<le> 8" "yy_reach s0 (take (cp - t) (drop t (b_ch_buf b))) 0 None = Some (s, l)"
      "s0 = yy_first_state g b" using assms(2) unfolding reached_def by blast+
  have n: "g_n_chars g < length (b_ch_buf b)" "g_n_chars g' < length (b_ch_buf b')"
    using scanningD(2,4) [OF assms(1)] scanningD(2,4) [OF assms(3)] by simp_all
  obtain ys where ys: "w = take (cp - t) (drop t (b_ch_buf b)) @ ys" using scanning_prefix [OF assms(1) r(1,2)] by blast
  obtain ys' where "w = take (cp - t) (drop t' (b_ch_buf b')) @ ys'"
    using scanning_prefix [OF assms(3), of "t' + (cp - t)"] assms(6) by auto
  with ys have "take (cp - t) (drop t' (b_ch_buf b')) = take (cp - t) (drop t (b_ch_buf b))"
    using n r(1,2) assms(6) by (auto simp: append_eq_append_conv)
  then show ?thesis
    using r same_first_state [OF assms(4,5)] assms(6) by (simp add: reached_def)
qed

lemma token_at_end:
  assumes "refills p g b t w (Inr (EOB_ACT_END_OF_FILE, g'))"
  shows "token_outcome p g b s0 w (case yy_refilled amount (EOB_ACT_END_OF_FILE, g') of Inl e \<Rightarrow> Some (Inl e) | Inr (j, h) \<Rightarrow> yy_jumps mem j h)"
proof -
  obtain b' where b': "\<not> unreadable (g_files g) b" "frame p g g'" "scanning g' p b' (g_text g') []" "\<not> unreadable (g_files g') b'"
      "b_bs_lineno b' = b_bs_lineno b" "g_hold_char g' = NUL" "w = []"
    using assms by (auto simp: refills_def)
  then show ?thesis
    by (auto simp: token_outcome_def yy_refilled_def yy_jumps.simps buf_simps intro!: exI [of _ b'])
qed

text \<open>The end of the stream behind a text that goes on to it: the token ends there, or it backs up.\<close>

lemma token_last_match:
  assumes "scanning g p b t w" "reached g b t (g_n_chars g) s0 s l" "refills p g b t w (Inr (EOB_ACT_LAST_MATCH, g'))"
  shows "token_outcome p g b s0 w (case yy_refilled amount (EOB_ACT_LAST_MATCH, g') of Inl e \<Rightarrow> Some (Inl e) | Inr (j, h) \<Rightarrow> yy_jumps mem j h)"
proof -
  obtain b' where b': "frame p g g'" "scanning g' p b' (g_text g') w" "same_line b b'" "w \<noteq> []" "stream_left (g_files g) b = []"
      "stream_left (g_files g') b' = []"
    using assms(3) by (auto simp: refills_def same_line_def)
  let ?t = "g_text g'" and ?g = "g'\<lparr>g_c_buf_p := g_n_chars g'\<rparr>" and ?m = "g_n_chars g - t"
  have m: "length w = ?m" "length w = g_n_chars g' - ?t" "?t \<le> g_n_chars g'"
    using scanning_length [OF assms(1)] scanning_length [OF b'(2)] b'(5,6) scanningD(3) [OF b'(2)] by simp_all
  have s: "scanning ?g p b' ?t w" "frame p g ?g" using b'(1,2) by (simp_all add: buf_simps)
  have "reached ?g b' ?t (?t + ?m) s0 s l"
    using reached_again [OF assms(1,2) s(1,2)] b'(3) m by (simp add: same_line_def)
  moreover have "?t + ?m = g_n_chars g'" using m by simp
  ultimately have r: "reached ?g b' ?t (g_n_chars g') s0 s l" by simp
  obtain L where L: "yy_get_previous_state ?g = Inr (s, set_yy_last L ?g)" "last_rel ?t l L"
    using previous_reached [OF s(1) _ _ r] by auto
  let ?h = "set_yy_last L ?g"
  have j: "yy_refilled amount (EOB_ACT_LAST_MATCH, g') = Inr (At_Find_Action ?t s (?t + ?m), ?h)"
    using L(1) m by (simp add: yy_refilled_def buf_simps)
  have h: "scanning ?h p b' ?t w" "frame p g ?h" using s by (simp_all add: buf_simps)
  have rr: "1 \<le> s0" "s0 \<le> 8" "yy_reach s0 (take ?m (drop t (b_ch_buf b))) 0 None = Some (s, l)"
    using assms(2) unfolding reached_def by blast+
  have w: "w = take ?m (drop t (b_ch_buf b))" using scanningD(6) [OF assms(1)] b'(5) by (simp add: drop_take)
  then have mt: "yy_match s0 w 0 None = Some (if yy_accept ! s \<noteq> 0 then Some (s, ?m) else l)"
    using yy_reach_match [OF rr(3), of "[]"] m(1) by simp
  obtain q k where q: "(if yy_accept ! s \<noteq> 0 then Some (s, ?m) else l) = Some (q, k)" "yy_accept ! q \<noteq> 0" "yy_accept ! q \<noteq> 43"
    using assms(1) rr(1,2) mt b'(4) by (rule match_in_block)
  have "k \<le> length w" using match_length [of s0 w q k] reached_good [OF assms(2)] mt q(1) by simp
  then have k: "?t + k \<le> g_n_chars ?h" using m by (simp add: buf_simps)
  obtain h' where h': "yy_jumps mem (At_Find_Action ?t q (?t + k)) ?h = Some (Inr (At_Action ?t (yy_accept ! q), h'))"
      "frame p ?h h'" "held h' p b' ?t k w"
    using find_token [OF h(1) q(2,3) k] by blast
  have "yy_jumps mem (At_Find_Action ?t s (?t + ?m)) ?h = yy_jumps mem (At_Find_Action ?t q (?t + k)) ?h"
  proof (cases "yy_accept ! s = 0")
    case True
    then have L': "L = (q, ?t + k)" using L(2) q(1) by simp
    have len: "?t + ?m < length (b_ch_buf b')" using scanningD(2,4) [OF b'(2)] m by simp
    let ?h1 = "?h\<lparr>g_text := ?t, g_leng := ?m, g_hold_char := b_ch_buf b' ! (?t + ?m), g_c_buf_p := ?t + ?m\<rparr>"
    have "yy_jump mem (At_Find_Action ?t s (?t + ?m)) ?h = Inr (At_Find_Action ?t q (?t + k), ?h1)"
      using restore_after [OF scanningD(1) [OF h(1)] len, of ?t] YY_DO_BEFORE_ACTION_ok [OF scanningD(1) [OF h(1)] len, of ?t] True L'
      by (simp add: yy_jump_def yy_find_action_def buf_simps)
    moreover have "yy_jumps mem (At_Find_Action ?t q (?t + k)) ?h1 = yy_jumps mem (At_Find_Action ?t q (?t + k)) ?h"
    proof -
      have len: "?t + k < length (b_ch_buf b')" using scanningD(2,4) [OF b'(2)] k by (simp add: buf_simps)
      have c: "current_buffer ?h1 = Inr (p, b')" "current_buffer ?h = Inr (p, b')" using scanningD(1) [OF h(1)] by (simp_all add: buf_simps)
      have "yy_find_action mem ?t q (?t + k) ?h1 = yy_find_action mem ?t q (?t + k) ?h"
        using YY_DO_BEFORE_ACTION_ok [OF c(1) len, of ?t] YY_DO_BEFORE_ACTION_ok [OF c(2) len, of ?t] by (simp add: yy_find_action_def)
      then show ?thesis by (simp add: yy_jumps.simps [of mem "At_Find_Action ?t q (?t + k)"] yy_jump_def)
    qed
    ultimately show ?thesis by (subst yy_jumps.simps) simp
  qed (use q(1) in simp)
  then show ?thesis
    using h' mt q b'(3,4) frame_trans [OF h(2)] by (auto simp: token_outcome_def j)
qed

section \<open>The longest match\<close>

text \<open>The run jams inside the text of the block.\<close>

lemma token_jam:
  assumes "scanning g p b t w" "reached g b t cp s0 s l" "cp + length xs \<le> g_n_chars g" "drop cp (b_ch_buf b) = xs @ zs" "xs \<noteq> []"
    "\<And>ys. yy_match s (xs @ ys) (cp - t) l = Some l'" "yy_run (xs @ zs) cp s (yy_last g) = Inr L" "last_rel t l' L"
  shows "token_outcome p g b s0 w (yy_jumps mem (At_Match t s cp) g)"
proof -
  note d = scanningD [OF assms(1)]
  have r: "t \<le> cp" "cp \<le> g_n_chars g" "1 \<le> s0" "s0 \<le> 8" "yy_reach s0 (take (cp - t) (drop t (b_ch_buf b))) 0 None = Some (s, l)"
    using assms(2) unfolding reached_def by blast+
  have len: "cp \<le> length (b_ch_buf b)" "length (take (cp - t) (drop t (b_ch_buf b))) = cp - t" using d(2,4) r(1,2) by simp_all
  have pre: "take (cp + length xs - t) (drop t (b_ch_buf b)) = take (cp - t) (drop t (b_ch_buf b)) @ xs"
    by (rule take_drop_split [OF assms(4) r(1) len(1)])
  obtain ys where ys: "w = (take (cp - t) (drop t (b_ch_buf b)) @ xs) @ ys"
    using scanning_prefix [OF assms(1), of "cp + length xs"] r(1) assms(3) pre by auto
  have m: "yy_match s0 w 0 None = Some l'" "yy_match s0 (take (cp - t) (drop t (b_ch_buf b)) @ xs) 0 None = Some l'"
    using yy_reach_match [OF r(5), of "xs @ ys"] yy_reach_match [OF r(5), of xs] assms(6) [of ys] assms(6) [of "[]"] len(2)
    by (simp_all add: ys)
  have w: "w \<noteq> []" using ys assms(5) by simp
  obtain q k where q: "l' = Some (q, k)" "yy_accept ! q \<noteq> 0" "yy_accept ! q \<noteq> 43"
    using assms(1) r(3,4) m(1) w by (rule match_in_block)
  have "yy_match s0 (take (cp - t) (drop t (b_ch_buf b)) @ xs) 0 None = Some (Some (q, k))" using m(2) q(1) by simp
  with conjunct1 [OF reached_good [OF assms(2)]] have "k \<le> length (take (cp - t) (drop t (b_ch_buf b)) @ xs)"
    by (rule match_length)
  then have k: "t + k \<le> g_n_chars (set_yy_last L g)" using len(2) r(1) assms(3) by (simp add: buf_simps)
  have L: "L = (q, t + k)" using assms(8) q(1) by simp
  obtain g' where g': "yy_jumps mem (At_Find_Action t q (t + k)) (set_yy_last L g) = Some (Inr (At_Action t (yy_accept ! q), g'))"
      "frame p (set_yy_last L g) g'" "held g' p b t k w"
    using find_token [OF _ q(2,3) k, of p b w mem] assms(1) by (auto simp: buf_simps)
  have "yy_jumps mem (At_Match t s cp) g = yy_jumps mem (At_Find_Action t q (t + k)) (set_yy_last L g)"
    using d(1) assms(4,7) L by (subst yy_jumps.simps) (simp add: yy_jump_def)
  moreover have "frame p g g'" using g'(2) by (rule frame_trans [rotated]) (simp add: buf_simps)
  ultimately show ?thesis using w m(1) q(1) g'(1,3) by (auto simp: token_outcome_def same_line_def)
qed

lemma yy_jumps_find: "yy_jumps mem (At_Find_Action t s cp) g =
    (case yy_find_action mem t s cp g of Inl e \<Rightarrow> Some (Inl e) | Inr (j, g') \<Rightarrow> yy_jumps mem j g')"
  by (subst yy_jumps.simps) (simp add: yy_jump_def)

text \<open>More was read: the run goes on at the new place of its text.\<close>

lemma token_continue:
  assumes "scanning g p b t w" "reached g b t (g_n_chars g) s0 s l" "refills p g b t w (Inr (EOB_ACT_CONTINUE_SCAN, g'))"
  shows "\<exists>h b' c. yy_refilled (int (g_n_chars g - t)) (EOB_ACT_CONTINUE_SCAN, g') = Inr (At_Match (g_text g') s c, h)
    \<and> scanning h p b' (g_text g') w \<and> frame p g h \<and> same_line b b' \<and> unreadable (g_files h) b' = unreadable (g_files g) b
    \<and> reached h b' (g_text g') c s0 s l \<and> last_rel (g_text g') l (yy_last h)
    \<and> 2 * length (stream_left (g_files h) b') + (g_n_chars h - c) < 2 * length (stream_left (g_files g) b)"
proof -
  let ?m = "g_n_chars g - t"
  obtain b' where b': "frame p g g'" "scanning g' p b' (g_text g') w" "b_at_bol b' = b_at_bol b" "same_line b b'"
      "g_text g' + ?m \<le> g_n_chars g'" "unreadable (g_files g') b' = unreadable (g_files g) b"
      "length (stream_left (g_files g') b') < length (stream_left (g_files g) b)"
    using assms(3) by (auto simp: refills_def same_line_def)
  let ?c = "g_text g' + ?m" and ?h = "g'\<lparr>g_c_buf_p := g_text g' + (g_n_chars g - t)\<rparr>"
  have h: "scanning ?h p b' (g_text g') w" "frame p g ?h" using b'(1,2) by (simp_all add: buf_simps)
  have reh: "reached ?h b' (g_text g') ?c s0 s l"
    using reached_again [OF assms(1,2) h b'(3)] b'(5) by simp
  obtain L where L: "yy_get_previous_state ?h = Inr (s, set_yy_last L ?h)" "last_rel (g_text g') l L"
    using previous_reached [OF h(1) _ _ reh] by auto
  let ?k = "set_yy_last L ?h"
  have k: "scanning ?k p b' (g_text g') w" "frame p g ?k" "reached ?k b' (g_text g') ?c s0 s l" "yy_last ?k = L"
    using h reh reached_cong [of ?k ?h b' b'] by (simp_all add: buf_simps)
  have "yy_refilled (int ?m) (EOB_ACT_CONTINUE_SCAN, g') = Inr (At_Match (g_text g') s ?c, ?k)"
    using L(1) by (simp add: yy_refilled_def buf_simps nat_int_add del: of_nat_diff)
  moreover have "2 * length (stream_left (g_files ?k) b') + (g_n_chars ?k - ?c) < 2 * length (stream_left (g_files g) b)"
    using b'(7) scanning_length [OF assms(1)] scanning_length [OF b'(2)] by (simp add: buf_simps)
  ultimately show ?thesis using k L(2) b'(4,6) by (intro exI [of _ ?k] exI [of _ b'] exI [of _ ?c]) (simp add: buf_simps)
qed

text \<open>A label and a state, or an error, and what the jumps from there come to.\<close>

definition go_on :: "fresh_memory \<Rightarrow> lex_result + yy_label \<times> struct_yyguts_t \<Rightarrow> (lex_result + yy_label \<times> struct_yyguts_t) option" where
  "go_on mem r = (case r of Inl e \<Rightarrow> Some (Inl e) | Inr (j, g) \<Rightarrow> yy_jumps mem j g)"

lemma token_NUL:
  assumes "scanning g p b t w" "g_text g = t" "reached g b t i s0 s l" "i < g_n_chars g" "b_ch_buf b ! i = NUL"
    and goes_on: "\<And>h u l1. scanning h p b t w \<Longrightarrow> reached h b t (Suc i) s0 u l1 \<Longrightarrow> last_rel t l1 (yy_last h)
      \<Longrightarrow> g_n_chars h = g_n_chars g \<Longrightarrow> g_files h = g_files g \<Longrightarrow> token_outcome p h b s0 w (yy_jumps mem (At_Match t u (Suc i)) h)"
  shows "token_outcome p g b s0 w (go_on mem (yy_found_NUL i g))"
proof -
  obtain h where h: "frame p g h" "scanning h p b t w" "g_n_chars h = g_n_chars g" "g_files h = g_files g"
      "(\<exists>q k. yy_found_NUL i g = Inr (At_Find_Action t q (t + k), h) \<and> yy_match s0 w 0 None = Some (Some (q, k))
         \<and> t + k \<le> g_n_chars g)
       \<or> (\<exists>u l1. yy_found_NUL i g = Inr (At_Match t u (Suc i), h) \<and> reached h b t (Suc i) s0 u l1 \<and> last_rel t l1 (yy_last h))"
    using found_NUL_ok [OF assms(1-5)] by blast
  have r: "t \<le> i" "1 \<le> s0" "s0 \<le> 8" using assms(3) by (simp_all add: reached_def)
  have w: "w \<noteq> []" using scanning_length [OF assms(1)] assms(4) r(1) by auto
  consider (ends) q k where "yy_found_NUL i g = Inr (At_Find_Action t q (t + k), h)" "yy_match s0 w 0 None = Some (Some (q, k))"
      "t + k \<le> g_n_chars g"
    | (more) u l1 where "yy_found_NUL i g = Inr (At_Match t u (Suc i), h)" "reached h b t (Suc i) s0 u l1" "last_rel t l1 (yy_last h)"
    using h(5) by blast
  then show ?thesis
  proof cases
    case ends
    have "yy_accept ! q \<noteq> 0" "yy_accept ! q \<noteq> 43" using match_in_block [OF h(2) r(2,3) ends(2) w] by blast+
    then obtain g' where "yy_jumps mem (At_Find_Action t q (t + k)) h = Some (Inr (At_Action t (yy_accept ! q), g'))"
        "frame p h g'" "held g' p b t k w"
      using find_token [OF h(2), of q k mem] ends(3) h(3) by auto
    then show ?thesis
      using w ends(1,2) frame_trans [OF h(1)] by (auto simp: token_outcome_def go_on_def same_line_def)
  next
    case more
    have "token_outcome p h b s0 w (yy_jumps mem (At_Match t u (Suc i)) h)"
      using goes_on [OF h(2) more(2,3) h(3,4)] .
    then have "token_outcome p g b s0 w (yy_jumps mem (At_Match t u (Suc i)) h)"
      by (rule token_outcome_trans [OF _ h(1)]) (simp_all add: same_line_def w)
    then show ?thesis by (simp add: go_on_def more(1))
  qed
qed

lemma token_refill:
  assumes "scanning g p b t w" "reached g b t (g_n_chars g) s0 s l" "refills p g b t w (yy_get_next_buffer mem g)"
    and goes_on: "\<And>h b' t' c. scanning h p b' t' w \<Longrightarrow> reached h b' t' c s0 s l \<Longrightarrow> last_rel t' l (yy_last h)
      \<Longrightarrow> 2 * length (stream_left (g_files h) b') + (g_n_chars h - c) < 2 * length (stream_left (g_files g) b)
      \<Longrightarrow> token_outcome p h b' s0 w (yy_jumps mem (At_Match t' s c) h)"
  shows "token_outcome p g b s0 w (go_on mem (chain (yy_get_next_buffer mem g) (yy_refilled (int (g_n_chars g - t)))))"
proof (cases "yy_get_next_buffer mem g")
  case (Inl e)
  then show ?thesis using assms(3) by (simp add: go_on_def refills_def token_outcome_def)
next
  case (Inr ag)
  obtain act g' where ag: "ag = (act, g')" by fastforce
  then have rf: "refills p g b t w (Inr (act, g'))" using assms(3) Inr by simp
  show ?thesis
  proof (cases act)
    case EOB_ACT_END_OF_FILE
    then show ?thesis using token_at_end [of p g b t w g' s0] rf Inr ag by (simp add: go_on_def)
  next
    case EOB_ACT_LAST_MATCH
    then show ?thesis using token_last_match [OF assms(1,2), of g'] rf Inr ag by (simp add: go_on_def)
  next
    case EOB_ACT_CONTINUE_SCAN
    obtain h b' c where h: "yy_refilled (int (g_n_chars g - t)) (EOB_ACT_CONTINUE_SCAN, g') = Inr (At_Match (g_text g') s c, h)"
        "scanning h p b' (g_text g') w" "frame p g h" "same_line b b'" "unreadable (g_files h) b' = unreadable (g_files g) b"
        "reached h b' (g_text g') c s0 s l" "last_rel (g_text g') l (yy_last h)"
        "2 * length (stream_left (g_files h) b') + (g_n_chars h - c) < 2 * length (stream_left (g_files g) b)"
      using token_continue [OF assms(1,2)] rf EOB_ACT_CONTINUE_SCAN by blast
    have "token_outcome p h b' s0 w (yy_jumps mem (At_Match (g_text g') s c) h)"
      using goes_on [OF h(2,6,7,8)] .
    then have "token_outcome p g b s0 w (yy_jumps mem (At_Match (g_text g') s c) h)"
      using token_outcome_trans [OF _ h(3,4)] h(5) by blast
    then show ?thesis using h(1) Inr ag EOB_ACT_CONTINUE_SCAN by (simp add: go_on_def)
  qed
qed

text \<open>The run meets an end-of-buffer character at the position \<open>i\<close>.\<close>

lemma run_to_eob:
  assumes "scanning g p b t w" "reached g b t cp s0 s l" "drop cp (b_ch_buf b) = xs @ NUL # z # zs" "cp + length xs \<le> g_n_chars g"
    "yy_reach s xs (cp - t) l = Some (s', l')" "yy_run (xs @ NUL # z # zs) cp s (yy_last g) = Inr (9, Suc (cp + length xs))"
  shows "t \<le> cp + length xs" "b_ch_buf b ! (cp + length xs) = NUL" "reached g b t (cp + length xs) s0 s' l'"
    "yy_jumps mem (At_Match t s cp) g
      = go_on mem (yy_find_action mem t 9 (Suc (cp + length xs)) (set_yy_last (9, Suc (cp + length xs)) g))"
proof -
  note d = scanningD [OF assms(1)]
  have r: "t \<le> cp" "cp \<le> g_n_chars g" using assms(2) by (simp_all add: reached_def)
  then show "t \<le> cp + length xs" by simp
  show "b_ch_buf b ! (cp + length xs) = NUL"
    using arg_cong [OF assms(3), of "\<lambda>ys. ys ! length xs"] d(2,4) r(2) by (simp add: nth_append)
  have len: "cp \<le> length (b_ch_buf b)" "length (take (cp - t) (drop t (b_ch_buf b))) = cp - t" using d(2,4) r by simp_all
  then show "reached g b t (cp + length xs) s0 s' l'"
    using assms(2,4) r(1) yy_reach_append [of s0 "take (cp - t) (drop t (b_ch_buf b))" 0 None s l xs] assms(5)
      take_drop_split [OF assms(3) r(1) len(1)] by (auto simp: reached_def)
  show "yy_jumps mem (At_Match t s cp) g
      = go_on mem (yy_find_action mem t 9 (Suc (cp + length xs)) (set_yy_last (9, Suc (cp + length xs)) g))"
    using d(1) assms(3,6) by (subst yy_jumps.simps) (simp add: yy_jump_def yy_jumps_find go_on_def del: yy_run.simps)
qed

lemma token_jumps:
  assumes "scanning g p b t w" "reached g b t cp s0 s l" "last_rel t l (yy_last g)"
  shows "token_outcome p g b s0 w (yy_jumps mem (At_Match t s cp) g)"
  using assms
proof (induction "2 * length (stream_left (g_files g) b) + (g_n_chars g - cp)" arbitrary: g b t cp s l rule: less_induct)
  case less
  note sc = less.prems(1) and re = less.prems(2)
  have r: "t + (cp - t) = cp" "cp \<le> g_n_chars g" using re by (simp_all add: reached_def)
  obtain xs z zs where x: "drop cp (b_ch_buf b) = xs @ NUL # z # zs" "NUL \<notin> set xs" "cp + length xs \<le> g_n_chars g"
    using first_NUL [OF scanningD(5) [OF sc] r(2)] by blast
  consider (jam) l' L where "xs \<noteq> []" "\<And>ys. yy_match s (xs @ ys) (cp - t) l = Some l'"
      "yy_run (xs @ NUL # z # zs) cp s (yy_last g) = Inr L" "last_rel t l' L"
    | (eob) s' l' where "yy_reach s xs (cp - t) l = Some (s', l')"
      "yy_run (xs @ NUL # z # zs) cp s (yy_last g) = Inr (9, Suc (cp + length xs))"
    using yy_run_cases [OF conjunct2 [OF reached_good [OF re]] x(2) less.prems(3), of "cp - t" z zs] unfolding r(1) by blast
  then show ?case
  proof cases
    case jam
    then show ?thesis using token_jam [OF sc re x(3,1)] by blast
  next
    case eob
    define i where "i = cp + length xs"
    note e = run_to_eob [OF sc re x(1,3) eob, folded i_def]
    have i: "i \<le> g_n_chars g" "cp \<le> i" using x(3) by (simp_all add: i_def)
    obtain g1 b1 where g1: "yy_find_action mem t 9 (Suc i) (set_yy_last (9, Suc i) g) =
          (if i < g_n_chars g then yy_found_NUL i g1 else chain (yy_get_next_buffer mem g1) (yy_refilled (int (i - t))))"
        "scanning g1 p b1 t w" "b_buffer_status b1 \<noteq> YY_BUFFER_NEW" "same_line b b1" "b_ch_buf b1 = b_ch_buf b"
        "frame p (set_yy_last (9, Suc i) g) g1" "g_n_chars g1 = g_n_chars g" "g_text g1 = t" "g_c_buf_p g1 = Suc i"
        "g_hold_char g1 = b_ch_buf b ! Suc i"
        "stream_left (g_files g1) b1 = stream_left (g_files g) b" "unreadable (g_files g1) b1 = unreadable (g_files g) b"
      using eob_step [OF _ e(1) _ e(2), of "set_yy_last (9, Suc i) g" p w mem] sc i(1) by (auto simp: buf_simps)
    have fr: "frame p g g1" using g1(6) by (rule frame_trans [rotated]) (simp add: buf_simps)
    have re1: "reached g1 b1 t i s0 s' l'"
      using e(3) reached_cong [of g1 g b1 b] g1(4,5,7) frame_start [OF fr] by (simp add: same_line_def)
    have "token_outcome p g1 b1 s0 w (go_on mem (yy_find_action mem t 9 (Suc i) (set_yy_last (9, Suc i) g)))"
    proof (cases "i < g_n_chars g")
      case True
      have "token_outcome p g1 b1 s0 w (go_on mem (yy_found_NUL i g1))"
        using True e(2) i(2) g1(5,7,11) by (intro token_NUL [OF g1(2,8) re1] less.hyps) simp_all
      then show ?thesis using g1(1) True by simp
    next
      case False
      then have n: "i = g_n_chars g1" using i(1) g1(7) by simp
      have hold: "g_hold_char g1 = NUL" "g_c_buf_p g1 = g_n_chars g1 + 1"
        using g1(7,9,10) scanningD(5) [OF sc] n by (simp_all add: eob_marked_def)
      have "refills p g1 b1 t w (yy_get_next_buffer mem g1)"
        using yy_get_next_stream [OF g1(2) _ g1(8) hold(2) g1(3)] yy_get_next_string [OF g1(2) _ g1(8) hold(2,1)] by blast
      moreover have "reached g1 b1 t (g_n_chars g1) s0 s' l'" using re1 n by simp
      ultimately have "token_outcome p g1 b1 s0 w (go_on mem (chain (yy_get_next_buffer mem g1) (yy_refilled (int (g_n_chars g1 - t)))))"
        using g1(11) by (intro token_refill [OF g1(2)] less.hyps) simp_all
      then show ?thesis using g1(1) False n by simp
    qed
    then show ?thesis using token_outcome_trans [OF _ fr g1(4)] g1(12) by (simp add: e(4))
  qed
qed

end
