(* ===== verification/Scanner_Actions.thy ===== *)
theory Scanner_Actions
  imports Scanner_Tokens
begin

text \<open>
  The actions of the rules do not depend on how buffers are represented: the operations of the
  scan context commute with an exchange of its buffers, and an action other than the include
  directive sees and changes the rest of the state only.
\<close>

section \<open>The scan context\<close>

named_theorems ctx_simps \<open>exchanging the buffers of a scan context\<close>

lemma with_buffers_fields [ctx_simps]:
  "sc_buffers (with_buffers bs ctx) = bs" "sc_depth (with_buffers bs ctx) = sc_depth ctx"
  "sc_string (with_buffers bs ctx) = sc_string ctx" "sc_filenames (with_buffers bs ctx) = sc_filenames ctx"
  "sc_top_filename (with_buffers bs ctx) = sc_top_filename ctx" "sc_files (with_buffers bs ctx) = sc_files ctx"
  "sc_streams (with_buffers bs ctx) = sc_streams ctx" "sc_room (with_buffers bs ctx) = sc_room ctx"
  "sc_log (with_buffers bs ctx) = sc_log ctx"
  by (simp_all add: with_buffers_def)

lemma with_buffers_twice [ctx_simps]: "with_buffers bs (with_buffers cs ctx) = with_buffers bs ctx"
  by (simp add: with_buffers_def)

lemma with_buffers_same [ctx_simps]: "with_buffers (sc_buffers ctx) ctx = (ctx :: 'b scan_context)"
  by (simp add: with_buffers_def)

lemma with_buffers_update [ctx_simps]:
  "with_buffers bs (ctx\<lparr>sc_string := s\<rparr>) = (with_buffers bs ctx)\<lparr>sc_string := s\<rparr>"
  "with_buffers bs (ctx\<lparr>sc_filenames := ns, sc_room := r\<rparr>) = (with_buffers bs ctx)\<lparr>sc_filenames := ns, sc_room := r\<rparr>"
  by (simp_all add: with_buffers_def)

lemma append_with_buffers:
  "scanctx_append_string (with_buffers bs ctx) text =
     (case scanctx_append_string ctx text of Ptr c \<Rightarrow> Ptr (with_buffers bs c) | Null \<Rightarrow> Null | Undefined \<Rightarrow> Undefined)"
  by (simp add: scanctx_append_string_def ctx_simps split: c_result.split)

lemma append_buffers: "scanctx_append_string ctx text = Ptr c \<Longrightarrow> sc_buffers c = sc_buffers ctx \<and> sc_depth c = sc_depth ctx"
  by (auto simp: scanctx_append_string_def split: c_result.splits)

lemma take_with_buffers:
  "scanctx_take_string (with_buffers bs ctx) = (fst (scanctx_take_string ctx), with_buffers bs (snd (scanctx_take_string ctx)))"
  by (simp add: scanctx_take_string_def ctx_simps split_beta)

lemma take_buffers: "sc_buffers (snd (scanctx_take_string ctx)) = sc_buffers ctx" "sc_depth (snd (scanctx_take_string ctx)) = sc_depth ctx"
  by (simp_all add: scanctx_take_string_def split_beta)

lemma add_filename_with_buffers:
  "scanctx_add_filename (with_buffers bs ctx) f =
     (case scanctx_add_filename ctx f of Ptr (n, c) \<Rightarrow> Ptr (n, with_buffers bs c) | Null \<Rightarrow> Null | Undefined \<Rightarrow> Undefined)"
  by (simp add: scanctx_add_filename_def ctx_simps Let_def SCAN_CHUNK_SIZE_def)

lemma add_filename_depth: "scanctx_add_filename ctx f = Ptr (n, c) \<Longrightarrow> sc_depth c = sc_depth ctx \<and> sc_buffers c = sc_buffers ctx"
  by (auto simp: scanctx_add_filename_def Let_def split: if_splits)

lemma current_filename_with_buffers: "scanctx_current_filename (with_buffers bs ctx) = scanctx_current_filename ctx"
  by (simp add: scanctx_current_filename_def ctx_simps)

lemma push_with_buffers:
  "scanctx_push_include fs dir (with_buffers bs ctx) y =
     (case scanctx_push_include fs dir ctx x of
        Pushed node c \<Rightarrow> Pushed node (with_buffers (bs[sc_depth ctx := Some y]) c)
      | Push_Error e c \<Rightarrow> Push_Error e (with_buffers bs c)
      | Push_Undefined \<Rightarrow> Push_Undefined)"
proof -
  obtain s c1 where t: "scanctx_take_string ctx = (s, c1)" by fastforce
  have d: "sc_depth c1 = sc_depth ctx" "sc_buffers c1 = sc_buffers ctx" using take_buffers [of ctx] t by simp_all
  show ?thesis
  proof (cases "scanctx_add_filename c1 s")
    case (Ptr nc)
    obtain n c2 where "nc = (n, c2)" by fastforce
    then have "scanctx_add_filename c1 s = Ptr (n, c2)" "sc_depth c2 = sc_depth ctx" "sc_buffers c2 = sc_buffers ctx"
      using Ptr add_filename_depth [of c1 s n c2] d by simp_all
    then show ?thesis
      by (simp add: scanctx_push_include_def take_with_buffers t add_filename_with_buffers Let_def ctx_simps split: option.split)
  qed (simp_all add: scanctx_push_include_def take_with_buffers t add_filename_with_buffers Let_def ctx_simps split: option.split)
qed

lemma push_error_buffers: "scanctx_push_include fs dir ctx y = Push_Error e c \<Longrightarrow> sc_buffers c = sc_buffers ctx \<and> sc_depth c = sc_depth ctx"
  by (auto simp: scanctx_push_include_def scanctx_take_string_def Let_def
      split: if_splits option.splits c_result.splits prod.splits)

lemma pop_with_buffers:
  "scanctx_pop_include (with_buffers bs ctx) =
     (if sc_depth ctx = 0 then None else bs ! (sc_depth ctx - 1), with_buffers bs (snd (scanctx_pop_include ctx)))"
  by (simp add: scanctx_pop_include_def ctx_simps Let_def)

section \<open>Actions\<close>

text \<open>The state without its buffers, and a step on it.\<close>

definition strip :: "yyguts \<Rightarrow> yyguts" where
  "strip yyg = yyg\<lparr>yy_buffer := no_buffer, yy_extra := with_buffers [] (yy_extra yyg)\<rparr>"

definition same_buffers :: "yyguts \<Rightarrow> yyguts \<Rightarrow> bool" where
  "same_buffers yyg yyg' \<longleftrightarrow> yy_buffer yyg' = yy_buffer yyg \<and> sc_buffers (yy_extra yyg') = sc_buffers (yy_extra yyg)
     \<and> sc_depth (yy_extra yyg') = sc_depth (yy_extra yyg)"

definition strips :: "yyguts \<Rightarrow> lex_step \<Rightarrow> lex_step \<Rightarrow> bool" where
  "strips yyg st st' \<longleftrightarrow>
     (case st of
        Lex_Goes_On c g \<Rightarrow> st' = Lex_Goes_On c (strip g) \<and> same_buffers yyg g
      | Lex_Returns r c g \<Rightarrow> st' = Lex_Returns r c (strip g) \<and> same_buffers yyg g)"

lemma same_buffers_refl [simp]: "same_buffers yyg yyg"
  by (simp add: same_buffers_def)

lemma strips_state:
  "strips yyg (Lex_Goes_On c yyg) (Lex_Goes_On c (strip yyg))"
  "strips yyg (Lex_Goes_On c (BEGIN n yyg)) (Lex_Goes_On c (BEGIN n (strip yyg)))"
  "strips yyg (Lex_Goes_On c (yyg\<lparr>yy_out := o1\<rparr>)) (Lex_Goes_On c ((strip yyg)\<lparr>yy_out := o1\<rparr>))"
  "strips yyg (Lex_Returns r c yyg) (Lex_Returns r c (strip yyg))"
  "strips yyg (yy_token t v c yyg) (yy_token t v c (strip yyg))"
  by (simp_all add: strips_def strip_def BEGIN_def yy_token_def same_buffers_def)

lemma strips_append: "strips yyg (yy_append text c yyg) (yy_append text c (strip yyg))"
  by (auto simp: strips_def yy_append_def strip_def append_with_buffers same_buffers_def dest: append_buffers split: c_result.splits)

lemma strips_take: "strips yyg (yy_take_string c yyg) (yy_take_string c (strip yyg))"
  by (simp add: strips_def yy_take_string_def strip_def take_with_buffers same_buffers_def take_buffers BEGIN_def split_beta)

lemma strips_float: "strips yyg (yy_float text c yyg) (yy_float text c (strip yyg))"
  by (simp add: yy_float_def strips_state split: option.split)

lemma strip_out [simp]: "yy_out (strip yyg) = yy_out yyg"
  by (simp add: strip_def)

lemma yy_action_strips:
  assumes "act \<noteq> 20"
  shows "strips yyg (yy_action fs act text c yyg) (yy_action fs act text c (strip yyg))"
proof (cases "1 \<le> act \<and> act \<le> 20")
  case True
  then have a: "act = 1 \<or> act = 2 \<or> act = 3 \<or> act = 4 \<or> act = 5 \<or> act = 6 \<or> act = 7 \<or> act = 8 \<or> act = 9 \<or> act = 10
      \<or> act = 11 \<or> act = 12 \<or> act = 13 \<or> act = 14 \<or> act = 15 \<or> act = 16 \<or> act = 17 \<or> act = 18 \<or> act = 19"
    using assms by presburger
  have "strips yyg (yy_text_action fs act text c yyg) (yy_text_action fs act text c (strip yyg))"
    using a by (elim disjE) (simp_all add: yy_text_action_def strips_state strips_append strips_take)
  then show ?thesis using True by (simp add: yy_action_def)
next
  case False
  then show ?thesis
    by (simp only: yy_action_def if_False) (simp add: strips_state strips_float)
qed

end
