(* ===== verification/Scanner_Refinement.thy ===== *)
theory Scanner_Refinement
  imports Scanner_Actions
begin

text \<open>
  The scanner over blocks implements the scanner over sequences. The relation between their
  states says of the current buffer and of every interrupted one what it has left to give, that
  no two share a stream, and that they are exactly the buffers that are allocated.
\<close>

section \<open>Consuming a token\<close>

text \<open>Between two tokens, the byte at the position of the scanner is kept aside.\<close>

definition idle :: "struct_yyguts_t \<Rightarrow> nat \<Rightarrow> struct_yy_buffer_state \<Rightarrow> string \<Rightarrow> bool" where
  "idle g p b w \<longleftrightarrow>
     current_buffer g = Inr (p, b) \<and> g_in g = b_input_file b \<and> g_c_buf_p g < length (b_ch_buf b)
     \<and> block_ok (g_files g) (b\<lparr>b_ch_buf := (b_ch_buf b)[g_c_buf_p g := g_hold_char g]\<rparr>) (g_n_chars g) (g_c_buf_p g) w"

lemma block_ok_length: "block_ok streams b n t w \<Longrightarrow> length (b_ch_buf b) = b_buf_size b + 2 \<and> t \<le> n \<and> n \<le> b_buf_size b"
  by (simp add: block_ok_def)

lemma block_ok_text: "block_ok streams b n t w \<Longrightarrow> t + k \<le> n \<Longrightarrow> take k (drop t (b_ch_buf b)) = take k w"
proof -
  assume b: "block_ok streams b n t w" "t + k \<le> n"
  then have w: "w = take (n - t) (drop t (b_ch_buf b)) @ stream_left streams b" by (simp add: block_ok_def drop_take)
  have "k \<le> length (take (n - t) (drop t (b_ch_buf b)))" using block_ok_length [OF b(1)] b(2) by (simp, linarith)
  then have "take k w = take k (take (n - t) (drop t (b_ch_buf b)))" by (simp only: w take_append) simp
  also have "\<dots> = take k (drop t (b_ch_buf b))" using b(2) by (simp add: min_def)
  finally show ?thesis by simp
qed

lemma block_ok_drop: "block_ok streams b n t w \<Longrightarrow> t + k \<le> n \<Longrightarrow> block_ok streams b n (t + k) (drop k w)"
proof -
  assume b: "block_ok streams b n t w" "t + k \<le> n"
  then have "w = drop t (take n (b_ch_buf b)) @ stream_left streams b" "k \<le> length (drop t (take n (b_ch_buf b)))"
    using block_ok_length [OF b(1)] by (simp_all add: block_ok_def)
  then have "drop k w = drop (t + k) (take n (b_ch_buf b)) @ stream_left streams b" by (simp add: add.commute)
  moreover have "length (drop k w) \<le> length w" by simp
  ultimately show ?thesis using b unfolding block_ok_def by (meson le_less_trans)
qed

lemma block_commute:
  "b\<lparr>b_ch_buf := c, b_bs_lineno := x1\<rparr> = b\<lparr>b_bs_lineno := x1, b_ch_buf := c\<rparr>"
  "b\<lparr>b_ch_buf := c, b_at_bol := x2\<rparr> = b\<lparr>b_at_bol := x2, b_ch_buf := c\<rparr>"
  by simp_all

lemma block_ok_bol [simp]:
  "block_ok streams (b\<lparr>b_at_bol := x1\<rparr>) n t w = block_ok streams b n t w"
  "block_ok streams (b\<lparr>b_bs_lineno := x2\<rparr>) n t w = block_ok streams b n t w"
  by (simp_all add: block_ok_def stream_left_def unreadable_def)

lemma held_yytext: "held g p b t k w \<Longrightarrow> yytext g = Inr (take k w)"
proof -
  assume h: "held g p b t k w"
  then have "t + k \<le> g_n_chars g" "block_ok (g_files g) b (g_n_chars g) t w" by (simp_all add: held_def)
  moreover from this have "t + k \<le> length (b_ch_buf b)" using block_ok_length by fastforce
  ultimately show ?thesis using h block_ok_text [of "g_files g" b "g_n_chars g" t w k] by (simp add: held_def yytext_def drop_update_swap)
qed

lemma held_idle: "held g p b t k w \<Longrightarrow> idle g p (b\<lparr>b_ch_buf := (b_ch_buf b)[t + k := NUL]\<rparr>) (drop k w)"
proof -
  assume h: "held g p b t k w"
  then have "t + k \<le> g_n_chars g" "block_ok (g_files g) b (g_n_chars g) t w" by (simp_all add: held_def)
  then have "t + k < length (b_ch_buf b)" "block_ok (g_files g) b (g_n_chars g) (t + k) (drop k w)"
    using block_ok_length block_ok_drop by fastforce+
  then show ?thesis using h by (simp add: held_def idle_def)
qed

lemma held_store:
  assumes "held g p b t k w" "b_input_file b' = b_input_file b" "b_ch_buf b' = b_ch_buf b"
    "block_ok (g_files g) b' (g_n_chars g) t w"
  shows "held (store_buffer p (b'\<lparr>b_ch_buf := (b_ch_buf b)[t + k := NUL]\<rparr>) g) p b' t k w"
  using assms by (simp add: held_def buf_simps)

text \<open>The counting of lines, the character that the comment rule gives back, the beginning of a line.\<close>

lemma count_lines_ok:
  assumes "held g p b t k w"
  shows "\<exists>g'. yy_count_lines act g = Inr g' \<and> frame p g g' \<and> held g' p (b\<lparr>b_bs_lineno := b_bs_lineno b +
    int (if yy_rule_can_match_eol ! act \<noteq> 0 then length (filter (\<lambda>c. c = CHR 0x0A) (take k w)) else 0)\<rparr>) t k w"
proof (cases "yy_rule_can_match_eol ! act = 0")
  case False
  let ?b = "b\<lparr>b_bs_lineno := b_bs_lineno b + int (length (filter (\<lambda>c. c = CHR 0x0A) (take k w)))\<rparr>"
  have "held (store_buffer p (?b\<lparr>b_ch_buf := (b_ch_buf b)[t + k := NUL]\<rparr>) g) p ?b t k w"
    using assms by (intro held_store) (simp_all add: held_def)
  moreover have "current_buffer g = Inr (p, b\<lparr>b_ch_buf := (b_ch_buf b)[t + k := NUL]\<rparr>)" using assms by (simp add: held_def)
  ultimately show ?thesis using False held_yytext [OF assms] by (auto simp: yy_count_lines_def buf_simps block_commute)
qed (use assms in \<open>auto simp: yy_count_lines_def\<close>)

lemma trailing_ok:
  assumes "held g p b t k w" "act = 40 \<Longrightarrow> 1 \<le> k"
  shows "\<exists>g'. yy_trailing t act g = Inr g' \<and> frame p g g' \<and> held g' p b t (if act = 40 then k - 1 else k) w"
proof (cases "act = 40")
  case True
  have h: "current_buffer g = Inr (p, b\<lparr>b_ch_buf := (b_ch_buf b)[t + k := NUL]\<rparr>)" "g_c_buf_p g = t + k"
      "g_hold_char g = b_ch_buf b ! (t + k)" "t + k \<le> g_n_chars g" "block_ok (g_files g) b (g_n_chars g) t w"
      "g_in g = b_input_file b" "k \<le> length w"
    using assms(1) by (simp_all add: held_def)
  have len: "t + k < length (b_ch_buf b)" using h(4) block_ok_length [OF h(5)] by simp
  then have len1: "t + k - 1 < length (b_ch_buf b)" by simp
  have k: "t + k - 1 = t + (k - 1)" using assms(2) True by simp
  have "restore_hold_char (t + k) g = Inr (store_buffer p b g)"
    using restore_hold_char_ok [OF h(1), of "t + k"] len by (simp add: h(3))
  moreover have "current_buffer (store_buffer p b g) = Inr (p, b)" using h(1) by (simp add: buf_simps)
  note d = YY_DO_BEFORE_ACTION_ok [OF this len1, of t]
  let ?g = "store_buffer p (b\<lparr>b_ch_buf := (b_ch_buf b)[t + k - 1 := NUL]\<rparr>)
    ((store_buffer p b g)\<lparr>g_text := t, g_leng := t + k - 1 - t, g_hold_char := b_ch_buf b ! (t + k - 1), g_c_buf_p := t + k - 1\<rparr>)"
  have "t + k - 1 \<le> g_n_chars g" "k - 1 \<le> length w" using h(4,7) by linarith+
  then have "held ?g p b t (k - 1) w"
    using h k assms(2) True unfolding held_def k by (simp add: buf_simps)
  moreover have "frame p g ?g" by (simp add: buf_simps)
  ultimately show ?thesis using True d h(2) by (simp add: yy_trailing_def)
qed (use assms in \<open>auto simp: yy_trailing_def\<close>)

lemma rule_setup_ok:
  assumes "held g p b t k w"
  shows "\<exists>g'. YY_RULE_SETUP g = Inr g' \<and> frame p g g'
    \<and> held g' p (b\<lparr>b_at_bol := (if 0 < k then last (take k w) = CHR 0x0A else b_at_bol b)\<rparr>) t k w"
proof -
  have c: "current_buffer g = Inr (p, b\<lparr>b_ch_buf := (b_ch_buf b)[t + k := NUL]\<rparr>)" "k \<le> length w"
    using assms by (simp_all add: held_def)
  show ?thesis
  proof (cases "0 < k")
    case True
    let ?b = "b\<lparr>b_at_bol := (last (take k w) = CHR 0x0A)\<rparr>"
    have "held (store_buffer p (?b\<lparr>b_ch_buf := (b_ch_buf b)[t + k := NUL]\<rparr>) g) p ?b t k w"
      using assms by (intro held_store) (simp_all add: held_def)
    moreover have "take k w \<noteq> []" using True c(2) by auto
    ultimately show ?thesis using True c(1) held_yytext [OF assms] by (auto simp: YY_RULE_SETUP_def buf_simps block_commute)
  next
    case False
    then show ?thesis using assms c(1) held_yytext [OF assms] by (auto simp: YY_RULE_SETUP_def)
  qed
qed

section \<open>The relation\<close>

text \<open>The buffer of the scanner over sequences that a block stands for; at the end of its input, the
  beginning of a line does not matter.\<close>

definition buffer_of :: "file_node list \<Rightarrow> struct_yy_buffer_state \<Rightarrow> string \<Rightarrow> yy_buffer_state" where
  "buffer_of streams b w =
     \<lparr>yy_input = w, yy_at_bol = b_at_bol b, yy_bs_lineno = b_bs_lineno b, yy_readable = (\<not> unreadable streams b)\<rparr>"

definition similar :: "yy_buffer_state \<Rightarrow> yy_buffer_state \<Rightarrow> bool" where
  "similar B B' \<longleftrightarrow> yy_input B = yy_input B' \<and> yy_bs_lineno B = yy_bs_lineno B' \<and> yy_readable B = yy_readable B'
     \<and> (yy_input B \<noteq> [] \<longrightarrow> yy_at_bol B = yy_at_bol B')"

definition file_of :: "struct_yy_buffer_state option list \<Rightarrow> nat \<Rightarrow> nat option" where
  "file_of heap q = (if q < length heap then (case heap ! q of None \<Rightarrow> None | Some b \<Rightarrow> b_input_file b) else None)"

definition allocated :: "struct_yy_buffer_state option list \<Rightarrow> nat set" where
  "allocated heap = {q. q < length heap \<and> heap ! q \<noteq> None}"

text \<open>No two buffers read the same stream.\<close>

definition apart :: "struct_yyguts_t \<Rightarrow> nat list \<Rightarrow> bool" where
  "apart g ps \<longleftrightarrow> (\<forall>x \<in> set ps. \<forall>f. file_of (g_heap g) x = Some f \<longrightarrow>
     f < length (g_files g) \<and> (\<forall>y \<in> set ps. y \<noteq> x \<longrightarrow> file_of (g_heap g) y \<noteq> Some f))"

text \<open>A buffer that was left for an include file.\<close>

definition saved_rel :: "struct_yyguts_t \<Rightarrow> nat \<Rightarrow> yy_buffer_state \<Rightarrow> bool" where
  "saved_rel g q B \<longleftrightarrow> (\<exists>b w. buffer_at g q = Inr b \<and> block_ok (g_files g) b (b_n_chars b) (b_buf_pos b) w
     \<and> similar (buffer_of (g_files g) b w) B)"

definition stacked :: "struct_yyguts_t \<Rightarrow> yyguts \<Rightarrow> nat list \<Rightarrow> bool" where
  "stacked g a qs \<longleftrightarrow> length qs = sc_depth (yy_extra a)
     \<and> (\<forall>i < length qs. sc_buffers (g_extra g) ! i = Some (qs ! i)
          \<and> (\<exists>B. sc_buffers (yy_extra a) ! i = Some B \<and> saved_rel g (qs ! i) B))"

text \<open>Everything but the content of the current buffer.\<close>

definition around :: "struct_yyguts_t \<Rightarrow> yyguts \<Rightarrow> nat \<Rightarrow> nat list \<Rightarrow> bool" where
  "around g a p qs \<longleftrightarrow> g_init g \<and> g_buffer_stack_top g = 0 \<and> g_buffer_stack g \<noteq> [] \<and> g_start g = yy_start a \<and> g_out g = yy_out a
     \<and> with_buffers (sc_buffers (g_extra g)) (yy_extra a) = g_extra g \<and> length (sc_buffers (g_extra g)) = MAX_INCLUDE_DEPTH
     \<and> stacked g a qs \<and> distinct (p # qs) \<and> allocated (g_heap g) = set (p # qs) \<and> apart g (p # qs)"

definition guts_rel :: "struct_yyguts_t \<Rightarrow> yyguts \<Rightarrow> bool" where
  "guts_rel g a \<longleftrightarrow> (\<exists>p qs b w. around g a p qs \<and> idle g p b w \<and> similar (buffer_of (g_files g) b w) (yy_buffer a))"

lemma streams_same:
  assumes "\<And>f. b_input_file b = Some f \<Longrightarrow> streams' ! f = streams ! f"
  shows "stream_left streams' b = stream_left streams b" "unreadable streams' b = unreadable streams b"
    "buffer_of streams' b w = buffer_of streams b w"
  using assms by (cases "b_input_file b"; simp add: stream_left_def unreadable_def buffer_of_def)+

lemma block_ok_streams:
  assumes "block_ok streams b n t w" "\<And>f. b_input_file b = Some f \<Longrightarrow> f < length streams' \<and> streams' ! f = streams ! f"
  shows "block_ok streams' b n t w"
proof -
  have same: "stream_left streams' b = stream_left streams b" "unreadable streams' b = unreadable streams b"
    using streams_same [of b streams' streams] assms(2) by blast+
  have files: "b_input_file b = Some f \<Longrightarrow> f < length streams' \<and> streams' ! f = streams ! f" for f using assms(2) .
  have e: "\<exists>f. b_input_file b = Some f \<and> f < length streams \<Longrightarrow> \<exists>f. b_input_file b = Some f \<and> f < length streams'"
      "\<forall>f. b_input_file b = Some f \<longrightarrow> node_text (streams ! f) = [] \<Longrightarrow> \<forall>f. b_input_file b = Some f \<longrightarrow> node_text (streams' ! f) = []"
    using files by auto
  show ?thesis using assms(1) e unfolding block_ok_def same by blast
qed

lemma file_of_buffer: "buffer_at g q = Inr b \<Longrightarrow> file_of (g_heap g) q = b_input_file b"
  by (simp add: buffer_at_iff file_of_def)

text \<open>Reading a token keeps what is around.\<close>

lemma saved_rel_cong:
  assumes "saved_rel g q B" "buffer_at g' q = buffer_at g q" "length (g_files g) \<le> length (g_files g')"
    "\<And>f. file_of (g_heap g) q = Some f \<Longrightarrow> f < length (g_files g) \<and> g_files g' ! f = g_files g ! f"
  shows "saved_rel g' q B"
proof -
  obtain b w where b: "buffer_at g q = Inr b" "block_ok (g_files g) b (b_n_chars b) (b_buf_pos b) w" "similar (buffer_of (g_files g) b w) B"
    using assms(1) by (auto simp: saved_rel_def)
  have f: "f < length (g_files g) \<and> g_files g' ! f = g_files g ! f" if "b_input_file b = Some f" for f
    using assms(4) that file_of_buffer [OF b(1)] by simp
  have "block_ok (g_files g') b (b_n_chars b) (b_buf_pos b) w"
    using b(2) order_less_le_trans [OF _ assms(3)] f by (blast intro: block_ok_streams [where streams = "g_files g"])
  moreover have "buffer_of (g_files g') b w = buffer_of (g_files g) b w" using f by (intro streams_same(3)) blast
  ultimately show ?thesis using b assms(2) unfolding saved_rel_def by metis
qed

lemma around_frame:
  assumes "around g a p qs" "current_buffer g = Inr (p, b)" "g_in g = b_input_file b" "frame p g g'"
    "current_buffer g' = Inr (p, b')" "g_in g' = b_input_file b'"
  shows "around g' a p qs"
proof -
  have fr: "g_extra g' = g_extra g" "g_in g' = g_in g" "g_out g' = g_out g" "g_init g' = g_init g" "g_start g' = g_start g"
      "g_buffer_stack g' = g_buffer_stack g" "g_buffer_stack_top g' = g_buffer_stack_top g"
      "length (g_heap g') = length (g_heap g)" "\<And>q. q \<noteq> p \<Longrightarrow> g_heap g' ! q = g_heap g ! q"
      "length (g_files g') = length (g_files g)" "\<And>k. Some k \<noteq> g_in g \<Longrightarrow> g_files g' ! k = g_files g ! k"
    using assms(4) by (simp_all add: frame_def)
  have c: "p < length (g_heap g)" "g_heap g ! p = Some b" "g_heap g' ! p = Some b'"
    using assms(2,5) by (simp_all add: current_buffer_iff)
  have al: "allocated (g_heap g') = allocated (g_heap g)"
  proof -
    have "(g_heap g' ! q \<noteq> None) = (g_heap g ! q \<noteq> None)" for q using c(2,3) fr(9) by (cases "q = p") simp_all
    then show ?thesis by (simp add: allocated_def fr(8))
  qed
  have fo: "file_of (g_heap g') q = file_of (g_heap g) q" for q
    using c fr(2,8,9) assms(3,6) by (cases "q = p") (simp_all add: file_of_def)
  have ap: "apart g (p # qs)" "distinct (p # qs)" "stacked g a qs" using assms(1) by (simp_all add: around_def)
  have sv: "saved_rel g' q B" if "q \<in> set qs" "saved_rel g q B" for q B
  proof (rule saved_rel_cong [OF that(2)])
    have "q \<noteq> p" using that(1) ap(2) by auto
    then show "buffer_at g' q = buffer_at g q" using fr(8,9) by (simp add: buffer_at_def)
    fix f assume f: "file_of (g_heap g) q = Some f"
    moreover have "file_of (g_heap g) p = g_in g" using c(1,2) assms(3) by (simp add: file_of_def)
    ultimately have "Some f \<noteq> g_in g" "f < length (g_files g)"
      using ap(1) that(1) \<open>q \<noteq> p\<close> unfolding apart_def by (metis list.set_intros)+
    then show "f < length (g_files g) \<and> g_files g' ! f = g_files g ! f" using fr(11) by simp
  qed (simp add: fr(10))
  have "stacked g' a qs" using ap(3) sv fr(1) by (auto simp: stacked_def)
  moreover have "apart g' (p # qs)" using ap(1) unfolding apart_def fo fr(10) .
  ultimately show ?thesis using assms(1) unfolding around_def al fr(1,3-7) by blast
qed

section \<open>From one token to its action\<close>

lemma around_state: "around g a p qs \<Longrightarrow> yy_start a' = yy_start a \<Longrightarrow> yy_out a' = yy_out a \<Longrightarrow> yy_extra a' = yy_extra a \<Longrightarrow> around g a' p qs"
  by (simp add: around_def stacked_def)

lemma around_start: "around g a p qs \<Longrightarrow> g_start g = yy_start a"
  by (simp add: around_def)

lemma token_start_ok:
  assumes "idle g p b w"
  shows "\<exists>g' b'. yy_token_start g = Inr (At_Match (g_c_buf_p g) (yy_first_state g b) (g_c_buf_p g), g')
    \<and> scanning g' p b' (g_c_buf_p g) w \<and> frame p g g' \<and> same_line b b' \<and> g_files g' = g_files g \<and> g_n_chars g' = g_n_chars g
    \<and> unreadable (g_files g) b' = unreadable (g_files g) b"
proof -
  let ?b = "b\<lparr>b_ch_buf := (b_ch_buf b)[g_c_buf_p g := g_hold_char g]\<rparr>"
  have c: "current_buffer g = Inr (p, b)" "g_c_buf_p g < length (b_ch_buf b)" "g_in g = b_input_file b"
      "block_ok (g_files g) ?b (g_n_chars g) (g_c_buf_p g) w" using assms by (simp_all add: idle_def)
  have "scanning (store_buffer p ?b g) p ?b (g_c_buf_p g) w" using c(3,4) by (intro scanning_storeI [OF c(1)]) simp_all
  moreover have "yy_token_start g = Inr (At_Match (g_c_buf_p g) (yy_first_state g b) (g_c_buf_p g), store_buffer p ?b g)"
    using restore_hold_char_ok [OF c(1,2)] current_buffer_store [OF c(1), of ?b]
    by (simp add: yy_token_start_def yy_first_state_def buf_simps)
  ultimately show ?thesis
    by (intro exI [of _ "store_buffer p ?b g"] exI [of _ ?b]) (simp add: buf_simps same_line_def)
qed

text \<open>The jumps from the start of a token, as the loop of the scanner makes them.\<close>

lemma round_outcome:
  assumes "guts_rel g a" "yy_ok a"
  shows "\<exists>p qs b w g0 s0 R. around g a p qs \<and> current_buffer g0 = Inr (p, b) \<and> g_in g0 = b_input_file b \<and> around g0 a p qs
    \<and> similar (buffer_of (g_files g0) b w) (yy_buffer a) \<and> s0 = yy_first_state g0 b \<and> g_start g0 = yy_start a
    \<and> (w \<noteq> [] \<longrightarrow> \<not> unreadable (g_files g0) b) \<and> token_outcome p g0 b s0 w R
    \<and> libconfig_yy_round mem fs config g = map_option (\<lambda>r. chain r (yy_do_action mem fs config)) R"
proof -
  obtain p qs b w where r: "around g a p qs" "idle g p b w" "similar (buffer_of (g_files g) b w) (yy_buffer a)"
    using assms(1) by (auto simp: guts_rel_def)
  let ?c = "g_c_buf_p g"
  obtain g' b' where g': "yy_token_start g = Inr (At_Match ?c (yy_first_state g b) ?c, g')" "scanning g' p b' ?c w" "frame p g g'"
      "same_line b b'" "g_files g' = g_files g" "g_n_chars g' = g_n_chars g" "unreadable (g_files g) b' = unreadable (g_files g) b"
    using token_start_ok [OF r(2)] by blast
  have c: "current_buffer g = Inr (p, b)" "g_in g = b_input_file b" using r(2) by (simp_all add: idle_def)
  have c': "current_buffer g' = Inr (p, b')" "g_in g' = b_input_file b'" using g'(2) by (simp_all add: scanning_def)
  have ar: "around g' a p qs" by (rule around_frame [OF r(1) c g'(3) c'])
  have st: "yy_first_state g' b' = yy_first_state g b" using same_first_state [OF g'(3)] g'(4) by (simp add: same_line_def)
  have "1 \<le> yy_first_state g b" "yy_first_state g b \<le> 8"
    using assms(2) around_start [OF r(1)] by (auto simp: yy_first_state_def yy_ok_def)
  then have "reached g' b' ?c ?c (yy_first_state g b) (yy_first_state g b) None"
    using scanningD(3) [OF g'(2)] st by (simp add: reached_def)
  from token_jumps [OF g'(2) this last_rel_None]
  have "token_outcome p g' b' (yy_first_state g b) w (yy_jumps mem (At_Match ?c (yy_first_state g b) ?c) g')" .
  moreover have "similar (buffer_of (g_files g') b' w) (yy_buffer a)"
    using r(3) g'(4,5,7) by (simp add: buffer_of_def similar_def same_line_def)
  ultimately show ?thesis
    using r(1) c' ar st around_start [OF ar] g'(1) scanning_readable [OF g'(2)]
    by (intro exI [of _ p] exI [of _ qs] exI [of _ b'] exI [of _ w] exI [of _ g'] exI [of _ "yy_first_state g b"]
        exI [of _ "yy_jumps mem (At_Match ?c (yy_first_state g b) ?c) g'"])
      (simp add: libconfig_yy_round_def)
qed

text \<open>Before the action: what the C code has set up is what the model over sequences consumes.\<close>

lemma setup_consume:
  assumes "around g a p qs" "held g p b t k w" "similar (buffer_of (g_files g) b w) (yy_buffer a)" "w \<noteq> []" "1 \<le> k"
    "yy_consume act k a = (text, a1)"
  shows "\<exists>g' b'. chain (yy_count_lines act g) (\<lambda>g1. chain (yy_trailing t act g1) YY_RULE_SETUP) = Inr g'
    \<and> yytext g' = Inr text \<and> around g' a1 p qs \<and> idle g' p b' (yy_input (yy_buffer a1))
    \<and> similar (buffer_of (g_files g') b' (yy_input (yy_buffer a1))) (yy_buffer a1)"
proof -
  let ?k = "if act = 40 then k - 1 else k"
  have w: "yy_input (yy_buffer a) = w" "b_bs_lineno b = yy_bs_lineno (yy_buffer a)" "b_at_bol b = yy_at_bol (yy_buffer a)"
      "unreadable (g_files g) b = (\<not> yy_readable (yy_buffer a))"
    using assms(3,4) by (auto simp: similar_def buffer_of_def)
  let ?n = "int (if yy_rule_can_match_eol ! act \<noteq> 0 then length (filter (\<lambda>c. c = CHR 0x0A) (take k w)) else 0)"
  let ?b1 = "b\<lparr>b_bs_lineno := b_bs_lineno b + ?n\<rparr>"
  obtain g1 where g1: "yy_count_lines act g = Inr g1" "frame p g g1" "held g1 p ?b1 t k w"
    using count_lines_ok [OF assms(2)] by blast
  obtain g2 where g2: "yy_trailing t act g1 = Inr g2" "frame p g1 g2" "held g2 p ?b1 t ?k w"
    using trailing_ok [OF g1(3)] assms(5) by blast
  let ?b3 = "?b1\<lparr>b_at_bol := (if 0 < ?k then last (take ?k w) = CHR 0x0A else b_at_bol ?b1)\<rparr>"
  obtain g3 where g3: "YY_RULE_SETUP g2 = Inr g3" "frame p g2 g3" "held g3 p ?b3 t ?k w"
    using rule_setup_ok [OF g2(3)] by blast
  have fr: "frame p g g3" using frame_trans [OF g1(2)] frame_trans [OF g2(2) g3(2)] by blast
  have a1: "text = take ?k w" "yy_input (yy_buffer a1) = drop ?k w" "yy_start a1 = yy_start a" "yy_out a1 = yy_out a"
      "yy_extra a1 = yy_extra a" "yy_bs_lineno (yy_buffer a1) = yy_bs_lineno (yy_buffer a) + ?n"
      "yy_readable (yy_buffer a1) = yy_readable (yy_buffer a)"
      "yy_at_bol (yy_buffer a1) = (if 0 < ?k then last (take ?k w) = CHR 0x0A else yy_at_bol (yy_buffer a))"
    using assms(6) w(1) by (auto simp: yy_consume_def Let_def)
  have i3: "idle g3 p (?b3\<lparr>b_ch_buf := (b_ch_buf ?b3)[t + ?k := NUL]\<rparr>) (drop ?k w)" by (rule held_idle [OF g3(3)])
  have c: "current_buffer g = Inr (p, b\<lparr>b_ch_buf := (b_ch_buf b)[t + k := NUL]\<rparr>)" "g_in g = b_input_file b"
    using assms(2) by (simp_all add: held_def)
  have c3: "current_buffer g3 = Inr (p, ?b3\<lparr>b_ch_buf := (b_ch_buf ?b3)[t + ?k := NUL]\<rparr>)" "g_in g3 = b_input_file ?b3"
    using g3(3) by (simp_all add: held_def)
  have ar: "around g3 a p qs" using around_frame [OF assms(1) c(1) _ fr c3(1)] c(2) c3(2) by simp
  have "\<not> unreadable (g_files g3) ?b3" using g3(3) assms(4)
    by (auto simp: held_def block_ok_def stream_left_def unreadable_def node_text_def)
  moreover have "\<not> unreadable (g_files g) b" using assms(2,4)
    by (auto simp: held_def block_ok_def stream_left_def unreadable_def node_text_def)
  ultimately have "similar (buffer_of (g_files g3) (?b3\<lparr>b_ch_buf := (b_ch_buf ?b3)[t + ?k := NUL]\<rparr>) (yy_input (yy_buffer a1))) (yy_buffer a1)"
    using a1(2,6-8) w by (simp add: similar_def buffer_of_def buf_simps)
  moreover have "yytext g3 = Inr text" using held_yytext [OF g3(3)] a1(1) by simp
  moreover have "around g3 a1 p qs" using ar a1(3-5) by (rule around_state)
  ultimately show ?thesis using g1(1) g2(1) g3(1) i3 a1(2) by auto
qed

section \<open>Actions\<close>

text \<open>A round of the scanner over sequences, and one of the scanner over blocks.\<close>

definition step_rel :: "lex_step \<Rightarrow> lex_result + blocks_step \<Rightarrow> bool" where
  "step_rel st r \<longleftrightarrow>
     (case st of
        Lex_Goes_On c a \<Rightarrow> (\<exists>g. r = Inr (Goes_On c g) \<and> guts_rel g a)
      | Lex_Returns res c a \<Rightarrow> (\<exists>g. r = Inr (Returns res c g) \<and> guts_rel g a))"

lemma guts_relI:
  "around g a p qs \<Longrightarrow> idle g p b w \<Longrightarrow> similar (buffer_of (g_files g) b w) (yy_buffer a) \<Longrightarrow> guts_rel g a"
  by (auto simp: guts_rel_def)

lemma action_view_strip: "around g a p qs \<Longrightarrow> action_view g = strip a"
proof -
  assume r: "around g a p qs"
  then have "with_buffers (sc_buffers (g_extra g)) (yy_extra a) = g_extra g" by (simp add: around_def)
  then have "with_buffers [] (g_extra g) = (with_buffers [] (yy_extra a) :: yy_buffer_state scan_context)"
    using with_buffers_twice [of "[]" "sc_buffers (g_extra g)" "yy_extra a"] by simp
  then show ?thesis using r by (simp add: action_view_def strip_def around_def)
qed

lemma action_done_rel:
  assumes "around g a p qs" "idle g p b w" "similar (buffer_of (g_files g) b w) (yy_buffer a)" "same_buffers a a'"
  shows "guts_rel (action_done (strip a') g) a'"
proof -
  let ?g = "action_done (strip a') g"
  have f: "g_init ?g = g_init g" "g_buffer_stack_top ?g = g_buffer_stack_top g" "g_buffer_stack ?g = g_buffer_stack g"
      "g_heap ?g = g_heap g" "g_files ?g = g_files g" "g_start ?g = yy_start a'" "g_out ?g = yy_out a'"
      "g_extra ?g = with_buffers (sc_buffers (g_extra g)) (yy_extra a')" "sc_buffers (g_extra ?g) = sc_buffers (g_extra g)"
    by (simp_all add: action_done_def strip_def ctx_simps)
  have "saved_rel ?g = saved_rel g" by (simp add: fun_eq_iff saved_rel_def buffer_at_def f)
  with assms(1,4) have "stacked ?g a' qs" by (simp add: around_def stacked_def f(9) same_buffers_def)
  moreover have "apart ?g (p # qs)" using assms(1) unfolding around_def apart_def f by blast
  ultimately have "around ?g a' p qs"
    using assms(1) unfolding around_def f(1-4) f(6) f(7) f(9) f(8) with_buffers_fields(1) by blast
  moreover have "idle ?g p b w" using assms(2) by (simp add: idle_def action_done_def current_buffer_update)
  moreover have "similar (buffer_of (g_files ?g) b w) (yy_buffer a')" using assms(3,4) by (simp add: same_buffers_def f)
  ultimately show ?thesis by (rule guts_relI)
qed

lemma plain_action_ok:
  assumes "around g a p qs" "idle g p b w" "similar (buffer_of (g_files g) b w) (yy_buffer a)" "yytext g = Inr text" "act \<noteq> 20"
  shows "step_rel (yy_action fs act text config a) (libconfig_yy_action mem fs act config g)"
proof -
  note st = yy_action_strips [OF assms(5), of a fs "text" config]
  note performed = action_done_rel [OF assms(1-3)]
  show ?thesis
  proof (cases "yy_action fs act text config a")
    case (Lex_Goes_On c a')
    then have "yy_action fs act text config (strip a) = Lex_Goes_On c (strip a')" "same_buffers a a'"
      using st by (simp_all add: strips_def)
    then show ?thesis
      using Lex_Goes_On assms(4,5) action_view_strip [OF assms(1)] performed
      by (simp add: step_rel_def libconfig_yy_action_def)
  next
    case (Lex_Returns r c a')
    then have "yy_action fs act text config (strip a) = Lex_Returns r c (strip a')" "same_buffers a a'"
      using st by (simp_all add: strips_def)
    then show ?thesis
      using Lex_Returns assms(4,5) action_view_strip [OF assms(1)] performed
      by (simp add: step_rel_def libconfig_yy_action_def)
  qed
qed

section \<open>Switching buffers\<close>

definition fresh_buffer :: "fresh_memory \<Rightarrow> nat option \<Rightarrow> nat \<Rightarrow> struct_yy_buffer_state" where
  "fresh_buffer mem stream n =
     \<lparr>b_input_file = stream, b_ch_buf = (malloc_block mem (n + 2))[0 := NUL, 1 := NUL], b_buf_pos = 0, b_buf_size = n,
      b_n_chars = 0, b_is_our_buffer = True, b_at_bol = True, b_bs_lineno = 1, b_fill_buffer = True,
      b_buffer_status = YY_BUFFER_NEW\<rparr>"

lemma create_buffer_ok:
  assumes "YY_CURRENT_BUFFER g \<noteq> Some (length (g_heap g))"
  shows "libconfig_yy_create_buffer mem stream n g =
    Inr (length (g_heap g), g\<lparr>g_heap := g_heap g @ [Some (fresh_buffer mem stream n)]\<rparr>)"
proof -
  have "YY_CURRENT_BUFFER (g\<lparr>g_heap := h\<rparr>) = YY_CURRENT_BUFFER g" for h by (simp add: YY_CURRENT_BUFFER_def)
  then show ?thesis
    using assms
    by (simp add: libconfig_yy_create_buffer_def libconfig_yy_init_buffer_def libconfig_yy_flush_buffer_def buffer_at_def
        store_buffer_def poke_def new_buffer_def malloc_block_def YY_END_OF_BUFFER_CHAR_def fresh_buffer_def Let_def
        nth_append list_update_append)
qed

lemma load_ok:
  assumes "current_buffer g = Inr (p, b)" "b_buf_pos b < length (b_ch_buf b)"
  shows "libconfig_yy_load_buffer_state g = Inr (g\<lparr>g_n_chars := b_n_chars b, g_text := b_buf_pos b, g_c_buf_p := b_buf_pos b,
    g_in := b_input_file b, g_hold_char := b_ch_buf b ! b_buf_pos b\<rparr>)"
  using assms by (simp add: libconfig_yy_load_buffer_state_def peek_def)

lemma ensure_stack_ok:
  assumes "g_buffer_stack_top g = 0" "g_buffer_stack g \<noteq> []"
  obtains st where "libconfig_yyensure_buffer_stack g = g\<lparr>g_buffer_stack := st\<rparr>" "st \<noteq> []" "st ! 0 = g_buffer_stack g ! 0"
proof (cases "length (g_buffer_stack g) - 1 \<le> g_buffer_stack_top g")
  case True
  then show ?thesis using that [of "g_buffer_stack g @ replicate 8 None"] assms
    by (simp add: libconfig_yyensure_buffer_stack_def nth_append)
next
  case False
  then show ?thesis using that [of "g_buffer_stack g"] assms by (simp add: libconfig_yyensure_buffer_stack_def)
qed

text \<open>The state after another buffer is loaded.\<close>

definition loaded :: "struct_yyguts_t \<Rightarrow> nat option list \<Rightarrow> struct_yy_buffer_state option list \<Rightarrow> struct_yy_buffer_state \<Rightarrow> struct_yyguts_t" where
  "loaded g st heap b = g\<lparr>g_buffer_stack := st, g_heap := heap, g_n_chars := b_n_chars b, g_text := b_buf_pos b,
     g_c_buf_p := b_buf_pos b, g_in := b_input_file b, g_hold_char := b_ch_buf b ! b_buf_pos b\<rparr>"

definition saved_buffer :: "struct_yyguts_t \<Rightarrow> struct_yy_buffer_state \<Rightarrow> struct_yy_buffer_state" where
  "saved_buffer g b = b\<lparr>b_ch_buf := (b_ch_buf b)[g_c_buf_p g := g_hold_char g], b_buf_pos := g_c_buf_p g, b_n_chars := g_n_chars g\<rparr>"

lemma switch_from:
  assumes "current_buffer g = Inr (p, b)" "g_c_buf_p g < length (b_ch_buf b)" "g_buffer_stack_top g = 0" "g_buffer_stack g \<noteq> []"
    "q \<noteq> p" "buffer_at g q = Inr bq"
    "b_buf_pos bq < length (b_ch_buf bq)"
  shows "\<exists>st. st \<noteq> [] \<and> st ! 0 = Some q
    \<and> libconfig_yy_switch_to_buffer q g = Inr (loaded g st ((g_heap g)[p := Some (saved_buffer g b)]) bq)"
proof -
  obtain st where st: "libconfig_yyensure_buffer_stack g = g\<lparr>g_buffer_stack := st\<rparr>" "st \<noteq> []" "st ! 0 = g_buffer_stack g ! 0"
    using assms(3,4) by (rule ensure_stack_ok)
  have c: "YY_CURRENT_BUFFER g = Some p" "p < length (g_heap g)" "g_heap g ! p = Some b" "g_c_buf_p g < length (b_ch_buf b)"
    using assms(1,2) by (simp_all add: current_buffer_iff)
  then have p: "st ! 0 = Some p" using st(3) assms(3,4) by (simp add: YY_CURRENT_BUFFER_def)
  let ?g = "g\<lparr>g_buffer_stack := st\<rparr>"
  have y: "YY_CURRENT_BUFFER ?g = Some p" using p st(2) assms(3) by (simp add: YY_CURRENT_BUFFER_def)
  have "save_buffer_state ?g = Inr (store_buffer p (saved_buffer g b) ?g)"
    using y c by (simp add: save_buffer_state_def buffer_at_def poke_def saved_buffer_def)
  moreover have "set_current_buffer (Some q) (store_buffer p (saved_buffer g b) ?g)
      = g\<lparr>g_buffer_stack := st[0 := Some q], g_heap := (g_heap g)[p := Some (saved_buffer g b)]\<rparr>"
    using assms(3) by (simp add: set_current_buffer_def store_buffer_def)
  moreover have "current_buffer (g\<lparr>g_buffer_stack := st[0 := Some q], g_heap := (g_heap g)[p := Some (saved_buffer g b)]\<rparr>) = Inr (q, bq)"
    using assms(3,5,6) st(2) by (simp add: current_buffer_iff YY_CURRENT_BUFFER_def buffer_at_iff)
  note l = load_ok [OF this assms(7)]
  ultimately have "libconfig_yy_switch_to_buffer q g = Inr (loaded g (st[0 := Some q]) ((g_heap g)[p := Some (saved_buffer g b)]) bq)"
    using st(1) y assms(5) by (simp add: libconfig_yy_switch_to_buffer_def Let_def loaded_def)
  then show ?thesis using st(2) by (intro exI [of _ "st[0 := Some q]"]) simp
qed

lemma switch_from_none:
  assumes "YY_CURRENT_BUFFER g = None" "g_buffer_stack_top g = 0" "g_buffer_stack g \<noteq> []" "buffer_at g q = Inr bq"
    "b_buf_pos bq < length (b_ch_buf bq)"
  shows "\<exists>st. st \<noteq> [] \<and> st ! 0 = Some q \<and> libconfig_yy_switch_to_buffer q g = Inr (loaded g st (g_heap g) bq)"
proof -
  obtain st where st: "libconfig_yyensure_buffer_stack g = g\<lparr>g_buffer_stack := st\<rparr>" "st \<noteq> []" "st ! 0 = g_buffer_stack g ! 0"
    using assms(2,3) by (rule ensure_stack_ok)
  let ?g = "g\<lparr>g_buffer_stack := st\<rparr>"
  have y: "YY_CURRENT_BUFFER ?g = None" using st assms(1-3) by (simp add: YY_CURRENT_BUFFER_def)
  have "set_current_buffer (Some q) ?g = g\<lparr>g_buffer_stack := st[0 := Some q]\<rparr>"
    using assms(2) by (simp add: set_current_buffer_def)
  moreover have "current_buffer (g\<lparr>g_buffer_stack := st[0 := Some q]\<rparr>) = Inr (q, bq)"
    using assms(2,4) st(2) by (simp add: current_buffer_iff YY_CURRENT_BUFFER_def buffer_at_iff)
  note l = load_ok [OF this assms(5)]
  ultimately have "libconfig_yy_switch_to_buffer q g = Inr (loaded g (st[0 := Some q]) (g_heap g) bq)"
    using st(1) y by (simp add: libconfig_yy_switch_to_buffer_def Let_def loaded_def save_buffer_state_def)
  then show ?thesis using st(2) by (intro exI [of _ "st[0 := Some q]"]) simp
qed

end
